(* ===== verification/Prober_Prelude.thy ===== *)
theory Prober_Prelude
  imports Complex_Main "HOL-Library.Word" "HOL-Library.Sublist"
begin

text \<open>
  Shared vocabulary of the development: the types that stand for Go's own (durations and
  instants in nanoseconds, fixed-width integers, results that may fail or panic), the
  string functions of Go's \<^verbatim>\<open>strings\<close> package the sources call, and the interfaces that
  several components implement: a table whose entries are removed only by their owner,
  a bounded mailbox whose senders never block, and a transition system with an invariant.
\<close>

section \<open>Go's types\<close>

text \<open>
  \<^verbatim>\<open>time.Time\<close> and \<^verbatim>\<open>time.Duration\<close> are integers of nanoseconds; an instant is measured
  from an arbitrary origin on the monotonic clock. Where the width of \<^verbatim>\<open>int64\<close> matters, a
  lemma shows that the value stays below \<open>2 ^ 63\<close>.
\<close>

type_synonym duration = int
type_synonym instant = int
type_synonym u8 = "8 word"
type_synonym u16 = "16 word"
type_synonym u32 = "32 word"
type_synonym u64 = "64 word"

abbreviation (input) Microsecond :: duration where "Microsecond \<equiv> 1000"
abbreviation (input) Millisecond :: duration where "Millisecond \<equiv> 1000000"
abbreviation (input) Second :: duration where "Second \<equiv> 1000000000"
abbreviation (input) Minute :: duration where "Minute \<equiv> 60000000000"
abbreviation (input) Hour :: duration where "Hour \<equiv> 3600000000000"

text \<open>Go's integer division truncates towards zero.\<close>

definition go_div :: "int \<Rightarrow> int \<Rightarrow> int" where
  "go_div num den = sgn num * sgn den * (\<bar>num\<bar> div \<bar>den\<bar>)"

lemma go_div_pos [simp]: "0 \<le> a \<Longrightarrow> 0 < b \<Longrightarrow> go_div a b = a div b"
  by (cases "a = 0") (auto simp: go_div_def sgn_if)

lemma go_div_nonneg: "0 \<le> a \<Longrightarrow> 0 \<le> b \<Longrightarrow> 0 \<le> go_div a b"
  by (auto simp: go_div_def sgn_if pos_imp_zdiv_nonneg_iff)

lemma div_less_of_less_mult:
  fixes a q n :: int
  assumes "a < q * n" and "0 < n"
  shows "a div n < q"
proof (rule ccontr)
  assume "\<not> a div n < q"
  then have "q * n \<le> a div n * n" using assms(2) by simp
  also have "\<dots> \<le> a" using div_mult_mod_eq [of a n] pos_mod_sign [OF assms(2), of a] by linarith
  finally show False using assms(1) by simp
qed

section \<open>Results\<close>

text \<open>
  A computation of the program returns, fails with an error value, panics (an index out of
  range, a nil dereference, a send on a closed channel), or is cut off by the bound on a
  loop whose termination is a theorem of its own.
\<close>

datatype ('e, 'a) outcome = Ok 'a | Fail 'e | Panic | Diverge

primrec obind :: "('e, 'a) outcome \<Rightarrow> ('a \<Rightarrow> ('e, 'b) outcome) \<Rightarrow> ('e, 'b) outcome" where
  "obind (Ok x) f = f x"
| "obind (Fail e) f = Fail e"
| "obind Panic f = Panic"
| "obind Diverge f = Diverge"

text \<open>
  Neither a panic nor an endless loop: a computation that returns a value satisfying one
  predicate or fails with an error satisfying another.
\<close>

primrec safe :: "('e, 'a) outcome \<Rightarrow> ('a \<Rightarrow> bool) \<Rightarrow> ('e \<Rightarrow> bool) \<Rightarrow> bool" where
  "safe (Ok x) P Q = P x"
| "safe (Fail e) P Q = Q e"
| "safe Panic P Q = False"
| "safe Diverge P Q = False"

lemma obind_Ok_iff [simp]: "obind r f = Ok y \<longleftrightarrow> (\<exists>x. r = Ok x \<and> f x = Ok y)"
  by (cases r) auto

lemma safe_obind: "safe r P E \<Longrightarrow> (\<And>x. P x \<Longrightarrow> safe (f x) Q E) \<Longrightarrow> safe (obind r f) Q E"
  by (cases r) auto

lemma safe_mono: "safe r P E \<Longrightarrow> (\<And>x. P x \<Longrightarrow> Q x) \<Longrightarrow> (\<And>e. E e \<Longrightarrow> F e) \<Longrightarrow> safe r Q F"
  by (cases r) auto

lemma safe_conjI: "safe r P E \<Longrightarrow> safe r Q F \<Longrightarrow> safe r (\<lambda>x. P x \<and> Q x) (\<lambda>e. E e \<and> F e)"
  by (cases r) auto

text \<open>Go's slice indexing panics out of range; so does a read through a nil map entry.\<close>

definition index :: "'a list \<Rightarrow> nat \<Rightarrow> ('e, 'a) outcome" where
  "index xs i = (if i < length xs then Ok (xs ! i) else Panic)"

definition deref :: "'a option \<Rightarrow> ('e, 'a) outcome" where
  "deref p = (case p of None \<Rightarrow> Panic | Some x \<Rightarrow> Ok x)"

lemma index_Ok [simp]: "i < length xs \<Longrightarrow> index xs i = Ok (xs ! i)"
  by (simp add: index_def)

lemma deref_Some [simp]: "deref (Some x) = Ok x"
  by (simp add: deref_def)

text \<open>A Go call that returns a value and an error: \<open>Inl\<close> carries the error.\<close>

primrec rbind :: "'err + 'x \<Rightarrow> ('x \<Rightarrow> 'err + 'y) \<Rightarrow> 'err + 'y" where
  "rbind (Inl e) f = Inl e"
| "rbind (Inr x) f = f x"

lemma rbind_Inr_iff [simp]: "rbind r f = Inr y \<longleftrightarrow> (\<exists>x. r = Inr x \<and> f x = Inr y)"
  by (cases r) auto

lemma rbind_assoc: "rbind (rbind r f) g = rbind r (\<lambda>x. rbind (f x) g)"
  by (cases r) auto

lemma those_eq_Some: "those xs = Some ys \<longleftrightarrow> xs = map Some ys"
  by (induction xs arbitrary: ys) (auto split: option.split simp: Cons_eq_map_conv)

lemma those_None: "those xs = None \<longleftrightarrow> None \<in> set xs"
  by (induction xs) (auto split: option.split)

section \<open>Counting\<close>

definition count_if :: "('a \<Rightarrow> bool) \<Rightarrow> 'a list \<Rightarrow> int" where
  "count_if P xs = int (length (filter P xs))"

lemma count_if_Nil [simp]: "count_if P [] = 0"
  by (simp add: count_if_def)

lemma count_if_Cons [simp]: "count_if P (x # xs) = (if P x then 1 else 0) + count_if P xs"
  by (simp add: count_if_def)

lemma count_if_append [simp]: "count_if P (xs @ ys) = count_if P xs + count_if P ys"
  by (simp add: count_if_def)

lemma count_if_nonneg [simp]: "0 \<le> count_if P xs"
  by (simp add: count_if_def)

lemma count_if_cong: "(\<And>x. x \<in> set xs \<Longrightarrow> P x = Q x) \<Longrightarrow> count_if P xs = count_if Q xs"
  by (simp add: count_if_def cong: filter_cong)

lemma count_if_zero_iff: "count_if P xs = 0 \<longleftrightarrow> (\<forall>x \<in> set xs. \<not> P x)"
  by (simp add: count_if_def filter_empty_conv)

text \<open>One element of a list without repetition stops satisfying the predicate.\<close>

lemma count_if_drop_one:
  assumes "distinct xs" and "x \<in> set xs"
    and "\<And>y. y \<in> set xs \<Longrightarrow> y \<noteq> x \<Longrightarrow> Q y = P y" and "\<not> Q x"
  shows "count_if Q xs = count_if P xs - (if P x then 1 else 0)"
  using assms
proof (induction xs)
  case Nil
  then show ?case by simp
next
  case (Cons y ys)
  show ?case
  proof (cases "y = x")
    case True
    then have "count_if Q ys = count_if P ys"
      using Cons.prems by (intro count_if_cong) auto
    with True Cons.prems show ?thesis by simp
  next
    case False
    with Cons.prems have "count_if Q ys = count_if P ys - (if P x then 1 else 0)"
      by (intro Cons.IH) auto
    with False Cons.prems(3)[of y] show ?thesis by simp
  qed
qed

section \<open>Strings\<close>

definition has_prefix :: "string \<Rightarrow> string \<Rightarrow> bool" where
  "has_prefix s p = (take (length p) s = p)"

definition trim_prefix :: "string \<Rightarrow> string \<Rightarrow> string" where
  "trim_prefix s p = (if has_prefix s p then drop (length p) s else s)"

lemma has_prefix_append [simp]: "has_prefix (p @ s) p"
  by (simp add: has_prefix_def)

lemma trim_prefix_append [simp]: "trim_prefix (p @ s) p = s"
  by (simp add: trim_prefix_def)

lemma has_prefix_iff: "has_prefix s p \<longleftrightarrow> (\<exists>r. s = p @ r)"
  by (metis append_take_drop_id has_prefix_append has_prefix_def)

text \<open>The part after the last occurrence of a character.\<close>

definition after_last :: "char \<Rightarrow> string \<Rightarrow> string" where
  "after_last c s = rev (takeWhile (\<lambda>x. x \<noteq> c) (rev s))"

lemma after_last_append: "c \<notin> set t \<Longrightarrow> after_last c (s @ [c] @ t) = t"
proof -
  assume "c \<notin> set t"
  then have "\<forall>x \<in> set (rev t). x \<noteq> c"
    by auto
  then have "takeWhile (\<lambda>x. x \<noteq> c) (rev t @ [c] @ rev s) = rev t"
    by (subst takeWhile_append2) simp_all
  then show ?thesis by (simp add: after_last_def)
qed

section \<open>Interfaces\<close>

subsection \<open>A table whose entries are removed only by their owner\<close>

text \<open>
  An entry is registered under a key by \<open>add\<close>, replacing what was there; \<open>remove\<close> takes
  the value the caller registered and does nothing when another has replaced it since.
\<close>

locale owned_slots =
  fixes lookup :: "'t \<Rightarrow> 'k \<Rightarrow> 'v option"
    and add :: "'k \<Rightarrow> 'v \<Rightarrow> 't \<Rightarrow> 't"
    and remove :: "'k \<Rightarrow> 'v \<Rightarrow> 't \<Rightarrow> 't"
  assumes lookup_add: "lookup (add k v t) = (lookup t)(k \<mapsto> v)"
    and lookup_remove: "lookup (remove k v t) =
      (if lookup t k = Some v then (lookup t)(k := None) else lookup t)"
begin

lemma remove_stale: "lookup t k \<noteq> Some v \<Longrightarrow> lookup (remove k v t) = lookup t"
  by (simp add: lookup_remove)

lemma remove_replaced:
  "v \<noteq> w \<Longrightarrow> lookup (remove k v (add k w (add k v t))) = (lookup t)(k \<mapsto> w)"
  by (simp add: lookup_add lookup_remove)

lemma remove_added: "lookup (remove k v (add k v t)) = (lookup t)(k := None)"
  by (simp add: lookup_add lookup_remove)

lemma remove_frame: "j \<noteq> k \<Longrightarrow> lookup (remove k v t) j = lookup t j"
  by (simp add: lookup_remove)

lemma remove_dom: "dom (lookup (remove k v t)) \<subseteq> dom (lookup t)"
  by (auto simp: lookup_remove dom_def split: if_splits)

end

subsection \<open>A bounded mailbox\<close>

text \<open>
  A buffered channel a sender uses with \<^verbatim>\<open>select\<close> and a \<^verbatim>\<open>default\<close> branch: the message is
  appended while there is room and dropped otherwise; the sender never blocks.
\<close>

locale mailbox =
  fixes buf :: "'t \<Rightarrow> 'm list"
    and cap :: nat
    and post :: "'m \<Rightarrow> 't \<Rightarrow> 't"
  assumes post_room: "length (buf t) < cap \<Longrightarrow> buf (post m t) = buf t @ [m]"
    and post_full: "cap \<le> length (buf t) \<Longrightarrow> buf (post m t) = buf t"
begin

lemma post_bound: "length (buf t) \<le> cap \<Longrightarrow> length (buf (post m t)) \<le> cap"
  by (cases "length (buf t) < cap") (simp_all add: post_room post_full)

lemma post_prefix: "prefix (buf t) (buf (post m t))"
  by (cases "length (buf t) < cap") (simp_all add: post_room post_full)

lemma posts_bound: "length (buf t) \<le> cap \<Longrightarrow> length (buf (fold post ms t)) \<le> cap"
  by (induction ms arbitrary: t) (auto simp: post_bound)

text \<open>What is in the mailbox after a sequence of posts: the first that fit, in order.\<close>

lemma posts_buf:
  "length (buf t) \<le> cap \<Longrightarrow> buf (fold post ms t) = take cap (buf t @ ms)"
proof (induction ms arbitrary: t)
  case Nil
  then show ?case by simp
next
  case (Cons m ms)
  show ?case
  proof (cases "length (buf t) < cap")
    case True
    then have "cap - length (buf t) = Suc (cap - Suc (length (buf t)))" by simp
    with True Cons show ?thesis by (simp add: post_room)
  next
    case False
    with Cons.prems have "length (buf t) = cap" by simp
    with False Cons.IH[of "post m t"] show ?thesis by (simp add: post_full)
  qed
qed

end

subsection \<open>A transition system with an invariant\<close>

locale invariant_system =
  fixes start :: "'s \<Rightarrow> bool"
    and step :: "'s \<Rightarrow> 's \<Rightarrow> bool"
    and inv :: "'s \<Rightarrow> bool"
  assumes inv_start: "start s \<Longrightarrow> inv s"
    and inv_step: "inv s \<Longrightarrow> step s t \<Longrightarrow> inv t"
begin

lemma inv_steps: "step\<^sup>*\<^sup>* s t \<Longrightarrow> inv s \<Longrightarrow> inv t"
  by (induction rule: rtranclp_induct) (auto intro: inv_step)

lemma inv_reachable: "start s \<Longrightarrow> step\<^sup>*\<^sup>* s t \<Longrightarrow> inv t"
  by (blast intro: inv_start inv_steps)

end

end
