(* ===== verification/Netip.thy ===== *)
theory Netip
  imports Prober_Prelude "HOL-Library.Char_ord" "HOL-Library.List_Lexorder"
begin

text \<open>
  Addresses as Go's \<^verbatim>\<open>net/netip\<close> has them: the zero \<^verbatim>\<open>Addr\<close> is invalid, an IPv4 address is
  32 bits, an IPv6 address is 128 bits and may carry a zone. An IPv4 address mapped into
  IPv6 is an IPv6 address until it is unmapped.
\<close>

datatype addr = NoAddr | V4 "32 word" | V6 "128 word" string

definition IsValid :: "addr \<Rightarrow> bool" where
  "IsValid a = (a \<noteq> NoAddr)"

definition Is4 :: "addr \<Rightarrow> bool" where
  "Is4 a = (case a of V4 _ \<Rightarrow> True | _ \<Rightarrow> False)"

definition Is6 :: "addr \<Rightarrow> bool" where
  "Is6 a = (case a of V6 _ _ \<Rightarrow> True | _ \<Rightarrow> False)"

definition Is4In6 :: "addr \<Rightarrow> bool" where
  "Is4In6 a = (case a of V6 x _ \<Rightarrow> drop_bit 32 x = 0xffff | _ \<Rightarrow> False)"

definition Unmap :: "addr \<Rightarrow> addr" where
  "Unmap a = (case a of
      V6 x z \<Rightarrow> if drop_bit 32 x = 0xffff then V4 (ucast x) else V6 x z
    | _ \<Rightarrow> a)"

definition Zone :: "addr \<Rightarrow> string" where
  "Zone a = (case a of V6 _ z \<Rightarrow> z | _ \<Rightarrow> [])"

definition WithZone :: "addr \<Rightarrow> string \<Rightarrow> addr" where
  "WithZone a z = (case a of V6 x _ \<Rightarrow> V6 x z | _ \<Rightarrow> a)"

lemmas addr_defs = IsValid_def Is4_def Is6_def Is4In6_def Unmap_def Zone_def WithZone_def

lemma Unmap_idem [simp]: "Unmap (Unmap a) = Unmap a"
  by (cases a) (auto simp: Unmap_def)

lemma IsValid_Unmap [simp]: "IsValid (Unmap a) = IsValid a"
  by (cases a) (auto simp: addr_defs)

lemma Unmap_not_mapped [simp]: "\<not> Is4In6 (Unmap a)"
  by (cases a) (auto simp: addr_defs)

lemma Unmap_id: "\<not> Is4In6 a \<Longrightarrow> Unmap a = a"
  by (cases a) (auto simp: addr_defs)

lemma valid_family: "IsValid a \<Longrightarrow> Is4 a = (\<not> Is6 a)"
  by (cases a) (auto simp: addr_defs)

lemma Is4_cases: "Is4 a \<Longrightarrow> (\<And>x. a = V4 x \<Longrightarrow> P) \<Longrightarrow> P"
  by (cases a) (auto simp: Is4_def)

text \<open>\<^verbatim>\<open>Compare\<close> orders by bit length, then by value, then by zone.\<close>

instantiation addr :: linorder
begin

definition less_eq_addr :: "addr \<Rightarrow> addr \<Rightarrow> bool" where
  "less_eq_addr a b = (case a of
      NoAddr \<Rightarrow> True
    | V4 x \<Rightarrow> (case b of NoAddr \<Rightarrow> False | V4 y \<Rightarrow> x \<le> y | V6 _ _ \<Rightarrow> True)
    | V6 x z \<Rightarrow> (case b of V6 y w \<Rightarrow> x < y \<or> x = y \<and> z \<le> w | _ \<Rightarrow> False))"

definition less_addr :: "addr \<Rightarrow> addr \<Rightarrow> bool" where
  "less_addr a b = (a \<le> b \<and> \<not> b \<le> a)"

instance
  by standard (auto simp: less_eq_addr_def less_addr_def split: addr.splits)

end

end
