(* ===== verification/Trace_Stats.thy ===== *)
theory Trace_Stats
  imports Netip
begin

text \<open>
  \<^verbatim>\<open>internal/trace/stats.go\<close> and the \<^verbatim>\<open>Hop\<close> of \<^verbatim>\<open>event.go\<close>: the running statistics of one
  TTL. Counters are Go's \<^verbatim>\<open>int\<close>; the \<^verbatim>\<open>float64\<close> mean and second moment are real numbers,
  so what is shown of them is what the algorithm computes before rounding.
\<close>

section \<open>The state of one TTL\<close>

record HopAddress =
  ha_Addr :: addr
  ha_Name :: string
  ha_Count :: int

record hopStats =
  h_sent :: int
  h_received :: int
  h_inFlight :: int
  h_last :: duration
  h_best :: duration
  h_worst :: duration
  h_mean :: real
  h_m2 :: real
  h_prev :: duration
  h_jitterSum :: duration
  h_jitterN :: int
  h_addrs :: "HopAddress list"

definition new_hopStats :: hopStats where
  "new_hopStats = \<lparr>h_sent = 0, h_received = 0, h_inFlight = 0, h_last = 0, h_best = 0, h_worst = 0,
     h_mean = 0, h_m2 = 0, h_prev = 0, h_jitterSum = 0, h_jitterN = 0, h_addrs = []\<rparr>"

record Hop =
  hp_TTL :: int
  hp_Addresses :: "HopAddress list"
  hp_Sample :: "duration option"
  hp_Sent :: int
  hp_Received :: int
  hp_LossPct :: real
  hp_Last :: duration
  hp_Best :: duration
  hp_Avg :: duration
  hp_Worst :: duration
  hp_Stdev :: duration
  hp_Jitter :: duration

section \<open>Operations\<close>

definition sendProbe :: "hopStats \<Rightarrow> hopStats" where
  "sendProbe h = h\<lparr>h_sent := h_sent h + 1, h_inFlight := h_inFlight h + 1\<rparr>"

definition lost :: "hopStats \<Rightarrow> hopStats" where
  "lost h = h\<lparr>h_inFlight := h_inFlight h - 1\<rparr>"

text \<open>\<^verbatim>\<open>Duration.Seconds\<close>.\<close>

definition seconds :: "duration \<Rightarrow> real" where
  "seconds d = of_int d / 1000000000"

text \<open>The parts of \<^verbatim>\<open>reply\<close>, in the order the source updates them.\<close>

definition reply_extremes :: "duration \<Rightarrow> hopStats \<Rightarrow> hopStats" where
  "reply_extremes rtt h =
    (let h = h\<lparr>h_inFlight := h_inFlight h - 1, h_received := h_received h + 1, h_last := rtt\<rparr>;
         h = (if h_received h = 1 \<or> rtt < h_best h then h\<lparr>h_best := rtt\<rparr> else h)
     in if rtt > h_worst h then h\<lparr>h_worst := rtt\<rparr> else h)"

definition reply_welford :: "duration \<Rightarrow> hopStats \<Rightarrow> hopStats" where
  "reply_welford rtt h =
    (let x = seconds rtt;
         n = real_of_int (h_received h);
         delta = x - h_mean h;
         mean = h_mean h + delta / n
     in h\<lparr>h_mean := mean, h_m2 := h_m2 h + delta * (x - mean)\<rparr>)"

definition reply_jitter :: "duration \<Rightarrow> hopStats \<Rightarrow> hopStats" where
  "reply_jitter rtt h =
    (let h = (if h_received h > 1 then
                let d = rtt - h_prev h;
                    d = (if d < 0 then - d else d)
                in h\<lparr>h_jitterSum := h_jitterSum h + d, h_jitterN := h_jitterN h + 1\<rparr>
              else h)
     in h\<lparr>h_prev := rtt\<rparr>)"

fun bump_addr :: "addr \<Rightarrow> HopAddress list \<Rightarrow> HopAddress list" where
  "bump_addr a [] = [\<lparr>ha_Addr = a, ha_Name = [], ha_Count = 1\<rparr>]"
| "bump_addr a (x # xs) =
    (if ha_Addr x = a then x\<lparr>ha_Count := ha_Count x + 1\<rparr> # xs else x # bump_addr a xs)"

definition reply :: "addr \<Rightarrow> duration \<Rightarrow> hopStats \<Rightarrow> hopStats" where
  "reply a rtt h =
    (let h = reply_jitter rtt (reply_welford rtt (reply_extremes rtt h))
     in h\<lparr>h_addrs := bump_addr a (h_addrs h)\<rparr>)"

text \<open>Conversion of a float to a \<^verbatim>\<open>Duration\<close> truncates towards zero.\<close>

definition trunc :: "real \<Rightarrow> int" where
  "trunc x = (if x < 0 then \<lceil>x\<rceil> else \<lfloor>x\<rfloor>)"

definition avg :: "hopStats \<Rightarrow> duration" where
  "avg h = trunc (h_mean h * 1000000000)"

definition stdev :: "hopStats \<Rightarrow> duration" where
  "stdev h =
    (if h_received h < 2 then 0
     else trunc (sqrt (h_m2 h / real_of_int (h_received h - 1)) * 1000000000))"

definition jitter :: "hopStats \<Rightarrow> duration" where
  "jitter h = (if h_jitterN h = 0 then 0 else go_div (h_jitterSum h) (h_jitterN h))"

definition lossPct :: "hopStats \<Rightarrow> real" where
  "lossPct h =
    (let settled = h_sent h - h_inFlight h
     in if settled \<le> 0 then 0
        else 100 * real_of_int (settled - h_received h) / real_of_int settled)"

definition snapshot :: "int \<Rightarrow> duration option \<Rightarrow> (addr \<Rightarrow> string) option \<Rightarrow> hopStats \<Rightarrow> Hop" where
  "snapshot ttl sample names h =
    (let addrs = (case names of
                    None \<Rightarrow> h_addrs h
                  | Some f \<Rightarrow> map (\<lambda>a. a\<lparr>ha_Name := f (ha_Addr a)\<rparr>) (h_addrs h))
     in \<lparr>hp_TTL = ttl, hp_Addresses = addrs, hp_Sample = sample, hp_Sent = h_sent h,
         hp_Received = h_received h, hp_LossPct = lossPct h, hp_Last = h_last h,
         hp_Best = h_best h, hp_Avg = avg h, hp_Worst = h_worst h, hp_Stdev = stdev h,
         hp_Jitter = jitter h\<rparr>)"

section \<open>Evaluating the standard deviation\<close>


fun isqrt :: "nat \<Rightarrow> nat" where
  "isqrt n = (if n = 0 then 0
    else let r = 2 * isqrt (n div 4) in if (r + 1) * (r + 1) \<le> n then r + 1 else r)"

declare isqrt.simps [simp del]

lemma isqrt_bounds: "isqrt n * isqrt n \<le> n \<and> n < (isqrt n + 1) * (isqrt n + 1)"
proof (induction n rule: isqrt.induct)
  case (1 n)
  show ?case
  proof (cases "n = 0")
    case False
    let ?q = "isqrt (n div 4)"
    from 1 [OF False] have ih: "?q * ?q \<le> n div 4" "n div 4 < (?q + 1) * (?q + 1)" by auto
    then have "4 * (?q * ?q) \<le> n" "n < 4 * ((?q + 1) * (?q + 1))" by linarith+
    with False show ?thesis
      by (subst (1 2 3 4) isqrt.simps) (auto simp: Let_def algebra_simps)
  qed (simp add: isqrt.simps)
qed

lemma floor_sqrt_isqrt:
  assumes "0 \<le> x"
  shows "\<lfloor>sqrt x\<rfloor> = int (isqrt (nat \<lfloor>x\<rfloor>))"
proof (rule floor_unique)
  let ?n = "nat \<lfloor>x\<rfloor>" and ?r = "isqrt (nat \<lfloor>x\<rfloor>)"
  have n: "real ?n \<le> x" "x < real ?n + 1"
    using assms by (simp_all add: of_nat_floor floor_less_iff)
  from isqrt_bounds [of ?n] have "?r * ?r \<le> ?n" "?n + 1 \<le> (?r + 1) * (?r + 1)" by auto
  then have "real (?r * ?r) \<le> real ?n" "real (?n + 1) \<le> real ((?r + 1) * (?r + 1))"
    by (simp_all only: of_nat_le_iff)
  with n have b: "(real ?r)\<^sup>2 \<le> x" "x < (real ?r + 1)\<^sup>2"
    by (simp_all add: power2_eq_square algebra_simps)
  show "real_of_int (int ?r) \<le> sqrt x"
    using b(1) by (simp add: real_le_rsqrt)
  show "sqrt x < real_of_int (int ?r) + 1"
    using b(2) by (intro real_less_lsqrt) simp_all
qed

text \<open>The standard deviation computed with integers.\<close>

lemma stdev_code [code]:
  "stdev h =
    (if h_received h < 2 then 0
     else let v = h_m2 h / real_of_int (h_received h - 1);
              d = int (isqrt (nat \<lfloor>\<bar>v\<bar> * 1000000000000000000\<rfloor>))
          in if v < 0 then - d else d)"
proof -
  have "trunc (sqrt v * 1000000000) = (let d = int (isqrt (nat \<lfloor>\<bar>v\<bar> * 1000000000000000000\<rfloor>)) in if v < 0 then - d else d)" for v :: real
  proof -
    have s: "sqrt (\<bar>v\<bar> * 1000000000000000000) = sqrt \<bar>v\<bar> * 1000000000"
    proof -
      have "sqrt (1000000000000000000 :: real) = 1000000000" by (rule real_sqrt_unique) simp_all
      then show ?thesis by (simp add: real_sqrt_mult)
    qed
    have f: "\<lfloor>sqrt \<bar>v\<bar> * 1000000000\<rfloor> = int (isqrt (nat \<lfloor>\<bar>v\<bar> * 1000000000000000000\<rfloor>))"
      unfolding s [symmetric] by (rule floor_sqrt_isqrt) simp
    show ?thesis
    proof (cases "v < 0")
      case True
      then have "sqrt v = - sqrt \<bar>v\<bar>" by (simp add: real_sqrt_minus)
      moreover have "0 < sqrt \<bar>v\<bar>" using True by simp
      ultimately show ?thesis using True f by (simp add: trunc_def Let_def ceiling_minus)
    next
      case False
      then have "\<not> sqrt v * 1000000000 < 0" by (simp add: not_less)
      with False f show ?thesis by (simp add: trunc_def Let_def)
    qed
  qed
  then show ?thesis by (simp add: stdev_def Let_def)
qed

section \<open>Frames of the operations\<close>

lemma sendProbe_sel [simp]:
  "h_sent (sendProbe h) = h_sent h + 1" "h_inFlight (sendProbe h) = h_inFlight h + 1"
  "h_received (sendProbe h) = h_received h" "h_addrs (sendProbe h) = h_addrs h"
  by (simp_all add: sendProbe_def)

lemma lost_sel [simp]:
  "h_sent (lost h) = h_sent h" "h_inFlight (lost h) = h_inFlight h - 1"
  "h_received (lost h) = h_received h" "h_addrs (lost h) = h_addrs h"
  by (simp_all add: lost_def)

lemmas reply_parts = reply_def reply_extremes_def reply_welford_def reply_jitter_def Let_def

lemma reply_sel [simp]:
  "h_sent (reply a rtt h) = h_sent h" "h_inFlight (reply a rtt h) = h_inFlight h - 1"
  "h_received (reply a rtt h) = h_received h + 1"
  "h_addrs (reply a rtt h) = bump_addr a (h_addrs h)"
  by (simp_all add: reply_parts)

section \<open>Conservation and bounds\<close>

text \<open>
  Probes are conserved: those sent are answered, lost or in flight. The count of the lost
  is what remains, and it is never negative while the invariant below holds.
\<close>

definition hop_ok :: "hopStats \<Rightarrow> bool" where
  "hop_ok h \<longleftrightarrow> 0 \<le> h_received h \<and> 0 \<le> h_inFlight h \<and> h_received h + h_inFlight h \<le> h_sent h \<and>
     distinct (map ha_Addr (h_addrs h)) \<and> (\<forall>x \<in> set (h_addrs h). 1 \<le> ha_Count x) \<and>
     sum_list (map ha_Count (h_addrs h)) = h_received h"

lemma bump_addr_set: "ha_Addr ` set (bump_addr a xs) = insert a (ha_Addr ` set xs)"
  by (induction xs) auto

lemma bump_addr_distinct: "distinct (map ha_Addr xs) \<Longrightarrow> distinct (map ha_Addr (bump_addr a xs))"
  by (induction xs) (auto simp flip: set_map, metis bump_addr_set image_set insertE)

lemma bump_addr_pos: "\<forall>x \<in> set xs. 1 \<le> ha_Count x \<Longrightarrow> \<forall>x \<in> set (bump_addr a xs). 1 \<le> ha_Count x"
  by (induction xs) auto

lemma bump_addr_sum: "sum_list (map ha_Count (bump_addr a xs)) = sum_list (map ha_Count xs) + 1"
  by (induction xs) auto

lemma hop_ok_new [simp]: "hop_ok new_hopStats"
  by (simp add: hop_ok_def new_hopStats_def)

lemma hop_ok_sendProbe: "hop_ok h \<Longrightarrow> hop_ok (sendProbe h)"
  by (simp add: hop_ok_def)

lemma hop_ok_lost: "hop_ok h \<Longrightarrow> 0 < h_inFlight h \<Longrightarrow> hop_ok (lost h)"
  by (simp add: hop_ok_def)

lemma hop_ok_reply: "hop_ok h \<Longrightarrow> 0 < h_inFlight h \<Longrightarrow> hop_ok (reply a rtt h)"
  using bump_addr_pos [of "h_addrs h" a]
  by (simp add: hop_ok_def bump_addr_distinct bump_addr_sum)

lemma lossPct_bounds:
  assumes "hop_ok h"
  shows "0 \<le> lossPct h \<and> lossPct h \<le> 100"
proof -
  let ?d = "h_sent h - h_inFlight h"
  from assms have r: "0 \<le> h_received h" "h_received h \<le> ?d"
    by (auto simp: hop_ok_def)
  then have "0 \<le> ?d" by simp
  with r show ?thesis
    by (auto simp: lossPct_def Let_def divide_le_eq zero_le_divide_iff)
qed

section \<open>The online algorithm against the samples\<close>

text \<open>
  The statistics of a TTL that has answered with the round trips \<open>xs\<close>, in order. The
  reference values are computed from the whole list.
\<close>

definition mean_of :: "real list \<Rightarrow> real" where
  "mean_of xs = sum_list xs / real (length xs)"

definition sq_dev :: "real list \<Rightarrow> real" where
  "sq_dev xs = (\<Sum>x\<leftarrow>xs. (x - mean_of xs)\<^sup>2)"

definition replies :: "(addr \<times> duration) list \<Rightarrow> hopStats \<Rightarrow> hopStats" where
  "replies rs h = fold (\<lambda>(a, rtt). reply a rtt) rs h"

lemma replies_Nil [simp]: "replies [] h = h"
  by (simp add: replies_def)

lemma replies_snoc: "replies (rs @ [(a, x)]) h = reply a x (replies rs h)"
  by (simp add: replies_def)

lemma replies_one [simp]: "replies [(a, x)] h = reply a x h"
  by (simp add: replies_def)

lemma replies_received: "h_received (replies rs h) = h_received h + int (length rs)"
  by (induction rs arbitrary: h) (auto simp: replies_def)

text \<open>Expanding the square: the second moment in terms of the sum of squares.\<close>

lemma sum_sq_diff:
  "(\<Sum>x\<leftarrow>xs. (x - c)\<^sup>2) = (\<Sum>x\<leftarrow>xs. x\<^sup>2) - 2 * c * sum_list xs + real (length xs) * c\<^sup>2"
  by (induction xs) (simp_all add: power2_eq_square algebra_simps)

lemma sq_dev_alt:
  "sq_dev xs = (\<Sum>x\<leftarrow>xs. x\<^sup>2) - real (length xs) * (mean_of xs)\<^sup>2"
proof (cases "xs = []")
  case True
  then show ?thesis by (simp add: sq_dev_def)
next
  case False
  then have "sum_list xs = real (length xs) * mean_of xs"
    by (simp add: mean_of_def)
  then show ?thesis
    unfolding sq_dev_def sum_sq_diff by (simp add: power2_eq_square algebra_simps)
qed

text \<open>One step of Welford's recurrence is exact.\<close>

lemma mean_of_snoc:
  "mean_of (xs @ [x]) = mean_of xs + (x - mean_of xs) / real (Suc (length xs))"
proof (cases "xs = []")
  case True
  then show ?thesis by (simp add: mean_of_def)
next
  case False
  define n where "n = real (length xs)"
  have n: "n \<noteq> 0" "n + 1 \<noteq> 0" using False by (auto simp: n_def)
  have s: "sum_list xs = n * mean_of xs" using False by (simp add: mean_of_def n_def)
  have "mean_of (xs @ [x]) = (sum_list xs + x) / (n + 1)"
    by (simp add: mean_of_def n_def add.commute)
  also have "\<dots> = (n * mean_of xs + x) / (n + 1)"
    by (simp only: s)
  also have "\<dots> = mean_of xs + (x - mean_of xs) / (n + 1)"
    using n by (simp add: field_simps)
  finally show ?thesis by (simp add: n_def add.commute)
qed

lemma sq_dev_snoc:
  "sq_dev (xs @ [x]) = sq_dev xs + (x - mean_of xs) * (x - mean_of (xs @ [x]))"
proof -
  define n where "n = real (length xs)"
  define m where "m = mean_of xs"
  define m' where "m' = mean_of (xs @ [x])"
  have n: "n + 1 \<noteq> 0" by (auto simp: n_def)
  have "m' = m + (x - m) / (n + 1)"
    by (simp add: m'_def m_def n_def mean_of_snoc add.commute)
  then have "(n + 1) * m' = (n + 1) * m + (x - m)"
    using n by (simp add: field_simps)
  then have x: "x = (n + 1) * m' - n * m"
    by (simp add: algebra_simps)
  have "sq_dev (xs @ [x]) = sq_dev xs + n * m\<^sup>2 + x\<^sup>2 - (n + 1) * m'\<^sup>2"
    by (simp add: sq_dev_alt n_def m_def m'_def algebra_simps)
  also have "\<dots> = sq_dev xs + (x - m) * (x - m')"
    by (simp add: x power2_eq_square algebra_simps)
  finally show ?thesis by (simp add: m_def m'_def)
qed

lemma reply_mean:
  "h_mean (reply a x h) = h_mean h + (seconds x - h_mean h) / real_of_int (h_received h + 1)"
  by (simp add: reply_parts)

lemma reply_m2:
  "h_m2 (reply a x h) = h_m2 h + (seconds x - h_mean h) * (seconds x - h_mean (reply a x h))"
  by (simp add: reply_parts)

lemma welford_exact:
  "h_mean (replies rs new_hopStats) = mean_of (map (\<lambda>r. seconds (snd r)) rs) \<and>
   h_m2 (replies rs new_hopStats) = sq_dev (map (\<lambda>r. seconds (snd r)) rs)"
proof (induction rs rule: rev_induct)
  case Nil
  then show ?case by (simp add: new_hopStats_def mean_of_def sq_dev_def)
next
  case (snoc r rs)
  obtain a x where r: "r = (a, x)" by (cases r)
  let ?h = "replies rs new_hopStats"
  let ?xs = "map (\<lambda>r. seconds (snd r)) rs"
  have n: "real_of_int (h_received ?h + 1) = real (Suc (length rs))"
    by (simp add: replies_received new_hopStats_def)
  have mean: "h_mean (reply a x ?h) = mean_of (?xs @ [seconds x])"
    using snoc by (simp add: reply_mean n mean_of_snoc del: of_int_add of_nat_Suc)
  moreover have "h_m2 (reply a x ?h) = sq_dev (?xs @ [seconds x])"
    unfolding reply_m2 mean using snoc by (simp add: sq_dev_snoc)
  ultimately show ?case by (simp add: r replies_snoc)
qed

text \<open>Best and worst are the extremes of the samples, the last is the last.\<close>

lemma reply_best:
  "h_best (reply a x h) = (if h_received h = 0 then x else min x (h_best h))"
  by (auto simp: reply_parts min_def)

lemma reply_worst: "h_worst (reply a x h) = max x (h_worst h)"
  by (auto simp: reply_parts max_def)

lemma extremes_exact:
  assumes "rs \<noteq> []" and "\<forall>(a, x) \<in> set rs. 0 \<le> x"
  shows "h_best (replies rs new_hopStats) = Min (snd ` set rs)"
    and "h_worst (replies rs new_hopStats) = Max (snd ` set rs)"
proof -
  have best: "rs \<noteq> [] \<Longrightarrow> h_best (replies rs new_hopStats) = Min (snd ` set rs)" for rs
  proof (induction rs rule: rev_induct)
    case (snoc r rs)
    obtain a x where r: "r = (a, x)" by (cases r)
    show ?case
      using snoc by (cases "rs = []")
        (auto simp: r replies_snoc reply_best replies_received new_hopStats_def)
  qed simp
  have worst: "(\<forall>(a, x) \<in> set rs. 0 \<le> x) \<Longrightarrow>
    h_worst (replies rs new_hopStats) = Max (insert 0 (snd ` set rs))" for rs
  proof (induction rs rule: rev_induct)
    case Nil
    then show ?case by (simp add: new_hopStats_def)
  next
    case (snoc r rs)
    obtain a x where r: "r = (a, x)" by (cases r)
    have "h_worst (replies (rs @ [r]) new_hopStats) = max x (Max (insert 0 (snd ` set rs)))"
      using snoc by (simp add: r replies_snoc reply_worst)
    also have "\<dots> = Max (insert x (insert 0 (snd ` set rs)))"
      by (subst Max_insert) auto
    finally show ?case by (simp add: r insert_commute)
  qed
  show "h_best (replies rs new_hopStats) = Min (snd ` set rs)"
    using best assms(1) by blast
  have ne: "snd ` set rs \<noteq> {}" using assms(1) by simp
  have "0 \<le> Max (snd ` set rs)"
    using assms ne by (auto simp: Max_ge_iff) (metis case_prodD list.set_sel(1) prod.collapse)
  then show "h_worst (replies rs new_hopStats) = Max (snd ` set rs)"
    using worst[OF assms(2)] ne by (simp add: max_def)
qed

text \<open>The jitter sum is the sum of the absolute differences of consecutive round trips.\<close>

fun abs_diffs :: "int list \<Rightarrow> int list" where
  "abs_diffs (x # y # ys) = \<bar>y - x\<bar> # abs_diffs (y # ys)"
| "abs_diffs _ = []"

lemma abs_diffs_snoc: "xs \<noteq> [] \<Longrightarrow> abs_diffs (xs @ [y]) = abs_diffs xs @ [\<bar>y - last xs\<bar>]"
  by (induction xs rule: abs_diffs.induct) auto

lemma jitter_exact:
  "h_jitterSum (replies rs new_hopStats) = sum_list (abs_diffs (map snd rs)) \<and>
   h_jitterN (replies rs new_hopStats) = int (length (abs_diffs (map snd rs))) \<and>
   (rs \<noteq> [] \<longrightarrow> h_prev (replies rs new_hopStats) = snd (last rs))"
proof (induction rs rule: rev_induct)
  case Nil
  then show ?case by (simp add: new_hopStats_def)
next
  case (snoc r rs)
  obtain a x where r: "r = (a, x)" by (cases r)
  have rec: "h_received (replies rs new_hopStats) = int (length rs)"
    by (simp add: replies_received new_hopStats_def)
  show ?case
  proof (cases "rs = []")
    case True
    then show ?thesis by (simp add: r replies_def reply_parts new_hopStats_def)
  next
    case False
    then have "0 < h_received (replies rs new_hopStats)" by (simp add: rec)
    with False snoc show ?thesis
      by (auto simp: r replies_snoc reply_parts abs_diffs_snoc last_map)
  qed
qed


lemma abs_diffs_length: "length (abs_diffs xs) = length xs - 1"
  by (induction xs rule: abs_diffs.induct) auto

lemma replies_last: "rs \<noteq> [] \<Longrightarrow> h_last (replies rs new_hopStats) = snd (last rs)"
  by (induction rs rule: rev_induct) (auto simp: replies_snoc reply_parts split: prod.splits)

text \<open>The count an address has in a list, 0 when it is not there.\<close>

definition addr_count :: "HopAddress list \<Rightarrow> addr \<Rightarrow> int" where
  "addr_count xs a = (case find (\<lambda>x. ha_Addr x = a) xs of None \<Rightarrow> 0 | Some x \<Rightarrow> ha_Count x)"

lemma addr_count_bump: "addr_count (bump_addr a xs) b = addr_count xs b + (if a = b then 1 else 0)"
  by (induction xs) (auto simp: addr_count_def)

lemma addr_count_mem: "distinct (map ha_Addr xs) \<Longrightarrow> x \<in> set xs \<Longrightarrow> addr_count xs (ha_Addr x) = ha_Count x"
  by (induction xs) (auto simp: addr_count_def)

lemma replies_addrs:
  "distinct (map ha_Addr (h_addrs (replies rs new_hopStats))) \<and>
   addr_count (h_addrs (replies rs new_hopStats)) a = int (length (filter (\<lambda>r. fst r = a) rs))"
proof (induction rs rule: rev_induct)
  case Nil
  then show ?case by (simp add: new_hopStats_def addr_count_def)
next
  case (snoc r rs)
  obtain b x where "r = (b, x)" by (cases r)
  with snoc show ?case
    by (auto simp: replies_snoc bump_addr_distinct addr_count_bump)
qed

section \<open>Theorems\<close>

text \<open>(C20) The running statistics are the statistics of the samples: after any sequence of answers, the
  mean and the sum of squared deviations that Welford's recurrence maintains are those computed from the
  list of round trips, so the average and the standard deviation shown are the truncated sample mean and
  sample standard deviation; the jitter is the mean absolute difference of consecutive round trips.\<close>

theorem statistics_exact:
  "avg (replies rs new_hopStats) = trunc (mean_of (map (\<lambda>r. seconds (snd r)) rs) * 1000000000) \<and>
   stdev (replies rs new_hopStats) =
     (if length rs < 2 then 0
      else trunc (sqrt (sq_dev (map (\<lambda>r. seconds (snd r)) rs) / (real (length rs) - 1)) * 1000000000)) \<and>
   jitter (replies rs new_hopStats) =
     (if length rs < 2 then 0
      else go_div (sum_list (abs_diffs (map snd rs))) (int (length (abs_diffs (map snd rs)))))"
proof -
  have r: "h_received (replies rs new_hopStats) = int (length rs)"
    by (simp add: replies_received new_hopStats_def)
  have "length (abs_diffs (map snd rs)) = length rs - 1"
    by (simp add: abs_diffs_length)
  then show ?thesis
    using welford_exact [of rs] jitter_exact [of rs]
    by (auto simp: avg_def stdev_def jitter_def r)
qed

text \<open>Best, worst and last are the smallest, the largest and the last round trip, and the answers are
  attributed to the addresses that sent them: every address is listed once, with the number of answers
  that came from it.\<close>

theorem extremes_and_addresses_exact:
  assumes "rs \<noteq> []" and "\<forall>r \<in> set rs. 0 \<le> snd r"
  shows "h_best (replies rs new_hopStats) = Min (snd ` set rs) \<and>
    h_worst (replies rs new_hopStats) = Max (snd ` set rs) \<and>
    h_last (replies rs new_hopStats) = snd (last rs) \<and>
    distinct (map ha_Addr (h_addrs (replies rs new_hopStats))) \<and>
    (\<forall>x \<in> set (h_addrs (replies rs new_hopStats)).
       ha_Count x = int (length (filter (\<lambda>r. fst r = ha_Addr x) rs)))"
proof -
  have "h_best (replies rs new_hopStats) = Min (snd ` set rs)"
    "h_worst (replies rs new_hopStats) = Max (snd ` set rs)"
    using extremes_exact [of rs] assms by (simp_all add: case_prod_unfold)
  moreover have "ha_Count x = int (length (filter (\<lambda>r. fst r = ha_Addr x) rs))"
    if "x \<in> set (h_addrs (replies rs new_hopStats))" for x
    using replies_addrs [of rs "ha_Addr x"] addr_count_mem [OF _ that] by simp
  ultimately show ?thesis
    using replies_last [OF assms(1)] replies_addrs [of rs] by blast
qed

theorem extremes_and_addresses_exact_witness:
  "h_best (replies [(V4 1, 5), (V4 2, 3), (V4 1, 9)] new_hopStats) = 3 \<and>
    h_worst (replies [(V4 1, 5), (V4 2, 3), (V4 1, 9)] new_hopStats) = 9"
  using extremes_and_addresses_exact [of "[(V4 1, 5), (V4 2, 3), (V4 1, 9)]"] by simp

end
