(* ===== verification/Trace_Spec.thy ===== *)
theory Trace_Spec
  imports Netip
begin

text \<open>
  \<^verbatim>\<open>internal/trace/spec.go\<close>: one trace as the engine runs it, and \<^verbatim>\<open>Normalize\<close>, which fills
  the defaults and validates. The checks are grouped in the order the source makes them;
  \<open>Normalize\<close> runs the groups one after the other and stops at the first error.
\<close>

section \<open>The specification\<close>

type_synonym Protocol = u8
type_synonym Mode = u8

definition ICMP :: Protocol where "ICMP = 1"
definition UDP :: Protocol where "UDP = 2"
definition TCP :: Protocol where "TCP = 3"

definition MTR :: Mode where "MTR = 1"
definition Ping :: Mode where "Ping = 2"

lemmas protocol_defs = ICMP_def UDP_def TCP_def
lemmas mode_defs = MTR_def Ping_def

record Spec =
  sp_Target :: addr
  sp_Protocol :: Protocol
  sp_Mode :: Mode
  sp_Port :: u16
  sp_ResolveNames :: bool
  sp_Cycles :: int
  sp_Interval :: duration
  sp_FirstTTL :: int
  sp_MaxTTL :: int
  sp_PacketSize :: int
  sp_DSCP :: int
  sp_Source :: addr
  sp_ProbeTimeout :: duration

definition DefaultCycles :: int where "DefaultCycles = 300"
definition DefaultInterval :: duration where "DefaultInterval = Second"
definition DefaultMaxTTL :: int where "DefaultMaxTTL = 30"
definition DefaultPingTTL :: int where "DefaultPingTTL = 64"
definition DefaultPacketSize :: int where "DefaultPacketSize = 56"
definition DefaultProbeTimeout :: duration where "DefaultProbeTimeout = 3 * Second"
definition DefaultUDPPort :: u16 where "DefaultUDPPort = 33434"
definition DefaultTCPPort :: u16 where "DefaultTCPPort = 80"

lemmas spec_defaults = DefaultCycles_def DefaultInterval_def DefaultMaxTTL_def DefaultPingTTL_def
  DefaultPacketSize_def DefaultProbeTimeout_def DefaultUDPPort_def DefaultTCPPort_def

datatype spec_error =
    TargetRequired
  | FamiliesDiffer
  | UnknownProtocol Protocol
  | UnknownMode Mode
  | MaxTTLExceeds255 int
  | FirstExceedsMaxTTL int int
  | PacketSizeExceeds1400 int
  | DSCPOutOfRange int

section \<open>Normalize\<close>

definition norm_addrs :: "Spec \<Rightarrow> spec_error + Spec" where
  "norm_addrs s =
    (if \<not> IsValid (sp_Target s) then Inl TargetRequired
     else
       let s = s\<lparr>sp_Target := Unmap (sp_Target s)\<rparr>
       in if IsValid (sp_Source s) then
            let s = s\<lparr>sp_Source := Unmap (sp_Source s)\<rparr>
            in if Is4 (sp_Source s) \<noteq> Is4 (sp_Target s) then Inl FamiliesDiffer else Inr s
          else Inr s)"

definition norm_protocol :: "Spec \<Rightarrow> spec_error + Spec" where
  "norm_protocol s =
    (if sp_Protocol s = 0 then Inr (s\<lparr>sp_Protocol := ICMP\<rparr>)
     else if sp_Protocol s \<in> {ICMP, UDP, TCP} then Inr s
     else Inl (UnknownProtocol (sp_Protocol s)))"

definition norm_mode :: "Spec \<Rightarrow> spec_error + Spec" where
  "norm_mode s =
    (if sp_Mode s = 0 then Inr (s\<lparr>sp_Mode := MTR\<rparr>)
     else if sp_Mode s \<in> {MTR, Ping} then Inr s
     else Inl (UnknownMode (sp_Mode s)))"

definition norm_port :: "Spec \<Rightarrow> Spec" where
  "norm_port s =
    (if sp_Port s = 0 then
       (if sp_Protocol s = UDP then s\<lparr>sp_Port := DefaultUDPPort\<rparr>
        else if sp_Protocol s = TCP then s\<lparr>sp_Port := DefaultTCPPort\<rparr>
        else s)
     else s)"

definition norm_schedule :: "Spec \<Rightarrow> Spec" where
  "norm_schedule s =
    (let s = (if sp_Cycles s \<le> 0 then s\<lparr>sp_Cycles := DefaultCycles\<rparr> else s)
     in if sp_Interval s \<le> 0 then s\<lparr>sp_Interval := DefaultInterval\<rparr> else s)"

definition norm_ttl :: "Spec \<Rightarrow> spec_error + Spec" where
  "norm_ttl s =
    (let s = (if sp_MaxTTL s \<le> 0 then
                (if sp_Mode s = Ping then s\<lparr>sp_MaxTTL := DefaultPingTTL\<rparr>
                 else s\<lparr>sp_MaxTTL := DefaultMaxTTL\<rparr>)
              else s)
     in if sp_MaxTTL s > 255 then Inl (MaxTTLExceeds255 (sp_MaxTTL s))
        else
          let s = (if sp_FirstTTL s \<le> 0 then s\<lparr>sp_FirstTTL := 1\<rparr> else s);
              s = (if sp_Mode s = Ping then s\<lparr>sp_FirstTTL := sp_MaxTTL s\<rparr> else s)
          in if sp_FirstTTL s > sp_MaxTTL s
             then Inl (FirstExceedsMaxTTL (sp_FirstTTL s) (sp_MaxTTL s))
             else Inr s)"

definition norm_packet :: "Spec \<Rightarrow> spec_error + Spec" where
  "norm_packet s =
    (let s = (if sp_PacketSize s \<le> 0 then s\<lparr>sp_PacketSize := DefaultPacketSize\<rparr> else s)
     in if sp_PacketSize s > 1400 then Inl (PacketSizeExceeds1400 (sp_PacketSize s))
        else if sp_DSCP s < 0 \<or> sp_DSCP s > 63 then Inl (DSCPOutOfRange (sp_DSCP s))
        else Inr (if sp_ProbeTimeout s \<le> 0
                  then s\<lparr>sp_ProbeTimeout := DefaultProbeTimeout\<rparr> else s))"

definition Normalize :: "Spec \<Rightarrow> spec_error + Spec" where
  "Normalize s =
    rbind (norm_addrs s) (\<lambda>s.
    rbind (norm_protocol s) (\<lambda>s.
    rbind (norm_mode s) (\<lambda>s.
    rbind (norm_ttl (norm_schedule (norm_port s))) norm_packet)))"

text \<open>How many TTLs a cycle probes at most.\<close>

definition hopCount :: "Spec \<Rightarrow> int" where
  "hopCount s = sp_MaxTTL s - sp_FirstTTL s + 1"

section \<open>What a normalised specification satisfies\<close>

definition ok_addrs :: "Spec \<Rightarrow> bool" where
  "ok_addrs s \<longleftrightarrow> IsValid (sp_Target s) \<and> \<not> Is4In6 (sp_Target s) \<and>
     (IsValid (sp_Source s) \<longrightarrow> \<not> Is4In6 (sp_Source s) \<and> Is4 (sp_Source s) = Is4 (sp_Target s))"

definition ok_protocol :: "Spec \<Rightarrow> bool" where
  "ok_protocol s \<longleftrightarrow> sp_Protocol s \<in> {ICMP, UDP, TCP} \<and>
     (sp_Protocol s \<noteq> ICMP \<longrightarrow> sp_Port s \<noteq> 0)"

definition ok_schedule :: "Spec \<Rightarrow> bool" where
  "ok_schedule s \<longleftrightarrow> 1 \<le> sp_Cycles s \<and> 1 \<le> sp_Interval s \<and> 1 \<le> sp_ProbeTimeout s"

definition ok_ttl :: "Spec \<Rightarrow> bool" where
  "ok_ttl s \<longleftrightarrow> sp_Mode s \<in> {MTR, Ping} \<and> 1 \<le> sp_FirstTTL s \<and>
     sp_FirstTTL s \<le> sp_MaxTTL s \<and> sp_MaxTTL s \<le> 255 \<and>
     (sp_Mode s = Ping \<longrightarrow> sp_FirstTTL s = sp_MaxTTL s)"

definition ok_packet :: "Spec \<Rightarrow> bool" where
  "ok_packet s \<longleftrightarrow> 1 \<le> sp_PacketSize s \<and> sp_PacketSize s \<le> 1400 \<and>
     0 \<le> sp_DSCP s \<and> sp_DSCP s \<le> 63"

definition spec_ok :: "Spec \<Rightarrow> bool" where
  "spec_ok s \<longleftrightarrow> ok_addrs s \<and> ok_protocol s \<and> ok_schedule s \<and> ok_ttl s \<and> ok_packet s"

lemmas ok_defs = ok_addrs_def ok_protocol_def ok_schedule_def ok_ttl_def ok_packet_def

text \<open>Each group establishes its own part and leaves the parts established before it alone.\<close>

lemma norm_addrs_ok: "norm_addrs s = Inr s' \<Longrightarrow> ok_addrs s'"
  by (auto simp: norm_addrs_def ok_addrs_def Let_def split: if_splits)

lemma norm_protocol_frame:
  "norm_protocol s = Inr s' \<Longrightarrow> \<exists>p \<in> {ICMP, UDP, TCP}. s' = s\<lparr>sp_Protocol := p\<rparr>"
  by (auto simp: norm_protocol_def split: if_splits)

lemma norm_mode_frame:
  "norm_mode s = Inr s' \<Longrightarrow> \<exists>m \<in> {MTR, Ping}. s' = s\<lparr>sp_Mode := m\<rparr>"
  by (auto simp: norm_mode_def split: if_splits)

lemma norm_port_frame:
  "\<exists>p. norm_port s = s\<lparr>sp_Port := p\<rparr> \<and> (sp_Protocol s \<in> {UDP, TCP} \<longrightarrow> p \<noteq> 0)"
proof -
  have "norm_port s = s\<lparr>sp_Port := sp_Port (norm_port s)\<rparr>"
    by (simp add: norm_port_def)
  moreover have "sp_Protocol s \<in> {UDP, TCP} \<longrightarrow> sp_Port (norm_port s) \<noteq> 0"
    by (auto simp: norm_port_def spec_defaults protocol_defs)
  ultimately show ?thesis by blast
qed

lemma norm_schedule_frame:
  "\<exists>c i. norm_schedule s = s\<lparr>sp_Cycles := c, sp_Interval := i\<rparr> \<and> 1 \<le> c \<and> 1 \<le> i"
proof -
  have "norm_schedule s = s\<lparr>sp_Cycles := sp_Cycles (norm_schedule s),
      sp_Interval := sp_Interval (norm_schedule s)\<rparr>"
    by (simp add: norm_schedule_def Let_def)
  moreover have "1 \<le> sp_Cycles (norm_schedule s) \<and> 1 \<le> sp_Interval (norm_schedule s)"
    by (simp add: norm_schedule_def Let_def spec_defaults)
  ultimately show ?thesis by blast
qed

lemma norm_ttl_frame:
  assumes "norm_ttl s = Inr s'"
  shows "\<exists>f m. s' = s\<lparr>sp_FirstTTL := f, sp_MaxTTL := m\<rparr> \<and> 1 \<le> f \<and> f \<le> m \<and> m \<le> 255 \<and>
    (sp_Mode s = Ping \<longrightarrow> f = m)"
proof -
  have "s' = s\<lparr>sp_FirstTTL := sp_FirstTTL s', sp_MaxTTL := sp_MaxTTL s'\<rparr>"
    using assms by (auto simp: norm_ttl_def Let_def split: if_splits)
  moreover have "1 \<le> sp_FirstTTL s' \<and> sp_FirstTTL s' \<le> sp_MaxTTL s' \<and> sp_MaxTTL s' \<le> 255 \<and>
    (sp_Mode s = Ping \<longrightarrow> sp_FirstTTL s' = sp_MaxTTL s')"
    using assms by (auto simp: norm_ttl_def Let_def spec_defaults split: if_splits)
  ultimately show ?thesis by blast
qed

lemma norm_packet_frame:
  assumes "norm_packet s = Inr s'"
  shows "\<exists>n t. s' = s\<lparr>sp_PacketSize := n, sp_ProbeTimeout := t\<rparr> \<and> 1 \<le> n \<and> n \<le> 1400 \<and> 1 \<le> t \<and>
    0 \<le> sp_DSCP s \<and> sp_DSCP s \<le> 63"
proof -
  have "s' = s\<lparr>sp_PacketSize := sp_PacketSize s', sp_ProbeTimeout := sp_ProbeTimeout s'\<rparr>"
    using assms by (auto simp: norm_packet_def Let_def split: if_splits)
  moreover have "1 \<le> sp_PacketSize s' \<and> sp_PacketSize s' \<le> 1400 \<and> 1 \<le> sp_ProbeTimeout s' \<and>
    0 \<le> sp_DSCP s \<and> sp_DSCP s \<le> 63"
    using assms by (auto simp: norm_packet_def Let_def spec_defaults split: if_splits)
  ultimately show ?thesis by blast
qed

lemma Normalize_spec_ok: "Normalize s = Inr s' \<Longrightarrow> spec_ok s'"
proof -
  assume "Normalize s = Inr s'"
  then obtain a p m t where a: "norm_addrs s = Inr a" and p: "norm_protocol a = Inr p"
    and m: "norm_mode p = Inr m" and t: "norm_ttl (norm_schedule (norm_port m)) = Inr t"
    and s': "norm_packet t = Inr s'"
    by (auto simp: Normalize_def)
  from norm_protocol_frame [OF p] obtain x where x: "x \<in> {ICMP, UDP, TCP}"
    and p': "p = a\<lparr>sp_Protocol := x\<rparr>" by blast
  from norm_mode_frame [OF m] obtain y where y: "y \<in> {MTR, Ping}"
    and m': "m = p\<lparr>sp_Mode := y\<rparr>" by blast
  from norm_port_frame [of m] obtain q where q: "x \<in> {UDP, TCP} \<longrightarrow> q \<noteq> 0"
    and port: "norm_port m = m\<lparr>sp_Port := q\<rparr>" by (auto simp: m' p')
  from norm_schedule_frame [of "norm_port m"] obtain c i where ci: "1 \<le> c" "1 \<le> i"
    and sched: "norm_schedule (norm_port m) = (norm_port m)\<lparr>sp_Cycles := c, sp_Interval := i\<rparr>"
    by blast
  have pre: "norm_schedule (norm_port m) = a\<lparr>sp_Protocol := x, sp_Mode := y, sp_Port := q,
      sp_Cycles := c, sp_Interval := i\<rparr>" (is "_ = ?pre")
    by (subst sched, subst port) (simp add: m' p')
  have mode: "sp_Mode ?pre = y" and dscp: "sp_DSCP ?pre = sp_DSCP a" by simp_all
  from norm_ttl_frame [OF t, unfolded pre mode] obtain f l where fl: "1 \<le> f" "f \<le> l" "l \<le> 255"
      "y = Ping \<longrightarrow> f = l"
    and t': "t = ?pre\<lparr>sp_FirstTTL := f, sp_MaxTTL := l\<rparr>"
    by blast
  then have "sp_DSCP t = sp_DSCP a" by simp
  with norm_packet_frame [OF s'] obtain n w where
    s'': "s' = t\<lparr>sp_PacketSize := n, sp_ProbeTimeout := w\<rparr>" and nw: "1 \<le> n" "n \<le> 1400" "1 \<le> w"
    and d: "0 \<le> sp_DSCP a" "sp_DSCP a \<le> 63"
    by (auto simp: dscp)
  have eqs: "s' = a\<lparr>sp_Protocol := x, sp_Mode := y, sp_Port := q, sp_Cycles := c, sp_Interval := i,
      sp_FirstTTL := f, sp_MaxTTL := l, sp_PacketSize := n, sp_ProbeTimeout := w\<rparr>"
    by (simp add: s'' t')
  have "ok_addrs s'" using norm_addrs_ok [OF a] by (simp add: eqs ok_addrs_def)
  moreover have "ok_protocol s'" using x q by (auto simp: eqs ok_protocol_def)
  moreover have "ok_schedule s'" using ci nw by (simp add: eqs ok_schedule_def)
  moreover have "ok_ttl s'" using fl y by (simp add: eqs ok_ttl_def)
  moreover have "ok_packet s'" using nw d by (simp add: eqs ok_packet_def)
  ultimately show "spec_ok s'" by (simp add: spec_ok_def)
qed

text \<open>A specification that satisfies the conditions is left as it is, so the values shown to a
  caller are those the engine runs with.\<close>

lemma Normalize_fixpoint: "spec_ok s \<Longrightarrow> Normalize s = Inr s"
proof -
  assume ok: "spec_ok s"
  then have "norm_addrs s = Inr s"
    by (simp add: spec_ok_def ok_addrs_def norm_addrs_def Unmap_id)
  moreover have "norm_protocol s = Inr s"
    using ok by (auto simp: spec_ok_def ok_protocol_def norm_protocol_def protocol_defs)
  moreover have "norm_mode s = Inr s"
    using ok by (auto simp: spec_ok_def ok_ttl_def norm_mode_def mode_defs)
  moreover have "norm_port s = s"
    using ok by (auto simp: spec_ok_def ok_protocol_def norm_port_def protocol_defs)
  moreover have "norm_schedule s = s"
    using ok by (auto simp: spec_ok_def ok_schedule_def norm_schedule_def)
  moreover have "norm_ttl s = Inr s"
    using ok by (auto simp: spec_ok_def ok_ttl_def norm_ttl_def Let_def)
  moreover have "norm_packet s = Inr s"
    using ok by (auto simp: spec_ok_def ok_packet_def ok_schedule_def norm_packet_def)
  ultimately show ?thesis by (simp add: Normalize_def)
qed


section \<open>Theorems\<close>

text \<open>(C21) A specification that \<^verbatim>\<open>Normalize\<close> accepts is one a run can be made from, whatever was
  left out of it: the target is a plain IPv4 or IPv6 address and the source of the same family, the
  protocol and the mode are known ones, UDP and TCP have a port, there is at least one cycle and a
  positive interval and timeout, the TTLs fit a TTL field and their range is not empty, and the DSCP
  fits six bits. Normalising it again changes nothing.\<close>

theorem Normalize_correct:
  assumes "Normalize s = Inr s'"
  shows "IsValid (sp_Target s') \<and> \<not> Is4In6 (sp_Target s') \<and>
    (IsValid (sp_Source s') \<longrightarrow> Is4 (sp_Source s') = Is4 (sp_Target s')) \<and>
    sp_Protocol s' \<in> {ICMP, UDP, TCP} \<and> sp_Mode s' \<in> {MTR, Ping} \<and>
    (sp_Protocol s' \<in> {UDP, TCP} \<longrightarrow> sp_Port s' \<noteq> 0) \<and>
    1 \<le> sp_Cycles s' \<and> 1 \<le> sp_Interval s' \<and> 1 \<le> sp_ProbeTimeout s' \<and>
    1 \<le> sp_FirstTTL s' \<and> sp_FirstTTL s' \<le> sp_MaxTTL s' \<and> sp_MaxTTL s' \<le> 255 \<and>
    1 \<le> sp_PacketSize s' \<and> sp_PacketSize s' \<le> 1400 \<and> 0 \<le> sp_DSCP s' \<and> sp_DSCP s' \<le> 63 \<and>
    Normalize s' = Inr s'"
  using Normalize_spec_ok [OF assms] Normalize_fixpoint [OF Normalize_spec_ok [OF assms]]
  by (simp add: spec_ok_def ok_defs protocol_defs)

theorem Normalize_correct_witness:
  "\<exists>s'. Normalize \<lparr>sp_Target = V4 0x0A000001, sp_Protocol = 0, sp_Mode = 0, sp_Port = 0,
      sp_ResolveNames = False, sp_Cycles = 0, sp_Interval = 0, sp_FirstTTL = 0, sp_MaxTTL = 0,
      sp_PacketSize = 0, sp_DSCP = 46, sp_Source = NoAddr, sp_ProbeTimeout = 0\<rparr> = Inr s' \<and>
    sp_Protocol s' \<in> {ICMP, UDP, TCP} \<and> Normalize s' = Inr s'"
  (is "\<exists>s'. Normalize ?s = Inr s' \<and> _")
proof -
  have "\<exists>s'. Normalize ?s = Inr s'"
    by (simp add: Normalize_def norm_addrs_def norm_protocol_def norm_mode_def norm_port_def
        norm_schedule_def norm_ttl_def norm_packet_def Let_def IsValid_def Unmap_def spec_defaults
        protocol_defs mode_defs)
  then obtain s' where s': "Normalize ?s = Inr s'" by blast
  from s' Normalize_correct [OF s'] show ?thesis by blast
qed

end
