(* ===== verification/Trace_Engine.thy ===== *)
theory Trace_Engine
  imports Trace_Spec
begin

text \<open>
  \<^verbatim>\<open>internal/trace/engine.go\<close>: what every run shares. The engine knows which address
  families it could open, the table from a probe in flight to the run that sent it, and
  the ICMP identifiers in use. Every operation on the table and on the identifiers holds
  the engine's mutex, so each is one atomic step.
\<close>

section \<open>Data\<close>

record probeKey =
  k_proto :: Protocol
  k_v6 :: bool
  k_id :: u16
  k_seq :: u16

datatype replyKind = replyFromTarget | replyExceeded | replyUnreachable

record reply =
  r_key :: probeKey
  r_from :: addr
  r_kind :: replyKind
  r_code :: int
  r_at :: instant

text \<open>A session is named by a number: the pointer the table holds.\<close>

type_synonym session_id = nat

record Engine =
  e_v4 :: bool
  e_v6 :: bool
  e_probes :: "probeKey \<rightharpoonup> session_id"
  e_ids :: "u16 set"

record Capabilities =
  cap_IPv4 :: bool
  cap_IPv6 :: bool

datatype engine_error =
    NoUsableFamily
  | NoRawSocket
  | FamilyUnavailable addr
  | NoFreeIdentifier
  | BadSpec spec_error

section \<open>Opening the families\<close>

text \<open>
  \<^verbatim>\<open>hasFamilyAddr\<close> reads the interface addresses; \<open>None\<close> is an error reading them and an
  element \<open>None\<close> is an entry that is not an IP network or not an address. \<open>openFamily\<close> is
  the operating system's answer to opening the raw socket of a family.
\<close>

definition hasFamilyAddr :: "addr option list option \<Rightarrow> bool \<Rightarrow> bool" where
  "hasFamilyAddr ifaces v6 = (case ifaces of
      None \<Rightarrow> True
    | Some as \<Rightarrow> (\<exists>a \<in> set as. case a of None \<Rightarrow> False | Some ip \<Rightarrow> Is6 (Unmap ip) = v6))"

definition New :: "addr option list option \<Rightarrow> (bool \<Rightarrow> bool) \<Rightarrow> engine_error + Engine" where
  "New ifaces openFamily =
    (let v4 = hasFamilyAddr ifaces False \<and> openFamily False;
         v6 = hasFamilyAddr ifaces True \<and> openFamily True;
         errs = (hasFamilyAddr ifaces False \<and> \<not> openFamily False) \<or>
                (hasFamilyAddr ifaces True \<and> \<not> openFamily True)
     in if \<not> v4 \<and> \<not> v6 then (if errs then Inl NoRawSocket else Inl NoUsableFamily)
        else Inr \<lparr>e_v4 = v4, e_v6 = v6, e_probes = Map.empty, e_ids = {}\<rparr>)"

definition engine_Capabilities :: "Engine \<Rightarrow> Capabilities" where
  "engine_Capabilities e = \<lparr>cap_IPv4 = e_v4 e, cap_IPv6 = e_v6 e\<rparr>"

text \<open>\<^verbatim>\<open>Run\<close> up to the session it starts: normalise, choose the family, refuse one the host lacks.\<close>

definition Run_spec :: "Engine \<Rightarrow> Spec \<Rightarrow> engine_error + Spec" where
  "Run_spec e spec = (case Normalize spec of
      Inl err \<Rightarrow> Inl (BadSpec err)
    | Inr spec \<Rightarrow>
        (let fam = (if Is6 (sp_Target spec) then e_v6 e else e_v4 e)
         in if \<not> fam then Inl (FamilyUnavailable (sp_Target spec)) else Inr spec))"

section \<open>The probe registry\<close>

definition register :: "probeKey \<Rightarrow> session_id \<Rightarrow> Engine \<Rightarrow> Engine" where
  "register k s e = e\<lparr>e_probes := (e_probes e)(k \<mapsto> s)\<rparr>"

definition unregister :: "probeKey \<Rightarrow> Engine \<Rightarrow> Engine" where
  "unregister k e = e\<lparr>e_probes := (e_probes e)(k := None)\<rparr>"

definition owner :: "Engine \<Rightarrow> probeKey \<Rightarrow> session_id option" where
  "owner e k = e_probes e k"

lemma owner_register [simp]: "owner (register k s e) = (owner e)(k \<mapsto> s)"
  by (auto simp: owner_def register_def)

lemma owner_unregister [simp]: "owner (unregister k e) = (owner e)(k := None)"
  by (auto simp: owner_def unregister_def)

lemma registry_ids [simp]:
  "e_ids (register k s e) = e_ids e" "e_ids (unregister k e) = e_ids e"
  by (simp_all add: register_def unregister_def)

section \<open>ICMP identifiers\<close>

text \<open>
  \<^verbatim>\<open>allocID\<close> draws random identifiers until one is neither zero nor in use. The random
  source is the sequence \<open>rnd\<close>; drawing for ever is \<open>None\<close>.
\<close>

partial_function (option) draw :: "(nat \<Rightarrow> u16) \<Rightarrow> u16 set \<Rightarrow> nat \<Rightarrow> u16 option" where
  "draw rnd used i =
    (if rnd i \<in> used \<or> rnd i = 0 then draw rnd used (Suc i) else Some (rnd i))"

definition allocID :: "(nat \<Rightarrow> u16) \<Rightarrow> Engine \<Rightarrow> (engine_error, u16 \<times> Engine) outcome" where
  "allocID rnd e =
    (if card (e_ids e) \<ge> 60000 then Fail NoFreeIdentifier
     else case draw rnd (e_ids e) 0 of
            None \<Rightarrow> Diverge
          | Some i \<Rightarrow> Ok (i, e\<lparr>e_ids := insert i (e_ids e)\<rparr>))"

definition freeID :: "u16 \<Rightarrow> Engine \<Rightarrow> Engine" where
  "freeID i e = e\<lparr>e_ids := e_ids e - {i}\<rparr>"

lemma draw_Some: "draw rnd used i = Some x \<Longrightarrow> x \<notin> used \<and> x \<noteq> 0"
  by (rule draw.raw_induct [where P = "\<lambda>rnd used i x. x \<notin> used \<and> x \<noteq> 0"])
    (auto split: if_splits)

lemma draw_returns:
  assumes "rnd j \<notin> used" and "rnd j \<noteq> 0" and "i \<le> j"
  shows "\<exists>x. draw rnd used i = Some x"
  using assms(3)
proof (induction "j - i" arbitrary: i)
  case 0
  with assms have "i = j" by simp
  with assms show ?case by (subst draw.simps) simp
next
  case (Suc n)
  then have "n = j - Suc i" "Suc i \<le> j" by simp_all
  then have "\<exists>x. draw rnd used (Suc i) = Some x" by (rule Suc.hyps)
  then show ?case by (subst draw.simps) auto
qed

definition ids_ok :: "Engine \<Rightarrow> bool" where
  "ids_ok e \<longleftrightarrow> 0 \<notin> e_ids e \<and> card (e_ids e) \<le> 60000"

lemma finite_u16: "finite (S :: u16 set)"
  by (rule finite_subset [OF subset_UNIV]) simp

lemma card_u16: "card (UNIV :: u16 set) = 65536"
  by (simp add: card_word)

lemma allocID_ids_ok: "ids_ok e \<Longrightarrow> allocID rnd e = Ok (i, e') \<Longrightarrow> ids_ok e'"
  by (auto simp: ids_ok_def allocID_def card_insert_if finite_u16
      split: if_splits option.splits dest: draw_Some)

lemma freeID_ids_ok: "ids_ok e \<Longrightarrow> ids_ok (freeID i e)"
  by (auto simp: ids_ok_def freeID_def card_Diff_singleton_if finite_u16)

text \<open>Below the limit there are always identifiers to draw: at least 5536 of the 65535.\<close>

lemma free_ids_left:
  assumes "card (e_ids e) < 60000"
  shows "5536 \<le> card {i. i \<notin> e_ids e \<and> i \<noteq> 0}"
proof -
  have "{i. i \<notin> e_ids e \<and> i \<noteq> 0} = UNIV - insert 0 (e_ids e)" by auto
  then have "card {i. i \<notin> e_ids e \<and> i \<noteq> 0} = 65536 - card (insert 0 (e_ids e))"
    by (simp add: card_Diff_subset finite_u16 card_u16)
  moreover have "card (insert 0 (e_ids e)) \<le> 60000"
    using assms by (simp add: card_insert_if finite_u16)
  ultimately show ?thesis by simp
qed


lemma draw_surj:
  assumes "surj rnd" and lim: "card (e_ids e) < 60000"
  shows "\<exists>x. draw rnd (e_ids e) 0 = Some x"
proof -
  have "{i. i \<notin> e_ids e \<and> i \<noteq> 0} \<noteq> {}"
    using free_ids_left [OF lim] by (metis card.empty not_numeral_le_zero)
  then obtain i where "i \<notin> e_ids e" "i \<noteq> 0" by blast
  then show ?thesis
    using surjD [OF assms(1), of i] draw_returns [of rnd _ "e_ids e" 0] by auto
qed

section \<open>Theorems\<close>

text \<open>(C22) Below the limit of 60000 identifiers in use, \<^verbatim>\<open>allocID\<close> ends and gives out an identifier
  that is neither zero nor in use by another run, provided the random source sooner or later yields
  every number; at the limit it refuses and changes nothing.\<close>

theorem allocID_fresh:
  assumes "surj rnd"
  shows "(card (e_ids e) < 60000 \<longrightarrow> (\<exists>i e'. allocID rnd e = Ok (i, e') \<and> i \<noteq> 0 \<and> i \<notin> e_ids e \<and>
      e_ids e' = insert i (e_ids e) \<and> e_probes e' = e_probes e)) \<and>
    (60000 \<le> card (e_ids e) \<longrightarrow> allocID rnd e = Fail NoFreeIdentifier)"
proof -
  have "\<exists>i. draw rnd (e_ids e) 0 = Some i" if "card (e_ids e) < 60000"
    using draw_surj [OF assms that] .
  then show ?thesis
    by (fastforce simp: allocID_def dest: draw_Some)
qed

theorem allocID_fresh_witness:
  "surj (of_nat :: nat \<Rightarrow> u16) \<and>
    (\<exists>i e'. allocID of_nat \<lparr>e_v4 = True, e_v6 = True, e_probes = Map.empty, e_ids = {1, 2}\<rparr> = Ok (i, e') \<and>
      i \<noteq> 0 \<and> i \<notin> {1, 2})"
proof -
  have s: "surj (of_nat :: nat \<Rightarrow> u16)" by (rule surjI [of _ unat]) simp
  have "card {1 :: u16, 2} < 60000" by (simp add: card_insert_if)
  with allocID_fresh [OF s, of "\<lparr>e_v4 = True, e_v6 = True, e_probes = Map.empty, e_ids = {1, 2}\<rparr>"] s
  show ?thesis by fastforce
qed

end
