(* ===== verification/Trace_Session.thy ===== *)
theory Trace_Session
  imports Trace_Stats Trace_Engine
begin

text \<open>
  \<^verbatim>\<open>internal/trace/session.go\<close>, the \<^verbatim>\<open>probe_*.go\<close> files and \<^verbatim>\<open>event.go\<close>: one run of the
  engine. The state is the record \<open>session\<close>; every function of the source is a function
  on it. Probes are objects reached through pointers, from the map of probes in flight and
  from the queue, so they live in an explicit store indexed by pointer. What the operating
  system answers to the \<open>n\<close>-th send is \<open>net n\<close>. The events the run emits are appended
  to \<open>s_out\<close>, without their wall-clock time stamps, and the packets that left the host to
  \<open>s_wire\<close>.
\<close>

section \<open>Data\<close>

record probe =
  p_key :: probeKey
  p_ttl :: int
  p_cycle :: nat
  p_sentAt :: instant
  p_deadline :: instant
  p_settled :: bool
  p_closer :: bool

record cycleState =
  c_number :: nat
  c_ttls :: "int list"
  c_sending :: bool
  c_outstanding :: int
  c_samples :: "int \<rightharpoonup> duration option"
  c_targetSeen :: bool

record Cycle =
  cy_Number :: nat
  cy_ReachedAt :: int
  cy_Hops :: "Hop list"

datatype errno = ENETUNREACH | EHOSTUNREACH | ENETDOWN | EHOSTDOWN | OtherErrno nat

datatype run_error = SendError errno | EngineError engine_error

datatype Event =
    Started Spec
  | CycleDone Cycle
  | Finished bool
  | Failed run_error

text \<open>
  The outcome of a send: the packet left at an instant from a local port, the socket could
  not be prepared, or the write (for TCP, the connect) from a local port was refused. The
  port is meaningless for ICMP.
\<close>

datatype send_result = Sent instant u16 | SockErr errno | WriteErr errno u16

record wire =
  w_ttl :: int
  w_tos :: int
  w_key :: probeKey

record session =
  s_id :: session_id
  s_e :: Engine
  s_spec :: Spec
  s_v6 :: bool
  s_tos :: int
  s_icmpID :: u16
  s_seq :: u16
  s_payload :: "u8 list"
  s_replies :: "reply list"
  s_dropped :: int
  s_probes :: "probeKey \<rightharpoonup> nat"
  s_heap :: "nat \<Rightarrow> probe"
  s_next :: nat
  s_queue :: "nat list"
  s_hops :: "int \<rightharpoonup> hopStats"
  s_cycles :: "nat \<rightharpoonup> cycleState"
  s_cycle :: nat
  s_nextEmit :: nat
  s_sendIdx :: nat
  s_cycleTTLs :: "int list"
  s_cycleStart :: instant
  s_nextSendAt :: instant
  s_sendingDone :: bool
  s_reachedAt :: int
  s_missedTarget :: int
  s_out :: "Event list"
  s_wire :: "wire list"

definition missedTargetLimit :: int where "missedTargetLimit = 3"

definition new_probe :: "probeKey \<Rightarrow> bool \<Rightarrow> probe" where
  "new_probe key closer = \<lparr>p_key = key, p_ttl = 0, p_cycle = 0, p_sentAt = 0, p_deadline = 0,
     p_settled = False, p_closer = closer\<rparr>"

definition newSession :: "session_id \<Rightarrow> Engine \<Rightarrow> Spec \<Rightarrow> session" where
  "newSession sid e spec =
    \<lparr>s_id = sid, s_e = e, s_spec = spec, s_v6 = Is6 (sp_Target spec),
     s_tos = push_bit 2 (sp_DSCP spec), s_icmpID = 0, s_seq = 0,
     s_payload = map of_nat [0..<nat (sp_PacketSize spec)],
     s_replies = [], s_dropped = 0, s_probes = Map.empty,
     s_heap = (\<lambda>_. new_probe \<lparr>k_proto = 0, k_v6 = False, k_id = 0, k_seq = 0\<rparr> False), s_next = 0,
     s_queue = [], s_hops = Map.empty, s_cycles = Map.empty, s_cycle = 0, s_nextEmit = 1,
     s_sendIdx = 0, s_cycleTTLs = [], s_cycleStart = 0, s_nextSendAt = 0, s_sendingDone = False,
     s_reachedAt = 0, s_missedTarget = 0, s_out = [], s_wire = []\<rparr>"

definition emit :: "Event \<Rightarrow> session \<Rightarrow> session" where
  "emit ev s = s\<lparr>s_out := s_out s @ [ev]\<rparr>"

type_synonym 'a sess_outcome = "(run_error \<times> session, 'a) outcome"

section \<open>Replies arriving\<close>

definition replies_cap :: nat where "replies_cap = 4096"

definition deliver :: "reply \<Rightarrow> session \<Rightarrow> session" where
  "deliver r s =
    (if length (s_replies s) < replies_cap then s\<lparr>s_replies := s_replies s @ [r]\<rparr>
     else s\<lparr>s_dropped := s_dropped s + 1\<rparr>)"

interpretation reply_box: mailbox s_replies replies_cap deliver
  by unfold_locales (simp_all add: deliver_def)

section \<open>Sending one probe\<close>

definition set_probe :: "nat \<Rightarrow> (probe \<Rightarrow> probe) \<Rightarrow> session \<Rightarrow> session" where
  "set_probe p f s = s\<lparr>s_heap := (s_heap s)(p := f (s_heap s p))\<rparr>"

definition alloc_probe :: "probeKey \<Rightarrow> bool \<Rightarrow> session \<Rightarrow> nat \<times> session" where
  "alloc_probe key closer s =
    (s_next s, s\<lparr>s_next := Suc (s_next s), s_heap := (s_heap s)(s_next s := new_probe key closer)\<rparr>)"

definition sent_ok :: "nat \<Rightarrow> int \<Rightarrow> instant \<Rightarrow> session \<Rightarrow> session" where
  "sent_ok p ttl sat s =
    (set_probe p (\<lambda>x. x\<lparr>p_sentAt := sat\<rparr>) s)
      \<lparr>s_wire := s_wire s @ [\<lparr>w_ttl = ttl, w_tos = s_tos s, w_key = p_key (s_heap s p)\<rparr>]\<rparr>"

definition s_register :: "probeKey \<Rightarrow> session \<Rightarrow> session" where
  "s_register k s = s\<lparr>s_e := register k (s_id s) (s_e s)\<rparr>"

definition s_unregister :: "probeKey \<Rightarrow> session \<Rightarrow> session" where
  "s_unregister k s = s\<lparr>s_e := unregister k (s_e s)\<rparr>"

definition sendICMP :: "(nat \<Rightarrow> send_result) \<Rightarrow> int \<Rightarrow> session \<Rightarrow> session \<times> (errno + nat)" where
  "sendICMP net ttl s =
    (let s = s\<lparr>s_seq := s_seq s + 1\<rparr>;
         key = \<lparr>k_proto = ICMP, k_v6 = s_v6 s, k_id = s_icmpID s, k_seq = s_seq s\<rparr>;
         (p, s) = alloc_probe key False s;
         s = s_register key s
     in case net p of
          Sent sat _ \<Rightarrow> (sent_ok p ttl sat s, Inr p)
        | SockErr e \<Rightarrow> (s_unregister key s, Inl e)
        | WriteErr e _ \<Rightarrow> (s_unregister key s, Inl e))"

text \<open>
  \<^verbatim>\<open>sendUDP\<close> and \<^verbatim>\<open>sendTCP\<close>: a socket of its own per probe, whose local port is the key.
  A socket that cannot be prepared fails before anything is registered. The goroutine that
  waits on the socket only calls \<^verbatim>\<open>deliver\<close>.
\<close>

definition send_socket ::
  "Protocol \<Rightarrow> bool \<Rightarrow> (nat \<Rightarrow> send_result) \<Rightarrow> int \<Rightarrow> session \<Rightarrow> session \<times> (errno + nat)" where
  "send_socket proto closer net ttl s =
    (let mk = (\<lambda>port. \<lparr>k_proto = proto, k_v6 = s_v6 s, k_id = port, k_seq = 0\<rparr>)
     in case net (s_next s) of
          SockErr e \<Rightarrow> (s\<lparr>s_next := Suc (s_next s)\<rparr>, Inl e)
        | Sent sat port \<Rightarrow>
            (let (p, s) = alloc_probe (mk port) closer s
             in (sent_ok p ttl sat (s_register (mk port) s), Inr p))
        | WriteErr e port \<Rightarrow>
            (let (p, s) = alloc_probe (mk port) closer s
             in (s_unregister (mk port) (s_register (mk port) s), Inl e)))"

definition sendUDP :: "(nat \<Rightarrow> send_result) \<Rightarrow> int \<Rightarrow> session \<Rightarrow> session \<times> (errno + nat)" where
  "sendUDP = send_socket UDP True"

definition sendTCP :: "(nat \<Rightarrow> send_result) \<Rightarrow> int \<Rightarrow> session \<Rightarrow> session \<times> (errno + nat)" where
  "sendTCP = send_socket TCP False"

definition isUnreachable :: "errno \<Rightarrow> bool" where
  "isUnreachable e = (e \<in> {ENETUNREACH, EHOSTUNREACH, ENETDOWN, EHOSTDOWN})"

text \<open>\<^verbatim>\<open>hop\<close> creates the statistics of a TTL on first use.\<close>

definition hop :: "int \<Rightarrow> session \<Rightarrow> session" where
  "hop ttl s = (case s_hops s ttl of
      None \<Rightarrow> s\<lparr>s_hops := (s_hops s)(ttl \<mapsto> new_hopStats)\<rparr>
    | Some _ \<Rightarrow> s)"

definition on_hop :: "int \<Rightarrow> (hopStats \<Rightarrow> hopStats) \<Rightarrow> session \<Rightarrow> session" where
  "on_hop ttl f s =
    (let s = hop ttl s in s\<lparr>s_hops := (s_hops s)(ttl \<mapsto> f (the (s_hops s ttl)))\<rparr>)"

definition on_cycle :: "nat \<Rightarrow> (cycleState \<Rightarrow> cycleState) \<Rightarrow> session \<Rightarrow> session sess_outcome" where
  "on_cycle n f s =
    obind (deref (s_cycles s n)) (\<lambda>c. Ok (s\<lparr>s_cycles := (s_cycles s)(n \<mapsto> f c)\<rparr>))"

definition send_proto ::
  "(nat \<Rightarrow> send_result) \<Rightarrow> int \<Rightarrow> session \<Rightarrow> (session \<times> (errno + nat)) option" where
  "send_proto net ttl s =
    (if sp_Protocol (s_spec s) = ICMP then Some (sendICMP net ttl s)
     else if sp_Protocol (s_spec s) = UDP then Some (sendUDP net ttl s)
     else if sp_Protocol (s_spec s) = TCP then Some (sendTCP net ttl s)
     else None)"

definition enqueue :: "int \<Rightarrow> nat \<Rightarrow> session \<Rightarrow> session" where
  "enqueue ttl p s =
    (let s = set_probe p (\<lambda>x. x\<lparr>p_ttl := ttl, p_cycle := s_cycle s,
               p_deadline := p_sentAt x + sp_ProbeTimeout (s_spec s)\<rparr>) s
     in s\<lparr>s_probes := (s_probes s)(p_key (s_heap s p) \<mapsto> p), s_queue := s_queue s @ [p]\<rparr>)"

definition send :: "(nat \<Rightarrow> send_result) \<Rightarrow> int \<Rightarrow> session \<Rightarrow> session sess_outcome" where
  "send net ttl s =
    (case send_proto net ttl (hop ttl s) of
       None \<Rightarrow> Panic
     | Some (s, r) \<Rightarrow>
         (let s = on_hop ttl sendProbe s
          in case r of
               Inl e \<Rightarrow>
                 if \<not> isUnreachable e then Fail (SendError e, s)
                 else on_cycle (s_cycle s) (\<lambda>c. c\<lparr>c_samples := (c_samples c)(ttl \<mapsto> None)\<rparr>)
                        (on_hop ttl lost s)
             | Inr p \<Rightarrow>
                 on_cycle (s_cycle s) (\<lambda>c. c\<lparr>c_outstanding := c_outstanding c + 1\<rparr>)
                   (enqueue ttl p s)))"

section \<open>Settling probes\<close>

definition settle :: "nat \<Rightarrow> session \<Rightarrow> session" where
  "settle p s =
    (let s = set_probe p (\<lambda>x. x\<lparr>p_settled := True\<rparr>) s;
         k = p_key (s_heap s p)
     in s_unregister k (s\<lparr>s_probes := (s_probes s)(k := None)\<rparr>))"

text \<open>Both callers touch the cycle only if it has not been reported yet.\<close>

definition settle_in_cycle :: "nat \<Rightarrow> (cycleState \<Rightarrow> cycleState) \<Rightarrow> session \<Rightarrow> session" where
  "settle_in_cycle n f s = (case s_cycles s n of
      None \<Rightarrow> s
    | Some c \<Rightarrow> s\<lparr>s_cycles := (s_cycles s)(n \<mapsto> f c)\<rparr>)"

definition handleReply :: "reply \<Rightarrow> session \<Rightarrow> session" where
  "handleReply r s = (case s_probes s (r_key r) of
      None \<Rightarrow> s
    | Some p \<Rightarrow>
        (let pr = s_heap s p
         in if p_settled pr then s
            else
              let rtt = (let d = r_at r - p_sentAt pr in if d < 0 then 0 else d);
                  target = (r_kind r = replyFromTarget);
                  s = settle p s;
                  s = on_hop (p_ttl pr) (Trace_Stats.reply (r_from r) rtt) s;
                  s = settle_in_cycle (p_cycle pr)
                        (\<lambda>c. c\<lparr>c_samples := (c_samples c)(p_ttl pr \<mapsto> Some rtt),
                              c_outstanding := c_outstanding c - 1,
                              c_targetSeen := c_targetSeen c \<or> target\<rparr>) s
              in if target then s\<lparr>s_reachedAt := p_ttl pr, s_missedTarget := 0\<rparr> else s))"

fun expire_loop :: "instant \<Rightarrow> nat list \<Rightarrow> session \<Rightarrow> session" where
  "expire_loop now [] s = s\<lparr>s_queue := []\<rparr>"
| "expire_loop now (p # q) s =
    (let pr = s_heap s p
     in if \<not> p_settled pr \<and> now < p_deadline pr then s\<lparr>s_queue := p # q\<rparr>
        else
          let s = s\<lparr>s_queue := q\<rparr>
          in if p_settled pr then expire_loop now q s
             else expire_loop now q
                    (settle_in_cycle (p_cycle pr)
                       (\<lambda>c. c\<lparr>c_samples := (c_samples c)(p_ttl pr \<mapsto> None),
                             c_outstanding := c_outstanding c - 1\<rparr>)
                       (on_hop (p_ttl pr) lost (settle p s))))"

definition expire :: "instant \<Rightarrow> session \<Rightarrow> session" where
  "expire now s = expire_loop now (s_queue s) s"

section \<open>Reporting cycles\<close>

definition miss_target :: "cycleState \<Rightarrow> session \<Rightarrow> session" where
  "miss_target c s =
    (if s_reachedAt s > 0 then
       (if c_targetSeen c then s\<lparr>s_missedTarget := 0\<rparr>
        else
          let s = s\<lparr>s_missedTarget := s_missedTarget s + 1\<rparr>
          in if s_missedTarget s \<ge> missedTargetLimit then s\<lparr>s_reachedAt := 0\<rparr> else s)
     else s)"

definition report :: "(addr \<Rightarrow> string) \<Rightarrow> cycleState \<Rightarrow> session \<Rightarrow> session sess_outcome" where
  "report name c s =
    (let s = s\<lparr>s_cycles := (s_cycles s)(c_number c := None), s_nextEmit := Suc (c_number c)\<rparr>;
         s = miss_target c s
     in if c_ttls c = [] then Panic
        else
          let last = last (c_ttls c);
              last = (if s_reachedAt s > 0 \<and> s_reachedAt s < last then s_reachedAt s else last);
              ttls = takeWhile (\<lambda>ttl. ttl \<le> last) (c_ttls c);
              names = (if sp_ResolveNames (s_spec s) then Some name else None);
              s = fold hop ttls s;
              hops = map (\<lambda>ttl. snapshot ttl (Option.bind (c_samples c ttl) id) names
                                  (the (s_hops s ttl))) ttls
          in Ok (emit (CycleDone \<lparr>cy_Number = c_number c, cy_ReachedAt = s_reachedAt s,
                                  cy_Hops = hops\<rparr>) s))"

fun tryEmit_loop :: "nat \<Rightarrow> (addr \<Rightarrow> string) \<Rightarrow> session \<Rightarrow> session sess_outcome" where
  "tryEmit_loop 0 name s = Diverge"
| "tryEmit_loop (Suc fuel) name s = (case s_cycles s (s_nextEmit s) of
      None \<Rightarrow> Ok s
    | Some c \<Rightarrow>
        if c_sending c \<or> c_outstanding c > 0 then Ok s
        else obind (report name c s) (tryEmit_loop fuel name))"

text \<open>One more round than there can be cycles to report.\<close>

definition tryEmit :: "(addr \<Rightarrow> string) \<Rightarrow> session \<Rightarrow> session sess_outcome" where
  "tryEmit name s = tryEmit_loop (Suc (Suc (s_cycle s) - s_nextEmit s)) name s"

fun forceEmit_loop :: "nat \<Rightarrow> (addr \<Rightarrow> string) \<Rightarrow> nat \<Rightarrow> session \<Rightarrow> session sess_outcome" where
  "forceEmit_loop 0 name n s = Diverge"
| "forceEmit_loop (Suc fuel) name n s =
    (if s_nextEmit s \<le> n then
       (case s_cycles s (s_nextEmit s) of
          None \<Rightarrow> forceEmit_loop fuel name n (s\<lparr>s_nextEmit := Suc (s_nextEmit s)\<rparr>)
        | Some c \<Rightarrow> obind (report name c s) (forceEmit_loop fuel name n))
     else Ok s)"

definition forceEmit :: "(addr \<Rightarrow> string) \<Rightarrow> nat \<Rightarrow> session \<Rightarrow> session sess_outcome" where
  "forceEmit name n s = forceEmit_loop (Suc (Suc n - s_nextEmit s)) name n s"

definition flush :: "(addr \<Rightarrow> string) \<Rightarrow> bool \<Rightarrow> session \<Rightarrow> session sess_outcome" where
  "flush name cancelled s =
    obind (forceEmit name (s_cycle s) s) (\<lambda>s. Ok (emit (Finished cancelled) s))"

section \<open>Sending on schedule\<close>

text \<open>\<^verbatim>\<open>make([]int, 0, n)\<close> panics on a negative capacity.\<close>

definition ttlsForCycle :: "session \<Rightarrow> (int list) sess_outcome" where
  "ttlsForCycle s =
    (if sp_Mode (s_spec s) = Ping then Ok [sp_MaxTTL (s_spec s)]
     else
       let upTo = sp_MaxTTL (s_spec s);
           upTo = (if s_reachedAt s > 0 \<and> s_reachedAt s < upTo then s_reachedAt s else upTo)
       in if upTo - sp_FirstTTL (s_spec s) + 1 < 0 then Panic
          else Ok [sp_FirstTTL (s_spec s)..upTo])"

definition new_cycle :: "nat \<Rightarrow> int list \<Rightarrow> cycleState" where
  "new_cycle n ttls = \<lparr>c_number = n, c_ttls = ttls, c_sending = True, c_outstanding = 0,
     c_samples = Map.empty, c_targetSeen = False\<rparr>"

definition startCycle :: "(addr \<Rightarrow> string) \<Rightarrow> session \<Rightarrow> session sess_outcome" where
  "startCycle name s =
    (let s = s\<lparr>s_cycle := Suc (s_cycle s)\<rparr>
     in obind (forceEmit name (s_cycle s - 1) s) (\<lambda>s.
        obind (ttlsForCycle s) (\<lambda>ttls.
        let s = s\<lparr>s_cycleTTLs := ttls\<rparr>
        in Ok (s\<lparr>s_cycles := (s_cycles s)(s_cycle s \<mapsto> new_cycle (s_cycle s) ttls)\<rparr>))))"

definition endCycle :: "session \<Rightarrow> session sess_outcome" where
  "endCycle s =
    obind (on_cycle (s_cycle s) (\<lambda>c. c\<lparr>c_sending := False\<rparr>) s) (\<lambda>s.
    let s = s\<lparr>s_sendIdx := 0\<rparr>
    in if int (s_cycle s) \<ge> sp_Cycles (s_spec s) then Ok (s\<lparr>s_sendingDone := True\<rparr>)
       else
         let s = s\<lparr>s_cycleStart := s_cycleStart s + sp_Interval (s_spec s)\<rparr>
         in Ok (s\<lparr>s_nextSendAt := s_cycleStart s\<rparr>))"

text \<open>The body of the loop of \<^verbatim>\<open>sendDue\<close>: open the cycle when the index is 0, then send the
  next probe of the cycle or end it.\<close>

definition advance :: "session \<Rightarrow> session sess_outcome" where
  "advance s =
    (let s = s\<lparr>s_sendIdx := Suc (s_sendIdx s)\<rparr>
     in if s_sendIdx s < length (s_cycleTTLs s) then
          Ok (s\<lparr>s_nextSendAt := s_cycleStart s +
            go_div (sp_Interval (s_spec s) * int (s_sendIdx s)) (int (length (s_cycleTTLs s)))\<rparr>)
        else endCycle s)"

definition sendNext :: "(nat \<Rightarrow> send_result) \<Rightarrow> session \<Rightarrow> session sess_outcome" where
  "sendNext net s =
    obind (index (s_cycleTTLs s) (s_sendIdx s)) (\<lambda>ttl.
    if s_reachedAt s > 0 \<and> ttl > s_reachedAt s then
      obind (on_cycle (s_cycle s) (\<lambda>c. c\<lparr>c_ttls := take (s_sendIdx s) (s_cycleTTLs s)\<rparr>) s) endCycle
    else
      obind (send net ttl s) advance)"

definition sendDue_body ::
  "(addr \<Rightarrow> string) \<Rightarrow> (nat \<Rightarrow> send_result) \<Rightarrow> session \<Rightarrow> session sess_outcome" where
  "sendDue_body name net s =
    obind (if s_sendIdx s = 0 then startCycle name s else Ok s) (sendNext net)"

end
