(* ===== verification/Trace_Schedule.thy ===== *)
theory Trace_Schedule
  imports Trace_Session
begin

text \<open>
  The sending loop of \<^verbatim>\<open>internal/trace/session.go\<close>: what reporting a cycle leaves alone,
  the loop of \<^verbatim>\<open>sendDue\<close> with its termination, and the schedule the probes leave on.
\<close>

section \<open>What reporting leaves alone\<close>

text \<open>Reporting touches the open cycles, the per-TTL statistics it creates, the route length and
  the events. Everything else of a session is as before.\<close>

definition report_frame :: "session \<Rightarrow> session \<Rightarrow> bool" where
  "report_frame s s' \<longleftrightarrow>
     s_id s' = s_id s \<and> s_e s' = s_e s \<and> s_spec s' = s_spec s \<and> s_icmpID s' = s_icmpID s \<and>
     s_v6 s' = s_v6 s \<and> s_tos s' = s_tos s \<and> s_probes s' = s_probes s \<and> s_heap s' = s_heap s \<and>
     s_next s' = s_next s \<and> s_queue s' = s_queue s \<and> s_cycle s' = s_cycle s \<and>
     s_sendIdx s' = s_sendIdx s \<and> s_cycleTTLs s' = s_cycleTTLs s \<and>
     s_cycleStart s' = s_cycleStart s \<and> s_nextSendAt s' = s_nextSendAt s \<and>
     s_sendingDone s' = s_sendingDone s \<and> s_wire s' = s_wire s \<and> s_replies s' = s_replies s"

lemma report_frame_refl [simp]: "report_frame s s"
  by (simp add: report_frame_def)

lemma report_frame_trans: "report_frame s t \<Longrightarrow> report_frame t u \<Longrightarrow> report_frame s u"
  by (simp add: report_frame_def)

lemma hop_frame: "report_frame s (hop ttl s)"
  by (simp add: hop_def report_frame_def split: option.split)

lemma fold_hop_frame: "report_frame s (fold hop ttls s)"
  by (induction ttls arbitrary: s) (auto intro: report_frame_trans hop_frame)

lemma miss_target_frame: "report_frame s (miss_target c s)"
  by (simp add: miss_target_def report_frame_def Let_def)

lemma report_frame:
  assumes "report name c s = Ok s'"
  shows "report_frame s s'"
proof -
  let ?s1 = "s\<lparr>s_cycles := (s_cycles s)(c_number c := None), s_nextEmit := Suc (c_number c)\<rparr>"
  from assms obtain ttls ev where "s' = emit ev (fold hop ttls (miss_target c ?s1))"
    by (auto simp: report_def Let_def split: if_splits)
  moreover have "report_frame s ?s1"
    by (simp add: report_frame_def)
  moreover have "report_frame t (emit ev t)" for t
    by (simp add: emit_def report_frame_def)
  ultimately show ?thesis
    using miss_target_frame [of ?s1 c] fold_hop_frame [of "miss_target c ?s1" ttls]
    by (auto intro: report_frame_trans)
qed

lemma forceEmit_loop_frame: "forceEmit_loop fuel name n s = Ok s' \<Longrightarrow> report_frame s s'"
proof (induction fuel arbitrary: s)
  case (Suc fuel)
  show ?case
  proof (cases "s_nextEmit s \<le> n")
    case True
    show ?thesis
    proof (cases "s_cycles s (s_nextEmit s)")
      case None
      with True Suc have "report_frame (s\<lparr>s_nextEmit := Suc (s_nextEmit s)\<rparr>) s'" by simp
      then show ?thesis by (simp add: report_frame_def)
    next
      case (Some c)
      with True Suc.prems obtain t where "report name c s = Ok t" "forceEmit_loop fuel name n t = Ok s'"
        by auto
      then show ?thesis using Suc.IH report_frame report_frame_trans by blast
    qed
  qed (use Suc.prems in simp)
qed simp

lemma tryEmit_loop_frame: "tryEmit_loop fuel name s = Ok s' \<Longrightarrow> report_frame s s'"
proof (induction fuel arbitrary: s)
  case (Suc fuel)
  then show ?case
    by (auto split: option.splits if_splits dest: report_frame intro: report_frame_trans)
qed simp

lemma forceEmit_frame: "forceEmit name n s = Ok s' \<Longrightarrow> report_frame s s'"
  unfolding forceEmit_def by (rule forceEmit_loop_frame)

lemma tryEmit_frame: "tryEmit name s = Ok s' \<Longrightarrow> report_frame s s'"
  unfolding tryEmit_def by (rule tryEmit_loop_frame)

section \<open>What a send leaves alone\<close>

text \<open>The fields that say where the sending loop stands.\<close>

definition send_frame :: "session \<Rightarrow> session \<Rightarrow> bool" where
  "send_frame s s' \<longleftrightarrow>
     s_id s' = s_id s \<and> s_spec s' = s_spec s \<and> s_v6 s' = s_v6 s \<and> s_tos s' = s_tos s \<and>
     s_icmpID s' = s_icmpID s \<and> s_cycle s' = s_cycle s \<and> s_nextEmit s' = s_nextEmit s \<and>
     s_sendIdx s' = s_sendIdx s \<and> s_cycleTTLs s' = s_cycleTTLs s \<and>
     s_cycleStart s' = s_cycleStart s \<and> s_nextSendAt s' = s_nextSendAt s \<and>
     s_sendingDone s' = s_sendingDone s \<and> s_reachedAt s' = s_reachedAt s \<and>
     s_missedTarget s' = s_missedTarget s \<and> s_out s' = s_out s \<and> s_replies s' = s_replies s"

lemma send_frame_refl [simp]: "send_frame s s"
  by (simp add: send_frame_def)

lemma send_frame_trans: "send_frame s t \<Longrightarrow> send_frame t u \<Longrightarrow> send_frame s u"
  by (simp add: send_frame_def)

lemmas send_parts = sendICMP_def send_socket_def sendUDP_def sendTCP_def alloc_probe_def
  s_register_def s_unregister_def sent_ok_def set_probe_def

lemma send_proto_frame:
  assumes "send_proto net ttl s = Some (s', r)"
  shows "send_frame s s' \<and> s_cycles s' = s_cycles s \<and> s_hops s' = s_hops s \<and>
    s_queue s' = s_queue s \<and> s_probes s' = s_probes s"
  using assms
  by (auto simp: send_proto_def send_parts send_frame_def Let_def split: if_splits send_result.splits)

lemma on_hop_frame: "send_frame s (on_hop ttl f s)"
  by (simp add: on_hop_def hop_def Let_def send_frame_def split: option.split)

lemma hop_send_frame: "send_frame s (hop ttl s)"
  by (simp add: hop_def send_frame_def split: option.split)

lemma enqueue_frame: "send_frame s (enqueue ttl p s)"
  by (simp add: enqueue_def set_probe_def send_frame_def Let_def)

lemma on_cycle_frame: "on_cycle n f s = Ok s' \<Longrightarrow> send_frame s s'"
  by (auto simp: on_cycle_def deref_def send_frame_def split: option.splits)

lemma send_frame: "send net ttl s = Ok s' \<Longrightarrow> send_frame s s'"
proof -
  assume ok: "send net ttl s = Ok s'"
  then obtain t r where t: "send_proto net ttl (hop ttl s) = Some (t, r)"
    by (auto simp: send_def split: option.splits)
  let ?u = "on_hop ttl sendProbe t"
  from t ok obtain n f v where "on_cycle n f v = Ok s'" "send_frame ?u v"
    by (auto simp: send_def Let_def split: sum.splits if_splits
        intro: on_hop_frame enqueue_frame)
  then show ?thesis
    by (meson hop_send_frame on_cycle_frame on_hop_frame send_frame_trans send_proto_frame t)
qed

section \<open>The sending loop\<close>

lemma endCycle_frame:
  assumes "endCycle s = Ok s'"
  shows "s_sendIdx s' = 0 \<and> s_cycle s' = s_cycle s \<and> s_spec s' = s_spec s \<and>
    (s_sendingDone s' \<or> int (s_cycle s) < sp_Cycles (s_spec s))"
  using assms
  by (auto simp: endCycle_def on_cycle_def deref_def Let_def split: option.splits if_splits)

lemma startCycle_frame:
  assumes "startCycle name s = Ok s'"
  shows "s_cycle s' = Suc (s_cycle s) \<and> s_sendIdx s' = s_sendIdx s \<and> s_spec s' = s_spec s \<and>
    s_cycleStart s' = s_cycleStart s \<and> s_nextSendAt s' = s_nextSendAt s \<and>
    s_sendingDone s' = s_sendingDone s"
  using assms
  by (auto simp: startCycle_def Let_def report_frame_def dest!: forceEmit_frame)

text \<open>Where the loop stands: whether it is done, the cycles to come, the probes left in this one.\<close>

definition cycles_left :: "session \<Rightarrow> nat" where
  "cycles_left s = 2 * nat (sp_Cycles (s_spec s) - int (s_cycle s)) +
     (if (s_sendIdx s = 0) = (sp_Cycles (s_spec s) \<le> int (s_cycle s)) then 1 else 0)"

definition probes_left :: "session \<Rightarrow> nat" where
  "probes_left s = (if s_sendIdx s = 0 then 0 else length (s_cycleTTLs s) - s_sendIdx s)"

lemma sendNext_progress:
  assumes "sendNext net s = Ok s'" and "\<not> s_sendingDone s'"
  shows "s_spec s' = s_spec s \<and> s_cycle s' = s_cycle s \<and>
    (s_sendIdx s' = 0 \<and> int (s_cycle s) < sp_Cycles (s_spec s) \<or>
     s_sendIdx s' = Suc (s_sendIdx s) \<and> s_cycleTTLs s' = s_cycleTTLs s \<and>
     s_sendIdx s' < length (s_cycleTTLs s))"
proof -
  obtain ttl where ttl: "index (s_cycleTTLs s) (s_sendIdx s) = (Ok ttl :: int sess_outcome)"
    using assms by (auto simp: sendNext_def)
  show ?thesis
  proof (cases "s_reachedAt s > 0 \<and> ttl > s_reachedAt s")
    case True
    with ttl assms(1) obtain t where t: "on_cycle (s_cycle s)
        (\<lambda>c. c\<lparr>c_ttls := take (s_sendIdx s) (s_cycleTTLs s)\<rparr>) s = Ok t" and e: "endCycle t = Ok s'"
      by (auto simp: sendNext_def)
    then show ?thesis using on_cycle_frame [OF t] endCycle_frame [OF e] assms(2)
      by (simp add: send_frame_def)
  next
    case False
    with ttl assms(1) obtain t where t: "send net ttl s = Ok t" and u: "advance t = Ok s'"
      by (auto simp: sendNext_def)
    show ?thesis
    proof (cases "Suc (s_sendIdx t) < length (s_cycleTTLs t)")
      case True
      with u obtain x where "s' = t\<lparr>s_sendIdx := Suc (s_sendIdx t), s_nextSendAt := x\<rparr>"
        by (auto simp: advance_def Let_def)
      then show ?thesis using send_frame [OF t] True by (simp add: send_frame_def)
    next
      case False
      with u have "endCycle (t\<lparr>s_sendIdx := Suc (s_sendIdx t)\<rparr>) = Ok s'" by (simp add: advance_def Let_def)
      from endCycle_frame [OF this] show ?thesis using send_frame [OF t] assms(2)
        by (simp add: send_frame_def)
    qed
  qed
qed


lemma sendDue_body_progress:
  assumes "sendDue_body name net s = Ok s'"
  shows "s_sendingDone s' \<or> cycles_left s' < cycles_left s \<or>
    cycles_left s' = cycles_left s \<and> probes_left s' < probes_left s"
proof (cases "s_sendingDone s'")
  case False
  show ?thesis
  proof (cases "s_sendIdx s = 0")
    case True
    with assms obtain t where t: "startCycle name s = Ok t" and s': "sendNext net t = Ok s'"
      by (auto simp: sendDue_body_def)
    from startCycle_frame [OF t] sendNext_progress [OF s' False] True show ?thesis
      by (auto simp: cycles_left_def)
  next
    case idx: False
    with assms have "sendNext net s = Ok s'"
      by (simp add: sendDue_body_def)
    from sendNext_progress [OF this False] idx show ?thesis
      by (auto simp: cycles_left_def probes_left_def)
  qed
qed simp

function (sequential) sendDue ::
  "(addr \<Rightarrow> string) \<Rightarrow> (nat \<Rightarrow> send_result) \<Rightarrow> instant \<Rightarrow> session \<Rightarrow> session sess_outcome" where
  "sendDue name net now s =
    (if s_sendingDone s \<or> now < s_nextSendAt s then Ok s
     else (case sendDue_body name net s of
             Ok s' \<Rightarrow> sendDue name net now s'
           | Fail e \<Rightarrow> Fail e
           | Panic \<Rightarrow> Panic
           | Diverge \<Rightarrow> Diverge))"
  by pat_completeness auto
termination
proof (relation "measures [\<lambda>(_, _, _, s). if s_sendingDone s then 0 else 1,
    \<lambda>(_, _, _, s). cycles_left s, \<lambda>(_, _, _, s). probes_left s]")
  fix name net now s s'
  assume "\<not> (s_sendingDone s \<or> now < s_nextSendAt s)" and "sendDue_body name net s = Ok s'"
  then show "((name, net, now, s'), name, net, now, s) \<in> measures [\<lambda>(_, _, _, s).
      if s_sendingDone s then 0 else 1, \<lambda>(_, _, _, s). cycles_left s, \<lambda>(_, _, _, s). probes_left s]"
    using sendDue_body_progress [of name net s s'] by auto
qed simp

declare sendDue.simps [simp del]

lemma sendDue_unfold:
  "sendDue name net now s =
    (if s_sendingDone s \<or> now < s_nextSendAt s then Ok s
     else obind (sendDue_body name net s) (sendDue name net now))"
  by (subst sendDue.simps) (simp split: outcome.split)

text \<open>A property that every round of the loop keeps holds after it; a round that fails fails the loop.\<close>

lemma sendDue_safe:
  assumes step: "\<And>s. P s \<Longrightarrow> \<not> s_sendingDone s \<Longrightarrow> s_nextSendAt s \<le> now \<Longrightarrow>
      safe (sendDue_body name net s) P E"
    and start: "P s"
  shows "safe (sendDue name net now s) (\<lambda>s'. P s' \<and> (s_sendingDone s' \<or> now < s_nextSendAt s')) E"
  using assms
proof (induction name net now s rule: sendDue.induct)
  case (1 name net now s)
  show ?case
  proof (cases "s_sendingDone s \<or> now < s_nextSendAt s")
    case True
    with 1(3) show ?thesis by (subst sendDue.simps) simp
  next
    case False
    then have "safe (sendDue_body name net s) P E"
      using 1(2) [OF 1(3)] by simp
    with False 1(1) [OF False] 1(2) show ?thesis
      by (subst sendDue.simps) (auto split: outcome.split)
  qed
qed


lemma sendNext_spec: "sendNext net s = Ok s' \<Longrightarrow> s_spec s' = s_spec s"
proof -
  assume "sendNext net s = Ok s'"
  then obtain t where "(\<exists>f. on_cycle (s_cycle s) f s = Ok t \<and> endCycle t = Ok s') \<or>
      (\<exists>ttl. send net ttl s = Ok t \<and> advance t = Ok s')"
    by (auto simp: sendNext_def split: if_splits)
  moreover have "advance u = Ok v \<Longrightarrow> s_spec v = s_spec u" for u v
    by (auto simp: advance_def Let_def split: if_splits dest!: endCycle_frame)
  ultimately show ?thesis
    using on_cycle_frame [of "s_cycle s" _ s t] send_frame [of net _ s t] endCycle_frame [of t s']
    by (auto simp: send_frame_def)
qed

lemma sendDue_spec: "sendDue name net now s = Ok s' \<Longrightarrow> s_spec s' = s_spec s"
proof (induction name net now s rule: sendDue.induct)
  case (1 name net now s)
  show ?case
  proof (cases "s_sendingDone s \<or> now < s_nextSendAt s")
    case True
    with 1(2) show ?thesis by (simp add: sendDue_unfold)
  next
    case False
    with 1(2) obtain t where t: "sendDue_body name net s = Ok t" "sendDue name net now t = Ok s'"
      by (subst (asm) sendDue_unfold) auto
    then have "s_spec t = s_spec s"
      using sendNext_spec startCycle_frame by (fastforce simp: sendDue_body_def split: if_splits)
    with 1(1) [OF False t] show ?thesis by simp
  qed
qed

end
