(* ===== verification/Trace_Invariant.thy ===== *)
theory Trace_Invariant
  imports Trace_Schedule
begin

text \<open>
  What is true of a session at every point of its run loop, for the session of
  \<^verbatim>\<open>internal/trace/session.go\<close>: the queue and the map of probes in flight agree, the
  counters of the statistics and of the open cycles are the numbers of unsettled probes,
  the open cycles are exactly those not reported yet, the events emitted are the cycles in
  order, the registry of the engine holds no key of this run that the run has forgotten,
  and every packet sent carried a TTL and a traffic class of the specification.
\<close>

section \<open>The invariant\<close>

definition live :: "session \<Rightarrow> nat \<Rightarrow> bool" where
  "live s p \<longleftrightarrow> \<not> p_settled (s_heap s p)"

definition flying :: "session \<Rightarrow> int \<Rightarrow> int" where
  "flying s ttl = count_if (\<lambda>p. live s p \<and> p_ttl (s_heap s p) = ttl) (s_queue s)"

definition outstanding :: "session \<Rightarrow> nat \<Rightarrow> int" where
  "outstanding s n = count_if (\<lambda>p. live s p \<and> p_cycle (s_heap s p) = n) (s_queue s)"

definition in_ttls :: "Spec \<Rightarrow> int \<Rightarrow> bool" where
  "in_ttls spec ttl \<longleftrightarrow> sp_FirstTTL spec \<le> ttl \<and> ttl \<le> sp_MaxTTL spec"

definition ttl_range :: "Spec \<Rightarrow> int list \<Rightarrow> bool" where
  "ttl_range spec ttls \<longleftrightarrow> (\<exists>k. in_ttls spec k \<and> ttls = [sp_FirstTTL spec..k])"

definition queue_inv :: "session \<Rightarrow> bool" where
  "queue_inv s \<longleftrightarrow> distinct (s_queue s) \<and> (\<forall>p \<in> set (s_queue s). p < s_next s) \<and>
     (\<forall>p \<in> set (s_queue s). in_ttls (s_spec s) (p_ttl (s_heap s p))) \<and>
     (\<forall>k p. s_probes s k = Some p \<longrightarrow> p \<in> set (s_queue s) \<and> live s p \<and> p_key (s_heap s p) = k)"

definition hop_inv :: "int \<Rightarrow> hopStats option \<Rightarrow> bool" where
  "hop_inv n ho = (case ho of None \<Rightarrow> n = 0 | Some h \<Rightarrow> hop_ok h \<and> h_inFlight h = n)"

definition hops_inv :: "session \<Rightarrow> bool" where
  "hops_inv s \<longleftrightarrow> (\<forall>ttl. hop_inv (flying s ttl) (s_hops s ttl))"

definition cycle_inv :: "session \<Rightarrow> nat \<Rightarrow> bool \<Rightarrow> nat \<Rightarrow> cycleState \<Rightarrow> bool" where
  "cycle_inv s hi act n c \<longleftrightarrow> c_number c = n \<and> ttl_range (s_spec s) (c_ttls c) \<and>
     c_outstanding c = outstanding s n \<and> (c_sending c \<longleftrightarrow> n = hi \<and> act)"

definition cycles_inv :: "nat \<Rightarrow> bool \<Rightarrow> session \<Rightarrow> bool" where
  "cycles_inv hi act s \<longleftrightarrow> 1 \<le> s_nextEmit s \<and> s_nextEmit s \<le> Suc hi \<and>
     dom (s_cycles s) = {s_nextEmit s..hi} \<and>
     (\<forall>p \<in> set (s_queue s). p_cycle (s_heap s p) \<le> hi) \<and>
     (\<forall>n c. s_cycles s n = Some c \<longrightarrow> cycle_inv s hi act n c)"

definition reach_inv :: "session \<Rightarrow> bool" where
  "reach_inv s \<longleftrightarrow> s_reachedAt s = 0 \<or> in_ttls (s_spec s) (s_reachedAt s)"

text \<open>The events so far: the start, then cycles 1, 2, ... each once, with the hops from the
  first TTL on.\<close>

definition out_inv :: "session \<Rightarrow> bool" where
  "out_inv s \<longleftrightarrow> (\<exists>cs. s_out s = Started (s_spec s) # map CycleDone cs \<and>
     map cy_Number cs = [1..<s_nextEmit s] \<and>
     (\<forall>c \<in> set cs. ttl_range (s_spec s) (map hp_TTL (cy_Hops c))))"

definition reg_inv :: "session \<Rightarrow> bool" where
  "reg_inv s \<longleftrightarrow> (\<forall>k. owner (s_e s) k = Some (s_id s) \<longrightarrow> k \<in> dom (s_probes s))"

definition wire_inv :: "session \<Rightarrow> bool" where
  "wire_inv s \<longleftrightarrow> s_tos s = 4 * sp_DSCP (s_spec s) \<and>
     (\<forall>w \<in> set (s_wire s). in_ttls (s_spec s) (w_ttl w) \<and> w_tos w = s_tos s)"

definition sess_inv :: "nat \<Rightarrow> bool \<Rightarrow> session \<Rightarrow> bool" where
  "sess_inv hi act s \<longleftrightarrow> spec_ok (s_spec s) \<and> queue_inv s \<and> hops_inv s \<and> cycles_inv hi act s \<and>
     reach_inv s \<and> out_inv s \<and> reg_inv s \<and> wire_inv s"

text \<open>Where the sending loop stands.\<close>

definition loop_inv :: "session \<Rightarrow> bool" where
  "loop_inv s \<longleftrightarrow>
     (0 < s_sendIdx s \<longrightarrow> s_sendIdx s < length (s_cycleTTLs s) \<and>
        ttl_range (s_spec s) (s_cycleTTLs s) \<and> s_nextEmit s \<le> s_cycle s) \<and>
     int (s_cycle s) \<le> sp_Cycles (s_spec s) \<and>
     (s_sendingDone s \<longrightarrow> s_sendIdx s = 0 \<and> int (s_cycle s) = sp_Cycles (s_spec s)) \<and>
     (\<not> s_sendingDone s \<and> s_sendIdx s = 0 \<longrightarrow> int (s_cycle s) < sp_Cycles (s_spec s))"

definition session_inv :: "session \<Rightarrow> bool" where
  "session_inv s \<longleftrightarrow> sess_inv (s_cycle s) (0 < s_sendIdx s) s \<and> loop_inv s"

lemmas sess_inv_parts = queue_inv_def hops_inv_def cycles_inv_def cycle_inv_def reach_inv_def
  out_inv_def reg_inv_def wire_inv_def live_def flying_def outstanding_def

lemma sess_inv_loop_fields [simp]:
  "sess_inv hi act (s\<lparr>s_cycle := n\<rparr>) = sess_inv hi act s"
  "sess_inv hi act (s\<lparr>s_sendIdx := i\<rparr>) = sess_inv hi act s"
  "sess_inv hi act (s\<lparr>s_cycleTTLs := ttls\<rparr>) = sess_inv hi act s"
  "sess_inv hi act (s\<lparr>s_cycleStart := a\<rparr>) = sess_inv hi act s"
  "sess_inv hi act (s\<lparr>s_nextSendAt := a\<rparr>) = sess_inv hi act s"
  "sess_inv hi act (s\<lparr>s_sendingDone := d\<rparr>) = sess_inv hi act s"
  "sess_inv hi act (s\<lparr>s_replies := rs\<rparr>) = sess_inv hi act s"
  "sess_inv hi act (s\<lparr>s_dropped := k\<rparr>) = sess_inv hi act s"
  by (simp_all add: sess_inv_def sess_inv_parts)

lemma hops_inv_Some: "hops_inv s \<Longrightarrow> s_hops s ttl = Some h \<Longrightarrow> hop_ok h \<and> h_inFlight h = flying s ttl"
  unfolding hops_inv_def hop_inv_def by (drule spec [of _ ttl]) simp

lemma hops_inv_None: "hops_inv s \<Longrightarrow> s_hops s ttl = None \<Longrightarrow> flying s ttl = 0"
  unfolding hops_inv_def hop_inv_def by (drule spec [of _ ttl]) simp

section \<open>Settling a probe\<close>

text \<open>What \<^verbatim>\<open>handleReply\<close> and \<^verbatim>\<open>expire\<close> share: a probe in flight is settled, the statistics of
  its TTL take note, and so does its cycle if it has not been reported.\<close>

definition retire ::
  "(hopStats \<Rightarrow> hopStats) \<Rightarrow> (cycleState \<Rightarrow> cycleState) \<Rightarrow> nat \<Rightarrow> session \<Rightarrow> session" where
  "retire f g p s =
    settle_in_cycle (p_cycle (s_heap s p)) g (on_hop (p_ttl (s_heap s p)) f (settle p s))"

lemma settle_eq:
  "settle p s = s\<lparr>s_heap := (s_heap s)(p := (s_heap s p)\<lparr>p_settled := True\<rparr>),
     s_probes := (s_probes s)(p_key (s_heap s p) := None),
     s_e := unregister (p_key (s_heap s p)) (s_e s)\<rparr>"
  by (simp add: settle_def set_probe_def s_unregister_def Let_def)

lemma on_hop_eq:
  "on_hop ttl f s = s\<lparr>s_hops := (s_hops s)(ttl \<mapsto> f (case s_hops s ttl of None \<Rightarrow> new_hopStats | Some h \<Rightarrow> h))\<rparr>"
  by (simp add: on_hop_def hop_def Let_def split: option.split)

lemma settle_in_cycle_eq:
  "settle_in_cycle n g s = s\<lparr>s_cycles := (s_cycles s)(n := map_option g (s_cycles s n))\<rparr>"
  by (auto simp: settle_in_cycle_def fun_upd_idem split: option.split)

lemma retire_eq:
  "retire f g p s =
    (let x = s_heap s p
     in s\<lparr>s_heap := (s_heap s)(p := x\<lparr>p_settled := True\<rparr>),
          s_probes := (s_probes s)(p_key x := None), s_e := unregister (p_key x) (s_e s),
          s_hops := (s_hops s)(p_ttl x \<mapsto> f (case s_hops s (p_ttl x) of None \<Rightarrow> new_hopStats | Some h \<Rightarrow> h)),
          s_cycles := (s_cycles s)(p_cycle x := map_option g (s_cycles s (p_cycle x)))\<rparr>)"
  by (simp add: retire_def settle_in_cycle_eq on_hop_eq settle_eq Let_def)

lemma retire_live: "live (retire f g p s) q \<longleftrightarrow> live s q \<and> q \<noteq> p"
  by (simp add: live_def retire_eq Let_def)

lemma retire_heap:
  "p_ttl (s_heap (retire f g p s) q) = p_ttl (s_heap s q)"
  "p_cycle (s_heap (retire f g p s) q) = p_cycle (s_heap s q)"
  "p_key (s_heap (retire f g p s) q) = p_key (s_heap s q)"
  "s_queue (retire f g p s) = s_queue s"
  by (simp_all add: retire_eq Let_def)

lemma retire_counts:
  assumes "distinct (s_queue s)" and "p \<in> set (s_queue s)" and "live s p"
  shows "flying (retire f g p s) ttl = flying s ttl - (if p_ttl (s_heap s p) = ttl then 1 else 0)"
    and "outstanding (retire f g p s) n =
      outstanding s n - (if p_cycle (s_heap s p) = n then 1 else 0)"
proof -
  have "count_if (\<lambda>q. (live s q \<and> q \<noteq> p) \<and> R q) (s_queue s) =
      count_if (\<lambda>q. live s q \<and> R q) (s_queue s) - (if R p then 1 else 0)" for R
    using assms count_if_drop_one [of "s_queue s" p "\<lambda>q. (live s q \<and> q \<noteq> p) \<and> R q"
        "\<lambda>q. live s q \<and> R q"] by simp
  then show "flying (retire f g p s) ttl = flying s ttl - (if p_ttl (s_heap s p) = ttl then 1 else 0)"
    and "outstanding (retire f g p s) n =
      outstanding s n - (if p_cycle (s_heap s p) = n then 1 else 0)"
    by (simp_all add: flying_def outstanding_def retire_live retire_heap)
qed

lemma flying_pos:
  assumes "p \<in> set (s_queue s)" and "live s p"
  shows "0 < flying s (p_ttl (s_heap s p))"
  using assms count_if_zero_iff [of "\<lambda>q. live s q \<and> p_ttl (s_heap s q) = p_ttl (s_heap s p)" "s_queue s"]
    count_if_nonneg [of "\<lambda>q. live s q \<and> p_ttl (s_heap s q) = p_ttl (s_heap s p)" "s_queue s"]
  by (auto simp: flying_def less_le)


text \<open>The obligations on what the statistics and the cycle do with a settled probe.\<close>

definition retires_hop :: "(hopStats \<Rightarrow> hopStats) \<Rightarrow> bool" where
  "retires_hop f \<longleftrightarrow> (\<forall>h. h_inFlight (f h) = h_inFlight h - 1 \<and>
     (hop_ok h \<and> 0 < h_inFlight h \<longrightarrow> hop_ok (f h)))"

definition retires_cycle :: "(cycleState \<Rightarrow> cycleState) \<Rightarrow> bool" where
  "retires_cycle g \<longleftrightarrow> (\<forall>c. c_outstanding (g c) = c_outstanding c - 1 \<and> c_number (g c) = c_number c \<and>
     c_ttls (g c) = c_ttls c \<and> c_sending (g c) = c_sending c)"

lemma retire_queue_inv: "queue_inv s \<Longrightarrow> queue_inv (retire f g p s)"
  by (auto simp: queue_inv_def retire_heap retire_live)
    (auto simp: retire_eq Let_def split: if_splits)

lemma retire_hops_inv:
  assumes "hops_inv s" and "queue_inv s" and p: "p \<in> set (s_queue s)" "live s p" and "retires_hop f"
  shows "hops_inv (retire f g p s)"
proof -
  let ?t = "p_ttl (s_heap s p)"
  have d: "distinct (s_queue s)" using assms(2) by (simp add: queue_inv_def)
  obtain h where h: "s_hops s ?t = Some h"
    using hops_inv_None [OF assms(1)] flying_pos [OF p] by (cases "s_hops s ?t") auto
  from hops_inv_Some [OF assms(1) h] flying_pos [OF p]
  have h': "hop_ok h" "0 < h_inFlight h" "h_inFlight h = flying s ?t" by auto
  have "s_hops (retire f g p s) = (s_hops s)(?t \<mapsto> f h)"
    by (simp add: retire_eq Let_def h)
  then show ?thesis
    using assms(1,5) h' by (auto simp: hops_inv_def hop_inv_def [of _ "Some _"] retires_hop_def retire_counts [OF d p])
qed

lemma retire_cycles_inv:
  assumes "cycles_inv hi act s" and "queue_inv s" and p: "p \<in> set (s_queue s)" "live s p"
    and "retires_cycle g"
  shows "cycles_inv hi act (retire f g p s)"
proof -
  let ?n = "p_cycle (s_heap s p)"
  have d: "distinct (s_queue s)" using assms(2) by (simp add: queue_inv_def)
  have c: "s_cycles (retire f g p s) = (s_cycles s)(?n := map_option g (s_cycles s ?n))"
    and e: "s_nextEmit (retire f g p s) = s_nextEmit s" "s_spec (retire f g p s) = s_spec s"
    by (simp_all add: retire_eq Let_def)
  have "dom (s_cycles (retire f g p s)) = dom (s_cycles s)"
    by (auto simp: c dom_def)
  then show ?thesis
    using assms(1,5)
    by (auto simp: cycles_inv_def c e cycle_inv_def retires_cycle_def retire_counts [OF d p]
        retire_heap split: if_splits)
qed

lemma retire_reg_inv: "reg_inv s \<Longrightarrow> reg_inv (retire f g p s)"
  by (auto simp: reg_inv_def retire_eq Let_def split: if_splits)

lemma retire_inv:
  assumes "sess_inv hi act s" and "p \<in> set (s_queue s)" "live s p"
    and "retires_hop f" and "retires_cycle g"
  shows "sess_inv hi act (retire f g p s)"
proof -
  have "reach_inv (retire f g p s)" "out_inv (retire f g p s)" "wire_inv (retire f g p s)"
    "spec_ok (s_spec (retire f g p s))"
    using assms(1) by (simp_all add: sess_inv_def reach_inv_def out_inv_def wire_inv_def retire_eq Let_def)
  with assms show ?thesis
    by (simp add: sess_inv_def retire_queue_inv retire_hops_inv retire_cycles_inv retire_reg_inv)
qed


section \<open>Expiry and replies\<close>

lemma retires_hop_lost: "retires_hop lost"
  by (simp add: retires_hop_def hop_ok_lost)

lemma retires_hop_reply: "retires_hop (Trace_Stats.reply a rtt)"
  by (simp add: retires_hop_def hop_ok_reply)

definition lose :: "int \<Rightarrow> cycleState \<Rightarrow> cycleState" where
  "lose ttl c = c\<lparr>c_samples := (c_samples c)(ttl \<mapsto> None), c_outstanding := c_outstanding c - 1\<rparr>"

lemma retire_queue: "retire f g p (s\<lparr>s_queue := q\<rparr>) = (retire f g p s)\<lparr>s_queue := q\<rparr>"
  by (rule session.equality) (simp_all add: retire_eq Let_def)

lemma expire_loop_step:
  "expire_loop now (p # q) s =
    (if live s p \<and> now < p_deadline (s_heap s p) then s\<lparr>s_queue := p # q\<rparr>
     else if \<not> live s p then expire_loop now q (s\<lparr>s_queue := q\<rparr>)
     else expire_loop now q ((retire lost (lose (p_ttl (s_heap s p))) p s)\<lparr>s_queue := q\<rparr>))"
  using retire_def [of lost "lose (p_ttl (s_heap s p))" p "s\<lparr>s_queue := q\<rparr>"]
  by (simp add: live_def Let_def retire_queue lose_def [abs_def])

declare expire_loop.simps(2) [simp del]

lemma pop_settled:
  assumes inv: "sess_inv hi act s" and q: "s_queue s = p # q" and "\<not> live s p"
  shows "sess_inv hi act (s\<lparr>s_queue := q\<rparr>)"
proof -
  let ?s = "s\<lparr>s_queue := q\<rparr>"
  have l: "live ?s = live s"
    by (simp add: live_def fun_eq_iff)
  have f: "flying ?s = flying s" and o: "outstanding ?s = outstanding s"
    using assms(3) by (simp_all add: flying_def outstanding_def q l fun_eq_iff)
  have "queue_inv ?s"
    using inv assms(3) by (auto simp: sess_inv_def queue_inv_def q l)
  moreover have "hops_inv ?s" "cycles_inv hi act ?s"
    using inv by (simp_all add: sess_inv_def hops_inv_def cycles_inv_def cycle_inv_def f o q)
  ultimately show ?thesis
    using inv by (simp add: sess_inv_def reach_inv_def out_inv_def reg_inv_def wire_inv_def)
qed

lemma retire_pop_inv:
  assumes inv: "sess_inv hi act s" and q: "s_queue s = p # q" and l: "live s p"
  shows "sess_inv hi act ((retire lost (lose ttl) p s)\<lparr>s_queue := q\<rparr>)"
proof -
  have "retires_cycle (lose ttl)"
    by (simp add: retires_cycle_def lose_def)
  with inv q l have "sess_inv hi act (retire lost (lose ttl) p s)"
    by (simp add: retire_inv retires_hop_lost)
  then show ?thesis
    by (rule pop_settled [where p = p]) (simp_all add: retire_heap q retire_live)
qed

lemma expire_loop_inv:
  "sess_inv hi act s \<Longrightarrow> s_queue s = q \<Longrightarrow> sess_inv hi act (expire_loop now q s)"
proof (induction q arbitrary: s)
  case Nil
  then have "expire_loop now [] s = s" by (intro session.equality) simp_all
  with Nil show ?case by (simp only:)
next
  case (Cons p q)
  then have "s\<lparr>s_queue := p # q\<rparr> = s" by (intro session.equality) simp_all
  with Cons.prems(1) have "sess_inv hi act (s\<lparr>s_queue := p # q\<rparr>)" by (simp only:)
  with Cons show ?case
    using pop_settled [OF Cons.prems] retire_pop_inv [OF Cons.prems]
    by (simp add: expire_loop_step)
qed

lemma expire_loop_send_frame: "send_frame s (expire_loop now q s)"
proof (induction q arbitrary: s)
  case Nil
  then show ?case by (simp add: send_frame_def)
next
  case (Cons p q)
  have "send_frame s (s\<lparr>s_queue := x\<rparr>)" for x
    by (simp add: send_frame_def)
  moreover have "send_frame s ((retire lost (lose ttl) p s)\<lparr>s_queue := q\<rparr>)" for ttl
    by (simp add: send_frame_def retire_eq Let_def)
  ultimately show ?case
    using Cons.IH by (auto simp: expire_loop_step intro: send_frame_trans)
qed

lemma loop_inv_send_frame: "send_frame s s' \<Longrightarrow> loop_inv s' = loop_inv s"
  by (simp add: send_frame_def loop_inv_def)

lemma expire_inv: "session_inv s \<Longrightarrow> session_inv (expire now s)"
  using expire_loop_send_frame [of s now "s_queue s"]
  by (simp add: session_inv_def expire_def expire_loop_inv loop_inv_send_frame)
    (simp add: send_frame_def expire_loop_inv)

text \<open>After \<^verbatim>\<open>expire\<close> the head of the queue is a probe in flight whose time has not come.\<close>

lemma expire_loop_suffix: "suffix (s_queue (expire_loop now q s)) q"
  by (induction q arbitrary: s) (auto simp: expire_loop_step suffix_Cons)

lemma expire_loop_head:
  "s_queue (expire_loop now q s) = p # r \<Longrightarrow>
    live (expire_loop now q s) p \<and> now < p_deadline (s_heap (expire_loop now q s) p)"
  by (induction q arbitrary: s) (auto simp: expire_loop_step live_def split: if_splits)

definition answer :: "int \<Rightarrow> duration \<Rightarrow> bool \<Rightarrow> cycleState \<Rightarrow> cycleState" where
  "answer ttl rtt target c = c\<lparr>c_samples := (c_samples c)(ttl \<mapsto> Some rtt),
     c_outstanding := c_outstanding c - 1, c_targetSeen := c_targetSeen c \<or> target\<rparr>"

lemma handleReply_eq:
  "handleReply r s = (case s_probes s (r_key r) of
      None \<Rightarrow> s
    | Some p \<Rightarrow>
        if \<not> live s p then s
        else
          let x = s_heap s p;
              rtt = max 0 (r_at r - p_sentAt x);
              target = (r_kind r = replyFromTarget);
              s = retire (Trace_Stats.reply (r_from r) rtt) (answer (p_ttl x) rtt target) p s
          in if target then s\<lparr>s_reachedAt := p_ttl x, s_missedTarget := 0\<rparr> else s)"
  by (simp add: handleReply_def live_def Let_def settle_in_cycle_eq on_hop_eq settle_eq retire_eq
      answer_def [abs_def] max_def split: option.split)

lemma reach_update_inv:
  assumes "sess_inv hi act s" and "in_ttls (s_spec s) ttl"
  shows "sess_inv hi act (s\<lparr>s_reachedAt := ttl, s_missedTarget := 0\<rparr>)"
  using assms by (simp add: sess_inv_def sess_inv_parts)

lemma handleReply_sess_inv:
  assumes "sess_inv hi act s"
  shows "sess_inv hi act (handleReply r s)"
proof (cases "s_probes s (r_key r)")
  case None
  with assms show ?thesis by (simp add: handleReply_eq)
next
  case (Some p)
  with assms have p: "p \<in> set (s_queue s)" "live s p" "in_ttls (s_spec s) (p_ttl (s_heap s p))"
    by (auto simp: sess_inv_def queue_inv_def)
  have g: "retires_cycle (answer ttl rtt target)" for ttl rtt target
    by (simp add: retires_cycle_def answer_def)
  let ?rtt = "max 0 (r_at r - p_sentAt (s_heap s p))"
  let ?s = "retire (Trace_Stats.reply (r_from r) ?rtt)
    (answer (p_ttl (s_heap s p)) ?rtt (r_kind r = replyFromTarget)) p s"
  have "sess_inv hi act ?s"
    by (rule retire_inv) (use assms p g retires_hop_reply in auto)
  moreover have "s_spec ?s = s_spec s"
    by (simp add: retire_eq Let_def)
  ultimately show ?thesis
    using Some p
    by (cases "r_kind r = replyFromTarget") (simp_all add: handleReply_eq Let_def reach_update_inv)
qed


lemma handleReply_inv: "session_inv s \<Longrightarrow> session_inv (handleReply r s)"
proof -
  assume inv: "session_inv s"
  have "loop_inv (handleReply r s) = loop_inv s" "s_cycle (handleReply r s) = s_cycle s"
    "s_sendIdx (handleReply r s) = s_sendIdx s"
    by (simp_all add: handleReply_eq retire_eq Let_def loop_inv_def split: option.split)
  with inv show ?thesis
    by (simp add: session_inv_def handleReply_sess_inv)
qed

section \<open>Reporting\<close>

lemma hop_sess_inv: "sess_inv hi act s \<Longrightarrow> sess_inv hi act (hop ttl s)"
proof (cases "s_hops s ttl")
  case None
  assume inv: "sess_inv hi act s"
  let ?s = "s\<lparr>s_hops := (s_hops s)(ttl \<mapsto> new_hopStats)\<rparr>"
  have f: "flying ?s = flying s" "outstanding ?s = outstanding s"
    by (simp_all add: flying_def outstanding_def live_def fun_eq_iff)
  have "hops_inv ?s"
    using inv hops_inv_None [of s ttl] None
    by (auto simp: sess_inv_def hops_inv_def hop_inv_def [of _ "Some _"] f)
      (simp_all add: new_hopStats_def)
  then show ?thesis
    using inv None
    by (simp add: hop_def sess_inv_def queue_inv_def cycles_inv_def cycle_inv_def reach_inv_def
        out_inv_def reg_inv_def wire_inv_def live_def f)
qed (simp add: hop_def)

lemma fold_hop_sess_inv: "sess_inv hi act s \<Longrightarrow> sess_inv hi act (fold hop ttls s)"
  by (induction ttls arbitrary: s) (auto simp: hop_sess_inv)

lemma fold_hop_frame_reach:
  "s_reachedAt (fold hop ttls s) = s_reachedAt s" "s_out (fold hop ttls s) = s_out s"
  "s_nextEmit (fold hop ttls s) = s_nextEmit s"
  by (induction ttls arbitrary: s) (simp_all add: hop_def split: option.split)

lemma ttl_range_takeWhile:
  assumes "ttl_range spec ttls" and "r = 0 \<or> in_ttls spec r" and "1 \<le> sp_FirstTTL spec"
  shows "ttl_range spec (takeWhile (\<lambda>t. t \<le> (if r > 0 \<and> r < last ttls then r else last ttls)) ttls)"
proof -
  from assms(1) obtain k where k: "in_ttls spec k" "ttls = [sp_FirstTTL spec..k]"
    by (auto simp: ttl_range_def)
  then have l: "last [sp_FirstTTL spec..k] = k"
    by (simp add: in_ttls_def upto_rec2)
  have tw: "takeWhile (\<lambda>t. t \<le> m) [i..k] = [i..min m k]" for m i
  proof (induction i k rule: upto.induct)
    case (1 i k)
    then show ?case by (cases "i \<le> k") (auto simp: upto_rec1 min_def)
  qed
  show ?thesis
    using k(1) assms(2,3) unfolding k(2) l tw by (auto simp: ttl_range_def in_ttls_def min_def)
qed


lemma emit_commute:
  "emit ev (hop ttl s) = hop ttl (emit ev s)" "emit ev (miss_target c s) = miss_target c (emit ev s)"
  by (rule session.equality; simp add: emit_def hop_def split: option.split)
    (rule session.equality; simp add: emit_def miss_target_def Let_def)

lemma emit_fold_hop: "emit ev (fold hop ttls s) = fold hop ttls (emit ev s)"
  by (induction ttls arbitrary: s) (simp_all add: emit_commute)

lemma miss_target_inv: "sess_inv hi act s \<Longrightarrow> sess_inv hi act (miss_target c s)"
proof -
  assume "sess_inv hi act s"
  then have "sess_inv hi act (s\<lparr>s_missedTarget := m\<rparr>)"
    "sess_inv hi act (s\<lparr>s_missedTarget := m, s_reachedAt := 0\<rparr>)" for m
    by (simp_all add: sess_inv_def sess_inv_parts)
  with \<open>sess_inv hi act s\<close> show ?thesis
    by (simp add: miss_target_def Let_def)
qed

definition close_cycle :: "nat \<Rightarrow> Cycle \<Rightarrow> session \<Rightarrow> session" where
  "close_cycle n cy s =
    emit (CycleDone cy) (s\<lparr>s_cycles := (s_cycles s)(n := None), s_nextEmit := Suc n\<rparr>)"

lemma close_cycle_inv:
  assumes inv: "sess_inv hi act s" and n: "n = s_nextEmit s" and c: "s_cycles s n = Some c"
    and cy: "cy_Number cy = n" "ttl_range (s_spec s) (map hp_TTL (cy_Hops cy))"
  shows "sess_inv hi act (close_cycle n cy s)"
proof -
  let ?s = "close_cycle n cy s"
  have sel: "s_cycles ?s = (s_cycles s)(n := None)" "s_nextEmit ?s = Suc n" "s_spec ?s = s_spec s"
    "s_out ?s = s_out s @ [CycleDone cy]" "outstanding ?s = outstanding s"
    "s_queue ?s = s_queue s" "s_heap ?s = s_heap s"
    by (simp_all add: close_cycle_def emit_def outstanding_def live_def fun_eq_iff)
  have dom: "dom (s_cycles s) = {n..hi}" "1 \<le> n" "n \<le> Suc hi"
    using inv by (simp_all add: sess_inv_def cycles_inv_def n)
  with c have "n \<le> hi"
    by (metis atLeastAtMost_iff domI)
  with dom have "cycles_inv hi act ?s"
    using inv unfolding cycles_inv_def cycle_inv_def sel
    by (auto simp: sess_inv_def cycles_inv_def cycle_inv_def)
  moreover have "out_inv ?s"
  proof -
    from inv obtain cs where "s_out s = Started (s_spec s) # map CycleDone cs"
      "map cy_Number cs = [1..<n]" "\<forall>c \<in> set cs. ttl_range (s_spec s) (map hp_TTL (cy_Hops c))"
      by (auto simp: sess_inv_def out_inv_def n)
    with cy dom(2) show ?thesis
      unfolding out_inv_def sel by (intro exI [of _ "cs @ [cy]"]) auto
  qed
  ultimately show ?thesis
    using inv by (simp add: sess_inv_def queue_inv_def hops_inv_def reach_inv_def reg_inv_def
        wire_inv_def flying_def live_def close_cycle_def emit_def)
qed

lemma report_eq:
  assumes "ttl_range (s_spec s) (c_ttls c)" and "spec_ok (s_spec s)" and "reach_inv s"
  shows "\<exists>cy ttls. report name c s = Ok (fold hop ttls (miss_target c (close_cycle (c_number c) cy s))) \<and>
    cy_Number cy = c_number c \<and> ttl_range (s_spec s) (map hp_TTL (cy_Hops cy))"
proof -
  let ?s = "miss_target c (s\<lparr>s_cycles := (s_cycles s)(c_number c := None), s_nextEmit := Suc (c_number c)\<rparr>)"
  let ?last = "if s_reachedAt ?s > 0 \<and> s_reachedAt ?s < last (c_ttls c) then s_reachedAt ?s
    else last (c_ttls c)"
  let ?ttls = "takeWhile (\<lambda>t. t \<le> ?last) (c_ttls c)"
  have "c_ttls c \<noteq> []"
    using assms(1) by (auto simp: ttl_range_def in_ttls_def)
  then obtain hops where rep: "report name c s = Ok (emit (CycleDone \<lparr>cy_Number = c_number c,
      cy_ReachedAt = s_reachedAt ?s, cy_Hops = hops\<rparr>) (fold hop ?ttls ?s))"
    and hops: "map hp_TTL hops = ?ttls"
    by (simp add: report_def Let_def fold_hop_frame_reach snapshot_def comp_def)
  have "s_reachedAt ?s = 0 \<or> in_ttls (s_spec s) (s_reachedAt ?s)"
    using assms(3) by (auto simp: reach_inv_def miss_target_def Let_def)
  then have "ttl_range (s_spec s) ?ttls"
    using assms(1,2) by (intro ttl_range_takeWhile) (auto simp: spec_ok_def ok_ttl_def)
  with rep hops show ?thesis
    by (intro exI [of _ "\<lparr>cy_Number = c_number c, cy_ReachedAt = s_reachedAt ?s, cy_Hops = hops\<rparr>"]
        exI [of _ ?ttls]) (simp add: close_cycle_def emit_fold_hop emit_commute)
qed

lemma report_ok:
  assumes inv: "sess_inv hi act s" and c: "s_cycles s (s_nextEmit s) = Some c"
  shows "\<exists>s'. report name c s = Ok s' \<and> sess_inv hi act s' \<and> s_nextEmit s' = Suc (s_nextEmit s) \<and>
    report_frame s s'"
proof -
  have n: "c_number c = s_nextEmit s" and r: "ttl_range (s_spec s) (c_ttls c)" "spec_ok (s_spec s)"
    "reach_inv s"
    using assms by (auto simp: sess_inv_def cycles_inv_def cycle_inv_def)
  from report_eq [OF r, of name] obtain cy ttls where
    rep: "report name c s = Ok (fold hop ttls (miss_target c (close_cycle (c_number c) cy s)))"
    (is "_ = Ok ?s'") and cy: "cy_Number cy = c_number c" "ttl_range (s_spec s) (map hp_TTL (cy_Hops cy))"
    by blast
  have "sess_inv hi act (close_cycle (c_number c) cy s)"
    by (rule close_cycle_inv) (use inv c n cy in auto)
  then have "sess_inv hi act ?s'"
    by (simp add: fold_hop_sess_inv miss_target_inv)
  moreover have "s_nextEmit ?s' = Suc (s_nextEmit s)"
    by (simp add: fold_hop_frame_reach miss_target_def close_cycle_def emit_def Let_def n)
  ultimately show ?thesis
    using rep report_frame [OF rep] by blast
qed


lemma forceEmit_loop_ok:
  assumes "sess_inv hi act s" and "n \<le> hi" and "Suc n - s_nextEmit s < fuel"
  shows "\<exists>s'. forceEmit_loop fuel name n s = Ok s' \<and> sess_inv hi act s' \<and> report_frame s s' \<and>
    s_nextEmit s' = max (s_nextEmit s) (Suc n)"
  using assms
proof (induction fuel arbitrary: s)
  case (Suc fuel)
  show ?case
  proof (cases "s_nextEmit s \<le> n")
    case True
    with Suc.prems have "s_nextEmit s \<in> dom (s_cycles s)"
      by (simp add: sess_inv_def cycles_inv_def)
    then obtain c where c: "s_cycles s (s_nextEmit s) = Some c" by blast
    from report_ok [OF Suc.prems(1) c, of name] obtain t where t: "report name c s = Ok t"
      "sess_inv hi act t" "s_nextEmit t = Suc (s_nextEmit s)" "report_frame s t"
      by blast
    with True Suc.prems(3) have "Suc n - s_nextEmit t < fuel" by simp
    from Suc.IH [OF t(2) Suc.prems(2) this] show ?thesis
      using True c t by (auto intro: report_frame_trans simp: max_def)
  qed (use Suc.prems in \<open>auto simp: max_def\<close>)
qed simp

lemma forceEmit_ok:
  assumes "sess_inv hi act s" and "n \<le> hi"
  shows "\<exists>s'. forceEmit name n s = Ok s' \<and> sess_inv hi act s' \<and> report_frame s s' \<and>
    s_nextEmit s' = max (s_nextEmit s) (Suc n)"
  unfolding forceEmit_def using assms by (rule forceEmit_loop_ok) simp

text \<open>\<^verbatim>\<open>tryEmit\<close> stops at the first cycle that is still being sent or has probes in flight.\<close>

definition nothing_to_report :: "session \<Rightarrow> bool" where
  "nothing_to_report s \<longleftrightarrow> (case s_cycles s (s_nextEmit s) of
      None \<Rightarrow> True
    | Some c \<Rightarrow> c_sending c \<or> c_outstanding c > 0)"

lemma tryEmit_loop_ok:
  assumes "sess_inv hi act s" and "Suc hi - s_nextEmit s < fuel" and "act \<longrightarrow> s_nextEmit s \<le> hi"
  shows "\<exists>s'. tryEmit_loop fuel name s = Ok s' \<and> sess_inv hi act s' \<and> report_frame s s' \<and>
    (act \<longrightarrow> s_nextEmit s' \<le> hi) \<and> nothing_to_report s'"
  using assms
proof (induction fuel arbitrary: s)
  case (Suc fuel)
  show ?case
  proof (cases "nothing_to_report s")
    case True
    then show ?thesis
      using Suc.prems by (auto simp: nothing_to_report_def split: option.splits)
  next
    case False
    then obtain c where c: "s_cycles s (s_nextEmit s) = Some c" "\<not> c_sending c" "\<not> c_outstanding c > 0"
      by (auto simp: nothing_to_report_def split: option.splits)
    with Suc.prems(1) have hi: "s_nextEmit s \<le> hi" and act: "act \<longrightarrow> s_nextEmit s \<noteq> hi"
      by (auto simp: sess_inv_def cycles_inv_def cycle_inv_def)
    from report_ok [OF Suc.prems(1) c(1), of name] obtain t where t: "report name c s = Ok t"
      "sess_inv hi act t" "s_nextEmit t = Suc (s_nextEmit s)" "report_frame s t"
      by blast
    with hi act Suc.prems(2) have "Suc hi - s_nextEmit t < fuel" "act \<longrightarrow> s_nextEmit t \<le> hi" by auto
    from Suc.IH [OF t(2) this] show ?thesis
      using c t by (auto intro: report_frame_trans)
  qed
qed simp

lemma loop_inv_report_frame:
  "report_frame s s' \<Longrightarrow> loop_inv s \<Longrightarrow> (0 < s_sendIdx s \<longrightarrow> s_nextEmit s' \<le> s_cycle s) \<Longrightarrow> loop_inv s'"
  by (simp add: report_frame_def loop_inv_def)

lemma tryEmit_ok:
  assumes "session_inv s"
  shows "\<exists>s'. tryEmit name s = Ok s' \<and> session_inv s' \<and> report_frame s s' \<and> nothing_to_report s'"
proof -
  have "0 < s_sendIdx s \<longrightarrow> s_nextEmit s \<le> s_cycle s"
    using assms by (simp add: session_inv_def loop_inv_def)
  with assms obtain s' where s': "tryEmit_loop (Suc (Suc (s_cycle s) - s_nextEmit s)) name s = Ok s'"
    "sess_inv (s_cycle s) (0 < s_sendIdx s) s'" "report_frame s s'"
    "0 < s_sendIdx s \<longrightarrow> s_nextEmit s' \<le> s_cycle s" "nothing_to_report s'"
    using tryEmit_loop_ok [of "s_cycle s" "0 < s_sendIdx s" s "Suc (Suc (s_cycle s) - s_nextEmit s)" name]
    by (auto simp: session_inv_def)
  then have "s_cycle s' = s_cycle s" "s_sendIdx s' = s_sendIdx s"
    by (simp_all add: report_frame_def)
  moreover have "loop_inv s'"
    using s' assms loop_inv_report_frame by (simp add: session_inv_def)
  ultimately show ?thesis
    using s' by (simp add: tryEmit_def session_inv_def del: tryEmit_loop.simps)
qed

section \<open>Sending\<close>



abbreviation stats_at :: "session \<Rightarrow> int \<Rightarrow> hopStats" where
  "stats_at s ttl \<equiv> (case s_hops s ttl of None \<Rightarrow> new_hopStats | Some h \<Rightarrow> h)"

lemma stats_at_inv: "hops_inv s \<Longrightarrow> hop_ok (stats_at s ttl) \<and> h_inFlight (stats_at s ttl) = flying s ttl"
  by (cases "s_hops s ttl")
    (auto simp: hops_inv_None hops_inv_Some new_hopStats_def hop_ok_new [unfolded new_hopStats_def])

text \<open>A packet that left: a new probe at the end of the queue.\<close>

definition launched :: "(nat \<Rightarrow> send_result) \<Rightarrow> int \<Rightarrow> nat \<Rightarrow> probe \<Rightarrow> session \<Rightarrow> session \<Rightarrow> bool" where
  "launched net ttl n x s s' \<longleftrightarrow> p_ttl x = ttl \<and> p_cycle x = n \<and> \<not> p_settled x \<and> send_frame s s' \<and>
     p_deadline x = p_sentAt x + sp_ProbeTimeout (s_spec s) \<and>
     (\<exists>port. net (s_next s) = Sent (p_sentAt x) port) \<and>
     s_queue s' = s_queue s @ [s_next s] \<and> s_next s' = Suc (s_next s) \<and>
     s_heap s' = (s_heap s)(s_next s := x) \<and> s_probes s' = (s_probes s)(p_key x \<mapsto> s_next s) \<and>
     owner (s_e s') = (owner (s_e s))(p_key x \<mapsto> s_id s) \<and>
     s_hops s' = (s_hops s)(ttl \<mapsto> sendProbe (stats_at s ttl)) \<and>
     s_cycles s' = (s_cycles s)(n := map_option (\<lambda>c. c\<lparr>c_outstanding := c_outstanding c + 1\<rparr>) (s_cycles s n)) \<and>
     s_wire s' = s_wire s @ [\<lparr>w_ttl = ttl, w_tos = s_tos s, w_key = p_key x\<rparr>]"

lemma launched_counts:
  assumes "queue_inv s" and l: "launched net ttl n x s s'"
  shows "flying s' t = flying s t + (if t = ttl then 1 else 0)"
    and "outstanding s' m = outstanding s m + (if m = n then 1 else 0)"
proof -
  have new: "s_next s \<notin> set (s_queue s)"
    using assms(1) by (auto simp: queue_inv_def)
  have "count_if (\<lambda>p. live s' p \<and> R (s_heap s' p)) (s_queue s) =
      count_if (\<lambda>p. live s p \<and> R (s_heap s p)) (s_queue s)" for R
    using new l by (intro count_if_cong) (auto simp: launched_def live_def)
  moreover have "s_queue s' = s_queue s @ [s_next s]" "live s' (s_next s)"
    "p_ttl (s_heap s' (s_next s)) = ttl" "p_cycle (s_heap s' (s_next s)) = n"
    using l by (simp_all add: launched_def live_def)
  ultimately show "flying s' t = flying s t + (if t = ttl then 1 else 0)"
    and "outstanding s' m = outstanding s m + (if m = n then 1 else 0)"
    by (auto simp: flying_def outstanding_def)
qed

lemma launched_inv:
  assumes inv: "sess_inv hi act s" and ttl: "in_ttls (s_spec s) ttl" and l: "launched net ttl n x s s'"
    and "n \<le> hi"
  shows "sess_inv hi act s'"
proof -
  have q: "queue_inv s" and h: "hops_inv s" and c: "cycles_inv hi act s"
    using inv by (simp_all add: sess_inv_def)
  have sp: "s_spec s' = s_spec s" "s_nextEmit s' = s_nextEmit s"
    using l by (simp_all add: launched_def send_frame_def)
  have "queue_inv s'"
    using q l ttl unfolding queue_inv_def sp
    by (auto simp: launched_def live_def split: if_splits)
  moreover have "hops_inv s'"
    using h l stats_at_inv [OF h, of ttl]
    by (auto simp: hops_inv_def launched_counts [OF q l] hop_inv_def [of _ "Some _"] hop_ok_sendProbe launched_def)
  moreover have "cycles_inv hi act s'"
  proof -
    have "dom (s_cycles s') = dom (s_cycles s)"
      using l by (auto simp: launched_def dom_def)
    then show ?thesis
      using c l \<open>n \<le> hi\<close> unfolding cycles_inv_def cycle_inv_def sp launched_counts [OF q l]
      by (auto simp: launched_def split: if_splits)
  qed
  moreover have "reach_inv s'" "out_inv s'" "reg_inv s'" "wire_inv s'"
    using inv l ttl
    by (auto simp: sess_inv_def reach_inv_def out_inv_def reg_inv_def wire_inv_def launched_def send_frame_def)
  ultimately show ?thesis
    using inv by (simp add: sess_inv_def sp)
qed

text \<open>A packet that could not leave: the registry forgets it, and the TTL counts it as lost.\<close>

definition resampled :: "cycleState \<Rightarrow> cycleState \<Rightarrow> bool" where
  "resampled c c' \<longleftrightarrow> c' = c\<lparr>c_samples := c_samples c'\<rparr>"

lemma resampled_simps [simp]: "rel_option resampled x x" "resampled c (c\<lparr>c_samples := m\<rparr>)"
  by (auto simp: resampled_def intro: option.rel_refl)

definition refused :: "int \<Rightarrow> (hopStats \<Rightarrow> hopStats) \<Rightarrow> session \<Rightarrow> session \<Rightarrow> bool" where
  "refused ttl f s s' \<longleftrightarrow> send_frame s s' \<and> s_queue s' = s_queue s \<and> s_next s \<le> s_next s' \<and>
     (\<forall>p < s_next s. s_heap s' p = s_heap s p) \<and> s_probes s' = s_probes s \<and>
     (\<forall>k. owner (s_e s') k = Some (s_id s) \<longrightarrow> owner (s_e s) k = Some (s_id s)) \<and>
     s_hops s' = (s_hops s)(ttl \<mapsto> f (stats_at s ttl)) \<and>
     (\<forall>n. rel_option resampled (s_cycles s n) (s_cycles s' n)) \<and>
     s_wire s' = s_wire s"

lemma refused_counts:
  assumes "queue_inv s" and l: "refused ttl f s s'"
  shows "flying s' t = flying s t" and "outstanding s' m = outstanding s m"
proof -
  have "count_if (\<lambda>p. live s' p \<and> R (s_heap s' p)) (s_queue s) =
      count_if (\<lambda>p. live s p \<and> R (s_heap s p)) (s_queue s)" for R
    using assms by (intro count_if_cong) (auto simp: refused_def live_def queue_inv_def)
  with l show "flying s' t = flying s t" and "outstanding s' m = outstanding s m"
    by (auto simp: refused_def flying_def outstanding_def)
qed

lemma refused_queue_inv: "queue_inv s \<Longrightarrow> refused ttl f s s' \<Longrightarrow> queue_inv s'"
  by (auto simp: queue_inv_def refused_def live_def send_frame_def)

lemma refused_inv:
  assumes inv: "sess_inv hi act s" and l: "refused ttl (lost \<circ> sendProbe) s s'"
  shows "sess_inv hi act s'"
proof -
  have q: "queue_inv s" and h: "hops_inv s" and c: "cycles_inv hi act s"
    using inv by (simp_all add: sess_inv_def)
  have sp: "s_spec s' = s_spec s" "s_nextEmit s' = s_nextEmit s"
    using l by (simp_all add: refused_def send_frame_def)
  have "hops_inv s'"
    using h l stats_at_inv [OF h, of ttl] flying_def [of s ttl]
    by (auto simp: hops_inv_def refused_counts [OF q l] hop_inv_def [of _ "Some _"] hop_ok_sendProbe
        hop_ok_lost refused_def)
  moreover have "cycles_inv hi act s'"
  proof -
    have r: "rel_option resampled (s_cycles s n) (s_cycles s' n)" for n
      using l by (simp add: refused_def)
    have "dom (s_cycles s') = dom (s_cycles s)"
    proof (rule set_eqI)
      fix n show "n \<in> dom (s_cycles s') \<longleftrightarrow> n \<in> dom (s_cycles s)"
        using r [of n] by (cases "s_cycles s n"; cases "s_cycles s' n") auto
    qed
    moreover have "cycle_inv s' hi act n c'" if c': "s_cycles s' n = Some c'" for n c'
    proof -
      from r [of n] c' obtain b m where "s_cycles s n = Some b" "c' = b\<lparr>c_samples := m\<rparr>"
        by (auto simp: option_rel_Some2 resampled_def)
      with c show ?thesis
        by (simp add: cycles_inv_def cycle_inv_def sp refused_counts [OF q l])
    qed
    moreover have "\<forall>p \<in> set (s_queue s'). p_cycle (s_heap s' p) \<le> hi"
      using c l q by (simp add: cycles_inv_def refused_def queue_inv_def)
    ultimately show ?thesis
      using c by (simp add: cycles_inv_def sp)
  qed
  moreover have "reach_inv s'" "out_inv s'" "reg_inv s'" "wire_inv s'"
    using inv l
    by (auto simp: sess_inv_def reach_inv_def out_inv_def reg_inv_def wire_inv_def refused_def send_frame_def)
  ultimately show ?thesis
    using inv refused_queue_inv [OF q l] by (simp add: sess_inv_def sp)
qed


definition proto_sent :: "(nat \<Rightarrow> send_result) \<Rightarrow> int \<Rightarrow> session \<Rightarrow> session \<Rightarrow> errno + nat \<Rightarrow> bool" where
  "proto_sent net ttl s s' r \<longleftrightarrow> (case r of
      Inr p \<Rightarrow> p = s_next s \<and> s_next s' = Suc p \<and> (let x = s_heap s' p in \<not> p_settled x \<and>
        (\<exists>port. net p = Sent (p_sentAt x) port) \<and> s_heap s' = (s_heap s)(p := x) \<and>
        owner (s_e s') = (owner (s_e s))(p_key x \<mapsto> s_id s) \<and>
        s_wire s' = s_wire s @ [\<lparr>w_ttl = ttl, w_tos = s_tos s, w_key = p_key x\<rparr>])
    | Inl e \<Rightarrow> s_next s \<le> s_next s' \<and> (\<forall>p < s_next s. s_heap s' p = s_heap s p) \<and> s_wire s' = s_wire s \<and>
        (\<forall>k. owner (s_e s') k = Some (s_id s) \<longrightarrow> owner (s_e s) k = Some (s_id s)))"

lemma sendICMP_sent: "sendICMP net ttl s = (s', r) \<Longrightarrow> proto_sent net ttl s s' r"
  by (auto simp: send_parts proto_sent_def new_probe_def Let_def split: send_result.splits if_splits)

lemma send_socket_sent: "send_socket proto closer net ttl s = (s', r) \<Longrightarrow> proto_sent net ttl s s' r"
  by (auto simp: send_parts proto_sent_def new_probe_def Let_def split: send_result.splits if_splits)

lemma send_proto_sent:
  assumes "ok_protocol (s_spec s)"
  shows "\<exists>s' r. send_proto net ttl s = Some (s', r) \<and> proto_sent net ttl s s' r"
proof -
  have "\<exists>s' r. send_proto net ttl s = Some (s', r)"
    using assms by (auto simp: send_proto_def ok_protocol_def)
  moreover have "proto_sent net ttl s s' r" if "send_proto net ttl s = Some (s', r)" for s' r
    using that sendICMP_sent send_socket_sent
    by (auto simp: send_proto_def sendUDP_def sendTCP_def split: if_splits)
  ultimately show ?thesis by blast
qed

lemma on_cycle_Some:
  "s_cycles s n = Some c \<Longrightarrow> on_cycle n f s = Ok (s\<lparr>s_cycles := (s_cycles s)(n \<mapsto> f c)\<rparr>)"
  by (simp add: on_cycle_def)

lemma hop_fields:
  "s_queue (hop ttl s) = s_queue s" "s_next (hop ttl s) = s_next s" "s_heap (hop ttl s) = s_heap s"
  "s_probes (hop ttl s) = s_probes s" "s_e (hop ttl s) = s_e s" "s_wire (hop ttl s) = s_wire s" "s_cycles (hop ttl s) = s_cycles s"
  "s_id (hop ttl s) = s_id s" "s_tos (hop ttl s) = s_tos s" "s_hops (hop ttl s) = (s_hops s)(ttl \<mapsto> stats_at s ttl)"
  by (auto simp: hop_def split: option.split)

text \<open>The state after the socket call of a send, before the result is looked at.\<close>

definition socket_called :: "(nat \<Rightarrow> send_result) \<Rightarrow> int \<Rightarrow> session \<Rightarrow> session \<Rightarrow> errno + nat \<Rightarrow> bool" where
  "socket_called net ttl s t r = (send_proto net ttl (hop ttl s) = Some (t, r) \<and> proto_sent net ttl (hop ttl s) t r \<and> send_frame s t \<and>
    s_cycles t = s_cycles s \<and> s_hops t = (s_hops s)(ttl \<mapsto> stats_at s ttl) \<and> s_queue t = s_queue s \<and> s_probes t = s_probes s)"

lemma send_prepared:
  assumes "ok_protocol (s_spec s)"
  obtains t r where "socket_called net ttl s t r"
proof -
  have h: "ok_protocol (s_spec (hop ttl s))" "send_frame s (hop ttl s)"
    using assms hop_send_frame [of s ttl] by (simp_all add: send_frame_def)
  from send_proto_sent [OF h(1), of net ttl] obtain t r where
    t: "send_proto net ttl (hop ttl s) = Some (t, r)" "proto_sent net ttl (hop ttl s) t r" by blast
  with send_proto_frame [OF t(1)] h(2) have "socket_called net ttl s t r"
    by (auto simp: socket_called_def hop_fields intro: send_frame_trans)
  then show thesis by (rule that)
qed

lemma send_refused:
  assumes "socket_called net ttl s t (Inl e)" and "s_cycles s (s_cycle s) = Some c"
  shows "safe (send net ttl s) (refused ttl (lost \<circ> sendProbe) s) (\<lambda>(e, s'). refused ttl sendProbe s s')"
proof -
  let ?u = "on_hop ttl sendProbe t"
  let ?v = "on_hop ttl lost ?u"
  let ?w = "?v\<lparr>s_cycles := (s_cycles ?v)(s_cycle s \<mapsto> c\<lparr>c_samples := (c_samples c)(ttl \<mapsto> None)\<rparr>)\<rparr>"
  note t = assms(1) [unfolded socket_called_def]
  show ?thesis
  proof (cases "isUnreachable e")
    case True
    have "s_cycles ?v (s_cycle s) = Some c" "s_cycle ?u = s_cycle s" using assms(2) t by (simp_all add: on_hop_eq send_frame_def)
    then have "send net ttl s = Ok ?w" using True t by (simp add: send_def Let_def on_cycle_Some)
    moreover have "refused ttl (lost \<circ> sendProbe) s ?w"
      using t assms(2) by (auto simp: refused_def proto_sent_def on_hop_eq send_frame_def hop_fields)
    ultimately show ?thesis by simp
  next
    case False
    then have "send net ttl s = Fail (SendError e, ?u)" using t by (simp add: send_def Let_def)
    moreover have "refused ttl sendProbe s ?u" using t by (auto simp: refused_def proto_sent_def on_hop_eq send_frame_def hop_fields)
    ultimately show ?thesis by simp
  qed
qed

lemma send_launched:
  assumes "socket_called net ttl s t (Inr p)" and "s_cycles s (s_cycle s) = Some c"
  shows "\<exists>x s'. send net ttl s = Ok s' \<and> launched net ttl (s_cycle s) x s s'"
proof -
  let ?u = "on_hop ttl sendProbe t"
  let ?v = "enqueue ttl p ?u"
  let ?w = "?v\<lparr>s_cycles := (s_cycles ?v)(s_cycle s \<mapsto> c\<lparr>c_outstanding := c_outstanding c + 1\<rparr>)\<rparr>"
  note t = assms(1) [unfolded socket_called_def]
  have cyc: "s_cycle t = s_cycle s" "s_id t = s_id s" using t by (simp_all add: send_frame_def)
  have "s_cycles ?v (s_cycle s) = Some c" "s_cycle ?u = s_cycle s"
    using assms(2) t cyc by (simp_all add: on_hop_eq enqueue_def set_probe_def Let_def)
  then have "send net ttl s = Ok ?w" using t by (simp add: send_def Let_def on_cycle_Some)
  moreover from t obtain x where "p = s_next s" "s_next t = Suc p" "\<not> p_settled x" "\<exists>port. net p = Sent (p_sentAt x) port"
    "s_heap t = (s_heap s)(p := x)" "owner (s_e t) = (owner (s_e s))(p_key x \<mapsto> s_id s)"
    "s_wire t = s_wire s @ [\<lparr>w_ttl = ttl, w_tos = s_tos s, w_key = p_key x\<rparr>]"
    by (auto simp: proto_sent_def hop_fields Let_def)
  then have "launched net ttl (s_cycle s) (x\<lparr>p_ttl := ttl, p_cycle := s_cycle s,
      p_deadline := p_sentAt x + sp_ProbeTimeout (s_spec s)\<rparr>) s ?w"
    using t assms(2) cyc by (auto simp: launched_def on_hop_eq enqueue_def set_probe_def send_frame_def Let_def)
  ultimately show ?thesis by blast
qed

lemma send_effect:
  assumes "ok_protocol (s_spec s)" and "s_cycles s (s_cycle s) = Some c"
  shows "safe (send net ttl s)
    (\<lambda>s'. (\<exists>x. launched net ttl (s_cycle s) x s s') \<or> refused ttl (lost \<circ> sendProbe) s s')
    (\<lambda>(e, s'). refused ttl sendProbe s s')"
proof -
  obtain t r where t: "socket_called net ttl s t r" using send_prepared [OF assms(1)] .
  show ?thesis
  proof (cases r)
    case (Inl e)
    from send_refused [OF t [unfolded Inl] assms(2)] show ?thesis by (cases "send net ttl s") auto
  next
    case (Inr p)
    from send_launched [OF t [unfolded Inr] assms(2)] show ?thesis by auto
  qed
qed

text \<open>What is left of the invariant when a send fails the run: the probe that failed is counted as
  sent and in flight by its TTL, but nothing of it is in the queue or in the registry.\<close>

definition fail_inv :: "session \<Rightarrow> bool" where
  "fail_inv s \<longleftrightarrow> queue_inv s \<and> reg_inv s \<and> out_inv s \<and> wire_inv s \<and> spec_ok (s_spec s)"

lemma refused_fail_inv: "sess_inv hi act s \<Longrightarrow> refused ttl f s s' \<Longrightarrow> fail_inv s'"
  by (auto simp: fail_inv_def sess_inv_def refused_queue_inv reg_inv_def out_inv_def wire_inv_def
      refused_def send_frame_def)

lemma launched_frame: "launched net ttl n x s s' \<Longrightarrow> send_frame s s'"
  by (simp add: launched_def)

lemma refused_frame: "refused ttl f s s' \<Longrightarrow> send_frame s s'"
  by (simp add: refused_def)

lemma send_safe:
  assumes inv: "sess_inv (s_cycle s) act s" and "s_nextEmit s \<le> s_cycle s" and ttl: "in_ttls (s_spec s) ttl"
  shows "safe (send net ttl s) (\<lambda>s'. sess_inv (s_cycle s) act s' \<and> send_frame s s') (\<lambda>(e, s'). fail_inv s')"
proof -
  have "s_cycle s \<in> dom (s_cycles s)"
    using assms by (simp add: sess_inv_def cycles_inv_def)
  then obtain c where "s_cycles s (s_cycle s) = Some c" by blast
  moreover have "ok_protocol (s_spec s)"
    using inv by (simp add: sess_inv_def spec_ok_def)
  ultimately show ?thesis
    using launched_inv [OF inv ttl] refused_inv [OF inv] refused_fail_inv [OF inv]
    by (intro safe_mono [OF send_effect]) (auto dest: launched_frame refused_frame)
qed

lemma endCycle_ok:
  assumes inv: "sess_inv (s_cycle s) True s" and open_: "s_nextEmit s \<le> s_cycle s"
    and cyc: "int (s_cycle s) \<le> sp_Cycles (s_spec s)" and nd: "\<not> s_sendingDone s"
  shows "\<exists>s'. endCycle s = Ok s' \<and> session_inv s'"
proof -
  have "s_cycle s \<in> dom (s_cycles s)"
    using inv open_ by (simp add: sess_inv_def cycles_inv_def)
  then obtain c where c: "s_cycles s (s_cycle s) = Some c" by blast
  let ?t = "s\<lparr>s_cycles := (s_cycles s)(s_cycle s \<mapsto> c\<lparr>c_sending := False\<rparr>)\<rparr>"
  have "dom (s_cycles ?t) = dom (s_cycles s)" using c by auto
  then have t: "sess_inv (s_cycle s) False ?t"
    using inv c by (auto simp: sess_inv_def sess_inv_parts)
  show ?thesis
  proof (cases "int (s_cycle s) \<ge> sp_Cycles (s_spec s)")
    case True
    then have "endCycle s = Ok (?t\<lparr>s_sendIdx := 0, s_sendingDone := True\<rparr>)"
      using c by (simp add: endCycle_def on_cycle_Some Let_def)
    then show ?thesis
      using t True cyc by (simp add: session_inv_def loop_inv_def)
  next
    case False
    then have "endCycle s = Ok (?t\<lparr>s_sendIdx := 0, s_cycleStart := s_cycleStart s + sp_Interval (s_spec s),
        s_nextSendAt := s_cycleStart s + sp_Interval (s_spec s)\<rparr>)"
      using c by (simp add: endCycle_def on_cycle_Some Let_def)
    then show ?thesis
      using t nd False by (simp add: session_inv_def loop_inv_def)
  qed
qed

text \<open>A cycle is being sent and its next probe is due.\<close>

definition sending_inv :: "session \<Rightarrow> bool" where
  "sending_inv s \<longleftrightarrow> sess_inv (s_cycle s) True s \<and> s_nextEmit s \<le> s_cycle s \<and>
     int (s_cycle s) \<le> sp_Cycles (s_spec s) \<and> \<not> s_sendingDone s \<and>
     s_sendIdx s < length (s_cycleTTLs s) \<and> ttl_range (s_spec s) (s_cycleTTLs s)"

lemma ttl_range_nth:
  assumes "ttl_range spec ttls" and "i < length ttls"
  shows "ttls ! i = sp_FirstTTL spec + int i" and "in_ttls spec (ttls ! i)"
  using assms by (auto simp: ttl_range_def in_ttls_def)

lemma ttl_range_take:
  assumes "ttl_range spec ttls" and "i < length ttls" and "0 < i"
  shows "ttl_range spec (take i ttls)"
proof -
  from assms(1) obtain k where k: "in_ttls spec k" "ttls = [sp_FirstTTL spec..k]"
    by (auto simp: ttl_range_def)
  have "take i ttls = [sp_FirstTTL spec..sp_FirstTTL spec + int i - 1]"
    using assms(2) k by (intro nth_equalityI) (auto simp: min_def)
  then show ?thesis
    using assms k by (auto simp: ttl_range_def in_ttls_def intro!: exI [of _ "sp_FirstTTL spec + int i - 1"])
qed

lemma cut_cycle_inv:
  assumes inv: "sess_inv hi act s" and c: "s_cycles s n = Some c" and r: "ttl_range (s_spec s) ttls"
  shows "sess_inv hi act (s\<lparr>s_cycles := (s_cycles s)(n \<mapsto> c\<lparr>c_ttls := ttls\<rparr>)\<rparr>)" (is "sess_inv hi act ?t")
proof -
  have "dom (s_cycles ?t) = dom (s_cycles s)" using c by auto
  then show ?thesis using assms by (auto simp: sess_inv_def sess_inv_parts)
qed

lemma sendNext_safe:
  assumes inv: "sending_inv s"
  shows "safe (sendNext net s) session_inv (\<lambda>(e, s'). fail_inv s')"
proof -
  let ?ttl = "s_cycleTTLs s ! s_sendIdx s"
  have sess: "sess_inv (s_cycle s) True s" and ne: "s_nextEmit s \<le> s_cycle s"
    and len: "s_sendIdx s < length (s_cycleTTLs s)" and rng: "ttl_range (s_spec s) (s_cycleTTLs s)"
    using inv by (simp_all add: sending_inv_def)
  have ttl: "?ttl = sp_FirstTTL (s_spec s) + int (s_sendIdx s)" "in_ttls (s_spec s) ?ttl"
    using ttl_range_nth [OF rng len] by simp_all
  show ?thesis
  proof (cases "s_reachedAt s > 0 \<and> ?ttl > s_reachedAt s")
    case True
    then have "0 < s_sendIdx s"
      using sess ttl by (auto simp: sess_inv_def reach_inv_def in_ttls_def)
    then have r: "ttl_range (s_spec s) (take (s_sendIdx s) (s_cycleTTLs s))"
      using ttl_range_take rng len by blast
    have "s_cycle s \<in> dom (s_cycles s)"
      using sess ne by (simp add: sess_inv_def cycles_inv_def)
    then obtain c where c: "s_cycles s (s_cycle s) = Some c" by blast
    let ?t = "s\<lparr>s_cycles := (s_cycles s)(s_cycle s \<mapsto> c\<lparr>c_ttls := take (s_sendIdx s) (s_cycleTTLs s)\<rparr>)\<rparr>"
    have "sending_inv ?t"
      using inv cut_cycle_inv [OF sess c r] by (simp add: sending_inv_def)
    then obtain s' where "endCycle ?t = Ok s'" "session_inv s'"
      using endCycle_ok [of ?t] by (auto simp: sending_inv_def)
    then show ?thesis
      using True c len by (simp add: sendNext_def on_cycle_Some)
  next
    case False
    have "safe (advance t) session_inv (\<lambda>(e, s'). fail_inv s')"
      if t: "sess_inv (s_cycle s) True t" "send_frame s t" for t
    proof (cases "Suc (s_sendIdx t) < length (s_cycleTTLs t)")
      case True
      then show ?thesis
        using t inv by (simp add: sending_inv_def send_frame_def session_inv_def loop_inv_def advance_def Let_def)
    next
      case False
      let ?u = "t\<lparr>s_sendIdx := Suc (s_sendIdx t)\<rparr>"
      obtain s' where "endCycle ?u = Ok s'" "session_inv s'"
        using endCycle_ok [of ?u] t inv by (auto simp: sending_inv_def send_frame_def)
      then show ?thesis using False by (simp add: advance_def Let_def)
    qed
    then have "safe (obind (send net ?ttl s) advance) session_inv (\<lambda>(e, s'). fail_inv s')"
      by (intro safe_obind [OF send_safe [OF sess ne ttl(2)]]) blast
    then show ?thesis
      using False len by (auto simp: sendNext_def)
  qed
qed


lemma ttlsForCycle_ok:
  assumes "spec_ok (s_spec s)" and "reach_inv s"
  shows "\<exists>ttls. ttlsForCycle s = Ok ttls \<and> ttl_range (s_spec s) ttls"
  using assms
  by (auto simp: ttlsForCycle_def spec_ok_def ok_ttl_def reach_inv_def in_ttls_def ttl_range_def Let_def)

lemma open_cycle_inv:
  assumes inv: "sess_inv hi False s" and ne: "s_nextEmit s = Suc hi" and r: "ttl_range (s_spec s) ttls"
  shows "sess_inv (Suc hi) True (s\<lparr>s_cycles := (s_cycles s)(Suc hi \<mapsto> new_cycle (Suc hi) ttls)\<rparr>)"
    (is "sess_inv (Suc hi) True ?t")
proof -
  have none: "s_cycles s = Map.empty"
    using inv ne by (simp add: sess_inv_def cycles_inv_def)
  have "\<forall>p \<in> set (s_queue s). p_cycle (s_heap s p) \<le> hi"
    using inv by (simp add: sess_inv_def cycles_inv_def)
  then have "outstanding ?t (Suc hi) = 0"
    by (auto simp: outstanding_def count_if_zero_iff)
  then have "cycle_inv ?t (Suc hi) True (Suc hi) (new_cycle (Suc hi) ttls)"
    using r by (simp add: cycle_inv_def new_cycle_def)
  then have "cycles_inv (Suc hi) True ?t"
    using inv none ne by (auto simp: sess_inv_def cycles_inv_def)
  then show ?thesis
    using inv by (simp add: sess_inv_def queue_inv_def hops_inv_def reach_inv_def out_inv_def
        reg_inv_def wire_inv_def live_def flying_def)
qed

lemma startCycle_ok:
  assumes inv: "session_inv s" and nd: "\<not> s_sendingDone s" and idx: "s_sendIdx s = 0"
  shows "\<exists>s'. startCycle name s = Ok s' \<and> sending_inv s'"
proof -
  let ?a = "s\<lparr>s_cycle := Suc (s_cycle s)\<rparr>"
  have "sess_inv (s_cycle s) False ?a" and cyc: "int (s_cycle s) < sp_Cycles (s_spec s)"
    and ne: "s_nextEmit s \<le> Suc (s_cycle s)"
    using inv nd idx by (simp_all add: session_inv_def loop_inv_def sess_inv_def [of _ _ s] cycles_inv_def)
  from forceEmit_ok [OF this(1), of "s_cycle s" name] obtain b where
    b: "forceEmit name (s_cycle s) ?a = Ok b" "sess_inv (s_cycle s) False b" "report_frame ?a b"
      "s_nextEmit b = Suc (s_cycle s)"
    using ne by (auto simp: max_def)
  then have fr: "s_cycle b = Suc (s_cycle s)" "s_sendIdx b = 0" "s_spec b = s_spec s" "\<not> s_sendingDone b"
    using idx nd by (simp_all add: report_frame_def)
  obtain ttls where ttls: "ttlsForCycle b = Ok ttls" "ttl_range (s_spec b) ttls"
    using ttlsForCycle_ok [of b] b(2) by (auto simp: sess_inv_def)
  let ?c = "b\<lparr>s_cycleTTLs := ttls, s_cycles := (s_cycles b)(Suc (s_cycle s) \<mapsto> new_cycle (Suc (s_cycle s)) ttls)\<rparr>"
  have "startCycle name s = Ok ?c"
    using b ttls fr by (simp add: startCycle_def Let_def)
  moreover have "sess_inv (Suc (s_cycle s)) True ?c"
    using open_cycle_inv [of "s_cycle s" "b\<lparr>s_cycleTTLs := ttls\<rparr>" ttls] b ttls by simp
  moreover have "0 < length ttls"
    using ttls by (auto simp: ttl_range_def in_ttls_def)
  ultimately show ?thesis
    using fr b(4) cyc ttls by (simp add: sending_inv_def)
qed

lemma sendDue_body_safe:
  assumes inv: "session_inv s" and nd: "\<not> s_sendingDone s"
  shows "safe (sendDue_body name net s) session_inv (\<lambda>(e, s'). fail_inv s')"
proof (cases "s_sendIdx s = 0")
  case True
  with startCycle_ok [OF assms, of name] obtain t where "startCycle name s = Ok t" "sending_inv t"
    by blast
  with True sendNext_safe show ?thesis
    by (simp add: sendDue_body_def)
next
  case False
  with assms have "sending_inv s"
    by (simp add: session_inv_def sending_inv_def loop_inv_def)
  with False sendNext_safe show ?thesis
    by (simp add: sendDue_body_def)
qed

text \<open>The sending loop neither panics nor loops, and stops only because nothing is due.\<close>

lemma sendDue_inv:
  "session_inv s \<Longrightarrow> safe (sendDue name net now s)
    (\<lambda>s'. session_inv s' \<and> (s_sendingDone s' \<or> now < s_nextSendAt s')) (\<lambda>(e, s'). fail_inv s')"
  by (rule sendDue_safe) (auto intro: sendDue_body_safe)

end
