(* ===== verification/Trace_Grid.thy ===== *)
theory Trace_Grid
  imports Trace_Invariant
begin

text \<open>
  When the probes of a run leave. Cycle \<open>n\<close> starts \<open>n - 1\<close> intervals after the run, whatever
  happened in the cycles before it, and its probes are spread evenly over the interval;
  the sending side is over no later than \<open>Cycles\<close> intervals after the start.
\<close>

section \<open>The grid\<close>

text \<open>The instant the \<open>i\<close>-th of \<open>len\<close> probes of cycle \<open>n\<close> is due in a run that began at \<open>t0\<close>.\<close>

definition due_at :: "Spec \<Rightarrow> instant \<Rightarrow> nat \<Rightarrow> nat \<Rightarrow> nat \<Rightarrow> instant" where
  "due_at spec t0 n i len =
    t0 + sp_Interval spec * (int n - 1) + sp_Interval spec * int i div int len"

definition sched_inv :: "instant \<Rightarrow> session \<Rightarrow> bool" where
  "sched_inv t0 s \<longleftrightarrow>
    (if s_sendIdx s = 0
     then s_sendingDone s \<or> s_cycleStart s = t0 + sp_Interval (s_spec s) * int (s_cycle s) \<and>
            s_nextSendAt s = s_cycleStart s
     else s_cycleStart s = t0 + sp_Interval (s_spec s) * (int (s_cycle s) - 1) \<and>
            s_nextSendAt s = due_at (s_spec s) t0 (s_cycle s) (s_sendIdx s) (length (s_cycleTTLs s)))"

lemma sched_inv_cong:
  "s_sendIdx s' = s_sendIdx s \<Longrightarrow> s_sendingDone s' = s_sendingDone s \<Longrightarrow> s_cycleStart s' = s_cycleStart s \<Longrightarrow>
    s_nextSendAt s' = s_nextSendAt s \<Longrightarrow> s_cycle s' = s_cycle s \<Longrightarrow> s_spec s' = s_spec s \<Longrightarrow>
    s_cycleTTLs s' = s_cycleTTLs s \<Longrightarrow> sched_inv t0 s' = sched_inv t0 s"
  by (simp add: sched_inv_def)

lemma sched_inv_frames:
  "report_frame s s' \<Longrightarrow> sched_inv t0 s' = sched_inv t0 s"
  "send_frame s s' \<Longrightarrow> sched_inv t0 s' = sched_inv t0 s"
  by (rule sched_inv_cong; simp add: report_frame_def send_frame_def)+

lemma endCycle_sched:
  assumes "endCycle s = Ok s'" and "s_cycleStart s = t0 + sp_Interval (s_spec s) * (int (s_cycle s) - 1)"
  shows "sched_inv t0 s'"
proof -
  from assms(1) obtain m where "s' = s\<lparr>s_cycles := m, s_sendIdx := 0, s_sendingDone := True\<rparr> \<or>
    s' = s\<lparr>s_cycles := m, s_sendIdx := 0, s_cycleStart := s_cycleStart s + sp_Interval (s_spec s),
      s_nextSendAt := s_cycleStart s + sp_Interval (s_spec s)\<rparr>"
    by (auto simp: endCycle_def on_cycle_def deref_def Let_def split: option.splits if_splits)
  with assms(2) show ?thesis
    by (auto simp: sched_inv_def algebra_simps)
qed

lemma advance_sched:
  assumes "advance s = Ok s'" and "s_cycleStart s = t0 + sp_Interval (s_spec s) * (int (s_cycle s) - 1)"
    and "0 \<le> sp_Interval (s_spec s)"
  shows "sched_inv t0 s'"
proof (cases "Suc (s_sendIdx s) < length (s_cycleTTLs s)")
  case True
  then have "go_div (sp_Interval (s_spec s) * (1 + int (s_sendIdx s))) (int (length (s_cycleTTLs s))) =
      sp_Interval (s_spec s) * (1 + int (s_sendIdx s)) div int (length (s_cycleTTLs s))"
    using assms(3) by (intro go_div_pos) auto
  with True assms show ?thesis
    by (auto simp: advance_def sched_inv_def due_at_def Let_def)
next
  case False
  with assms(1) have "endCycle (s\<lparr>s_sendIdx := Suc (s_sendIdx s)\<rparr>) = Ok s'"
    by (simp add: advance_def Let_def)
  then show ?thesis by (rule endCycle_sched) (simp add: assms(2))
qed

lemma sendNext_sched:
  assumes ok: "sendNext net s = Ok s'" and "0 \<le> sp_Interval (s_spec s)"
    and st: "s_cycleStart s = t0 + sp_Interval (s_spec s) * (int (s_cycle s) - 1)"
  shows "sched_inv t0 s'"
proof -
  from ok obtain t where "(\<exists>f. on_cycle (s_cycle s) f s = Ok t \<and> endCycle t = Ok s') \<or>
      (\<exists>ttl. send net ttl s = Ok t \<and> advance t = Ok s')"
    by (auto simp: sendNext_def split: if_splits)
  then have "send_frame s t \<and> (endCycle t = Ok s' \<or> advance t = Ok s')"
    using on_cycle_frame send_frame by blast
  with assms(2) st show ?thesis
    using endCycle_sched [of t s' t0] advance_sched [of t s' t0] by (auto simp: send_frame_def)
qed

lemma sendDue_body_sched:
  assumes ok: "sendDue_body name net s = Ok s'" and sch: "sched_inv t0 s" and "0 \<le> sp_Interval (s_spec s)"
    and "\<not> s_sendingDone s"
  shows "sched_inv t0 s'"
proof (cases "s_sendIdx s = 0")
  case True
  with ok obtain t where t: "startCycle name s = Ok t" "sendNext net t = Ok s'"
    by (auto simp: sendDue_body_def)
  from startCycle_frame [OF t(1)] True assms(2-) show ?thesis
    by (intro sendNext_sched [OF t(2)]) (simp_all add: sched_inv_def)
next
  case False
  with ok assms(2-) show ?thesis
    by (intro sendNext_sched [of net s]) (simp_all add: sendDue_body_def sched_inv_def)
qed

section \<open>The order of the queue\<close>

text \<open>The queue is in the order of sending, and every probe in it expires a timeout after it was
  sent; with a clock that does not go back the queue is in the order of the deadlines.\<close>

definition order_inv :: "(nat \<Rightarrow> send_result) \<Rightarrow> session \<Rightarrow> bool" where
  "order_inv net s \<longleftrightarrow> sorted_wrt (<) (s_queue s) \<and> (\<forall>p \<in> set (s_queue s).
     p_deadline (s_heap s p) = p_sentAt (s_heap s p) + sp_ProbeTimeout (s_spec s) \<and>
     (\<exists>port. net p = Sent (p_sentAt (s_heap s p)) port))"

definition clock_forward :: "(nat \<Rightarrow> send_result) \<Rightarrow> bool" where
  "clock_forward net \<longleftrightarrow> (\<forall>i j a b x y. i \<le> j \<longrightarrow> net i = Sent a x \<longrightarrow> net j = Sent b y \<longrightarrow> a \<le> b)"

lemma order_inv_frame:
  assumes "order_inv net s" and "suffix (s_queue s') (s_queue s)" and "s_spec s' = s_spec s"
    and "\<And>p. p \<in> set (s_queue s') \<Longrightarrow> p_deadline (s_heap s' p) = p_deadline (s_heap s p) \<and>
      p_sentAt (s_heap s' p) = p_sentAt (s_heap s p)"
  shows "order_inv net s'"
proof -
  from assms(2) obtain pre where pre: "s_queue s = pre @ s_queue s'" by (auto simp: suffix_def)
  then have "set (s_queue s') \<subseteq> set (s_queue s)" by auto
  moreover have "sorted_wrt (<) (s_queue s')"
    using assms(1) by (simp add: order_inv_def pre sorted_wrt_append)
  ultimately show ?thesis
    using assms(1,3,4) unfolding order_inv_def by (metis subset_iff)
qed

lemma order_inv_report: "report_frame s s' \<Longrightarrow> order_inv net s \<Longrightarrow> order_inv net s'"
  by (erule order_inv_frame) (simp_all add: report_frame_def)

lemma retire_times:
  "p_deadline (s_heap (retire f g p s) q) = p_deadline (s_heap s q)"
  "p_sentAt (s_heap (retire f g p s) q) = p_sentAt (s_heap s q)"
  "s_spec (retire f g p s) = s_spec s"
  by (simp_all add: retire_eq Let_def)

lemma expire_loop_times:
  "p_deadline (s_heap (expire_loop now q s) p) = p_deadline (s_heap s p) \<and>
   p_sentAt (s_heap (expire_loop now q s) p) = p_sentAt (s_heap s p)"
  by (induction q arbitrary: s) (simp_all add: expire_loop_step retire_times)

lemma expire_order: "order_inv net s \<Longrightarrow> order_inv net (expire now s)"
  using expire_loop_suffix [of now "s_queue s" s] expire_loop_send_frame [of s now "s_queue s"]
  unfolding expire_def
  by (erule_tac order_inv_frame) (simp_all add: expire_loop_times send_frame_def)

lemma handleReply_order: "order_inv net s \<Longrightarrow> order_inv net (handleReply r s)"
  by (erule order_inv_frame)
    (simp_all add: handleReply_eq Let_def retire_heap retire_times split: option.split)

lemma launched_order:
  assumes q: "queue_inv s" and o: "order_inv net s" and l: "launched net ttl n x s s'"
  shows "order_inv net s'"
proof -
  have new: "\<forall>p \<in> set (s_queue s). p < s_next s"
    using q by (simp add: queue_inv_def)
  have sp: "s_spec s' = s_spec s" and q': "s_queue s' = s_queue s @ [s_next s]"
    and h: "s_heap s' = (s_heap s)(s_next s := x)"
    using l by (simp_all add: launched_def send_frame_def)
  have "\<forall>p \<in> set (s_queue s). s_heap s' p = s_heap s p"
    using new by (auto simp: h)
  with o l new show ?thesis
    by (auto simp: order_inv_def q' sp sorted_wrt_append launched_def)
qed

lemma refused_order:
  assumes "queue_inv s" and o: "order_inv net s" and l: "refused ttl f s s'"
  shows "order_inv net s'"
  using assms by (intro order_inv_frame [OF o]) (auto simp: refused_def queue_inv_def send_frame_def)

lemma send_order:
  assumes inv: "sending_inv s" and o: "order_inv net s" and s': "send net ttl s = Ok s'"
  shows "order_inv net s'"
proof -
  have sess: "sess_inv (s_cycle s) True s" and ne: "s_nextEmit s \<le> s_cycle s"
    using inv by (simp_all add: sending_inv_def)
  then have "s_cycle s \<in> dom (s_cycles s)"
    by (simp add: sess_inv_def cycles_inv_def)
  then obtain c where c: "s_cycles s (s_cycle s) = Some c" by blast
  have "ok_protocol (s_spec s)" and q: "queue_inv s"
    using sess by (simp_all add: sess_inv_def spec_ok_def)
  from send_effect [OF this(1) c, of net ttl] s' show ?thesis
    using launched_order [OF q o] refused_order [OF q o] by auto
qed

lemma endCycle_order: "endCycle s = Ok s' \<Longrightarrow> order_inv net s \<Longrightarrow> order_inv net s'"
  by (erule order_inv_frame)
    (auto simp: endCycle_def on_cycle_def deref_def Let_def split: option.splits if_splits)

lemma sendNext_order:
  assumes inv: "sending_inv s" and o: "order_inv net s" and s': "sendNext net s = Ok s'"
  shows "order_inv net s'"
proof -
  from s' obtain t where "(\<exists>f. on_cycle (s_cycle s) f s = Ok t \<and> endCycle t = Ok s') \<or>
      (\<exists>ttl. send net ttl s = Ok t \<and> advance t = Ok s')"
    by (auto simp: sendNext_def split: if_splits)
  then have t: "order_inv net t" and "endCycle t = Ok s' \<or> advance t = Ok s'"
    using o send_order [OF inv o]
    by (auto intro: order_inv_frame simp: on_cycle_def deref_def split: option.splits)
  then consider "endCycle t = Ok s'" | "endCycle (t\<lparr>s_sendIdx := Suc (s_sendIdx t)\<rparr>) = Ok s'"
    | x where "s' = t\<lparr>s_sendIdx := Suc (s_sendIdx t), s_nextSendAt := x\<rparr>"
    by (auto simp: advance_def Let_def split: if_splits)
  then show ?thesis
  proof cases
    case 1
    with t show ?thesis by (rule endCycle_order [rotated])
  next
    case 2
    moreover have "order_inv net (t\<lparr>s_sendIdx := Suc (s_sendIdx t)\<rparr>)"
      using t by (rule order_inv_frame) simp_all
    ultimately show ?thesis by (rule endCycle_order)
  next
    case 3
    with t show ?thesis by (elim order_inv_frame) simp_all
  qed
qed

lemma sendDue_body_order:
  assumes inv: "session_inv s" and nd: "\<not> s_sendingDone s" and o: "order_inv net s"
    and s': "sendDue_body name net s = Ok s'"
  shows "order_inv net s'"
proof (cases "s_sendIdx s = 0")
  case True
  from startCycle_ok [OF inv nd True, of name] obtain t where
    t: "startCycle name s = Ok t" "sending_inv t" by blast
  have "order_inv net t"
    using o t(1)
    by (elim order_inv_frame)
      (auto simp: startCycle_def Let_def report_frame_def dest!: forceEmit_frame)
  moreover have "sendNext net t = Ok s'"
    using s' True t(1) by (simp add: sendDue_body_def)
  ultimately show ?thesis
    using sendNext_order t(2) by blast
next
  case False
  with inv nd have "sending_inv s"
    by (simp add: session_inv_def sending_inv_def loop_inv_def)
  moreover have "sendNext net s = Ok s'"
    using s' False by (simp add: sendDue_body_def)
  ultimately show ?thesis
    using sendNext_order o by blast
qed

section \<open>The state of a running loop\<close>

definition running :: "(nat \<Rightarrow> send_result) \<Rightarrow> instant \<Rightarrow> session \<Rightarrow> bool" where
  "running net t0 s \<longleftrightarrow> session_inv s \<and> sched_inv t0 s \<and> order_inv net s"

lemma session_inv_interval: "session_inv s \<Longrightarrow> 1 \<le> sp_Interval (s_spec s)"
  by (simp add: session_inv_def sess_inv_def spec_ok_def ok_schedule_def)

lemma sendDue_running:
  assumes "running net t0 s"
  shows "safe (sendDue name net now s)
    (\<lambda>s'. running net t0 s' \<and> (s_sendingDone s' \<or> now < s_nextSendAt s')) (\<lambda>(e, s'). fail_inv s')"
proof (rule sendDue_safe)
  fix s assume r: "running net t0 s" and nd: "\<not> s_sendingDone s"
  then have inv: "session_inv s" and sch: "sched_inv t0 s" and o: "order_inv net s"
    by (simp_all add: running_def)
  have "0 \<le> sp_Interval (s_spec s)"
    using session_inv_interval [OF inv] by simp
  with sendDue_body_sched [of name net s _ t0] sch nd
  show "safe (sendDue_body name net s) (running net t0) (\<lambda>(e, s'). fail_inv s')"
    using sendDue_body_safe [OF inv nd, of name net] sendDue_body_order [OF inv nd o, of name]
    by (cases "sendDue_body name net s") (simp_all add: running_def)
qed (fact assms)

text \<open>The next send of a running loop is due before the end of the last interval.\<close>

lemma running_next_send:
  assumes "running net t0 s" and "\<not> s_sendingDone s"
  shows "s_nextSendAt s < t0 + sp_Interval (s_spec s) * sp_Cycles (s_spec s)"
proof -
  let ?i = "sp_Interval (s_spec s)"
  from assms have inv: "session_inv s" and sch: "sched_inv t0 s" by (simp_all add: running_def)
  have i: "1 \<le> ?i" using inv by (rule session_inv_interval)
  show ?thesis
  proof (cases "s_sendIdx s = 0")
    case True
    then have "int (s_cycle s) < sp_Cycles (s_spec s)"
      using inv assms(2) by (simp add: session_inv_def loop_inv_def)
    then have "?i * int (s_cycle s) < ?i * sp_Cycles (s_spec s)"
      using i by simp
    with True sch assms(2) show ?thesis by (simp add: sched_inv_def)
  next
    case False
    then have c: "int (s_cycle s) \<le> sp_Cycles (s_spec s)" and l: "s_sendIdx s < length (s_cycleTTLs s)"
      using inv by (simp_all add: session_inv_def loop_inv_def)
    then have "?i * int (s_sendIdx s) < ?i * int (length (s_cycleTTLs s))"
      using i by simp
    then have "?i * int (s_sendIdx s) div int (length (s_cycleTTLs s)) < ?i"
      using l by (intro div_less_of_less_mult) auto
    moreover have "?i * int (s_cycle s) \<le> ?i * sp_Cycles (s_spec s)"
      using c i by simp
    ultimately show ?thesis
      using False sch by (simp add: sched_inv_def due_at_def algebra_simps)
  qed
qed

end
