(* ===== verification/Trace_Run.thy ===== *)
theory Trace_Run
  imports Trace_Grid
begin

text \<open>
  The run loop of \<^verbatim>\<open>internal/trace/session.go\<close> as a step machine: \<^verbatim>\<open>run\<close>, \<^verbatim>\<open>nextWake\<close>,
  \<^verbatim>\<open>flush\<close> and \<^verbatim>\<open>cleanup\<close>, interleaved with the replies the read loop delivers and with
  the other runs of the same engine. Clock readings and the answers of the name cache are
  chosen freely at each step, so what is shown holds for every timing.
\<close>

section \<open>The loop\<close>

definition first_live :: "session \<Rightarrow> nat option" where
  "first_live s = (case dropWhile (\<lambda>p. p_settled (s_heap s p)) (s_queue s) of
      [] \<Rightarrow> None
    | p # _ \<Rightarrow> Some p)"

definition nextWake :: "instant \<Rightarrow> session \<Rightarrow> duration" where
  "nextWake now s =
    (let wait = Hour;
         wait = (if \<not> s_sendingDone s then s_nextSendAt s - now else wait);
         wait = (case first_live s of
                   None \<Rightarrow> wait
                 | Some p \<Rightarrow> let d = p_deadline (s_heap s p) - now in if d < wait then d else wait)
     in if wait < 0 then 0 else wait)"

text \<open>
  Where the loop stands: at its top, asleep in the \<^verbatim>\<open>select\<close> until an instant, having taken
  the reply that woke it, draining a number of further replies, returned, or crashed.
\<close>

datatype phase = Top | Asleep instant | Woken | Draining nat | Returned | Crashed

type_synonym config = "phase \<times> session"

text \<open>\<^verbatim>\<open>run\<close> up to the loop.\<close>

definition run_begin :: "(nat \<Rightarrow> u16) \<Rightarrow> instant \<Rightarrow> session \<Rightarrow> config" where
  "run_begin rnd now s =
    (let go = (\<lambda>s. (Top, (emit (Started (s_spec s)) s)\<lparr>s_cycleStart := now, s_nextSendAt := now\<rparr>))
     in if sp_Protocol (s_spec s) = ICMP then
          (case allocID rnd (s_e s) of
             Ok (i, e) \<Rightarrow> go (s\<lparr>s_e := e, s_icmpID := i\<rparr>)
           | Fail err \<Rightarrow> (Returned, emit (Failed (EngineError err)) s)
           | _ \<Rightarrow> (Crashed, s))
        else go s)"

definition finish :: "(addr \<Rightarrow> string) \<Rightarrow> bool \<Rightarrow> session \<Rightarrow> config" where
  "finish name cancelled s = (case flush name cancelled s of
      Ok s' \<Rightarrow> (Returned, s')
    | _ \<Rightarrow> (Crashed, s))"

text \<open>One round of the loop, from its top to the \<^verbatim>\<open>select\<close>.\<close>

definition turn ::
  "(addr \<Rightarrow> string) \<Rightarrow> (nat \<Rightarrow> send_result) \<Rightarrow> instant \<Rightarrow> session \<Rightarrow> session sess_outcome" where
  "turn name net now s =
    obind (if \<not> s_sendingDone s \<and> \<not> now < s_nextSendAt s then sendDue name net now s else Ok s) (\<lambda>s.
    tryEmit name (expire now s))"

definition loop_top ::
  "(addr \<Rightarrow> string) \<Rightarrow> (nat \<Rightarrow> send_result) \<Rightarrow> instant \<Rightarrow> session \<Rightarrow> config" where
  "loop_top name net now s = (case turn name net now s of
      Ok s' \<Rightarrow>
        if s_sendingDone s' \<and> s_queue s' = [] then finish name False s'
        else (Asleep (now + nextWake now s'), s')
    | Fail (e, s') \<Rightarrow> (Returned, emit (Failed e) s')
    | _ \<Rightarrow> (Crashed, s))"

definition take_reply :: "reply \<Rightarrow> reply list \<Rightarrow> session \<Rightarrow> session" where
  "take_reply r rs s = handleReply r (s\<lparr>s_replies := rs\<rparr>)"

text \<open>
  What the rest of the program does meanwhile: the read loop and the goroutines that wait on
  probe sockets deliver replies; other runs change the registry and the identifiers, but
  never register a key for this run nor free its identifier.
\<close>

definition others :: "session \<Rightarrow> Engine \<Rightarrow> bool" where
  "others s e \<longleftrightarrow> (\<forall>k. owner e k = Some (s_id s) \<longrightarrow> owner (s_e s) k = Some (s_id s)) \<and>
     (s_icmpID s \<in> e_ids (s_e s) \<longrightarrow> s_icmpID s \<in> e_ids e)"

inductive run_step :: "(nat \<Rightarrow> send_result) \<Rightarrow> config \<Rightarrow> config \<Rightarrow> bool" for net where
  top: "run_step net (Top, s) (loop_top name net now s)"
| cancel: "run_step net (Asleep w, s) (finish name True s)"
| timer: "run_step net (Asleep w, s) (Top, s)"
| woken: "s_replies s = r # rs \<Longrightarrow> run_step net (Asleep w, s) (Woken, take_reply r rs s)"
| count: "run_step net (Woken, s) (Draining (length (s_replies s)), s)"
| drain: "s_replies s = r # rs \<Longrightarrow>
    run_step net (Draining (Suc k), s) (Draining k, take_reply r rs s)"
| drained: "run_step net (Draining 0, s) (Top, s)"
| reply_arrives: "run_step net (ph, s) (ph, deliver r s)"
| other_runs: "others s e \<Longrightarrow> ph \<noteq> Returned \<Longrightarrow> run_step net (ph, s) (ph, s\<lparr>s_e := e\<rparr>)"

inductive_cases run_stepE [elim]: "run_step net (ph, s) c"

text \<open>The deferred calls of \<^verbatim>\<open>run\<close>. Go iterates over a map in any order: \<open>ks\<close> is the order
  in which the keys in flight are visited.\<close>

fun settle_all :: "probeKey list \<Rightarrow> session \<Rightarrow> session" where
  "settle_all [] s = s"
| "settle_all (k # ks) s = settle_all ks (case s_probes s k of None \<Rightarrow> s | Some p \<Rightarrow> settle p s)"

definition cleanup :: "probeKey list \<Rightarrow> session \<Rightarrow> session" where
  "cleanup ks s = (settle_all ks s)\<lparr>s_queue := []\<rparr>"

definition run_deferred :: "probeKey list \<Rightarrow> session \<Rightarrow> session" where
  "run_deferred ks s =
    (let s = cleanup ks s
     in if sp_Protocol (s_spec s) = ICMP then s\<lparr>s_e := freeID (s_icmpID s) (s_e s)\<rparr> else s)"

section \<open>The invariant of the machine\<close>

text \<open>The events of a run that has returned: the start and the cycles in order, then one terminal
  event; a run that completed has reported every cycle asked for, a cancelled one every cycle it
  began.\<close>

definition complete_events :: "Spec \<Rightarrow> nat \<Rightarrow> Event list \<Rightarrow> bool" where
  "complete_events spec cycle out \<longleftrightarrow> (\<exists>cs last. out = Started spec # map CycleDone cs @ [last] \<and>
     map cy_Number cs = [1..<Suc (length cs)] \<and>
     (\<forall>c \<in> set cs. ttl_range spec (map hp_TTL (cy_Hops c))) \<and>
     (case last of
        Finished cancelled \<Rightarrow> length cs = cycle \<and>
          (\<not> cancelled \<longrightarrow> int (length cs) = sp_Cycles spec)
      | Failed e \<Rightarrow> True
      | _ \<Rightarrow> False))"

definition ends_well :: "session \<Rightarrow> bool" where
  "ends_well s \<longleftrightarrow> complete_events (s_spec s) (s_cycle s) (s_out s)"

definition run_inv :: "(nat \<Rightarrow> send_result) \<Rightarrow> instant \<Rightarrow> config \<Rightarrow> bool" where
  "run_inv net t0 c = (case c of
      (Top, s) \<Rightarrow> running net t0 s
    | (Asleep w, s) \<Rightarrow> running net t0 s
    | (Woken, s) \<Rightarrow> running net t0 s
    | (Draining k, s) \<Rightarrow> running net t0 s \<and> k \<le> length (s_replies s)
    | (Returned, s) \<Rightarrow> queue_inv s \<and> reg_inv s \<and> wire_inv s \<and> spec_ok (s_spec s) \<and>
        (ends_well s \<or> s_probes s = Map.empty \<and> s_out s = [Failed (EngineError NoFreeIdentifier)])
    | (Crashed, s) \<Rightarrow> False)"

lemma session_inv_replies [simp]:
  "session_inv (s\<lparr>s_replies := rs\<rparr>) = session_inv s" "session_inv (s\<lparr>s_dropped := n\<rparr>) = session_inv s"
  by (simp_all add: session_inv_def loop_inv_def)

lemma sched_inv_replies [simp]:
  "sched_inv t0 (s\<lparr>s_replies := rs\<rparr>) = sched_inv t0 s" "sched_inv t0 (s\<lparr>s_dropped := n\<rparr>) = sched_inv t0 s"
  by (rule sched_inv_cong; simp)+

lemma order_inv_replies [simp]:
  "order_inv net (s\<lparr>s_replies := rs\<rparr>) = order_inv net s" "order_inv net (s\<lparr>s_dropped := n\<rparr>) = order_inv net s"
  "order_inv net (s\<lparr>s_e := e\<rparr>) = order_inv net s"
  by (simp_all add: order_inv_def)

lemma handleReply_sched: "sched_inv t0 (handleReply r s) = sched_inv t0 s"
  by (rule sched_inv_cong) (simp_all add: handleReply_eq retire_eq Let_def split: option.split)

lemma take_reply_running: "running net t0 s \<Longrightarrow> running net t0 (take_reply r rs s)"
  by (simp add: running_def take_reply_def handleReply_inv handleReply_sched handleReply_order)

lemma handleReply_replies: "s_replies (handleReply r s) = s_replies s"
  by (simp add: handleReply_eq retire_eq Let_def split: option.split)

lemma take_reply_replies [simp]: "s_replies (take_reply r rs s) = rs"
  by (simp add: take_reply_def handleReply_replies)

lemma deliver_replies: "length (s_replies s) \<le> length (s_replies (deliver r s))"
  by (simp add: deliver_def)

text \<open>Finishing a run.\<close>

lemma flush_ok:
  assumes inv: "session_inv s"
  shows "\<exists>s'. flush name cancelled s = Ok s' \<and> queue_inv s' \<and> reg_inv s' \<and> wire_inv s' \<and>
    spec_ok (s_spec s') \<and> (cancelled \<or> int (s_cycle s) = sp_Cycles (s_spec s) \<longrightarrow> ends_well s')"
proof -
  from inv have sess: "sess_inv (s_cycle s) (0 < s_sendIdx s) s"
    by (simp add: session_inv_def)
  from forceEmit_ok [OF this, of "s_cycle s" name] obtain t where
    t: "forceEmit name (s_cycle s) s = Ok t" "sess_inv (s_cycle s) (0 < s_sendIdx s) t" "report_frame s t"
    and "s_nextEmit t = max (s_nextEmit s) (Suc (s_cycle s))"
    by blast
  moreover have "s_nextEmit s \<le> Suc (s_cycle s)"
    using sess by (simp add: sess_inv_def cycles_inv_def)
  ultimately have ne: "s_nextEmit t = Suc (s_cycle s)" by simp
  from t have fr: "s_spec t = s_spec s" "s_cycle t = s_cycle s" by (simp_all add: report_frame_def)
  obtain cs where cs: "s_out t = Started (s_spec s) # map CycleDone cs" "map cy_Number cs = [1..<Suc (s_cycle s)]"
    "\<forall>c \<in> set cs. ttl_range (s_spec s) (map hp_TTL (cy_Hops c))"
    using t(2) by (auto simp: sess_inv_def out_inv_def ne fr)
  from cs(2) have len: "length cs = s_cycle s"
    by (metis diff_Suc_1 length_map length_upt)
  let ?s' = "emit (Finished cancelled) t"
  have "flush name cancelled s = Ok ?s'"
    using t by (simp add: flush_def)
  moreover have "queue_inv ?s'" "reg_inv ?s'" "wire_inv ?s'" "spec_ok (s_spec ?s')"
    using t(2) by (simp_all add: sess_inv_def queue_inv_def reg_inv_def wire_inv_def emit_def live_def)
  moreover have "ends_well ?s'" if "cancelled \<or> int (s_cycle s) = sp_Cycles (s_spec s)"
    unfolding ends_well_def complete_events_def using cs len that
    by (intro exI [of _ cs] exI [of _ "Finished cancelled"]) (auto simp: emit_def fr)
  ultimately show ?thesis by blast
qed

lemma finish_inv:
  "running net t0 s \<Longrightarrow> cancelled \<or> int (s_cycle s) = sp_Cycles (s_spec s) \<Longrightarrow> run_inv net t0 (finish name cancelled s)"
  using flush_ok [of s name cancelled] by (auto simp: finish_def run_inv_def running_def)

lemma turn_safe:
  assumes "running net t0 s"
  shows "safe (turn name net now s) (\<lambda>s'. running net t0 s' \<and> (s_sendingDone s' \<or> now < s_nextSendAt s'))
    (\<lambda>(e, s'). fail_inv s')"
proof -
  let ?P = "\<lambda>s'. running net t0 s' \<and> (s_sendingDone s' \<or> now < s_nextSendAt s')"
  have "safe (if \<not> s_sendingDone s \<and> \<not> now < s_nextSendAt s then sendDue name net now s else Ok s)
    ?P (\<lambda>(e, s'). fail_inv s')"
    using assms sendDue_running [OF assms] by auto
  then show ?thesis
    unfolding turn_def
  proof (rule safe_obind)
    fix t assume t: "?P t"
    then have "session_inv (expire now t)"
      by (simp add: running_def expire_inv)
    then obtain u where u: "tryEmit name (expire now t) = Ok u" "session_inv u" "report_frame (expire now t) u"
      using tryEmit_ok by blast
    have f: "send_frame t (expire now t)"
      using expire_loop_send_frame by (simp add: expire_def)
    with t u have "running net t0 u"
      by (simp add: running_def sched_inv_frames expire_order order_inv_report)
    moreover have "s_sendingDone u = s_sendingDone t" "s_nextSendAt u = s_nextSendAt t"
      using f u(3) by (simp_all add: send_frame_def report_frame_def)
    ultimately show "safe (tryEmit name (expire now t)) ?P (\<lambda>(e, s'). fail_inv s')"
      using t u(1) by simp
  qed
qed

lemma turn_spec:
  assumes "turn name net now s = Ok s'"
  shows "s_spec s' = s_spec s"
proof -
  from assms obtain t where t: "t = s \<or> sendDue name net now s = Ok t" "tryEmit name (expire now t) = Ok s'"
    by (auto simp: turn_def split: if_splits)
  have "s_spec s' = s_spec (expire now t)"
    using tryEmit_frame [OF t(2)] by (simp add: report_frame_def)
  also have "\<dots> = s_spec t"
    using expire_loop_send_frame [of t now "s_queue t"] by (simp add: send_frame_def expire_def)
  finally show ?thesis
    using t(1) sendDue_spec by auto
qed

lemma fail_ends_well:
  assumes "fail_inv s"
  shows "ends_well (emit (Failed e) s)"
proof -
  from assms obtain cs where "s_out s = Started (s_spec s) # map CycleDone cs"
    "map cy_Number cs = [1..<s_nextEmit s]" "\<forall>c \<in> set cs. ttl_range (s_spec s) (map hp_TTL (cy_Hops c))"
    by (auto simp: fail_inv_def out_inv_def)
  moreover from this(2) have "map cy_Number cs = [1..<Suc (length cs)]"
    by (cases "s_nextEmit s") (auto dest: arg_cong [of _ _ length] simp del: upt_Suc)
  ultimately show ?thesis
    unfolding ends_well_def complete_events_def by (intro exI [of _ cs] exI [of _ "Failed e"]) (simp add: emit_def)
qed

lemma loop_top_inv: "running net t0 s \<Longrightarrow> run_inv net t0 (loop_top name net now s)"
proof -
  assume inv: "running net t0 s"
  note sf = turn_safe [OF inv, of name now]
  show ?thesis
  proof (cases "turn name net now s")
    case (Ok t)
    with sf have t: "running net t0 t" by simp
    then have "s_sendingDone t \<Longrightarrow> int (s_cycle t) = sp_Cycles (s_spec t)"
      by (simp add: running_def session_inv_def loop_inv_def)
    with t Ok show ?thesis
      by (simp add: loop_top_def finish_inv) (simp add: run_inv_def)
  next
    case (Fail x)
    obtain e t where x: "x = (e, t)" by (cases x)
    with sf Fail have "fail_inv t" by simp
    then have "queue_inv (emit (Failed e) t)" "reg_inv (emit (Failed e) t)" "wire_inv (emit (Failed e) t)"
      "spec_ok (s_spec (emit (Failed e) t))"
      by (simp_all add: fail_inv_def queue_inv_def reg_inv_def wire_inv_def emit_def live_def)
    with Fail x fail_ends_well [OF \<open>fail_inv t\<close>] show ?thesis
      by (simp add: loop_top_def run_inv_def)
  qed (use sf in simp_all)
qed


lemma others_running: "others s e \<Longrightarrow> running net t0 s \<Longrightarrow> running net t0 (s\<lparr>s_e := e\<rparr>)"
  using sched_inv_cong [of "s\<lparr>s_e := e\<rparr>" s t0]
  by (auto simp: running_def others_def session_inv_def loop_inv_def sess_inv_def sess_inv_parts)

lemma deliver_frame: "\<exists>rs n. deliver r s = s\<lparr>s_replies := rs, s_dropped := n\<rparr>"
proof (cases "length (s_replies s) < replies_cap")
  case True
  then show ?thesis
    by (intro exI [of _ "s_replies s @ [r]"] exI [of _ "s_dropped s"]) (simp add: deliver_def)
next
  case False
  then show ?thesis
    by (intro exI [of _ "s_replies s"] exI [of _ "s_dropped s + 1"]) (simp add: deliver_def)
qed

lemma ends_well_frame [simp]:
  "ends_well (s\<lparr>s_replies := rs\<rparr>) = ends_well s" "ends_well (s\<lparr>s_dropped := n\<rparr>) = ends_well s"
  by (simp_all add: ends_well_def)

lemma run_inv_deliver: "run_inv net t0 (ph, s) \<Longrightarrow> run_inv net t0 (ph, deliver r s)"
proof -
  assume inv: "run_inv net t0 (ph, s)"
  obtain rs n where d: "deliver r s = s\<lparr>s_replies := rs, s_dropped := n\<rparr>"
    using deliver_frame by blast
  with deliver_replies [of s r] have "length (s_replies s) \<le> length rs" by simp
  with inv show ?thesis
    unfolding d by (auto simp: run_inv_def running_def queue_inv_def reg_inv_def wire_inv_def live_def
        split: phase.splits)
qed

lemma run_inv_step: "run_step net c c' \<Longrightarrow> run_inv net t0 c \<Longrightarrow> run_inv net t0 c'"
proof (induction rule: run_step.induct)
  case (top s name now)
  then show ?case by (simp add: run_inv_def [of _ _ "(Top, s)"] loop_top_inv)
next
  case (cancel w s name)
  then show ?case by (simp add: run_inv_def [of _ _ "(Asleep w, s)"] finish_inv)
next
  case (reply_arrives ph s r)
  then show ?case by (simp add: run_inv_deliver)
next
  case (other_runs s e ph)
  then show ?case by (cases ph) (simp_all add: run_inv_def others_running)
qed (simp_all add: run_inv_def take_reply_running)

text \<open>How \<^verbatim>\<open>Engine.Run\<close> starts a run: a normalised specification, a session the registry does
  not know yet, and a source of random numbers that sooner or later yields every identifier.\<close>

inductive run_start :: "instant \<Rightarrow> config \<Rightarrow> bool" for now where
  "Run_spec e spec = Inr spec' \<Longrightarrow> (\<forall>k. owner e k \<noteq> Some sid) \<Longrightarrow> surj rnd \<Longrightarrow>
    run_start now (run_begin rnd now (newSession sid e spec'))"

lemma allocID_returns:
  assumes "surj rnd"
  shows "allocID rnd e \<noteq> Diverge" and "allocID rnd e \<noteq> Panic"
  using draw_surj [OF assms, of e] by (auto simp: allocID_def not_le split: option.splits)

lemma session_begin_inv:
  assumes "spec_ok spec" and "\<forall>k. owner e k \<noteq> Some sid"
  shows "running net a ((emit (Started spec) ((newSession sid e spec)\<lparr>s_icmpID := i\<rparr>))
    \<lparr>s_cycleStart := a, s_nextSendAt := a\<rparr>)"
proof -
  have "push_bit 2 (sp_DSCP spec) = 4 * sp_DSCP spec"
    by (simp add: push_bit_eq_mult)
  with assms show ?thesis
    by (auto simp: running_def sched_inv_def order_inv_def session_inv_def loop_inv_def sess_inv_def sess_inv_parts
        newSession_def emit_def hop_inv_def spec_ok_def ok_schedule_def)
qed

lemma run_start_inv: "run_start now c \<Longrightarrow> run_inv net now c"
proof (induction rule: run_start.induct)
  case (1 e spec spec' sid rnd)
  then have ok: "spec_ok spec'"
    by (auto simp: Run_spec_def Let_def intro: Normalize_spec_ok split: sum.splits if_splits)
  let ?s = "newSession sid e spec'"
  have sel: "s_spec (newSession sid x spec') = spec'" "s_e ?s = e" "s_icmpID ?s = 0" for x
    by (simp_all add: newSession_def)
  show ?case
  proof (cases "sp_Protocol spec' = ICMP")
    case False
    have "?s\<lparr>s_icmpID := 0\<rparr> = ?s"
      by (rule session.equality) (simp_all add: sel)
    with False session_begin_inv [OF ok 1(2), where i = 0 and a = now] show ?thesis
      by (simp add: run_begin_def run_inv_def sel)
  next
    case True
    show ?thesis
    proof (cases "allocID rnd e")
      case (Ok x)
      obtain i e' where x: "x = (i, e')" by (cases x)
      have e': "?s\<lparr>s_e := e', s_icmpID := i\<rparr> = (newSession sid e' spec')\<lparr>s_icmpID := i\<rparr>"
        by (simp add: newSession_def)
      have "owner e' = owner e"
        using Ok x by (auto simp: allocID_def owner_def split: if_splits option.splits)
      with 1(2) have own: "\<forall>k. owner e' k \<noteq> Some sid" by simp
      have "run_begin rnd now ?s = (Top, (emit (Started spec') ((newSession sid e' spec')\<lparr>s_icmpID := i\<rparr>))
          \<lparr>s_cycleStart := now, s_nextSendAt := now\<rparr>)"
        using True Ok x e' by (simp add: run_begin_def sel)
      then show ?thesis
        using session_begin_inv [OF ok own, where i = i and a = now] by (simp add: run_inv_def)
    next
      case (Fail err)
      then have "err = NoFreeIdentifier"
        by (auto simp: allocID_def split: if_splits option.splits)
      with Fail True 1(2) ok show ?thesis
        by (simp add: run_begin_def run_inv_def sel emit_def)
          (simp add: newSession_def queue_inv_def reg_inv_def wire_inv_def push_bit_eq_mult)
    qed (use allocID_returns [OF 1(3)] in simp_all)
  qed
qed

interpretation trace_run: invariant_system "run_start t0" "run_step net" "run_inv net t0" for t0 net
  by unfold_locales (rule run_start_inv, assumption, rule run_inv_step)

section \<open>Leaving nothing behind\<close>

lemma settle_queue_inv:
  assumes "queue_inv s" and "s_probes s k = Some p"
  shows "queue_inv (settle p s)" and "p_key (s_heap s p) = k"
proof -
  have only: "p_key (s_heap s q) = j" if "s_probes s j = Some q" for j q
    using assms(1) that by (simp add: queue_inv_def)
  then show "p_key (s_heap s p) = k" using assms(2) by simp
  then show "queue_inv (settle p s)"
    using assms by (auto simp: queue_inv_def settle_eq live_def dest: only)
qed

lemma settle_all_effect:
  "queue_inv s \<Longrightarrow>
    s_probes (settle_all ks s) = s_probes s |` (- set ks) \<and>
    owner (s_e (settle_all ks s)) = (\<lambda>k. if k \<in> set ks \<inter> dom (s_probes s) then None else owner (s_e s) k) \<and>
    e_ids (s_e (settle_all ks s)) = e_ids (s_e s) \<and>
    s_id (settle_all ks s) = s_id s \<and> s_spec (settle_all ks s) = s_spec s \<and>
    s_icmpID (settle_all ks s) = s_icmpID s \<and> s_out (settle_all ks s) = s_out s"
proof (induction ks arbitrary: s)
  case Nil
  then show ?case by (auto simp: restrict_map_def)
next
  case (Cons k ks)
  show ?case
  proof (cases "s_probes s k")
    case None
    with Cons show ?thesis by (auto simp: restrict_map_def fun_eq_iff)
  next
    case (Some p)
    with Cons.prems have q: "queue_inv (settle p s)" and k: "p_key (s_heap s p) = k"
      using settle_queue_inv by blast+
    from k have eq: "s_probes (settle p s) = (s_probes s)(k := None)"
      "owner (s_e (settle p s)) = (owner (s_e s))(k := None)" "e_ids (s_e (settle p s)) = e_ids (s_e s)"
      "s_id (settle p s) = s_id s" "s_spec (settle p s) = s_spec s" "s_icmpID (settle p s) = s_icmpID s"
      "s_out (settle p s) = s_out s"
      by (simp_all add: settle_eq)
    from Cons.IH [OF q] Some show ?thesis
      unfolding eq by (auto simp: restrict_map_def fun_eq_iff)
  qed
qed

lemma cleanup_leaves_nothing:
  assumes "queue_inv s" and "reg_inv s" and "dom (s_probes s) \<subseteq> set ks"
  shows "owner (s_e (cleanup ks s)) k \<noteq> Some (s_id s) \<and> s_probes (cleanup ks s) = Map.empty \<and>
    s_queue (cleanup ks s) = []"
  using settle_all_effect [OF assms(1), of ks] assms(2,3)
  by (auto simp: cleanup_def reg_inv_def restrict_map_def fun_eq_iff)


section \<open>Waiting\<close>

lemma order_deadlines:
  assumes "order_inv net s" and "clock_forward net" and "s_queue s = pre @ p # q" and "r \<in> set q"
  shows "p_deadline (s_heap s p) \<le> p_deadline (s_heap s r)"
proof -
  have "p < r" and in_queue: "p \<in> set (s_queue s)" "r \<in> set (s_queue s)"
    using assms(1,3,4) by (auto simp: order_inv_def sorted_wrt_append)
  then obtain x y where "net p = Sent (p_sentAt (s_heap s p)) x" "net r = Sent (p_sentAt (s_heap s r)) y"
    using assms(1) unfolding order_inv_def by blast
  with \<open>p < r\<close> have "p_sentAt (s_heap s p) \<le> p_sentAt (s_heap s r)"
    using assms(2) unfolding clock_forward_def by (meson less_imp_le)
  then show ?thesis
    using assms(1) in_queue by (simp add: order_inv_def)
qed

lemma expire_overdue:
  assumes "order_inv net s" and "clock_forward net" and "p \<in> set (s_queue (expire now s))"
  shows "now < p_deadline (s_heap (expire now s) p)"
proof (cases "s_queue (expire now s)")
  case (Cons h q)
  then have "now < p_deadline (s_heap (expire now s) h)"
    using expire_loop_head unfolding expire_def by blast
  moreover have "p = h \<or> p \<in> set q"
    using assms(3) Cons by simp
  ultimately show ?thesis
    using order_deadlines [OF expire_order [OF assms(1)] assms(2), of now "[]" h q p] Cons by fastforce
qed (use assms(3) in simp)

lemma expire_all:
  "\<forall>p \<in> set q. p_deadline (s_heap s p) \<le> now \<Longrightarrow> s_queue (expire_loop now q s) = []"
  by (induction q arbitrary: s) (auto simp: expire_loop_step retire_times)

lemma first_live_split:
  assumes "p \<in> set (s_queue s)" and "live s p"
  obtains h pre q where "first_live s = Some h" "s_queue s = pre @ h # q" "p = h \<or> p \<in> set q"
proof -
  let ?f = "\<lambda>p. p_settled (s_heap s p)"
  have split: "s_queue s = takeWhile ?f (s_queue s) @ dropWhile ?f (s_queue s)" by simp
  moreover have "p \<notin> set (takeWhile ?f (s_queue s))"
    using assms(2) by (auto simp: live_def dest: set_takeWhileD)
  ultimately have "p \<in> set (dropWhile ?f (s_queue s))"
    using assms(1) by (metis Un_iff set_append)
  then obtain h q where "dropWhile ?f (s_queue s) = h # q" "p = h \<or> p \<in> set q"
    by (cases "dropWhile ?f (s_queue s)") auto
  with split that [of h "takeWhile ?f (s_queue s)" q] show thesis
    by (simp add: first_live_def)
qed

lemma nextWake_deadline:
  assumes "order_inv net s" and "clock_forward net" and "p \<in> set (s_queue s)" and "live s p"
  shows "now + nextWake now s \<le> max now (p_deadline (s_heap s p))"
proof -
  from first_live_split [OF assms(3,4)] obtain h pre q where
    h: "first_live s = Some h" "s_queue s = pre @ h # q" "p = h \<or> p \<in> set q" .
  then have "p_deadline (s_heap s h) \<le> p_deadline (s_heap s p)"
    using order_deadlines [OF assms(1,2) h(2)] by auto
  with h(1) show ?thesis
    by (auto simp: nextWake_def Let_def)
qed

lemma nextWake_send: "\<not> s_sendingDone s \<Longrightarrow> now + nextWake now s \<le> max now (s_nextSendAt s)"
  by (auto simp: nextWake_def Let_def split: option.split)

lemma nextWake_nonneg: "0 \<le> nextWake now s"
  by (simp add: nextWake_def Let_def)

section \<open>Replies that come twice\<close>

lemma handleReply_probes:
  assumes "queue_inv s"
  shows "s_probes (handleReply r s) = (s_probes s)(r_key r := None)"
proof (cases "s_probes s (r_key r)")
  case None
  then show ?thesis by (simp add: handleReply_eq fun_upd_idem)
next
  case (Some p)
  then have "live s p" "p_key (s_heap s p) = r_key r"
    using assms by (auto simp: queue_inv_def)
  with Some show ?thesis
    by (simp add: handleReply_eq retire_eq Let_def)
qed

lemma handleReply_unknown: "s_probes s (r_key r) = None \<Longrightarrow> handleReply r s = s"
  by (simp add: handleReply_eq)

end
