(* ===== verification/Trace_Theorems.thy ===== *)
theory Trace_Theorems
  imports Trace_Run
begin

text \<open>
  The theorems about a run of the trace engine (\<^verbatim>\<open>internal/trace/session.go\<close>), each with an
  example run that meets its hypotheses.
\<close>

section \<open>An example\<close>

text \<open>A trace of one cycle over UDP to a target one hop away: the first probe is answered by the
  target before the second is due, which ends the cycle and the run.\<close>

definition demo_spec :: Spec where
  "demo_spec = \<lparr>sp_Target = V4 0x0A000001, sp_Protocol = UDP, sp_Mode = MTR, sp_Port = 33434,
     sp_ResolveNames = False, sp_Cycles = 1, sp_Interval = 1000000000, sp_FirstTTL = 1, sp_MaxTTL = 2,
     sp_PacketSize = 4, sp_DSCP = 46, sp_Source = NoAddr, sp_ProbeTimeout = 2000000000\<rparr>"

lemma demo_spec_sel [simp]:
  "sp_Target demo_spec = V4 0x0A000001" "sp_Protocol demo_spec = UDP" "sp_Mode demo_spec = MTR"
  "sp_ResolveNames demo_spec = False" "sp_Cycles demo_spec = 1" "sp_Interval demo_spec = 1000000000"
  "sp_FirstTTL demo_spec = 1" "sp_MaxTTL demo_spec = 2" "sp_PacketSize demo_spec = 4"
  "sp_DSCP demo_spec = 46" "sp_ProbeTimeout demo_spec = 2000000000"
  by (simp_all add: demo_spec_def)

definition demo_engine :: Engine where
  "demo_engine = \<lparr>e_v4 = True, e_v6 = False, e_probes = Map.empty, e_ids = {}\<rparr>"

definition demo_net :: "nat \<Rightarrow> send_result" where
  "demo_net n = Sent (500000000 * int n) (of_nat (40000 + n))"

definition demo_name :: "addr \<Rightarrow> string" where
  "demo_name a = []"

definition demo_key :: probeKey where
  "demo_key = \<lparr>k_proto = UDP, k_v6 = False, k_id = 40000, k_seq = 0\<rparr>"

definition demo_reply :: reply where
  "demo_reply = \<lparr>r_key = demo_key, r_from = V4 0x0A000001, r_kind = replyFromTarget, r_code = 3,
     r_at = 3000000\<rparr>"

definition demo_start :: session where
  "demo_start = (newSession 7 demo_engine demo_spec)\<lparr>s_out := [Started demo_spec]\<rparr>"

text \<open>After the first turn of the loop: one probe in flight.\<close>

definition demo_sent :: session where
  "demo_sent = demo_start\<lparr>
     s_e := demo_engine\<lparr>e_probes := [demo_key \<mapsto> 7]\<rparr>,
     s_probes := [demo_key \<mapsto> 0],
     s_heap := (s_heap demo_start)(0 := \<lparr>p_key = demo_key, p_ttl = 1, p_cycle = 1, p_sentAt = 0,
       p_deadline = 2000000000, p_settled = False, p_closer = True\<rparr>),
     s_next := 1, s_queue := [0],
     s_hops := [1 \<mapsto> sendProbe new_hopStats],
     s_cycles := [1 \<mapsto> (new_cycle 1 [1, 2])\<lparr>c_outstanding := 1\<rparr>],
     s_cycle := 1, s_sendIdx := 1, s_cycleTTLs := [1, 2], s_nextSendAt := 500000000,
     s_wire := [\<lparr>w_ttl = 1, w_tos = 184, w_key = demo_key\<rparr>]\<rparr>"

text \<open>After the target's answer.\<close>

definition demo_answered :: session where
  "demo_answered = take_reply demo_reply [] (deliver demo_reply demo_sent)"

lemma demo_start_sel [simp]:
  "s_id demo_start = 7" "s_e demo_start = demo_engine" "s_spec demo_start = demo_spec" "\<not> s_v6 demo_start"
  "s_tos demo_start = 184" "s_replies demo_start = []" "s_probes demo_start = Map.empty"
  "s_next demo_start = 0" "s_queue demo_start = []" "s_hops demo_start = Map.empty"
  "s_cycles demo_start = Map.empty" "s_cycle demo_start = 0" "s_nextEmit demo_start = 1"
  "s_sendIdx demo_start = 0" "s_cycleStart demo_start = 0" "s_nextSendAt demo_start = 0"
  "\<not> s_sendingDone demo_start" "s_reachedAt demo_start = 0" "s_missedTarget demo_start = 0"
  "s_wire demo_start = []" "s_out demo_start = [Started demo_spec]"
  by (simp_all add: demo_start_def newSession_def Is6_def)

lemmas run_eval = loop_top_def turn_def sendDue_unfold sendDue_body_def startCycle_def forceEmit_def
  ttlsForCycle_def sendNext_def send_def hop_def on_hop_def on_cycle_def endCycle_def advance_def
  send_proto_def sendUDP_def send_socket_def alloc_probe_def s_register_def s_unregister_def sent_ok_def
  set_probe_def enqueue_def index_def deref_def new_cycle_def new_probe_def sendProbe_def lost_def
  new_hopStats_def register_def unregister_def expire_def settle_def settle_in_cycle_def tryEmit_def
  report_def miss_target_def missedTargetLimit_def nextWake_def first_live_def emit_def finish_def
  flush_def handleReply_def take_reply_def deliver_def replies_cap_def reply_parts expire_loop.simps(2)
  upto_rec1 protocol_defs mode_defs go_div_def sgn_if

lemma demo_begin: "run_begin of_nat 0 (newSession 7 demo_engine demo_spec) = (Top, demo_start)"
  by (simp add: run_begin_def demo_start_def newSession_def emit_def protocol_defs)

lemma demo_turn: "loop_top demo_name demo_net 0 demo_start = (Asleep 500000000, demo_sent)"
  by (simp add: run_eval demo_net_def demo_engine_def)
    (rule session.equality; simp add: demo_sent_def demo_key_def demo_engine_def new_cycle_def
      sendProbe_def new_hopStats_def protocol_defs)

lemma demo_last_turn: "fst (loop_top demo_name demo_net 500000000 demo_answered) = Returned"
  by (simp add: demo_answered_def demo_sent_def run_eval demo_net_def demo_reply_def)


lemma demo_run_start: "run_start 0 (Top, demo_start)"
proof -
  have "spec_ok demo_spec"
    by (simp add: spec_ok_def ok_defs demo_spec_def IsValid_def Is4In6_def Is4_def Is6_def
        protocol_defs mode_defs)
  then have "Run_spec demo_engine demo_spec = Inr demo_spec"
    by (simp add: Run_spec_def Normalize_fixpoint demo_engine_def Is6_def)
  moreover have "surj (of_nat :: nat \<Rightarrow> u16)"
    by (rule surjI [of _ unat]) simp
  ultimately show ?thesis
    using run_start.intros [of demo_engine demo_spec demo_spec 7 of_nat 0]
    unfolding demo_begin by (simp add: owner_def demo_engine_def)
qed

lemma demo_reach_sent: "(run_step demo_net)\<^sup>*\<^sup>* (Top, demo_start) (Asleep 500000000, demo_sent)"
  using run_step.top [of demo_net demo_start demo_name 0] by (simp add: demo_turn)

lemma demo_reach_answered: "(run_step demo_net)\<^sup>*\<^sup>* (Top, demo_start) (Top, demo_answered)"
proof -
  have r: "s_replies (deliver demo_reply demo_sent) = [demo_reply]"
    by (simp add: deliver_def demo_sent_def replies_cap_def)
  have "run_step demo_net (Asleep 500000000, demo_sent) (Asleep 500000000, deliver demo_reply demo_sent)"
    by (rule run_step.reply_arrives)
  moreover have "run_step demo_net (Asleep 500000000, deliver demo_reply demo_sent) (Woken, demo_answered)"
    using run_step.woken [OF r, of demo_net 500000000] by (simp add: demo_answered_def)
  moreover have "run_step demo_net (Woken, demo_answered) (Draining 0, demo_answered)"
    using run_step.count [of demo_net demo_answered] by (simp add: demo_answered_def)
  moreover have "run_step demo_net (Draining 0, demo_answered) (Top, demo_answered)"
    by (rule run_step.drained)
  ultimately show ?thesis
    using demo_reach_sent by (meson rtranclp.rtrancl_into_rtrancl)
qed

definition demo_end :: session where
  "demo_end = snd (loop_top demo_name demo_net 500000000 demo_answered)"

lemma demo_reach_end: "(run_step demo_net)\<^sup>*\<^sup>* (Top, demo_start) (Returned, demo_end)"
proof -
  have "loop_top demo_name demo_net 500000000 demo_answered = (Returned, demo_end)"
    using demo_last_turn by (simp add: demo_end_def prod_eq_iff)
  then have "run_step demo_net (Top, demo_answered) (Returned, demo_end)"
    using run_step.top [of demo_net demo_answered demo_name 500000000] by (simp only:)
  with demo_reach_answered show ?thesis
    by (rule rtranclp.rtrancl_into_rtrancl)
qed

lemma demo_clock: "clock_forward demo_net"
  by (simp add: clock_forward_def demo_net_def)

lemma reachable_inv: "run_start t0 c \<Longrightarrow> (run_step net)\<^sup>*\<^sup>* c d \<Longrightarrow> run_inv net t0 d"
  by (rule trace_run.inv_reachable)

lemma reachable_running:
  "run_start t0 c \<Longrightarrow> (run_step net)\<^sup>*\<^sup>* c (ph, s) \<Longrightarrow> ph \<noteq> Returned \<Longrightarrow> running net t0 s"
  by (drule (1) reachable_inv) (auto simp: run_inv_def split: phase.splits)

section \<open>Theorems\<close>

text \<open>(C1) A run never panics and never loops inside one turn, whatever the timing, the replies,
  the network's answers and the other runs; and when it drains the reply channel it never waits
  for a reply that is not there.\<close>

theorem run_never_crashes:
  assumes "run_start t0 c" and "(run_step net)\<^sup>*\<^sup>* c (ph, s)"
  shows "ph \<noteq> Crashed \<and> (\<forall>k. ph = Draining (Suc k) \<longrightarrow> s_replies s \<noteq> [])"
  using reachable_inv [OF assms] by (auto simp: run_inv_def)

theorem run_never_crashes_witness:
  "run_start 0 (Top, demo_start) \<and> (run_step demo_net)\<^sup>*\<^sup>* (Top, demo_start) (Returned, demo_end) \<and>
    Returned \<noteq> Crashed"
  using run_never_crashes [OF demo_run_start demo_reach_end] demo_run_start demo_reach_end by simp



text \<open>(C3) While a run is going, no probe is lost track of: the statistics of every TTL count as in
  flight exactly the unsettled probes with that TTL in the queue, sent probes are answered, in
  flight or lost (so the loss is a percentage), and the counter of every open cycle is the number of
  its unsettled probes. A cycle is open exactly from its start until it is reported.\<close>

theorem run_accounts_for_probes:
  assumes "run_start t0 c" and "(run_step net)\<^sup>*\<^sup>* c (ph, s)" and "ph \<noteq> Returned"
  shows "(\<forall>ttl h. s_hops s ttl = Some h \<longrightarrow>
      h_inFlight h = int (length (filter (\<lambda>p. \<not> p_settled (s_heap s p) \<and> p_ttl (s_heap s p) = ttl) (s_queue s))) \<and>
      0 \<le> h_received h \<and> h_received h + h_inFlight h \<le> h_sent h \<and>
      0 \<le> lossPct h \<and> lossPct h \<le> 100) \<and>
    (\<forall>n x. s_cycles s n = Some x \<longrightarrow> c_number x = n \<and>
      c_outstanding x = int (length (filter (\<lambda>p. \<not> p_settled (s_heap s p) \<and> p_cycle (s_heap s p) = n) (s_queue s)))) \<and>
    dom (s_cycles s) = {s_nextEmit s..s_cycle s}"
proof -
  have inv: "sess_inv (s_cycle s) (0 < s_sendIdx s) s"
    using reachable_running [OF assms] by (simp add: running_def session_inv_def)
  then have h: "hops_inv s" and c: "cycles_inv (s_cycle s) (0 < s_sendIdx s) s"
    by (simp_all add: sess_inv_def)
  have "h_inFlight h = flying s ttl \<and> 0 \<le> h_received h \<and> h_received h + h_inFlight h \<le> h_sent h \<and>
      0 \<le> lossPct h \<and> lossPct h \<le> 100" if "s_hops s ttl = Some h" for ttl h
    using hops_inv_Some [OF h that] lossPct_bounds [of h] by (simp add: hop_ok_def)
  moreover have "c_number x = n \<and> c_outstanding x = outstanding s n" if "s_cycles s n = Some x" for n x
    using c that by (simp add: cycles_inv_def cycle_inv_def)
  moreover have "dom (s_cycles s) = {s_nextEmit s..s_cycle s}"
    using c by (simp add: cycles_inv_def)
  ultimately show ?thesis
    unfolding outstanding_def flying_def count_if_def live_def by blast
qed

theorem run_accounts_for_probes_witness:
  "run_start 0 (Top, demo_start) \<and> (run_step demo_net)\<^sup>*\<^sup>* (Top, demo_start) (Asleep 500000000, demo_sent) \<and>
    s_hops demo_sent 1 = Some (sendProbe new_hopStats) \<and> h_inFlight (sendProbe new_hopStats) = 1 \<and>
    dom (s_cycles demo_sent) = {s_nextEmit demo_sent..s_cycle demo_sent}"
proof -
  have h: "s_hops demo_sent 1 = Some (sendProbe new_hopStats)" by (simp add: demo_sent_def)
  have ph: "Asleep 500000000 \<noteq> Returned" by simp
  note all = run_accounts_for_probes [OF demo_run_start demo_reach_sent ph]
  have "h_inFlight (sendProbe new_hopStats) =
      int (length (filter (\<lambda>p. \<not> p_settled (s_heap demo_sent p) \<and> p_ttl (s_heap demo_sent p) = 1) (s_queue demo_sent)))"
    using all h by blast
  moreover have "dom (s_cycles demo_sent) = {s_nextEmit demo_sent..s_cycle demo_sent}"
    using all by blast
  ultimately show ?thesis
    using h demo_run_start demo_reach_sent by (simp add: demo_sent_def)
qed




text \<open>(C5) A run does not outlive its schedule: once \<open>Cycles\<close> intervals have passed since the
  start, the next turn of the loop either returns or leaves nothing more to send; and once sending
  is over, the first turn after the last deadline of a probe in flight returns.\<close>

theorem run_terminates:
  assumes "run_start t0 c" and "(run_step net)\<^sup>*\<^sup>* c (Top, s)"
  shows "(t0 + sp_Interval (s_spec s) * sp_Cycles (s_spec s) \<le> now \<longrightarrow>
      (case loop_top name net now s of (Asleep w, s') \<Rightarrow> s_sendingDone s' | (ph, s') \<Rightarrow> ph = Returned)) \<and>
    (s_sendingDone s \<and> (\<forall>p \<in> set (s_queue s). p_deadline (s_heap s p) \<le> now) \<longrightarrow>
      fst (loop_top name net now s) = Returned)"
proof -
  have r: "running net t0 s"
    using reachable_running [OF assms] by simp
  note sf = turn_safe [OF r, of name now]
  have fin: "fst (finish name False t) = Returned" if "running net t0 t" for t
    using flush_ok [of t name False] that by (auto simp: running_def finish_def)
  have "case loop_top name net now s of (Asleep w, s') \<Rightarrow> s_sendingDone s' | (ph, s') \<Rightarrow> ph = Returned"
    if now: "t0 + sp_Interval (s_spec s) * sp_Cycles (s_spec s) \<le> now"
  proof (cases "turn name net now s")
    case (Ok t)
    then have t: "running net t0 t" "s_sendingDone t \<or> now < s_nextSendAt t"
      using sf by simp_all
    moreover have "s_spec t = s_spec s"
      using turn_spec [OF Ok] .
    ultimately have "s_sendingDone t"
      using running_next_send [of net t0 t] now by fastforce
    then show ?thesis
      using Ok fin [OF t(1)] by (cases "finish name False t") (auto simp: loop_top_def split: phase.split)
  qed (use sf in \<open>auto simp: loop_top_def\<close>)
  moreover have "fst (loop_top name net now s) = Returned"
    if "s_sendingDone s" and due: "\<forall>p \<in> set (s_queue s). p_deadline (s_heap s p) \<le> now"
  proof -
    have e: "session_inv (expire now s)" "s_queue (expire now s) = []"
      using r expire_all [OF due] expire_inv [of s now] by (simp_all add: running_def expire_def)
    obtain u where u: "tryEmit name (expire now s) = Ok u" "report_frame (expire now s) u"
      using tryEmit_ok [OF e(1)] by blast
    then have "turn name net now s = Ok u"
      using that(1) by (simp add: turn_def)
    moreover have "s_sendingDone u" "s_queue u = []"
      using u(2) e(2) that(1) expire_loop_send_frame [of s now "s_queue s"]
      by (simp_all add: report_frame_def send_frame_def expire_def)
    ultimately show ?thesis
      using sf fin [of u] by (simp add: loop_top_def)
  qed
  ultimately show ?thesis by blast
qed

theorem run_terminates_witness:
  "run_start 0 (Top, demo_start) \<and> (run_step demo_net)\<^sup>*\<^sup>* (Top, demo_start) (Top, demo_start) \<and>
    0 + sp_Interval (s_spec demo_start) * sp_Cycles (s_spec demo_start) \<le> 1000000000 \<and>
    (case loop_top demo_name demo_net 1000000000 demo_start of
       (Asleep w, s') \<Rightarrow> s_sendingDone s' | (ph, s') \<Rightarrow> ph = Returned)"
  using run_terminates [OF demo_run_start rtranclp.rtrancl_refl] demo_run_start by simp

text \<open>(C13) A run leaves nothing behind: after it has returned, whatever the order in which \<^verbatim>\<open>cleanup\<close>
  visits the probes still in flight, the engine's registry holds no key of the run, the run holds no
  probe, and its ICMP identifier is free again.\<close>

theorem run_leaves_nothing_behind:
  assumes "run_start t0 c" and "(run_step net)\<^sup>*\<^sup>* c (Returned, s)" and "dom (s_probes s) = set ks"
  shows "(\<forall>k. owner (s_e (run_deferred ks s)) k \<noteq> Some (s_id s)) \<and>
    s_probes (run_deferred ks s) = Map.empty \<and> s_queue (run_deferred ks s) = [] \<and>
    (sp_Protocol (s_spec s) = ICMP \<longrightarrow> s_icmpID s \<notin> e_ids (s_e (run_deferred ks s)))"
proof -
  have q: "queue_inv s" and r: "reg_inv s"
    using reachable_inv [OF assms(1,2)] by (auto simp: run_inv_def)
  have c: "owner (s_e (cleanup ks s)) k \<noteq> Some (s_id s)" "s_probes (cleanup ks s) = Map.empty"
    "s_queue (cleanup ks s) = []" for k
    using cleanup_leaves_nothing [OF q r, of ks k] assms(3) by auto
  have "s_spec (cleanup ks s) = s_spec s" "s_icmpID (cleanup ks s) = s_icmpID s"
    using settle_all_effect [OF q, of ks] by (simp_all add: cleanup_def)
  with c show ?thesis
    by (simp add: run_deferred_def Let_def freeID_def owner_def)
qed

lemma demo_end_probes: "s_probes demo_end = Map.empty"
  by (simp add: demo_end_def demo_answered_def demo_sent_def run_eval demo_net_def demo_reply_def demo_key_def)

theorem run_leaves_nothing_behind_witness:
  "run_start 0 (Top, demo_start) \<and> (run_step demo_net)\<^sup>*\<^sup>* (Top, demo_start) (Returned, demo_end) \<and>
    dom (s_probes demo_end) = set [] \<and> owner (s_e (run_deferred [] demo_end)) demo_key \<noteq> Some (s_id demo_end)"
  using run_leaves_nothing_behind [OF demo_run_start demo_reach_end, of "[]"] demo_run_start demo_reach_end
    demo_end_probes by simp

text \<open>Every packet a run puts on the wire carries a TTL of the specification's range, a number a
  TTL field can hold, and the traffic class of its DSCP in the upper six bits.\<close>

theorem run_wire_fields:
  assumes "run_start t0 c" and "(run_step net)\<^sup>*\<^sup>* c (ph, s)" and "w \<in> set (s_wire s)"
  shows "sp_FirstTTL (s_spec s) \<le> w_ttl w \<and> w_ttl w \<le> sp_MaxTTL (s_spec s) \<and> 1 \<le> w_ttl w \<and> w_ttl w \<le> 255 \<and>
    w_tos w = 4 * sp_DSCP (s_spec s) \<and> 0 \<le> w_tos w \<and> w_tos w \<le> 252"
proof -
  have "wire_inv s \<and> spec_ok (s_spec s)"
    using reachable_inv [OF assms(1,2)]
    by (auto simp: run_inv_def running_def session_inv_def sess_inv_def split: phase.splits)
  with assms(3) show ?thesis
    by (auto simp: wire_inv_def in_ttls_def spec_ok_def ok_ttl_def ok_packet_def)
qed

theorem run_wire_fields_witness:
  "run_start 0 (Top, demo_start) \<and> (run_step demo_net)\<^sup>*\<^sup>* (Top, demo_start) (Asleep 500000000, demo_sent) \<and>
    \<lparr>w_ttl = 1, w_tos = 184, w_key = demo_key\<rparr> \<in> set (s_wire demo_sent) \<and> (184 :: int) = 4 * 46"
proof -
  have w: "\<lparr>w_ttl = 1, w_tos = 184, w_key = demo_key\<rparr> \<in> set (s_wire demo_sent)"
    by (simp add: demo_sent_def)
  from run_wire_fields [OF demo_run_start demo_reach_sent w] show ?thesis
    using demo_run_start demo_reach_sent w by (simp add: demo_sent_def)
qed

text \<open>Of two answers to the same probe only the first counts: handling the second changes
  nothing at all, whoever sent it and whatever it says.\<close>

theorem duplicate_reply_ignored:
  assumes "run_start t0 c" and "(run_step net)\<^sup>*\<^sup>* c (ph, s)" and "r_key r' = r_key r"
  shows "handleReply r' (handleReply r s) = handleReply r s"
proof -
  have "queue_inv s"
    using reachable_inv [OF assms(1,2)]
    by (auto simp: run_inv_def running_def session_inv_def sess_inv_def split: phase.splits)
  then show ?thesis
    by (intro handleReply_unknown) (simp add: handleReply_probes assms(3))
qed

theorem duplicate_reply_ignored_witness:
  "run_start 0 (Top, demo_start) \<and> (run_step demo_net)\<^sup>*\<^sup>* (Top, demo_start) (Asleep 500000000, demo_sent) \<and>
    handleReply (demo_reply\<lparr>r_at := 9000000\<rparr>) (handleReply demo_reply demo_sent) = handleReply demo_reply demo_sent"
  using duplicate_reply_ignored [OF demo_run_start demo_reach_sent, of "demo_reply\<lparr>r_at := 9000000\<rparr>" demo_reply]
    demo_run_start demo_reach_sent by simp

text \<open>Probes expire on time although only the head of the queue is looked at: with a clock that
  does not go back, \<^verbatim>\<open>expire\<close> leaves no probe past its deadline in the queue, and the loop never
  sleeps past the deadline of a probe in flight nor past the next send.\<close>

theorem run_expires_on_time:
  assumes "run_start t0 c" and "(run_step net)\<^sup>*\<^sup>* c (ph, s)" and "ph \<noteq> Returned" and "clock_forward net"
  shows "(\<forall>p \<in> set (s_queue (expire now s)). now < p_deadline (s_heap (expire now s) p)) \<and>
    (\<forall>p \<in> set (s_queue s). \<not> p_settled (s_heap s p) \<longrightarrow>
       now + nextWake now s \<le> max now (p_deadline (s_heap s p))) \<and>
    (\<not> s_sendingDone s \<longrightarrow> now + nextWake now s \<le> max now (s_nextSendAt s)) \<and> 0 \<le> nextWake now s"
proof -
  have o: "order_inv net s"
    using reachable_running [OF assms(1-3)] by (simp add: running_def)
  show ?thesis
    using expire_overdue [OF o assms(4)] nextWake_deadline [OF o assms(4)] nextWake_send nextWake_nonneg
    by (simp add: live_def)
qed

theorem run_expires_on_time_witness:
  "run_start 0 (Top, demo_start) \<and> (run_step demo_net)\<^sup>*\<^sup>* (Top, demo_start) (Asleep 500000000, demo_sent) \<and>
    clock_forward demo_net \<and> 0 \<in> set (s_queue demo_sent) \<and>
    0 + nextWake 0 demo_sent \<le> max 0 (p_deadline (s_heap demo_sent 0))"
proof -
  have q: "0 \<in> set (s_queue demo_sent)" "\<not> p_settled (s_heap demo_sent 0)" by (simp_all add: demo_sent_def)
  have ph: "Asleep 500000000 \<noteq> Returned" by simp
  from run_expires_on_time [OF demo_run_start demo_reach_sent ph demo_clock] q show ?thesis
    using demo_run_start demo_reach_sent demo_clock by blast
qed

end
