(* ===== verification/Trace_Parse.thy ===== *)
theory Trace_Parse
  imports Trace_Engine
begin

unbundle bit_operations_syntax

text \<open>
  \<^verbatim>\<open>internal/trace/parse.go\<close>: from an ICMP message to the probe it answers. The ICMP and
  IPv4 parsers of \<^verbatim>\<open>golang.org/x/net\<close> are parameters: \<open>ParseMessage\<close> gives the message
  and \<open>ParseHeader\<close> the length and the protocol of an IPv4 header, each or an error. Slice
  and index expressions panic out of range, as Go's do.
\<close>

section \<open>Messages\<close>

datatype icmp_type = Type4 int | Type6 int

datatype icmp_body =
    Echo int int "u8 list"
  | TimeExceeded "u8 list"
  | DstUnreach "u8 list"
  | OtherBody

record icmp_message =
  m_Type :: icmp_type
  m_Code :: int
  m_Body :: icmp_body

definition protoICMP :: int where "protoICMP = 1"
definition protoTCP :: int where "protoTCP = 6"
definition protoUDP :: int where "protoUDP = 17"
definition protoICMPv6 :: int where "protoICMPv6 = 58"

lemmas proto_numbers = protoICMP_def protoTCP_def protoUDP_def protoICMPv6_def

definition ipv6_HeaderLen :: nat where "ipv6_HeaderLen = 40"

section \<open>Reading bytes\<close>

text \<open>\<^verbatim>\<open>binary.BigEndian.Uint16(b[i:i+2])\<close>.\<close>

definition be16 :: "u8 \<Rightarrow> u8 \<Rightarrow> u16" where
  "be16 hi lo = push_bit 8 (ucast hi) OR ucast lo"

definition uint16_at :: "u8 list \<Rightarrow> nat \<Rightarrow> ('e, u16) outcome" where
  "uint16_at b i =
    (if i + 2 \<le> length b then Ok (be16 (b ! i) (b ! (i + 1))) else Panic)"

text \<open>\<^verbatim>\<open>b[i:]\<close>.\<close>

definition slice_from :: "u8 list \<Rightarrow> nat \<Rightarrow> ('e, u8 list) outcome" where
  "slice_from b i = (if i \<le> length b then Ok (drop i b) else Panic)"

section \<open>The quoted datagram\<close>

definition transport_key :: "int \<Rightarrow> u8 list \<Rightarrow> bool \<Rightarrow> ('e, probeKey option) outcome" where
  "transport_key proto tp v6 =
    (if proto = protoICMP \<or> proto = protoICMPv6 then
       obind (index tp 0) (\<lambda>t.
         if \<not> v6 \<and> t \<noteq> 8 \<or> v6 \<and> t \<noteq> 128 then Ok None
         else obind (uint16_at tp 4) (\<lambda>i. obind (uint16_at tp 6) (\<lambda>q.
           Ok (Some \<lparr>k_proto = ICMP, k_v6 = v6, k_id = i, k_seq = q\<rparr>))))
     else if proto = protoUDP then
       obind (uint16_at tp 0) (\<lambda>i.
         Ok (Some \<lparr>k_proto = UDP, k_v6 = v6, k_id = i, k_seq = 0\<rparr>))
     else if proto = protoTCP then
       obind (uint16_at tp 0) (\<lambda>i.
         Ok (Some \<lparr>k_proto = TCP, k_v6 = v6, k_id = i, k_seq = 0\<rparr>))
     else Ok None)"

definition innerKey ::
  "(u8 list \<Rightarrow> (nat \<times> int) option) \<Rightarrow> u8 list \<Rightarrow> bool \<Rightarrow> ('e, probeKey option) outcome" where
  "innerKey ParseHeader data v6 =
    (if v6 then
       (if length data < ipv6_HeaderLen + 8 then Ok None
        else obind (index data 6) (\<lambda>proto.
          obind (slice_from data ipv6_HeaderLen) (\<lambda>tp. transport_key (uint proto) tp v6)))
     else
       (case ParseHeader data of
          None \<Rightarrow> Ok None
        | Some (len, proto) \<Rightarrow>
            if length data < len + 8 then Ok None
            else obind (slice_from data len) (\<lambda>tp. transport_key proto tp v6)))"

section \<open>The reply\<close>

definition plain_reply :: "probeKey \<Rightarrow> replyKind \<Rightarrow> int \<Rightarrow> reply" where
  "plain_reply k kind code = \<lparr>r_key = k, r_from = NoAddr, r_kind = kind, r_code = code, r_at = 0\<rparr>"

definition parseReply ::
  "(int \<Rightarrow> u8 list \<Rightarrow> icmp_message option) \<Rightarrow> (u8 list \<Rightarrow> (nat \<times> int) option) \<Rightarrow>
   u8 list \<Rightarrow> bool \<Rightarrow> ('e, reply option) outcome" where
  "parseReply ParseMessage ParseHeader b v6 =
    (let proto = (if v6 then protoICMPv6 else protoICMP)
     in case ParseMessage proto b of
          None \<Rightarrow> Ok None
        | Some m \<Rightarrow>
            (case m_Body m of
               Echo ID Seq Data \<Rightarrow>
                 if v6 \<and> m_Type m \<noteq> Type6 129 \<or> \<not> v6 \<and> m_Type m \<noteq> Type4 0 then Ok None
                 else Ok (Some (plain_reply
                   \<lparr>k_proto = ICMP, k_v6 = v6, k_id = word_of_int ID, k_seq = word_of_int Seq\<rparr>
                   replyFromTarget 0))
             | TimeExceeded Data \<Rightarrow>
                 obind (innerKey ParseHeader Data v6) (\<lambda>k. case k of
                   None \<Rightarrow> Ok None
                 | Some k \<Rightarrow> Ok (Some (plain_reply k replyExceeded (m_Code m))))
             | DstUnreach Data \<Rightarrow>
                 obind (innerKey ParseHeader Data v6) (\<lambda>k. case k of
                   None \<Rightarrow> Ok None
                 | Some k \<Rightarrow>
                     let portUnreach = (\<not> v6 \<and> m_Code m = 3 \<or> v6 \<and> m_Code m = 4);
                         kind = (if portUnreach \<and> k_proto k = UDP then replyFromTarget
                                 else replyUnreachable)
                     in Ok (Some (plain_reply k kind (m_Code m))))
             | OtherBody \<Rightarrow> Ok None))"

section \<open>No read is out of range\<close>

lemma transport_key_returns: "8 \<le> length tp \<Longrightarrow> \<exists>k. transport_key proto tp v6 = Ok k"
  by (auto simp: transport_key_def uint16_at_def index_def)

lemma innerKey_returns: "\<exists>k. innerKey ParseHeader data v6 = Ok k"
proof (cases v6)
  case True
  show ?thesis
  proof (cases "length data < ipv6_HeaderLen + 8")
    case False
    then have "8 \<le> length (drop ipv6_HeaderLen data)" by simp
    from transport_key_returns [OF this] False True show ?thesis
      by (auto simp: innerKey_def slice_from_def index_def ipv6_HeaderLen_def)
  qed (simp add: innerKey_def True)
next
  case False
  show ?thesis
  proof (cases "ParseHeader data")
    case (Some h)
    obtain len proto where h: "h = (len, proto)" by (cases h)
    show ?thesis
    proof (cases "length data < len + 8")
      case False
      then have "8 \<le> length (drop len data)" by simp
      from transport_key_returns [OF this] False Some \<open>\<not> v6\<close> h show ?thesis
        by (auto simp: innerKey_def slice_from_def)
    qed (simp add: innerKey_def False Some h)
  qed (simp add: innerKey_def False)
qed

section \<open>What a probe put on the wire is what is read back\<close>

text \<open>
  The first eight bytes of the transport header of a probe: the echo request's type, code,
  checksum, identifier and sequence number, or the source port of a datagram or segment and
  what follows it. The bytes that do not identify the probe are arbitrary, \<open>pad\<close>.
\<close>

definition be16_bytes :: "u16 \<Rightarrow> u8 list" where
  "be16_bytes x = [ucast (drop_bit 8 x), ucast x]"

definition probe_transport :: "probeKey \<Rightarrow> u8 list \<Rightarrow> u8 list" where
  "probe_transport k pad =
    (if k_proto k = ICMP
     then [if k_v6 k then 128 else 8, 0, pad ! 0, pad ! 1] @ be16_bytes (k_id k) @ be16_bytes (k_seq k)
     else be16_bytes (k_id k) @ [pad ! 0, pad ! 1, pad ! 2, pad ! 3, pad ! 4, pad ! 5])"

definition probe_protocol :: "probeKey \<Rightarrow> int" where
  "probe_protocol k =
    (if k_proto k = ICMP then (if k_v6 k then protoICMPv6 else protoICMP)
     else if k_proto k = UDP then protoUDP else protoTCP)"

lemma be16_bytes_inverse: "be16 (ucast (drop_bit 8 x)) (ucast x) = x"
proof (rule bit_word_eqI)
  fix n assume "n < LENGTH(16)"
  then show "bit (be16 (ucast (drop_bit 8 x)) (ucast x)) n = bit x n"
    by (auto simp: be16_def bit_or_iff bit_push_bit_iff bit_ucast_iff bit_drop_bit_eq)
qed

lemma probe_transport_length [simp]: "length (probe_transport k pad) = 8"
  by (simp add: probe_transport_def be16_bytes_def)

lemma transport_key_probe:
  assumes "k_proto k \<in> {ICMP, UDP, TCP}" and "k_proto k \<noteq> ICMP \<Longrightarrow> k_seq k = 0"
  shows "transport_key (probe_protocol k) (probe_transport k pad @ rest) (k_v6 k) = Ok (Some k)"
  using assms
  by (cases k) (auto simp: transport_key_def probe_protocol_def probe_transport_def proto_numbers
      protocol_defs uint16_at_def index_def be16_bytes_def be16_bytes_inverse)

lemma innerKey_probe_v6:
  assumes k: "k_proto k \<in> {ICMP, UDP, TCP}" "k_proto k \<noteq> ICMP \<Longrightarrow> k_seq k = 0" "k_v6 k"
    and hdr: "length hdr = ipv6_HeaderLen" "uint (hdr ! 6) = probe_protocol k"
  shows "innerKey ParseHeader (hdr @ probe_transport k pad @ rest) True = Ok (Some k)"
proof -
  have "(hdr @ probe_transport k pad @ rest) ! 6 = hdr ! 6"
    using hdr(1) by (simp add: nth_append ipv6_HeaderLen_def)
  with hdr transport_key_probe [OF k(1,2), where rest = rest] k(3) show ?thesis
    by (simp add: innerKey_def slice_from_def index_def)
qed

lemma innerKey_probe_v4:
  assumes k: "k_proto k \<in> {ICMP, UDP, TCP}" "k_proto k \<noteq> ICMP \<Longrightarrow> k_seq k = 0" "\<not> k_v6 k"
    and hdr: "ParseHeader (hdr @ probe_transport k pad @ rest) = Some (length hdr, probe_protocol k)"
  shows "innerKey ParseHeader (hdr @ probe_transport k pad @ rest) False = Ok (Some k)"
  using hdr transport_key_probe [OF k(1,2), where rest = rest] k(3)
  by (simp add: innerKey_def slice_from_def)


lemma parseReply_returns:
  "\<exists>r. parseReply ParseMessage ParseHeader b v6 = (Ok r :: ('e, reply option) outcome)"
proof (cases "ParseMessage (if v6 then protoICMPv6 else protoICMP) b")
  case None
  then show ?thesis by (simp add: parseReply_def Let_def)
next
  case (Some m)
  have "\<exists>r. obind (innerKey ParseHeader Data v6) (\<lambda>k. case k of None \<Rightarrow> Ok None | Some k \<Rightarrow> Ok (Some (f k))) =
      (Ok r :: ('e, reply option) outcome)"
    for Data and f :: "probeKey \<Rightarrow> reply"
  proof -
    obtain k where "innerKey ParseHeader Data v6 = (Ok k :: ('e, probeKey option) outcome)"
      using innerKey_returns by blast
    then show ?thesis by (cases k) auto
  qed
  with Some show ?thesis
    by (cases "m_Body m") (simp_all add: parseReply_def Let_def)
qed

section \<open>Theorems\<close>

text \<open>No message, however malformed or truncated, makes the parser read out of range: whatever
  the ICMP and IP header parsers return, \<^verbatim>\<open>parseReply\<close> returns a reply or rejects the message.\<close>

theorem parseReply_total:
  "\<exists>r. parseReply ParseMessage ParseHeader b v6 = (Ok r :: ('e, reply option) outcome)"
  by (rule parseReply_returns)

text \<open>(C19) An ICMP error that quotes one of our probes is recognised as the answer to that very probe:
  reading the quoted bytes gives back the key under which the probe was registered, over IPv4 and
  IPv6, for echo requests, UDP datagrams and TCP segments, whatever the other bytes are. A time
  exceeded is then an intermediate hop; a port unreachable for a UDP probe is the target.\<close>

theorem error_identifies_probe:
  assumes k: "k_proto k \<in> {ICMP, UDP, TCP}" "k_proto k \<noteq> ICMP \<longrightarrow> k_seq k = 0"
    and quote: "data = hdr @ probe_transport k pad @ rest"
    and hdr: "if k_v6 k then length hdr = 40 \<and> uint (hdr ! 6) = probe_protocol k
      else ParseHeader data = Some (length hdr, probe_protocol k)"
    and m: "ParseMessage (if k_v6 k then protoICMPv6 else protoICMP) b = Some m"
  shows "(m_Body m = TimeExceeded data \<longrightarrow>
      parseReply ParseMessage ParseHeader b (k_v6 k) =
        (Ok (Some (plain_reply k replyExceeded (m_Code m))) :: ('e, reply option) outcome)) \<and>
    (m_Body m = DstUnreach data \<longrightarrow>
      parseReply ParseMessage ParseHeader b (k_v6 k) = (Ok (Some (plain_reply k
        (if k_proto k = UDP \<and> m_Code m = (if k_v6 k then 4 else 3) then replyFromTarget else replyUnreachable)
        (m_Code m))) :: ('e, reply option) outcome))"
proof -
  have "innerKey ParseHeader data (k_v6 k) = (Ok (Some k) :: ('e, probeKey option) outcome)"
    using innerKey_probe_v6 [of k hdr ParseHeader pad rest] innerKey_probe_v4 [of k ParseHeader hdr pad rest]
      k hdr by (cases "k_v6 k") (simp_all add: quote ipv6_HeaderLen_def)
  then show ?thesis
    using m by (auto simp: parseReply_def Let_def)
qed

theorem error_identifies_probe_witness:
  "parseReply (\<lambda>p b. Some \<lparr>m_Type = Type4 11, m_Code = 0, m_Body = TimeExceeded (replicate 20 0 @ b)\<rparr>)
     (\<lambda>b. Some (20, 17)) (probe_transport \<lparr>k_proto = UDP, k_v6 = False, k_id = 40001, k_seq = 0\<rparr> (replicate 6 7)) False
   = (Ok (Some (plain_reply \<lparr>k_proto = UDP, k_v6 = False, k_id = 40001, k_seq = 0\<rparr> replyExceeded 0)) :: (unit, _) outcome)"
  using error_identifies_probe [of "\<lparr>k_proto = UDP, k_v6 = False, k_id = 40001, k_seq = 0\<rparr>"
      "replicate 20 0 @ probe_transport \<lparr>k_proto = UDP, k_v6 = False, k_id = 40001, k_seq = 0\<rparr> (replicate 6 7)"
      "replicate 20 0" "replicate 6 7" "[]" "\<lambda>b. Some (20, 17)"
      "\<lambda>p b. Some \<lparr>m_Type = Type4 11, m_Code = 0, m_Body = TimeExceeded (replicate 20 0 @ b)\<rparr>"
      "probe_transport \<lparr>k_proto = UDP, k_v6 = False, k_id = 40001, k_seq = 0\<rparr> (replicate 6 7)"]
  by (simp add: probe_protocol_def protoUDP_def protocol_defs)

end
