(* ===== verification/Trace_Receive.thy ===== *)
theory Trace_Receive
  imports Trace_Parse
begin

text \<open>
  What runs beside the loop of a session: the read loop of a raw socket
  (\<^verbatim>\<open>internal/trace/engine.go\<close>), the goroutines that wait on the socket of one UDP or TCP
  probe (\<^verbatim>\<open>probe_udp.go\<close>, \<^verbatim>\<open>probe_tcp.go\<close>), and the cache of reverse names
  (\<^verbatim>\<open>rdns.go\<close>).
\<close>

section \<open>The read loop\<close>

text \<open>The peer of a packet: not an IP address, an IP of no valid length, or an address and a zone.\<close>

datatype peer = NotIPAddr | BadIP | IPAddr addr string

datatype read_result = ReadErr bool | ReadPacket "u8 list" peer

text \<open>One round of \<^verbatim>\<open>readLoop\<close>: stop once the engine is closed, go on, or hand a reply to a run.\<close>

datatype read_action = Stop | Continue | Deliver session_id reply

definition read_round ::
  "(int \<Rightarrow> u8 list \<Rightarrow> icmp_message option) \<Rightarrow> (u8 list \<Rightarrow> (nat \<times> int) option) \<Rightarrow>
   bool \<Rightarrow> bool \<Rightarrow> instant \<Rightarrow> Engine \<Rightarrow> read_result \<Rightarrow> (unit, read_action) outcome" where
  "read_round ParseMessage ParseHeader v6 stopped now e res = (case res of
      ReadErr timeout \<Rightarrow> Ok (if stopped then Stop else Continue)
    | ReadPacket b peer \<Rightarrow>
        (case peer of
           NotIPAddr \<Rightarrow> Ok Continue
         | BadIP \<Rightarrow> Ok Continue
         | IPAddr ip zone \<Rightarrow>
             (let from = Unmap ip;
                  from = (if zone \<noteq> [] then WithZone from zone else from)
              in obind (parseReply ParseMessage ParseHeader b v6) (\<lambda>r. case r of
                   None \<Rightarrow> Ok Continue
                 | Some r \<Rightarrow>
                     let r = r\<lparr>r_from := from, r_at := now\<rparr>
                     in (case owner e (r_key r) of
                           None \<Rightarrow> Ok Continue
                         | Some s \<Rightarrow> Ok (Deliver s r))))))"

section \<open>Waiting on the socket of a probe\<close>

text \<open>What \<^verbatim>\<open>poll\<close> returned: interrupted, an error, nothing in time, or ready with what reading
  \<^verbatim>\<open>SO_ERROR\<close> gave (\<open>None\<close> when that failed).\<close>

datatype poll_result = PollEINTR | PollErr | PollNone | PollReady "int option"

definition ECONNREFUSED :: int where "ECONNREFUSED = 111"

text \<open>\<^verbatim>\<open>awaitTCP\<close>: each element of the list is one round, with the instant it began, what the poll
  returned and the instant it returned. The list ends when the goroutine is still waiting.\<close>

fun awaitTCP ::
  "addr \<Rightarrow> probeKey \<Rightarrow> instant \<Rightarrow> (instant \<times> poll_result \<times> instant) list \<Rightarrow> reply option" where
  "awaitTCP target key deadline [] = None"
| "awaitTCP target key deadline ((now, res, later) # rest) =
    (if deadline - now \<le> 0 then None
     else (case res of
        PollEINTR \<Rightarrow> awaitTCP target key deadline rest
      | PollErr \<Rightarrow> None
      | PollNone \<Rightarrow> None
      | PollReady None \<Rightarrow> None
      | PollReady (Some soerr) \<Rightarrow>
          if soerr = 0 \<or> soerr = ECONNREFUSED
          then Some \<lparr>r_key = key, r_from = target, r_kind = replyFromTarget, r_code = 0, r_at = later\<rparr>
          else None))"

text \<open>The goroutine of \<^verbatim>\<open>sendUDP\<close>: one read, until the deadline.\<close>

definition awaitUDP :: "probeKey \<Rightarrow> (addr option \<times> instant) option \<Rightarrow> reply option" where
  "awaitUDP key res = (case res of
      None \<Rightarrow> None
    | Some (None, now) \<Rightarrow> None
    | Some (Some ip, now) \<Rightarrow>
        Some \<lparr>r_key = key, r_from = Unmap ip, r_kind = replyFromTarget, r_code = 0, r_at = now\<rparr>)"

section \<open>Reverse names\<close>

record rdnsEntry =
  rd_name :: string
  rd_done :: bool
  rd_expires :: instant

definition rdnsTTL :: duration where "rdnsTTL = 10 * Minute"

text \<open>Entries are objects: the map holds pointers, and a lookup in progress keeps the pointer of the
  entry it will fill, which may have been replaced in the map by then.\<close>

record resolver =
  rv_entries :: "addr \<rightharpoonup> nat"
  rv_heap :: "nat \<Rightarrow> rdnsEntry"
  rv_next :: nat
  rv_lookups :: "(addr \<times> nat) list"

definition newResolver :: resolver where
  "newResolver = \<lparr>rv_entries = Map.empty, rv_heap = (\<lambda>_. \<lparr>rd_name = [], rd_done = False, rd_expires = 0\<rparr>),
     rv_next = 0, rv_lookups = []\<rparr>"

definition rdns_name :: "instant \<Rightarrow> addr \<Rightarrow> resolver \<Rightarrow> string \<times> resolver" where
  "rdns_name now a r =
    (let a = WithZone a [];
         fresh = (case rv_entries r a of
                    None \<Rightarrow> None
                  | Some p \<Rightarrow>
                      let e = rv_heap r p
                      in if \<not> rd_done e \<or> now < rd_expires e then Some (rd_name e) else None)
     in case fresh of
          Some n \<Rightarrow> (n, r)
        | None \<Rightarrow>
            (let p = rv_next r
             in ([], r\<lparr>rv_entries := (rv_entries r)(a \<mapsto> p),
                       rv_heap := (rv_heap r)(p := \<lparr>rd_name = [], rd_done = False, rd_expires = 0\<rparr>),
                       rv_next := Suc p, rv_lookups := rv_lookups r @ [(a, p)]\<rparr>)))"

definition trim_dot :: "string \<Rightarrow> string" where
  "trim_dot s = (if s \<noteq> [] \<and> last s = CHR ''.'' then butlast s else s)"

text \<open>The end of a lookup: \<open>res\<close> is what the system resolver answered.\<close>

definition resolve :: "instant \<Rightarrow> string list option \<Rightarrow> addr \<times> nat \<Rightarrow> resolver \<Rightarrow> resolver" where
  "resolve now res l r =
    (let p = snd l;
         e = (rv_heap r p)\<lparr>rd_done := True, rd_expires := now + rdnsTTL\<rparr>;
         e = (case res of
                Some (n # _) \<Rightarrow> e\<lparr>rd_name := trim_dot n\<rparr>
              | _ \<Rightarrow> e)
     in r\<lparr>rv_heap := (rv_heap r)(p := e), rv_lookups := remove1 l (rv_lookups r)\<rparr>)"

inductive rdns_step :: "resolver \<Rightarrow> resolver \<Rightarrow> bool" where
  ask: "rdns_step r (snd (rdns_name now a r))"
| answer: "l \<in> set (rv_lookups r) \<Longrightarrow> rdns_step r (resolve now res l r)"

text \<open>The lookups in progress are those of the entries not done, one for each address.\<close>

definition rdns_inv :: "resolver \<Rightarrow> bool" where
  "rdns_inv r \<longleftrightarrow> distinct (map fst (rv_lookups r)) \<and>
     (\<forall>(a, p) \<in> set (rv_lookups r). rv_entries r a = Some p \<and> \<not> rd_done (rv_heap r p)) \<and>
     (\<forall>a p. rv_entries r a = Some p \<longrightarrow> p < rv_next r \<and>
        (\<not> rd_done (rv_heap r p) \<longrightarrow> (a, p) \<in> set (rv_lookups r))) \<and>
     inj_on (rv_entries r) (dom (rv_entries r))"

lemma rdns_name_cases:
  "snd (rdns_name now a r) = r \<or>
   (let z = WithZone a []; p = rv_next r
    in (rv_entries r z = None \<or> (\<exists>q. rv_entries r z = Some q \<and> rd_done (rv_heap r q) \<and> rd_expires (rv_heap r q) \<le> now)) \<and>
       snd (rdns_name now a r) = r\<lparr>rv_entries := (rv_entries r)(z \<mapsto> p),
          rv_heap := (rv_heap r)(p := \<lparr>rd_name = [], rd_done = False, rd_expires = 0\<rparr>),
          rv_next := Suc p, rv_lookups := rv_lookups r @ [(z, p)]\<rparr>)"
  by (auto simp: rdns_name_def Let_def split: option.split)

lemma rdns_inv_ask:
  assumes inv: "rdns_inv r"
  shows "rdns_inv (snd (rdns_name now a r))"
proof (cases "snd (rdns_name now a r) = r")
  case False
  let ?z = "WithZone a []" and ?p = "rv_next r"
  let ?r = "r\<lparr>rv_entries := (rv_entries r)(?z \<mapsto> ?p),
     rv_heap := (rv_heap r)(?p := \<lparr>rd_name = [], rd_done = False, rd_expires = 0\<rparr>),
     rv_next := Suc ?p, rv_lookups := rv_lookups r @ [(?z, ?p)]\<rparr>"
  from False rdns_name_cases [of now a r] have eq: "snd (rdns_name now a r) = ?r"
    and old: "rv_entries r ?z = None \<or> (\<exists>q. rv_entries r ?z = Some q \<and> rd_done (rv_heap r q))"
    by (auto simp: Let_def)
  have lookup: "rv_entries r b = Some q \<and> \<not> rd_done (rv_heap r q) \<and> q < ?p" if "(b, q) \<in> set (rv_lookups r)" for b q
    using inv that by (auto simp: rdns_inv_def)
  have notz: "?z \<notin> fst ` set (rv_lookups r)"
  proof
    assume "?z \<in> fst ` set (rv_lookups r)"
    then obtain q where "(?z, q) \<in> set (rv_lookups r)" by auto
    with lookup [OF this] old show False by auto
  qed
  have bound: "rv_entries r b = Some q \<Longrightarrow> q < ?p" for b q
    using inv by (auto simp: rdns_inv_def)
  then have fresh: "rv_entries r b \<noteq> Some ?p" for b
    by blast
  have "inj_on (rv_entries r) (dom (rv_entries r))"
    using inv by (simp add: rdns_inv_def)
  then have "inj_on (rv_entries ?r) (dom (rv_entries ?r))"
    using fresh by (auto simp: inj_on_def)
  moreover have "distinct (map fst (rv_lookups ?r))"
    using inv notz by (auto simp: rdns_inv_def)
  moreover have "\<forall>(b, q) \<in> set (rv_lookups ?r). rv_entries ?r b = Some q \<and> \<not> rd_done (rv_heap ?r q)"
    using lookup notz by (fastforce simp: image_iff)
  moreover have "\<forall>b q. rv_entries ?r b = Some q \<longrightarrow> q < rv_next ?r \<and>
      (\<not> rd_done (rv_heap ?r q) \<longrightarrow> (b, q) \<in> set (rv_lookups ?r))"
    using inv bound by (auto simp: rdns_inv_def less_Suc_eq)
  ultimately show ?thesis
    unfolding eq rdns_inv_def by blast
qed (use inv in simp)

lemma rdns_inv_answer:
  assumes inv: "rdns_inv r" and l: "l \<in> set (rv_lookups r)"
  shows "rdns_inv (resolve now res l r)"
proof -
  obtain a p where lp: "l = (a, p)" by (cases l)
  let ?r = "resolve now res l r"
  have sel: "rv_entries ?r = rv_entries r" "rv_next ?r = rv_next r" "rv_lookups ?r = remove1 l (rv_lookups r)"
    "rd_done (rv_heap ?r p)" "\<And>q. q \<noteq> p \<Longrightarrow> rv_heap ?r q = rv_heap r q"
    by (auto simp: resolve_def Let_def lp split: option.split list.split)
  have d: "distinct (rv_lookups r)" "distinct (map fst (rv_lookups r))"
    using inv by (auto simp: rdns_inv_def distinct_map)
  have set_l: "set (rv_lookups ?r) = set (rv_lookups r) - {l}"
    using d by (simp add: sel)
  have p: "rv_entries r a = Some p" using inv l lp by (auto simp: rdns_inv_def)
  have only: "b = a" if "rv_entries r b = Some p" for b
    using inv p that by (auto simp: rdns_inv_def inj_on_def dom_def)
  have "distinct (map fst (rv_lookups ?r))"
    using d by (simp add: sel distinct_map inj_on_diff)
  moreover have "\<forall>(b, q) \<in> set (rv_lookups ?r). rv_entries ?r b = Some q \<and> \<not> rd_done (rv_heap ?r q)"
    using inv only sel(5) unfolding set_l sel(1) by (fastforce simp: rdns_inv_def lp)
  moreover have "\<forall>b q. rv_entries ?r b = Some q \<longrightarrow> q < rv_next ?r \<and>
      (\<not> rd_done (rv_heap ?r q) \<longrightarrow> (b, q) \<in> set (rv_lookups ?r))"
    using inv sel(4,5) unfolding set_l sel(1,2) by (fastforce simp: rdns_inv_def lp)
  ultimately show ?thesis
    using inv unfolding rdns_inv_def sel(1) by blast
qed

lemma rdns_inv_start: "rdns_inv newResolver"
  by (simp add: rdns_inv_def newResolver_def)

lemma rdns_inv_step: "rdns_step r r' \<Longrightarrow> rdns_inv r \<Longrightarrow> rdns_inv r'"
  by (induction rule: rdns_step.induct) (auto intro: rdns_inv_ask rdns_inv_answer)

interpretation rdns: invariant_system "\<lambda>r. r = newResolver" rdns_step rdns_inv
  by unfold_locales (auto intro: rdns_inv_start rdns_inv_step)

section \<open>Theorems\<close>

text \<open>However often hop addresses are asked for and whenever the answers come, at most one reverse
  lookup is in progress for an address, and it is the one whose answer the cache is waiting for: asking
  again starts a lookup only when the address is unknown or its answer has expired.\<close>

theorem rdns_single_flight:
  assumes "rdns_step\<^sup>*\<^sup>* newResolver r"
  shows "distinct (map fst (rv_lookups r)) \<and>
    (\<forall>(b, p) \<in> set (rv_lookups r). rv_entries r b = Some p \<and> \<not> rd_done (rv_heap r p)) \<and>
    (rv_lookups (snd (rdns_name now a r)) \<noteq> rv_lookups r \<longrightarrow>
      (case rv_entries r (WithZone a []) of
         None \<Rightarrow> True
       | Some p \<Rightarrow> rd_done (rv_heap r p) \<and> rd_expires (rv_heap r p) \<le> now))"
proof -
  have "rdns_inv r" using rdns.inv_reachable [OF refl assms] .
  moreover have "rv_lookups (snd (rdns_name now a r)) \<noteq> rv_lookups r \<longrightarrow>
      (case rv_entries r (WithZone a []) of
         None \<Rightarrow> True
       | Some p \<Rightarrow> rd_done (rv_heap r p) \<and> rd_expires (rv_heap r p) \<le> now)"
    by (auto simp: rdns_name_def Let_def split: option.splits if_splits)
  ultimately show ?thesis by (simp add: rdns_inv_def)
qed

theorem rdns_single_flight_witness:
  "rdns_step\<^sup>*\<^sup>* newResolver (snd (rdns_name 5 (V4 1) newResolver)) \<and>
    rv_lookups (snd (rdns_name 5 (V4 1) newResolver)) = [(V4 1, 0)] \<and>
    distinct (map fst (rv_lookups (snd (rdns_name 5 (V4 1) newResolver))))"
proof -
  have r: "rdns_step\<^sup>*\<^sup>* newResolver (snd (rdns_name 5 (V4 1) newResolver))"
    using rdns_step.ask by blast
  moreover have "rv_lookups (snd (rdns_name 5 (V4 1) newResolver)) = [(V4 1, 0)]"
    by (simp add: rdns_name_def newResolver_def WithZone_def Let_def)
  ultimately show ?thesis
    using rdns_single_flight [OF r] by blast
qed



text \<open>Waiting for a TCP connect reports the target only for a connect that succeeded or was refused,
  never after the deadline, and at most once, however often the poll is interrupted.\<close>

theorem awaitTCP_sound:
  assumes "awaitTCP target key deadline rounds = Some r"
  shows "r_key r = key \<and> r_from r = target \<and> r_kind r = replyFromTarget \<and>
    (\<exists>pre now later soerr post. rounds = pre @ (now, PollReady (Some soerr), later) # post \<and>
       now < deadline \<and> soerr \<in> {0, ECONNREFUSED} \<and> r_at r = later \<and>
       (\<forall>(_, p, _) \<in> set pre. p = PollEINTR))"
  using assms
proof (induction rounds)
  case (Cons x rest)
  obtain now res later where x: "x = (now, res, later)" by (cases x)
  show ?case
  proof (cases "res = PollEINTR")
    case True
    with Cons.prems x have "awaitTCP target key deadline rest = Some r" by (auto split: if_splits)
    from Cons.IH [OF this] obtain pre n l so post where
      ih: "r_key r = key \<and> r_from r = target \<and> r_kind r = replyFromTarget"
        "rest = pre @ (n, PollReady (Some so), l) # post" "n < deadline" "so \<in> {0, ECONNREFUSED}" "r_at r = l"
        "\<forall>(_, p, _) \<in> set pre. p = PollEINTR"
      by blast
    then show ?thesis
      using x True by (intro conjI exI [of _ "x # pre"] exI [of _ n] exI [of _ l] exI [of _ so] exI [of _ post]) auto
  next
    case False
    with Cons.prems x obtain so where "res = PollReady (Some so)" "so = 0 \<or> so = ECONNREFUSED" "now < deadline"
      "r = \<lparr>r_key = key, r_from = target, r_kind = replyFromTarget, r_code = 0, r_at = later\<rparr>"
      by (auto split: if_splits poll_result.splits option.splits)
    then show ?thesis
      using x by (intro conjI exI [of _ "[]"] exI [of _ now] exI [of _ later] exI [of _ so] exI [of _ rest]) auto
  qed
qed simp

theorem awaitTCP_sound_witness:
  "\<exists>r. awaitTCP (V4 9) \<lparr>k_proto = TCP, k_v6 = False, k_id = 5, k_seq = 0\<rparr> 100
      [(1, PollEINTR, 2), (3, PollReady (Some 111), 4)] = Some r \<and> r_kind r = replyFromTarget \<and> r_at r = 4"
proof -
  have "\<exists>r. awaitTCP (V4 9) \<lparr>k_proto = TCP, k_v6 = False, k_id = 5, k_seq = 0\<rparr> 100
      [(1, PollEINTR, 2), (3, PollReady (Some 111), 4)] = Some r \<and> r_at r = 4"
    by (simp add: ECONNREFUSED_def)
  then obtain r where r: "awaitTCP (V4 9) \<lparr>k_proto = TCP, k_v6 = False, k_id = 5, k_seq = 0\<rparr> 100
      [(1, PollEINTR, 2), (3, PollReady (Some 111), 4)] = Some r" "r_at r = 4" by blast
  from awaitTCP_sound [OF r(1)] r show ?thesis by blast
qed

end
