(* ===== verification/Dns_Names.thy ===== *)
theory Dns_Names
  imports Netip Go_Strings
begin

text \<open>
  The names of \<^verbatim>\<open>internal/dns/dns.go\<close>: what a lookup accepts (\<^verbatim>\<open>Spec.normalize\<close>,
  \<^verbatim>\<open>validName\<close>), which questions it asks (\<^verbatim>\<open>Queries\<close>) and the owner name of an address's PTR
  record (\<^verbatim>\<open>ReverseName\<close>). \<open>ParseAddr\<close> and \<open>addr_str\<close> stand for \<^verbatim>\<open>netip.ParseAddr\<close> and
  \<^verbatim>\<open>Addr.String\<close>; names are ASCII.
\<close>

section \<open>Reverse names\<close>

definition As4 :: "32 word \<Rightarrow> u8 list" where
  "As4 w = map (\<lambda>i. ucast (drop_bit (24 - 8 * i) w)) [0..<4]"

definition As16 :: "128 word \<Rightarrow> u8 list" where
  "As16 w = map (\<lambda>i. ucast (drop_bit (120 - 8 * i) w)) [0..<16]"

definition hex_char :: "u8 \<Rightarrow> char" where
  "hex_char n = ''0123456789abcdef'' ! unat n"

definition nibbles :: "u8 \<Rightarrow> string" where
  "nibbles b = [hex_char (and b 0xf), CHR ''.'', hex_char (drop_bit 4 b), CHR ''.'']"

definition ReverseName :: "addr \<Rightarrow> string" where
  "ReverseName a = (case Unmap a of
      V4 w \<Rightarrow> (let b = As4 w in
        itoa (unat (b ! 3)) @ ''.'' @ itoa (unat (b ! 2)) @ ''.'' @ itoa (unat (b ! 1)) @ ''.'' @
        itoa (unat (b ! 0)) @ ''.in-addr.arpa'')
    | V6 w _ \<Rightarrow> concat (map nibbles (rev (As16 w))) @ ''ip6.arpa''
    | NoAddr \<Rightarrow> concat (map nibbles (rev (As16 0))) @ ''ip6.arpa'')"

section \<open>Host names\<close>

definition name_char :: "char \<Rightarrow> bool" where
  "name_char c = (let n = of_char c :: nat in
    97 \<le> n \<and> n \<le> 122 \<or> 65 \<le> n \<and> n \<le> 90 \<or> 48 \<le> n \<and> n \<le> 57 \<or> c = CHR ''-'' \<or> c = CHR ''_'')"

definition valid_label :: "string \<Rightarrow> bool" where
  "valid_label l = (l \<noteq> [] \<and> length l \<le> 63 \<and> hd l \<noteq> CHR ''-'' \<and> last l \<noteq> CHR ''-'' \<and> list_all name_char l)"

definition validName :: "string \<Rightarrow> bool" where
  "validName name = (length name \<le> 253 \<and> list_all valid_label (split_on CHR ''.'' name))"

record dns_Spec =
  dn_Name :: string
  dn_Timeout :: duration

datatype dns_spec_error = DnsNameRequired | DnsInvalidName string

definition default_timeout :: "dns_Spec \<Rightarrow> dns_Spec" where
  "default_timeout s = (if dn_Timeout s \<le> 0 then s\<lparr>dn_Timeout := 30 * Second\<rparr> else s)"

definition dns_normalize ::
  "(string \<Rightarrow> addr option) \<Rightarrow> (addr \<Rightarrow> string) \<Rightarrow> dns_Spec \<Rightarrow> dns_spec_error + dns_Spec" where
  "dns_normalize ParseAddr addr_str s =
    (let name = ToLower (TrimSuffix (TrimSpace (dn_Name s)) ''.'')
     in if name = [] then Inl DnsNameRequired
        else
          rbind (case ParseAddr (Trim name ''[]'') of
                   Some a \<Rightarrow> Inr (s\<lparr>dn_Name := addr_str (WithZone (Unmap a) [])\<rparr>)
                 | None \<Rightarrow> if validName name then Inr (s\<lparr>dn_Name := name\<rparr>) else Inl (DnsInvalidName name))
            (\<lambda>s. Inr (default_timeout s)))"

section \<open>Questions\<close>

record dns_Query =
  qy_Type :: string
  qy_Name :: string

definition srvServices :: "(string \<times> string) list" where
  "srvServices = [(''sip'', ''udp''), (''sip'', ''tcp''), (''sip'', ''tls''), (''sips'', ''tcp'')]"

definition Queries :: "(string \<Rightarrow> addr option) \<Rightarrow> string \<Rightarrow> dns_Query list" where
  "Queries ParseAddr name =
    (case ParseAddr name of
       Some a \<Rightarrow> [\<lparr>qy_Type = ''PTR'', qy_Name = ReverseName a\<rparr>]
     | None \<Rightarrow> [\<lparr>qy_Type = ''A'', qy_Name = name\<rparr>, \<lparr>qy_Type = ''AAAA'', qy_Name = name\<rparr>] @
         map (\<lambda>(service, proto). \<lparr>qy_Type = ''SRV'',
           qy_Name = ''_'' @ service @ ''._'' @ proto @ ''.'' @ name\<rparr>) srvServices)"

section \<open>Lemmas\<close>

lemma default_timeout_simps [simp]:
  "dn_Name (default_timeout s) = dn_Name s" "0 < dn_Timeout (default_timeout s)"
  "0 < dn_Timeout s \<Longrightarrow> default_timeout s = s"
  by (simp_all add: default_timeout_def)

lemma As4_inj: "As4 v = As4 w \<Longrightarrow> v = w"
proof (rule bit_word_eqI)
  fix n assume eq: "As4 v = As4 w" and n: "n < LENGTH(32)"
  have "bit (As4 x ! (3 - n div 8)) (n mod 8) = bit x n" for x :: "32 word"
  proof -
    have "n div 8 \<le> 3" "n = 8 * (n div 8) + n mod 8" using n by simp_all
    then have "24 - 8 * (3 - n div 8) + n mod 8 = n" by linarith
    moreover have "3 - n div 8 < 4" by simp
    ultimately show ?thesis using n by (simp add: As4_def bit_simps nth_upt del: upt_Suc)
  qed
  with eq show "bit v n = bit w n" by metis
qed

lemma As16_inj: "As16 v = As16 w \<Longrightarrow> v = w"
proof (rule bit_word_eqI)
  fix n assume eq: "As16 v = As16 w" and n: "n < LENGTH(128)"
  have "bit (As16 x ! (15 - n div 8)) (n mod 8) = bit x n" for x :: "128 word"
  proof -
    have "n div 8 \<le> 15" "n = 8 * (n div 8) + n mod 8" using n by simp_all
    then have "120 - 8 * (15 - n div 8) + n mod 8 = n" by linarith
    moreover have "15 - n div 8 < 16" by simp
    ultimately show ?thesis using n by (simp add: As16_def bit_simps nth_upt del: upt_Suc)
  qed
  with eq show "bit v n = bit w n" by metis
qed

lemma hex_char_inj: "m < 16 \<Longrightarrow> n < 16 \<Longrightarrow> hex_char m = hex_char n \<Longrightarrow> m = n"
proof -
  assume a: "m < 16" "n < 16" "hex_char m = hex_char n"
  have "distinct ''0123456789abcdef''" by simp
  then have "unat m = unat n"
    using a by (simp add: hex_char_def nth_eq_iff_index_eq word_less_nat_alt)
  then show "m = n" by (simp add: word_unat_eq_iff)
qed

lemma nibbles_inj: "nibbles a = nibbles b \<longleftrightarrow> a = b"
proof
  assume eq: "nibbles a = nibbles b"
  have mask: "and x 0xf = take_bit 4 x" for x :: u8
    by (simp add: take_bit_eq_mask mask_eq_exp_minus_1)
  have low: "take_bit 4 x < 16" for x :: u8
    using take_bit_nat_less_exp [of 4 "unat x"] by (simp add: word_less_nat_alt unsigned_take_bit_eq)
  have high: "drop_bit 4 x < 16" for x :: u8
    using unsigned_less [of x, where ?'a = nat] by (simp add: word_less_nat_alt drop_bit_eq_div unat_div_distrib)
  have "take_bit 4 a = take_bit 4 b" "drop_bit 4 a = drop_bit 4 b"
    using eq hex_char_inj [OF low low] hex_char_inj [OF high high] by (simp_all add: nibbles_def mask)
  then show "a = b" by (metis bits_ident)
qed simp

lemma nibbles_length [simp]: "length (nibbles b) = 4"
  by (simp add: nibbles_def)

lemma concat_nibbles_inj:
  "length xs = length ys \<Longrightarrow> concat (map nibbles xs) = concat (map nibbles ys) \<Longrightarrow> xs = ys"
proof -
  assume a: "length xs = length ys" "concat (map nibbles xs) = concat (map nibbles ys)"
  then have "map nibbles xs = map nibbles ys"
    by (subst concat_eq_concat_iff [symmetric]) (auto simp: set_zip)
  then show "xs = ys" by (simp add: inj_map_eq_map inj_def nibbles_inj)
qed

definition v4_reverse :: "32 word \<Rightarrow> string list" where
  "v4_reverse w = map (\<lambda>b. itoa (unat b)) (rev (As4 w)) @ [''in-addr'', ''arpa'']"

lemma As4_list: "As4 w = [As4 w ! 0, As4 w ! 1, As4 w ! 2, As4 w ! 3]"
  by (simp add: As4_def upt_rec)

lemma v4_reverse_inj: "v4_reverse v = v4_reverse w \<Longrightarrow> v = w"
proof -
  assume "v4_reverse v = v4_reverse w"
  then have "map (\<lambda>b. itoa (unat b)) (rev (As4 v)) = map (\<lambda>b. itoa (unat b)) (rev (As4 w))"
    by (simp add: v4_reverse_def)
  then have "rev (As4 v) = rev (As4 w)"
    by (rule map_injective) (auto simp: inj_def dest!: itoa_inj simp: word_unat_eq_iff)
  then show "v = w" by (simp add: As4_inj)
qed

lemma ReverseName_V4: "Unmap a = V4 w \<Longrightarrow> split_on CHR ''.'' (ReverseName a) = v4_reverse w"
proof -
  assume a: "Unmap a = V4 w"
  obtain x0 x1 x2 x3 where b: "As4 w = [x0, x1, x2, x3]" using As4_list by blast
  have "ReverseName a = join_with CHR ''.'' (v4_reverse w)"
    using a by (simp add: ReverseName_def v4_reverse_def b Let_def)
  moreover have "p \<in> set (v4_reverse w) \<Longrightarrow> CHR ''.'' \<notin> set p" for p
    by (auto simp: v4_reverse_def itoa_no_dot)
  moreover have "v4_reverse w \<noteq> []" by (simp add: v4_reverse_def)
  ultimately show ?thesis using split_join [of "v4_reverse w" "CHR ''.''"] by simp
qed

lemma ReverseName_V6: "Unmap a = V6 w z \<Longrightarrow> ReverseName a = concat (map nibbles (rev (As16 w))) @ ''ip6.arpa''"
  by (simp add: ReverseName_def)

lemma ReverseName_families:
  "Unmap a = V4 v \<Longrightarrow> Unmap b = V6 w z \<Longrightarrow> ReverseName a \<noteq> ReverseName b"
proof
  assume a: "Unmap a = V4 v" and b: "Unmap b = V6 w z" and eq: "ReverseName a = ReverseName b"
  have "rev (ReverseName a) ! 5 = CHR ''r''" using a by (simp add: ReverseName_def Let_def)
  moreover have "rev (ReverseName b) ! 5 = CHR ''6''" using b by (simp add: ReverseName_V6)
  ultimately show False using eq by simp
qed

text \<open>Characters of a valid name are neither white space, nor brackets.\<close>

lemma name_char_plain: "name_char c \<Longrightarrow> \<not> is_space c \<and> c \<notin> set ''[]''"
  by (auto simp: name_char_def is_space_def Let_def)

lemma validName_parts:
  assumes "validName n"
  shows "n \<noteq> []" and "\<And>c. c \<in> set n \<Longrightarrow> name_char c \<or> c = CHR ''.''" and "last n \<noteq> CHR ''.''"
    and "hd n \<noteq> CHR ''.''"
proof -
  let ?ls = "split_on CHR ''.'' n"
  have ls: "list_all valid_label ?ls" and n: "n = join_with CHR ''.'' ?ls"
    using assms by (simp_all add: validName_def)
  show "n \<noteq> []"
  proof
    assume "n = []"
    with ls show False by (simp add: valid_label_def)
  qed
  have chars: "c \<in> set (join_with d ls) \<Longrightarrow> list_all valid_label ls \<Longrightarrow> name_char c \<or> c = d" for c d ls
    by (induction ls) (auto simp: valid_label_def list_all_iff split: if_splits)
  then show "\<And>c. c \<in> set n \<Longrightarrow> name_char c \<or> c = CHR ''.''" using ls n by metis
  have dot: "\<not> name_char CHR ''.''" by (simp add: name_char_def)
  have ends: "ls \<noteq> [] \<Longrightarrow> list_all valid_label ls \<Longrightarrow>
      join_with d ls \<noteq> [] \<and> name_char (last (join_with d ls)) \<and> name_char (hd (join_with d ls))" for d ls
    by (induction ls) (auto simp: valid_label_def list_all_iff)
  show "last n \<noteq> CHR ''.''" "hd n \<noteq> CHR ''.''"
    using ends [of ?ls "CHR ''.''"] ls n dot by (metis split_on_nonempty)+
qed

lemma validName_trimmed:
  assumes "validName n"
  shows "TrimSpace n = n" and "TrimSuffix n ''.'' = n" and "Trim n ''[]'' = n"
proof -
  note v = validName_parts [OF assms]
  have ends: "name_char (hd n)" "name_char (last n)"
    using v(1,3,4) v(2) [OF hd_in_set [OF v(1)]] v(2) [OF last_in_set [OF v(1)]] by auto
  show "TrimSpace n = n"
    unfolding TrimSpace_def using v(1) ends name_char_plain by (intro trim_while_id) auto
  show "Trim n ''[]'' = n"
    unfolding Trim_def using v(1) ends name_char_plain by (intro trim_while_id) auto
  show "TrimSuffix n ''.'' = n"
    using v(3) by (auto simp: TrimSuffix_def has_suffix_iff)
qed

section \<open>Theorems\<close>

text \<open>Two addresses have the same PTR owner name exactly when they are the same address, an IPv4 address and
  its form mapped into IPv6 being the same and the zone of an IPv6 address being ignored.\<close>

theorem reverse_name_identifies:
  assumes "IsValid a" and "IsValid b"
  shows "ReverseName a = ReverseName b \<longleftrightarrow> WithZone (Unmap a) [] = WithZone (Unmap b) []"
proof -
  have "IsValid (Unmap a)" "IsValid (Unmap b)" using assms by simp_all
  then consider v w where "Unmap a = V4 v" "Unmap b = V4 w"
    | v w z where "Unmap a = V4 v" "Unmap b = V6 w z" | v w z where "Unmap a = V6 v z" "Unmap b = V4 w"
    | v w y z where "Unmap a = V6 v y" "Unmap b = V6 w z"
    by (cases "Unmap a"; cases "Unmap b") (auto simp: IsValid_def)
  then show ?thesis
  proof cases
    case 1
    then have "ReverseName a = ReverseName b \<Longrightarrow> v = w"
      using ReverseName_V4 v4_reverse_inj by metis
    with 1 show ?thesis by (auto simp: ReverseName_def WithZone_def)
  next
    case 2
    then show ?thesis by (simp add: ReverseName_families WithZone_def)
  next
    case 3
    then show ?thesis using ReverseName_families [of b w a v z] by (auto simp: WithZone_def)
  next
    case 4
    have len: "length (rev (As16 v)) = length (rev (As16 w))" by (simp add: As16_def)
    from 4 have "ReverseName a = ReverseName b \<Longrightarrow> As16 v = As16 w"
      using concat_nibbles_inj [OF len] by (simp add: ReverseName_V6)
    with 4 show ?thesis by (auto simp: ReverseName_def WithZone_def dest: As16_inj)
  qed
qed

theorem reverse_name_identifies_witness:
  "ReverseName (V4 0x01020304) = ReverseName (V6 0xffff01020304 [])"
  using reverse_name_identifies [of "V4 0x01020304" "V6 0xffff01020304 []"]
  by (simp add: addr_defs drop_bit_eq_div)

text \<open>A lookup is refused only for an empty or a malformed name; an accepted one has a positive time limit and
  names either the canonical text of an address without zone and not mapped into IPv6, or a valid host name
  in lower case, in which case normalizing again changes nothing.\<close>

theorem dns_normalize_accepts:
  assumes "dns_normalize ParseAddr addr_str s = Inr t"
  shows "0 < dn_Timeout t \<and>
    ((\<exists>a. dn_Name t = addr_str a \<and> Zone a = [] \<and> \<not> Is4In6 a) \<or>
     (validName (dn_Name t) \<and> ToLower (dn_Name t) = dn_Name t \<and> ParseAddr (dn_Name t) = None \<and>
      dns_normalize ParseAddr addr_str t = Inr t))"
proof -
  let ?n = "ToLower (TrimSuffix (TrimSpace (dn_Name s)) ''.'')"
  obtain x where "t = default_timeout x"
    using assms by (auto simp: dns_normalize_def Let_def split: if_split_asm)
  then have time: "0 < dn_Timeout t" by simp
  show ?thesis
  proof (cases "ParseAddr (Trim ?n ''[]'')")
    case None
    with assms have v: "validName ?n" "dn_Name t = ?n"
      by (auto simp: dns_normalize_def Let_def split: if_splits)
    note trimmed = validName_trimmed [OF v(1)]
    from v trimmed None time validName_parts(1) [OF v(1)] have "dns_normalize ParseAddr addr_str t = Inr t"
      by (simp add: dns_normalize_def)
    with v trimmed None time show ?thesis by simp
  next
    case (Some a)
    with assms have "dn_Name t = addr_str (WithZone (Unmap a) [])"
      by (auto simp: dns_normalize_def Let_def split: if_splits)
    moreover have "Zone (WithZone (Unmap a) []) = []" "\<not> Is4In6 (WithZone (Unmap a) [])"
      by (cases a; auto simp: addr_defs)+
    ultimately show ?thesis using time by blast
  qed
qed

theorem dns_normalize_accepts_witness:
  "validName ''sip.example.com'' \<and> 0 < (30 * Second :: int)"
proof -
  let ?s = "\<lparr>dn_Name = '' SIP.example.com. '', dn_Timeout = 0\<rparr>"
  have "dns_normalize (\<lambda>_. None) (\<lambda>_. []) ?s =
      Inr \<lparr>dn_Name = ''sip.example.com'', dn_Timeout = 30 * Second\<rparr>"
    by code_simp
  from dns_normalize_accepts [OF this] show ?thesis by auto
qed

end
