(* ===== verification/Dns_Client.thy ===== *)
theory Dns_Client
  imports Dns_Names "HOL-Library.Multiset"
begin

text \<open>
  The client of \<^verbatim>\<open>internal/dns/dns.go\<close>: its configuration from resolv.conf, the exchange with
  one nameserver over UDP and TCP, the reading of a reply, the turn over the nameservers, the
  order of the records, the addresses of SRV targets, and a run. The message parser of
  \<^verbatim>\<open>golang.org/x/net/dns/dnsmessage\<close>, the sockets and the clock are parameters.
\<close>

section \<open>Configuration\<close>

record dns_Client =
  cl_Nameservers :: "string list"
  cl_Timeout :: duration
  cl_Attempts :: int

definition resolv_option :: "string \<Rightarrow> dns_Client \<Rightarrow> dns_Client" where
  "resolv_option v c =
    (let c = (case CutPrefix v ''timeout:'' of
                Some v \<Rightarrow> (case Atoi v of
                    Some n \<Rightarrow> if n > 0 then c\<lparr>cl_Timeout := min n 30 * Second\<rparr> else c
                  | None \<Rightarrow> c)
              | None \<Rightarrow> c)
     in case CutPrefix v ''attempts:'' of
          Some v \<Rightarrow> (case Atoi v of
              Some n \<Rightarrow> if n > 0 then c\<lparr>cl_Attempts := min n 5\<rparr> else c
            | None \<Rightarrow> c)
        | None \<Rightarrow> c)"

definition resolv_line :: "string \<Rightarrow> dns_Client \<Rightarrow> dns_Client" where
  "resolv_line line c =
    (case Fields line of
       key # arg # rest \<Rightarrow>
         if key = ''nameserver''
         then c\<lparr>cl_Nameservers := cl_Nameservers c @ [JoinHostPort arg ''53'']\<rparr>
         else if key = ''options'' then fold resolv_option (arg # rest) c
         else c
     | _ \<Rightarrow> c)"

text \<open>The lines of the file, or \<open>None\<close> when it cannot be opened.\<close>

definition clientFrom :: "string list option \<Rightarrow> dns_Client" where
  "clientFrom file =
    (let c = \<lparr>cl_Nameservers = [], cl_Timeout = 0, cl_Attempts = 0\<rparr>
     in case file of None \<Rightarrow> c | Some lines \<Rightarrow> fold resolv_line lines c)"

definition normalized :: "dns_Client \<Rightarrow> dns_Client" where
  "normalized c =
    \<lparr>cl_Nameservers = (if cl_Nameservers c = [] then [''127.0.0.1:53'', ''[::1]:53''] else cl_Nameservers c),
     cl_Timeout = (if cl_Timeout c \<le> 0 then 5 * Second else cl_Timeout c),
     cl_Attempts = (if cl_Attempts c \<le> 0 then 2 else cl_Attempts c)\<rparr>"

section \<open>Results\<close>

record dns_Record =
  rc_Value :: string
  rc_Priority :: u16
  rc_Weight :: u16
  rc_Port :: u16
  rc_TTL :: u32
  rc_Addresses :: "string list"
  rc_AddressStatus :: string

datatype dns_error =
    Malformed string
  | IdMismatch
  | NotResponse
  | OtherQuestion
  | TruncatedTCP
  | NetError string bool
  | DeadlineExceeded
  | Canceled
  | UnknownType string
  | BuildError string
  | NoNameservers
  | AtServer string dns_error

record dns_Result =
  dr_Query :: dns_Query
  dr_Records :: "dns_Record list"
  dr_Status :: string
  dr_Server :: string
  dr_Err :: "dns_error option"
  dr_RTT :: duration

definition no_query :: dns_Query where "no_query = \<lparr>qy_Type = [], qy_Name = []\<rparr>"

definition err_result :: "dns_error \<Rightarrow> dns_Result" where
  "err_result e = \<lparr>dr_Query = no_query, dr_Records = [], dr_Status = [], dr_Server = [],
    dr_Err = Some e, dr_RTT = 0\<rparr>"

section \<open>Reading a reply\<close>

definition TypeA :: nat where "TypeA = 1"
definition TypePTR :: nat where "TypePTR = 12"
definition TypeAAAA :: nat where "TypeAAAA = 28"
definition TypeSRV :: nat where "TypeSRV = 33"

definition ClassINET :: nat where "ClassINET = 1"
definition RCodeSuccess :: nat where "RCodeSuccess = 0"
definition RCodeNameError :: nat where "RCodeNameError = 3"

lemmas dns_types = TypeA_def TypePTR_def TypeAAAA_def TypeSRV_def

text \<open>
  What the parser of the message library returns on a message, call by call: the header, the
  first question, and for each record of the answer section its header and what reading its
  body as each of the four types would give; the section ends, or an error cuts it.
\<close>

record dns_header =
  dh_ID :: u16
  dh_Response :: bool
  dh_Truncated :: bool
  dh_RCode :: nat

record dns_question =
  dq_Name :: string
  dq_Type :: nat
  dq_Class :: nat

record dns_rr =
  rr_Type :: nat
  rr_TTL :: u32
  rr_Skip :: "string option"
  rr_A :: "string + 32 word"
  rr_AAAA :: "string + 128 word"
  rr_SRV :: "string + (string \<times> u16 \<times> u16 \<times> u16)"
  rr_PTR :: "string + string"

record dns_parse =
  dp_Start :: "string + dns_header"
  dp_Question :: "string + dns_question"
  dp_SkipAllQuestions :: "string option"
  dp_Answers :: "dns_rr list"
  dp_AnswerError :: "string option"

definition trimDot :: "string \<Rightarrow> string" where
  "trimDot name = (if length name > 1 then TrimSuffix name ''.'' else name)"

definition empty_record :: "u32 \<Rightarrow> dns_Record" where
  "empty_record ttl = \<lparr>rc_Value = [], rc_Priority = 0, rc_Weight = 0, rc_Port = 0, rc_TTL = ttl,
    rc_Addresses = [], rc_AddressStatus = []\<rparr>"

definition read_rr :: "(addr \<Rightarrow> string) \<Rightarrow> nat \<Rightarrow> dns_rr \<Rightarrow> dns_error + dns_Record" where
  "read_rr addr_str qtype rr =
    (let rec = empty_record (rr_TTL rr)
     in if qtype = TypeA then
          (case rr_A rr of Inl e \<Rightarrow> Inl (Malformed e) | Inr a \<Rightarrow> Inr (rec\<lparr>rc_Value := addr_str (V4 a)\<rparr>))
        else if qtype = TypeAAAA then
          (case rr_AAAA rr of Inl e \<Rightarrow> Inl (Malformed e) | Inr a \<Rightarrow> Inr (rec\<lparr>rc_Value := addr_str (V6 a [])\<rparr>))
        else if qtype = TypeSRV then
          (case rr_SRV rr of Inl e \<Rightarrow> Inl (Malformed e)
           | Inr (target, priority, weight, port) \<Rightarrow>
               Inr (rec\<lparr>rc_Value := trimDot target, rc_Priority := priority, rc_Weight := weight, rc_Port := port\<rparr>))
        else if qtype = TypePTR then
          (case rr_PTR rr of Inl e \<Rightarrow> Inl (Malformed e) | Inr p \<Rightarrow> Inr (rec\<lparr>rc_Value := trimDot p\<rparr>))
        else Inr rec)"

fun read_answers :: "(addr \<Rightarrow> string) \<Rightarrow> nat \<Rightarrow> string option \<Rightarrow> dns_rr list \<Rightarrow> dns_Record list \<Rightarrow> dns_error + dns_Record list" where
  "read_answers addr_str qtype err [] recs =
    (case err of None \<Rightarrow> Inr recs | Some e \<Rightarrow> Inl (Malformed e))"
| "read_answers addr_str qtype err (rr # rrs) recs =
    (if rr_Type rr \<noteq> qtype then
       (case rr_Skip rr of
          Some e \<Rightarrow> Inl (Malformed e)
        | None \<Rightarrow> read_answers addr_str qtype err rrs recs)
     else rbind (read_rr addr_str qtype rr) (\<lambda>rec. read_answers addr_str qtype err rrs (recs @ [rec])))"

record answer =
  an_rcode :: nat
  an_recs :: "dns_Record list"

text \<open>The answer and whether the reply was truncated.\<close>

definition parseAnswer ::
  "(addr \<Rightarrow> string) \<Rightarrow> dns_parse \<Rightarrow> u16 \<Rightarrow> string \<Rightarrow> nat \<Rightarrow> dns_error + (answer \<times> bool)" where
  "parseAnswer addr_str p qid name qtype =
    (case dp_Start p of
       Inl e \<Rightarrow> Inl (Malformed e)
     | Inr h \<Rightarrow>
         if dh_ID h \<noteq> qid then Inl IdMismatch
         else if \<not> dh_Response h then Inl NotResponse
         else case dp_Question p of
             Inl e \<Rightarrow> Inl (Malformed e)
           | Inr q \<Rightarrow>
               if \<not> EqualFold (dq_Name q) (name @ ''.'') \<or> dq_Type q \<noteq> qtype \<or> dq_Class q \<noteq> ClassINET
               then Inl OtherQuestion
               else if dh_Truncated h then Inr (\<lparr>an_rcode = 0, an_recs = []\<rparr>, True)
               else case dp_SkipAllQuestions p of
                   Some e \<Rightarrow> Inl (Malformed e)
                 | None \<Rightarrow>
                     rbind (read_answers addr_str qtype (dp_AnswerError p) (dp_Answers p) [])
                       (\<lambda>recs. Inr (\<lparr>an_rcode = dh_RCode h, an_recs = recs\<rparr>, False)))"

section \<open>The exchange with one server\<close>

type_synonym bytes = "u8 list"

definition be16 :: "bytes \<Rightarrow> u16" where
  "be16 b = or (push_bit 8 (ucast (b ! 0))) (ucast (b ! 1))"

definition put16 :: "u16 \<Rightarrow> bytes" where
  "put16 w = [ucast (drop_bit 8 w), ucast w]"

text \<open>
  On UDP, the datagrams that arrive before the deadline, then the error of the read that
  fails: a datagram with another id is skipped. Each is read into a buffer of 4096 bytes.
\<close>

fun udp_wait :: "u16 \<Rightarrow> dns_error \<Rightarrow> bytes list \<Rightarrow> dns_error + bytes" where
  "udp_wait qid err [] = Inl err"
| "udp_wait qid err (b # bs) =
    (let b = take 4096 b
     in if length b \<ge> 2 \<and> be16 b = qid then Inr b else udp_wait qid err bs)"

text \<open>On TCP, a message is sent and read behind its length; \<open>stream\<close> is what the peer sends.\<close>

definition tcp_frame :: "bytes \<Rightarrow> bytes" where
  "tcp_frame msg = put16 (of_nat (length msg)) @ msg"

definition tcp_read :: "dns_error \<Rightarrow> bytes \<Rightarrow> dns_error + bytes" where
  "tcp_read err stream =
    (if length stream < 2 then Inl err
     else let n = unat (be16 stream)
          in if length stream < 2 + n then Inl err else Inr (take n (drop 2 stream)))"

text \<open>
  The network of one attempt: why the dial, the write or the read of each transport fails
  when it does, the datagrams received on UDP and the stream received on TCP.
\<close>

record dns_net =
  nt_udp_dial :: "dns_error option"
  nt_udp_reads :: "bytes list"
  nt_tcp_dial :: "dns_error option"
  nt_tcp_stream :: bytes
  nt_read_err :: dns_error

datatype network = Net_udp | Net_tcp

definition roundTrip :: "dns_net \<Rightarrow> network \<Rightarrow> u16 \<Rightarrow> dns_error + bytes" where
  "roundTrip nt network qid =
    (case network of
       Net_udp \<Rightarrow> (case nt_udp_dial nt of
           Some e \<Rightarrow> Inl e
         | None \<Rightarrow> udp_wait qid (nt_read_err nt) (nt_udp_reads nt))
     | Net_tcp \<Rightarrow> (case nt_tcp_dial nt of
           Some e \<Rightarrow> Inl e
         | None \<Rightarrow> tcp_read (nt_read_err nt) (nt_tcp_stream nt)))"

definition exchange ::
  "(addr \<Rightarrow> string) \<Rightarrow> (bytes \<Rightarrow> dns_parse) \<Rightarrow> dns_net \<Rightarrow> u16 \<Rightarrow> string \<Rightarrow> nat \<Rightarrow> dns_error + answer" where
  "exchange addr_str Parser nt qid name qtype =
    rbind (roundTrip nt Net_udp qid) (\<lambda>resp.
    rbind (parseAnswer addr_str (Parser resp) qid name qtype) (\<lambda>(ans, truncated).
    if \<not> truncated then Inr ans
    else
      rbind (roundTrip nt Net_tcp qid) (\<lambda>resp.
      rbind (parseAnswer addr_str (Parser resp) qid name qtype) (\<lambda>(ans, truncated).
      if truncated then Inl TruncatedTCP else Inr ans))))"

section \<open>From an answer to a result\<close>

definition rcodeName :: "nat \<Rightarrow> string" where
  "rcodeName rc =
    (if rc = 0 then ''NOERROR'' else if rc = 1 then ''FORMERR'' else if rc = 2 then ''SERVFAIL''
     else if rc = 3 then ''NXDOMAIN'' else if rc = 4 then ''NOTIMP'' else if rc = 5 then ''REFUSED''
     else ''RCODE'' @ itoa rc)"

definition cmp_of :: "'a :: linorder \<Rightarrow> 'a \<Rightarrow> int" where
  "cmp_of x y = (if x < y then - 1 else if y < x then 1 else 0)"

definition record_cmp :: "(string \<Rightarrow> addr option) \<Rightarrow> dns_Record \<Rightarrow> dns_Record \<Rightarrow> int" where
  "record_cmp ParseAddr x y =
    (if rc_Priority x \<noteq> rc_Priority y then uint (rc_Priority x) - uint (rc_Priority y)
     else if rc_Weight x \<noteq> rc_Weight y then uint (rc_Weight y) - uint (rc_Weight x)
     else case (ParseAddr (rc_Value x), ParseAddr (rc_Value y)) of
         (Some ax, Some ay) \<Rightarrow> cmp_of ax ay
       | _ \<Rightarrow> if rc_Value x \<noteq> rc_Value y then cmp_of (rc_Value x) (rc_Value y)
              else uint (rc_Port x) - uint (rc_Port y))"

text \<open>
  \<^verbatim>\<open>slices.SortFunc\<close>: an insertion sort from the right for up to twelve elements, and any
  order that agrees with the comparison for more.
\<close>

fun insert_back :: "('a \<Rightarrow> 'a \<Rightarrow> int) \<Rightarrow> 'a \<Rightarrow> 'a list \<Rightarrow> 'a list" where
  "insert_back cmp x [] = [x]"
| "insert_back cmp x (y # ys) = (if cmp x y < 0 then y # insert_back cmp x ys else x # y # ys)"

definition SortFunc :: "('a \<Rightarrow> 'a \<Rightarrow> int) \<Rightarrow> 'a list \<Rightarrow> 'a list" where
  "SortFunc cmp xs = rev (fold (insert_back cmp) xs [])"

definition answer_result :: "(string \<Rightarrow> addr option) \<Rightarrow> answer \<Rightarrow> string \<Rightarrow> dns_Result" where
  "answer_result ParseAddr a server =
    \<lparr>dr_Query = no_query, dr_Records = SortFunc (record_cmp ParseAddr) (an_recs a),
     dr_Status = (if an_rcode a = RCodeSuccess \<and> an_recs a = [] then ''NODATA'' else rcodeName (an_rcode a)),
     dr_Server = server, dr_Err = None, dr_RTT = 0\<rparr>"

section \<open>Asking the nameservers in turn\<close>

definition recordType :: "string \<Rightarrow> nat option" where
  "recordType t =
    (if t = ''A'' then Some TypeA else if t = ''AAAA'' then Some TypeAAAA
     else if t = ''SRV'' then Some TypeSRV else if t = ''PTR'' then Some TypePTR else None)"

text \<open>
  What happens to one question: the error \<^verbatim>\<open>buildQuery\<close> gives, or the random id it chose; before
  attempt \<open>a\<close> at the \<open>i\<close>-th server, the error of the context if it is over; the network of the
  attempt and how long it took; how long the whole question took.
\<close>

record dns_env =
  ev_build :: "dns_error + u16"
  ev_ctx :: "nat \<Rightarrow> nat \<Rightarrow> dns_error option"
  ev_net :: "nat \<Rightarrow> nat \<Rightarrow> dns_net"
  ev_rtt :: "nat \<Rightarrow> nat \<Rightarrow> duration"
  ev_wait :: duration

definition final :: "answer \<Rightarrow> bool" where
  "final a = (an_rcode a = RCodeSuccess \<or> an_rcode a = RCodeNameError)"

definition answered :: "(string \<Rightarrow> addr option) \<Rightarrow> dns_env \<Rightarrow> string \<Rightarrow> nat \<Rightarrow> nat \<Rightarrow> answer \<Rightarrow> dns_Result" where
  "answered ParseAddr E server i a ans = (answer_result ParseAddr ans server)\<lparr>dr_RTT := ev_rtt E i a\<rparr>"

text \<open>The attempts at one server: either the question is done, or the last error and the last
  refusal carry over to the next server.\<close>

fun ask_server ::
  "(string \<Rightarrow> addr option) \<Rightarrow> dns_env \<Rightarrow> (nat \<Rightarrow> nat \<Rightarrow> dns_error + answer) \<Rightarrow> nat \<Rightarrow> string \<Rightarrow> nat \<Rightarrow> nat \<Rightarrow>
    dns_error option \<times> dns_Result option \<Rightarrow>
    dns_Result + (dns_error option \<times> dns_Result option)" where
  "ask_server ParseAddr E X i server a 0 (lastErr, refused) = Inr (lastErr, refused)"
| "ask_server ParseAddr E X i server a (Suc k) (lastErr, refused) =
    (case ev_ctx E i a of
       Some e \<Rightarrow> Inl (case refused of Some r \<Rightarrow> r | None \<Rightarrow> err_result e)
     | None \<Rightarrow>
         (case X i a of
            Inl err \<Rightarrow> ask_server ParseAddr E X i server (Suc a) k (Some (AtServer server err), refused)
          | Inr ans \<Rightarrow>
              let r = answered ParseAddr E server i a ans
              in if final ans then Inl r else Inr (lastErr, Some r)))"

fun ask_servers ::
  "(string \<Rightarrow> addr option) \<Rightarrow> dns_env \<Rightarrow> (nat \<Rightarrow> nat \<Rightarrow> dns_error + answer) \<Rightarrow> nat \<Rightarrow> nat \<Rightarrow> string list \<Rightarrow>
    dns_error option \<times> dns_Result option \<Rightarrow> dns_Result"
where
  "ask_servers ParseAddr E X attempts i [] (lastErr, refused) =
    (case refused of
       Some r \<Rightarrow> r
     | None \<Rightarrow> err_result (case lastErr of Some e \<Rightarrow> e | None \<Rightarrow> NoNameservers))"
| "ask_servers ParseAddr E X attempts i (server # servers) st =
    (case ask_server ParseAddr E X i server 0 attempts st of
       Inl r \<Rightarrow> r
     | Inr st \<Rightarrow> ask_servers ParseAddr E X attempts (Suc i) servers st)"

definition ask_done :: "dns_env \<Rightarrow> dns_Query \<Rightarrow> dns_Result \<Rightarrow> dns_Result" where
  "ask_done E q r = r\<lparr>dr_Query := q, dr_RTT := (if dr_RTT r = 0 then ev_wait E else dr_RTT r)\<rparr>"

text \<open>The text of addresses and the parser of messages, which the client is given.\<close>

record dns_lib =
  lb_ParseAddr :: "string \<Rightarrow> addr option"
  lb_String :: "addr \<Rightarrow> string"
  lb_Parser :: "bytes \<Rightarrow> dns_parse"

definition ask :: "dns_lib \<Rightarrow> dns_Client \<Rightarrow> dns_env \<Rightarrow> dns_Query \<Rightarrow> dns_Result" where
  "ask L c E q =
    ask_done E q (case recordType (qy_Type q) of
        None \<Rightarrow> err_result (UnknownType (qy_Type q))
      | Some qtype \<Rightarrow>
          (case ev_build E of
             Inl e \<Rightarrow> err_result e
           | Inr qid \<Rightarrow>
               ask_servers (lb_ParseAddr L) E
                 (\<lambda>i a. exchange (lb_String L) (lb_Parser L) (ev_net E i a) qid (qy_Name q) qtype)
                 (nat (cl_Attempts c)) 0 (cl_Nameservers c) (None, None)))"

section \<open>The addresses of SRV targets\<close>

primrec is_deadline :: "dns_error \<Rightarrow> bool" where
  "is_deadline (Malformed _) = False"
| "is_deadline IdMismatch = False"
| "is_deadline NotResponse = False"
| "is_deadline OtherQuestion = False"
| "is_deadline TruncatedTCP = False"
| "is_deadline (NetError _ timeout) = timeout"
| "is_deadline DeadlineExceeded = True"
| "is_deadline Canceled = False"
| "is_deadline (UnknownType _) = False"
| "is_deadline (BuildError _) = False"
| "is_deadline NoNameservers = False"
| "is_deadline (AtServer _ e) = is_deadline e"

primrec is_canceled :: "dns_error \<Rightarrow> bool" where
  "is_canceled (Malformed _) = False"
| "is_canceled IdMismatch = False"
| "is_canceled NotResponse = False"
| "is_canceled OtherQuestion = False"
| "is_canceled TruncatedTCP = False"
| "is_canceled (NetError _ _) = False"
| "is_canceled DeadlineExceeded = False"
| "is_canceled Canceled = True"
| "is_canceled (UnknownType _) = False"
| "is_canceled (BuildError _) = False"
| "is_canceled NoNameservers = False"
| "is_canceled (AtServer _ e) = is_canceled e"

definition dns_outcome :: "dns_Result \<Rightarrow> string" where
  "dns_outcome r =
    (if dr_Status r \<noteq> [] then dr_Status r
     else case dr_Err r of
         Some e \<Rightarrow> if is_deadline e then ''TIMEOUT'' else if is_canceled e then ''CANCELLED'' else ''ERROR''
       | None \<Rightarrow> ''ERROR'')"

definition dns_rank :: "string \<Rightarrow> int" where
  "dns_rank s =
    (if s = ''NOERROR'' \<or> s = ''NODATA'' then 0 else if s = ''NXDOMAIN'' then 1
     else if s = ''TIMEOUT'' \<or> s = ''CANCELLED'' \<or> s = ''ERROR'' then 3 else 2)"

definition worse :: "string \<Rightarrow> string \<Rightarrow> string" where
  "worse a b = (if a = [] then b else if dns_rank b > dns_rank a then b else a)"

text \<open>
  \<^verbatim>\<open>targetAddrs.resolve\<close>: the two answers are taken in the order the questions complete, each
  under the lock; the addresses are sorted afterwards, where \<^verbatim>\<open>MustParseAddr\<close> panics (\<open>None\<close>) on
  what is not an address.
\<close>

record targetAddrs =
  ta_addrs :: "string list"
  ta_status :: string

definition take_answer :: "dns_Result \<Rightarrow> targetAddrs \<Rightarrow> targetAddrs" where
  "take_answer r e = e\<lparr>ta_addrs := ta_addrs e @ map rc_Value (dr_Records r),
    ta_status := worse (ta_status e) (dns_outcome r)\<rparr>"

definition target_resolve :: "(string \<Rightarrow> addr option) \<Rightarrow> dns_Result list \<Rightarrow> targetAddrs option" where
  "target_resolve ParseAddr rs =
    (let e = fold take_answer rs \<lparr>ta_addrs = [], ta_status = []\<rparr>
     in if length (ta_addrs e) \<le> 1 \<or> list_all (\<lambda>a. ParseAddr a \<noteq> None) (ta_addrs e)
        then Some (e\<lparr>ta_addrs := SortFunc (\<lambda>a b. cmp_of (the (ParseAddr a)) (the (ParseAddr b))) (ta_addrs e)\<rparr>)
        else None)"

text \<open>\<open>cache\<close> gives the entry of each target, resolved once per run.\<close>

definition fill_record :: "(string \<Rightarrow> targetAddrs) \<Rightarrow> dns_Record \<Rightarrow> dns_Record" where
  "fill_record cache r =
    (if rc_Value r = ''.'' then r
     else let e = cache (rc_Value r);
              r = r\<lparr>rc_Addresses := ta_addrs e\<rparr>
          in if ta_addrs e = [] then r\<lparr>rc_AddressStatus := ta_status e\<rparr> else r)"

definition lookup_query ::
  "dns_lib \<Rightarrow> dns_Client \<Rightarrow> dns_env \<Rightarrow> (string \<Rightarrow> targetAddrs) \<Rightarrow> dns_Query \<Rightarrow> dns_Result" where
  "lookup_query L c E cache q =
    (let res = ask L c E q
     in if qy_Type q = ''SRV'' \<and> dr_Records res \<noteq> []
        then res\<lparr>dr_Records := map (fill_record cache) (dr_Records res)\<rparr> else res)"

section \<open>A run\<close>

datatype dns_Event =
    DnsStarted dns_Spec "string list"
  | DnsResultDone dns_Result
  | DnsFinished bool

text \<open>
  Every question has its own environment; \<open>order\<close> lists the positions of the questions in the
  order they complete; \<open>cancelled\<close> is whether the context was over at the end.
\<close>

definition dns_Run ::
  "dns_lib \<Rightarrow> dns_Client \<Rightarrow> dns_Client option \<Rightarrow> (dns_Query \<Rightarrow> dns_env) \<Rightarrow>
    (string \<Rightarrow> targetAddrs) \<Rightarrow> nat list \<Rightarrow> bool \<Rightarrow> dns_Spec \<Rightarrow> dns_spec_error + dns_Event list" where
  "dns_Run L HostClient c env cache order cancelled spec =
    rbind (dns_normalize (lb_ParseAddr L) (lb_String L) spec) (\<lambda>spec.
    let cl = normalized (case c of None \<Rightarrow> HostClient | Some c \<Rightarrow> c);
        qs = Queries (lb_ParseAddr L) (dn_Name spec);
        results = map (\<lambda>q. lookup_query L cl (env q) cache q) qs
    in Inr ([DnsStarted spec (cl_Nameservers cl)] @
            map (\<lambda>i. DnsResultDone (results ! i)) order @
            [DnsFinished cancelled]))"

end
