(* ===== verification/Dns_Theorems.thy ===== *)
theory Dns_Theorems
  imports Dns_Client "HOL-Library.Product_Lexorder"
begin

text \<open>
  What the DNS client of \<open>Dns_Client\<close> guarantees: a reply is used only when it answers the
  question asked, the nameservers are asked in turn until one gives a final answer, records come
  in a fixed order, and a run reports every question once.
\<close>

section \<open>Sorting by a comparison function\<close>

lemma mset_insert_back [simp]: "mset (insert_back cmp x ys) = add_mset x (mset ys)"
  by (induction ys) auto

lemma set_insert_back [simp]: "set (insert_back cmp x ys) = insert x (set ys)"
  by (induction ys) auto

lemma mset_fold_insert_back: "mset (fold (insert_back cmp) xs acc) = mset xs + mset acc"
  by (induction xs arbitrary: acc) auto

lemma mset_SortFunc [simp]: "mset (SortFunc cmp xs) = mset xs"
  by (simp add: SortFunc_def mset_fold_insert_back)

lemma set_SortFunc [simp]: "set (SortFunc cmp xs) = set xs"
  by (metis mset_SortFunc set_mset_mset)

lemma SortFunc_Nil_iff [simp]: "SortFunc cmp xs = [] \<longleftrightarrow> xs = []"
  by (metis mset_SortFunc mset_zero_iff)

text \<open>On a set where the comparison agrees with a linear order of keys, the result is sorted.\<close>

definition compares_by :: "('a \<Rightarrow> 'a \<Rightarrow> int) \<Rightarrow> ('a \<Rightarrow> 'k :: linorder) \<Rightarrow> 'a set \<Rightarrow> bool" where
  "compares_by cmp key S = (\<forall>x \<in> S. \<forall>y \<in> S. cmp x y < 0 \<longleftrightarrow> key x < key y)"

lemma sorted_insert_back:
  assumes "compares_by cmp key (insert x (set ys))" and "sorted (rev (map key ys))"
  shows "sorted (rev (map key (insert_back cmp x ys)))"
  using assms
proof (induction ys)
  case Nil
  then show ?case by simp
next
  case (Cons y ys)
  have "compares_by cmp key (insert x (set ys))" "sorted (rev (map key ys))"
    using Cons.prems by (auto simp: compares_by_def sorted_append)
  note IH = Cons.IH [OF this]
  have xy: "cmp x y < 0 \<longleftrightarrow> key x < key y" using Cons.prems(1) by (simp add: compares_by_def)
  show ?case
  proof (cases "cmp x y < 0")
    case True
    with xy IH Cons.prems(2) show ?thesis by (auto simp: sorted_append)
  next
    case False
    with xy Cons.prems(2) show ?thesis by (force simp: sorted_append)
  qed
qed

lemma sorted_fold_insert_back:
  assumes "compares_by cmp key (set xs \<union> set acc)" and "sorted (rev (map key acc))"
  shows "sorted (rev (map key (fold (insert_back cmp) xs acc)))"
  using assms
proof (induction xs arbitrary: acc)
  case Nil
  then show ?case by simp
next
  case (Cons x xs)
  have "sorted (rev (map key (insert_back cmp x acc)))"
    using Cons.prems by (intro sorted_insert_back) (auto simp: compares_by_def)
  with Cons show ?case by simp
qed

lemma SortFunc_eq_sort:
  assumes "compares_by cmp key (set xs)"
  shows "map key (SortFunc cmp xs) = sort (map key xs)"
proof (rule properties_for_sort [symmetric])
  have "sorted (rev (map key (fold (insert_back cmp) xs [])))"
    using assms by (intro sorted_fold_insert_back) simp_all
  then show "sorted (map key (SortFunc cmp xs))" by (simp add: SortFunc_def rev_map)
  show "mset (map key (SortFunc cmp xs)) = mset (map key xs)" by simp
qed

section \<open>The order of the records\<close>

definition name_key :: "dns_Record \<Rightarrow> int \<times> int \<times> string \<times> int" where
  "name_key r = (uint (rc_Priority r), - uint (rc_Weight r), rc_Value r, uint (rc_Port r))"

definition addr_key :: "(string \<Rightarrow> addr option) \<Rightarrow> dns_Record \<Rightarrow> int \<times> int \<times> addr" where
  "addr_key ParseAddr r = (uint (rc_Priority r), - uint (rc_Weight r), the (ParseAddr (rc_Value r)))"

lemma cmp_of_less [simp]: "cmp_of x y < 0 \<longleftrightarrow> x < y"
  by (simp add: cmp_of_def)

lemma uint_neq_less: "x \<noteq> y \<Longrightarrow> uint x < uint y \<or> uint y < uint (x :: 'a :: len word)"
  by (metis linorder_neqE_linordered_idom word_uint_eq_iff)

lemma record_cmp_names:
  "compares_by (record_cmp ParseAddr) name_key {r. ParseAddr (rc_Value r) = None}"
  by (auto simp: compares_by_def record_cmp_def name_key_def word_uint_eq_iff split: if_splits)

lemma record_cmp_addrs:
  "compares_by (record_cmp ParseAddr) (addr_key ParseAddr) {r. ParseAddr (rc_Value r) \<noteq> None}"
  by (auto simp: compares_by_def record_cmp_def addr_key_def word_uint_eq_iff split: if_splits)

lemma compares_by_subset: "compares_by cmp key S \<Longrightarrow> T \<subseteq> S \<Longrightarrow> compares_by cmp key T"
  by (auto simp: compares_by_def)

text \<open>The records of an answer keep the order priority, then weight from the highest, then value: host names by
  text and port, addresses by number. So two answers with the same records give the same list, whatever
  order the nameservers sent them in, and no record is lost or doubled.\<close>

theorem records_in_fixed_order:
  assumes "(\<forall>r \<in> set (an_recs a). ParseAddr (rc_Value r) = None) \<or>
           (\<forall>r \<in> set (an_recs a). ParseAddr (rc_Value r) \<noteq> None)"
  shows "mset (dr_Records (answer_result ParseAddr a server)) = mset (an_recs a) \<and>
    (if \<forall>r \<in> set (an_recs a). ParseAddr (rc_Value r) = None
     then map name_key (dr_Records (answer_result ParseAddr a server)) = sort (map name_key (an_recs a))
     else map (addr_key ParseAddr) (dr_Records (answer_result ParseAddr a server)) =
       sort (map (addr_key ParseAddr) (an_recs a)))"
proof (cases "\<forall>r \<in> set (an_recs a). ParseAddr (rc_Value r) = None")
  case True
  then have "compares_by (record_cmp ParseAddr) name_key (set (an_recs a))"
    using compares_by_subset [OF record_cmp_names] by blast
  with True show ?thesis by (simp add: answer_result_def SortFunc_eq_sort)
next
  case False
  with assms have "compares_by (record_cmp ParseAddr) (addr_key ParseAddr) (set (an_recs a))"
    using compares_by_subset [OF record_cmp_addrs] by blast
  with False show ?thesis by (auto simp: answer_result_def SortFunc_eq_sort)
qed

definition demo_srv :: "string \<Rightarrow> u16 \<Rightarrow> dns_Record" where
  "demo_srv v p = (empty_record 60)\<lparr>rc_Value := v, rc_Priority := p\<rparr>"

theorem records_in_fixed_order_witness:
  "map name_key (dr_Records (answer_result (\<lambda>_. None) \<lparr>an_rcode = 0, an_recs = [demo_srv ''b'' 2, demo_srv ''a'' 1]\<rparr> ''s'')) =
    sort (map name_key [demo_srv ''b'' 2, demo_srv ''a'' 1])"
  using records_in_fixed_order [of "\<lparr>an_rcode = 0, an_recs = [demo_srv ''b'' 2, demo_srv ''a'' 1]\<rparr>" "\<lambda>_. None" "''s''"]
  by simp

text \<open>
  Without that hypothesis the comparison need not be an order: a target that reads as an
  address is compared by number with another such target and by text with a host name.
\<close>

lemma record_cmp_cycle:
  fixes x y z :: dns_Record
  defines "P \<equiv> (\<lambda>s. if s = ''9.0.0.1'' then Some (V4 0x09000001)
                     else if s = ''10.0.0.1'' then Some (V4 0x0a000001) else None)"
  assumes "x = demo_srv ''9.0.0.1'' 0" and "y = demo_srv ''10.0.0.1'' 0" and "z = demo_srv ''1a.example'' 0"
  shows "record_cmp P x y < 0 \<and> record_cmp P y z < 0 \<and> record_cmp P z x < 0"
  by (simp add: assms record_cmp_def demo_srv_def empty_record_def less_addr_def less_eq_addr_def less_char_def)

section \<open>Replies\<close>

text \<open>A reply that answers the question: the id, the response flag and the question echoed, not
  truncated, and an answer with the code of the header and the records of the asked type.\<close>

definition answers_question ::
  "(addr \<Rightarrow> string) \<Rightarrow> dns_parse \<Rightarrow> u16 \<Rightarrow> string \<Rightarrow> nat \<Rightarrow> answer \<Rightarrow> bool" where
  "answers_question addr_str p qid name qtype ans =
    (\<exists>h q. dp_Start p = Inr h \<and> dp_Question p = Inr q \<and> dh_ID h = qid \<and> dh_Response h \<and> \<not> dh_Truncated h \<and>
       EqualFold (dq_Name q) (name @ ''.'') \<and> dq_Type q = qtype \<and> dq_Class q = ClassINET \<and>
       an_rcode ans = dh_RCode h \<and> dp_AnswerError p = None \<and>
       map (read_rr addr_str qtype) (filter (\<lambda>rr. rr_Type rr = qtype) (dp_Answers p)) = map Inr (an_recs ans))"

lemma read_answers_records:
  "read_answers addr_str qtype err rrs recs = Inr out \<Longrightarrow>
    err = None \<and> (\<exists>new. out = recs @ new \<and>
      map (read_rr addr_str qtype) (filter (\<lambda>rr. rr_Type rr = qtype) rrs) = map Inr new)"
proof (induction rrs arbitrary: recs)
  case Nil
  then show ?case by (auto split: option.splits)
next
  case (Cons rr rrs)
  show ?case
  proof (cases "rr_Type rr = qtype")
    case True
    with Cons.prems obtain r where r: "read_rr addr_str qtype rr = Inr r"
      "read_answers addr_str qtype err rrs (recs @ [r]) = Inr out" by auto
    from Cons.IH [OF r(2)] obtain new where "err = None" "out = recs @ r # new"
      "map (read_rr addr_str qtype) (filter (\<lambda>rr. rr_Type rr = qtype) rrs) = map Inr new" by auto
    with True r(1) show ?thesis by (intro conjI exI [of _ "r # new"]) simp_all
  next
    case False
    with Cons show ?thesis by (auto split: option.splits)
  qed
qed

lemma parseAnswer_answers:
  assumes "parseAnswer addr_str p qid name qtype = Inr (ans, False)"
  shows "answers_question addr_str p qid name qtype ans"
proof -
  obtain h where h: "dp_Start p = Inr h" "dh_ID h = qid" "dh_Response h"
    using assms by (auto simp: parseAnswer_def split: sum.splits if_splits)
  obtain q where q: "dp_Question p = Inr q" "EqualFold (dq_Name q) (name @ ''.'')" "dq_Type q = qtype"
      "dq_Class q = ClassINET" "\<not> dh_Truncated h"
    using assms h by (auto simp: parseAnswer_def split: sum.splits if_splits)
  obtain recs where "read_answers addr_str qtype (dp_AnswerError p) (dp_Answers p) [] = Inr recs"
      "ans = \<lparr>an_rcode = dh_RCode h, an_recs = recs\<rparr>"
    using assms h q by (auto simp: parseAnswer_def split: option.splits)
  with h q read_answers_records [of addr_str qtype "dp_AnswerError p" "dp_Answers p" "[]" recs] show ?thesis
    by (simp add: answers_question_def)
qed

text \<open>(C30) An exchange yields an answer only from a reply that carries the id of the query, is a response, echoes the
  question and is complete: the one that came over UDP, or, when that was truncated, the one that came over
  TCP. Its records are those of the asked type in the reply, in order.\<close>

theorem exchange_answers_question:
  assumes "exchange addr_str Parser nt qid name qtype = Inr ans"
  shows "\<exists>resp. answers_question addr_str (Parser resp) qid name qtype ans \<and>
    (roundTrip nt Net_udp qid = Inr resp \<or>
     (\<exists>short cut. roundTrip nt Net_udp qid = Inr short \<and>
        parseAnswer addr_str (Parser short) qid name qtype = Inr (cut, True) \<and>
        roundTrip nt Net_tcp qid = Inr resp))"
proof -
  obtain resp ans1 cut where udp: "roundTrip nt Net_udp qid = Inr resp"
      "parseAnswer addr_str (Parser resp) qid name qtype = Inr (ans1, cut)"
    using assms by (auto simp: exchange_def)
  show ?thesis
  proof (cases cut)
    case False
    with udp assms have "ans1 = ans" by (simp add: exchange_def)
    with udp(2) False have "answers_question addr_str (Parser resp) qid name qtype ans"
      by (simp add: parseAnswer_answers)
    with udp(1) show ?thesis by blast
  next
    case True
    with udp assms obtain resp2 where "roundTrip nt Net_tcp qid = Inr resp2"
      "parseAnswer addr_str (Parser resp2) qid name qtype = Inr (ans, False)"
      by (auto simp: exchange_def split: if_splits)
    moreover from this(2) have "answers_question addr_str (Parser resp2) qid name qtype ans"
      by (rule parseAnswer_answers)
    ultimately show ?thesis
      using udp True by (intro exI [of _ resp2] conjI disjI2 exI [of _ resp] exI [of _ ans1]) simp_all
  qed
qed

definition demo_parse :: "bytes \<Rightarrow> dns_parse" where
  "demo_parse b = \<lparr>dp_Start = Inr \<lparr>dh_ID = 7, dh_Response = True, dh_Truncated = (length b = 2), dh_RCode = 0\<rparr>,
    dp_Question = Inr \<lparr>dq_Name = ''Host.'', dq_Type = 1, dq_Class = 1\<rparr>, dp_SkipAllQuestions = None,
    dp_Answers = [\<lparr>rr_Type = 5, rr_TTL = 1, rr_Skip = None, rr_A = Inl [], rr_AAAA = Inl [], rr_SRV = Inl [], rr_PTR = Inl []\<rparr>,
      \<lparr>rr_Type = 1, rr_TTL = 9, rr_Skip = None, rr_A = Inr 1, rr_AAAA = Inl [], rr_SRV = Inl [], rr_PTR = Inl []\<rparr>],
    dp_AnswerError = None\<rparr>"

definition demo_dns_net :: dns_net where
  "demo_dns_net = \<lparr>nt_udp_dial = None, nt_udp_reads = [[1, 1], [0, 7]], nt_tcp_dial = None,
    nt_tcp_stream = [0, 3, 0, 7, 0], nt_read_err = DeadlineExceeded\<rparr>"

lemma demo_exchange:
  "exchange (\<lambda>_. ''a'') demo_parse demo_dns_net 7 ''host'' 1 =
    Inr \<lparr>an_rcode = 0, an_recs = [(empty_record 9)\<lparr>rc_Value := ''a''\<rparr>]\<rparr>"
  by code_simp

theorem exchange_answers_question_witness:
  "\<exists>resp. answers_question (\<lambda>_. ''a'') (demo_parse resp) 7 ''host'' 1
    \<lparr>an_rcode = 0, an_recs = [(empty_record 9)\<lparr>rc_Value := ''a''\<rparr>]\<rparr>"
  using exchange_answers_question [OF demo_exchange] by auto

section \<open>Framing\<close>

lemma be16_put16: "be16 (put16 w @ rest) = w"
  by (rule bit_word_eqI) (auto simp: be16_def put16_def bit_simps)

text \<open>A DNS message of less than 64 KiB sent over TCP is read back as it is, whatever follows it on the
  stream; over UDP the first datagram with the id of the query is taken and the others are skipped.\<close>

theorem transport_roundtrip:
  assumes "length msg < 65536" and "be16 reply = qid" and "2 \<le> length reply" and "length reply \<le> 4096"
    and "\<forall>b \<in> set before. be16 (take 4096 b) \<noteq> qid"
  shows "tcp_read err (tcp_frame msg @ rest) = Inr msg \<and>
    udp_wait qid err (before @ [reply] @ after) = Inr reply"
proof -
  have "unat (of_nat (length msg) :: u16) = length msg"
    using assms(1) by (simp add: unat_of_nat take_bit_nat_eq_self_iff)
  moreover have "length (put16 w) = 2" for w by (simp add: put16_def)
  ultimately have "tcp_read err (tcp_frame msg @ rest) = Inr msg"
    by (simp add: tcp_read_def tcp_frame_def be16_put16 append_assoc Let_def)
  moreover have "udp_wait qid err (before @ [reply] @ after) = Inr reply"
    using assms(2-5) by (induction before) (simp_all add: Let_def)
  ultimately show ?thesis by simp
qed

theorem transport_roundtrip_witness:
  "tcp_read DeadlineExceeded (tcp_frame [1, 2, 3] @ [9]) = Inr [1, 2, 3] \<and>
    udp_wait 7 DeadlineExceeded ([[1, 1]] @ [[0, 7]] @ []) = Inr [0, 7]"
  using transport_roundtrip [of "[1, 2, 3]" "[0, 7]" 7 "[[1, 1]]" DeadlineExceeded "[9]" "[]"]
  by (simp add: be16_def)

section \<open>Asking\<close>

text \<open>The first attempt at server \<open>i\<close>, from attempt \<open>a\<close> on and among the next \<open>k\<close>, that is answered.\<close>

fun first_answer :: "(nat \<Rightarrow> nat \<Rightarrow> 'e + answer) \<Rightarrow> nat \<Rightarrow> nat \<Rightarrow> nat \<Rightarrow> (nat \<times> answer) option" where
  "first_answer X i a 0 = None"
| "first_answer X i a (Suc k) = (case X i a of Inr ans \<Rightarrow> Some (a, ans) | Inl _ \<Rightarrow> first_answer X i (Suc a) k)"

text \<open>The answers of the servers, in order.\<close>

fun server_answers :: "(nat \<Rightarrow> nat \<Rightarrow> 'e + answer) \<Rightarrow> nat \<Rightarrow> nat \<Rightarrow> string list \<Rightarrow> (string \<times> nat \<times> nat \<times> answer) list" where
  "server_answers X n i [] = []"
| "server_answers X n i (s # ss) =
    (case first_answer X i 0 n of None \<Rightarrow> [] | Some (a, ans) \<Rightarrow> [(s, i, a, ans)]) @ server_answers X n (Suc i) ss"

text \<open>The reference: the first final answer, else the last one, else an error.\<close>

definition choose_answer :: "(string \<Rightarrow> addr option) \<Rightarrow> dns_env \<Rightarrow> (string \<times> nat \<times> nat \<times> answer) list \<Rightarrow> dns_Result option" where
  "choose_answer ParseAddr E as =
    (case find (\<lambda>(s, i, a, ans). final ans) as of
       Some (s, i, a, ans) \<Rightarrow> Some (answered ParseAddr E s i a ans)
     | None \<Rightarrow> if as = [] then None
               else (case last as of (s, i, a, ans) \<Rightarrow> Some (answered ParseAddr E s i a ans)))"

lemma ask_server_cases:
  assumes "\<And>a. ev_ctx E i a = None"
  shows "\<exists>e. (le \<noteq> None \<longrightarrow> e \<noteq> None) \<and> ask_server ParseAddr E X i s a k (le, rf) =
    (case first_answer X i a k of
       None \<Rightarrow> Inr (e, rf)
     | Some (b, ans) \<Rightarrow> if final ans then Inl (answered ParseAddr E s i b ans)
                        else Inr (e, Some (answered ParseAddr E s i b ans)))"
proof (induction k arbitrary: a le)
  case 0
  then show ?case by auto
next
  case (Suc k)
  show ?case
  proof (cases "X i a")
    case (Inl err)
    with Suc.IH [of "Some (AtServer s err)" "Suc a"] assms show ?thesis by auto
  next
    case (Inr ans)
    with assms show ?thesis by (auto simp: Let_def)
  qed
qed

lemma ask_servers_chooses:
  assumes "\<And>i a. ev_ctx E i a = None"
  shows "\<exists>e. ask_servers ParseAddr E X n i ss (le, rf) =
    (case choose_answer ParseAddr E (server_answers X n i ss) of
       Some r \<Rightarrow> r
     | None \<Rightarrow> (case rf of Some r \<Rightarrow> r | None \<Rightarrow> err_result e))"
proof (induction ss arbitrary: i le rf)
  case Nil
  then show ?case by (auto simp: choose_answer_def split: option.splits)
next
  case (Cons s ss)
  obtain e where e: "ask_server ParseAddr E X i s 0 n (le, rf) =
    (case first_answer X i 0 n of
       None \<Rightarrow> Inr (e, rf)
     | Some (b, ans) \<Rightarrow> if final ans then Inl (answered ParseAddr E s i b ans)
                        else Inr (e, Some (answered ParseAddr E s i b ans)))"
    using ask_server_cases [OF assms] by blast
  show ?case
  proof (cases "first_answer X i 0 n")
    case None
    with e Cons.IH [of "Suc i" e rf] show ?thesis by simp
  next
    case (Some p)
    obtain b ans where p: "p = (b, ans)" by force
    show ?thesis
    proof (cases "final ans")
      case True
      with Some p e show ?thesis by (simp add: choose_answer_def)
    next
      case False
      with Some p e Cons.IH [of "Suc i" e "Some (answered ParseAddr E s i b ans)"] show ?thesis
        by (auto simp: choose_answer_def split: option.splits if_splits prod.splits)
    qed
  qed
qed

lemma rcodeName_nonempty [simp]: "rcodeName rc \<noteq> []"
  by (simp add: rcodeName_def)

definition well_reported :: "string list \<Rightarrow> dns_Result \<Rightarrow> bool" where
  "well_reported servers r =
    ((dr_Err r = None \<longleftrightarrow> dr_Status r \<noteq> []) \<and> (dr_Err r = None \<longrightarrow> dr_Server r \<in> set servers))"

lemma well_reported_answered [simp]: "s \<in> set servers \<Longrightarrow> well_reported servers (answered P E s i a ans)"
  by (simp add: well_reported_def answered_def answer_result_def)

lemma well_reported_err [simp]: "well_reported servers (err_result e)"
  by (simp add: well_reported_def err_result_def)

lemma ask_server_reported:
  assumes "s \<in> set servers" and "\<And>r. rf = Some r \<Longrightarrow> well_reported servers r"
  shows "(\<forall>r. ask_server P E X i s a k (le, rf) = Inl r \<longrightarrow> well_reported servers r) \<and>
    (\<forall>le' r. ask_server P E X i s a k (le, rf) = Inr (le', Some r) \<longrightarrow> well_reported servers r)"
  using assms by (induction k arbitrary: a le) (auto simp: Let_def split: option.splits sum.splits if_splits)

lemma ask_servers_reported:
  assumes "set ss \<subseteq> set servers" and "\<And>r. rf = Some r \<Longrightarrow> well_reported servers r"
  shows "well_reported servers (ask_servers P E X n i ss (le, rf))"
  using assms
proof (induction ss arbitrary: i le rf)
  case Nil
  then show ?case by (auto split: option.splits)
next
  case (Cons s ss)
  have s: "s \<in> set servers" "set ss \<subseteq> set servers" using Cons.prems(1) by auto
  note rep = ask_server_reported [OF s(1) Cons.prems(2), where P = P and E = E and X = X and i = i and a = 0
      and k = n and le = le]
  show ?case
  proof (cases "ask_server P E X i s 0 n (le, rf)")
    case (Inl r)
    with rep show ?thesis by simp
  next
    case (Inr st)
    obtain le' rf' where st: "st = (le', rf')" by force
    with Inr rep have "\<And>r. rf' = Some r \<Longrightarrow> well_reported servers r" by auto
    from Cons.IH [OF s(2) this] Inr st show ?thesis by simp
  qed
qed

text \<open>The exchanges of one question.\<close>

definition exchanges :: "dns_lib \<Rightarrow> dns_env \<Rightarrow> dns_Query \<Rightarrow> u16 \<Rightarrow> nat \<Rightarrow> nat \<Rightarrow> nat \<Rightarrow> dns_error + answer" where
  "exchanges L E q qid qtype = (\<lambda>i a. exchange (lb_String L) (lb_Parser L) (ev_net E i a) qid (qy_Name q) qtype)"


definition demo_lib :: dns_lib where
  "demo_lib = \<lparr>lb_ParseAddr = (\<lambda>_. None), lb_String = (\<lambda>_. ''a''), lb_Parser = demo_parse\<rparr>"

definition demo_dns_env :: dns_env where
  "demo_dns_env = \<lparr>ev_build = Inr 7, ev_ctx = (\<lambda>_ _. None),
    ev_net = (\<lambda>i a. if i = 1 then demo_dns_net else demo_dns_net\<lparr>nt_udp_reads := []\<rparr>),
    ev_rtt = (\<lambda>_ _. Millisecond), ev_wait = Second\<rparr>"


section \<open>The addresses of a target\<close>

lemma dns_outcome_nonempty [simp]: "dns_outcome r \<noteq> []"
  by (auto simp: dns_outcome_def split: option.splits)

lemma worse_rank: "a \<noteq> [] \<Longrightarrow> dns_rank (worse a b) = max (dns_rank a) (dns_rank b)"
  by (simp add: worse_def max_def)

definition addr_texts :: "(string \<Rightarrow> addr option) \<Rightarrow> (addr \<Rightarrow> string) \<Rightarrow> string list \<Rightarrow> bool" where
  "addr_texts ParseAddr addr_str vs = (\<forall>v \<in> set vs. \<exists>a. ParseAddr v = Some a \<and> addr_str a = v)"

lemma sorted_addr_texts:
  assumes "addr_texts P S vs"
  shows "SortFunc (\<lambda>a b. cmp_of (the (P a)) (the (P b))) vs = map S (sort (map (\<lambda>v. the (P v)) vs))"
proof -
  let ?ws = "SortFunc (\<lambda>a b. cmp_of (the (P a)) (the (P b))) vs"
  have "map (\<lambda>v. the (P v)) ?ws = sort (map (\<lambda>v. the (P v)) vs)"
    by (rule SortFunc_eq_sort) (simp add: compares_by_def)
  then have "map S (sort (map (\<lambda>v. the (P v)) vs)) = map (\<lambda>v. S (the (P v))) ?ws"
    by (metis (mono_tags, lifting) comp_apply list.map_comp map_eq_conv)
  also have "\<dots> = ?ws"
    using assms by (intro map_idI) (force simp: addr_texts_def)
  finally show ?thesis by simp
qed

lemma target_resolve_two:
  assumes "addr_texts P S (map rc_Value (dr_Records r1) @ map rc_Value (dr_Records r2))"
  shows "target_resolve P [r1, r2] =
    Some \<lparr>ta_addrs = map S (sort (map (\<lambda>v. the (P v)) (map rc_Value (dr_Records r1) @ map rc_Value (dr_Records r2)))),
          ta_status = worse (dns_outcome r1) (dns_outcome r2)\<rparr>"
proof -
  let ?vs = "map rc_Value (dr_Records r1) @ map rc_Value (dr_Records r2)"
  have "list_all (\<lambda>a. P a \<noteq> None) ?vs" using assms by (fastforce simp: addr_texts_def list_all_iff)
  moreover have "fold take_answer [r1, r2] \<lparr>ta_addrs = [], ta_status = []\<rparr> =
      \<lparr>ta_addrs = ?vs, ta_status = worse (dns_outcome r1) (dns_outcome r2)\<rparr>"
    by (simp add: take_answer_def worse_def)
  ultimately show ?thesis
    unfolding target_resolve_def Let_def using sorted_addr_texts [OF assms] by (simp del: map_append)
qed

text \<open>The addresses of an SRV target do not depend on which of its two lookups completes first: they are the
  addresses of both answers in numeric order, and what is said of a target without addresses has the
  seriousness of the worse outcome. Sorting them never panics.\<close>

theorem target_resolve_order_free:
  assumes "addr_texts ParseAddr addr_str (map rc_Value (dr_Records r1 @ dr_Records r2))"
  shows "\<exists>e1 e2. target_resolve ParseAddr [r1, r2] = Some e1 \<and> target_resolve ParseAddr [r2, r1] = Some e2 \<and>
    ta_addrs e1 = ta_addrs e2 \<and> mset (ta_addrs e1) = mset (map rc_Value (dr_Records r1 @ dr_Records r2)) \<and>
    dns_rank (ta_status e1) = max (dns_rank (dns_outcome r1)) (dns_rank (dns_outcome r2)) \<and>
    dns_rank (ta_status e2) = dns_rank (ta_status e1)"
proof -
  let ?v1 = "map rc_Value (dr_Records r1)" and ?v2 = "map rc_Value (dr_Records r2)"
  let ?key = "\<lambda>v. the (ParseAddr v)"
  have texts: "addr_texts ParseAddr addr_str (?v1 @ ?v2)" "addr_texts ParseAddr addr_str (?v2 @ ?v1)"
    using assms by (auto simp: addr_texts_def)
  have same: "sort (map ?key (?v2 @ ?v1)) = sort (map ?key (?v1 @ ?v2))"
    by (rule properties_for_sort) (simp_all add: union_commute)
  have "mset (map addr_str (sort (map ?key (?v1 @ ?v2)))) = mset (?v1 @ ?v2)"
    using sorted_addr_texts [OF texts(1)] by (metis mset_SortFunc)
  then show ?thesis
    unfolding target_resolve_two [OF texts(1)] target_resolve_two [OF texts(2)] same
    by (simp add: worse_rank max.commute)
qed

definition demo_answer :: "string list \<Rightarrow> string \<Rightarrow> dns_Result" where
  "demo_answer vs st = \<lparr>dr_Query = no_query, dr_Records = map (\<lambda>v. (empty_record 1)\<lparr>rc_Value := v\<rparr>) vs,
    dr_Status = st, dr_Server = ''s'', dr_Err = None, dr_RTT = 1\<rparr>"

theorem target_resolve_order_free_witness:
  "\<exists>e1 e2. target_resolve (\<lambda>s. if s = ''b'' then Some (V4 2) else Some (V4 1))
      [demo_answer [''b'', ''a''] ''NOERROR'', demo_answer [] ''SERVFAIL''] = Some e1 \<and>
    target_resolve (\<lambda>s. if s = ''b'' then Some (V4 2) else Some (V4 1))
      [demo_answer [] ''SERVFAIL'', demo_answer [''b'', ''a''] ''NOERROR''] = Some e2 \<and> ta_addrs e1 = ta_addrs e2"
  using target_resolve_order_free [of "\<lambda>s. if s = ''b'' then Some (V4 2) else Some (V4 1)"
      "\<lambda>a. if a = V4 2 then ''b'' else ''a''"
      "demo_answer [''b'', ''a''] ''NOERROR''" "demo_answer [] ''SERVFAIL''"]
  by (auto simp: addr_texts_def demo_answer_def)

section \<open>A run\<close>

lemma dr_Query_lookup [simp]: "dr_Query (lookup_query L c E cache q) = q"
  by (simp add: lookup_query_def ask_def ask_done_def Let_def)

lemma normalized_usable: "cl_Nameservers (normalized c) \<noteq> []" "0 < cl_Attempts (normalized c)" "0 < cl_Timeout (normalized c)"
  by (simp_all add: normalized_def)

text \<open>A lookup that is accepted reports its start with at least one nameserver, then one result per question
  (one for an address, six for a name), each question exactly once in whatever order they complete,
  then its end.\<close>

theorem dns_run_reports_every_question:
  assumes "dns_Run L HostClient c env cache order cancelled spec = Inr evs"
    and "dns_normalize (lb_ParseAddr L) (lb_String L) spec = Inr t"
    and "mset order = mset [0..<length (Queries (lb_ParseAddr L) (dn_Name t))]"
  shows "\<exists>servers results. evs = [DnsStarted t servers] @ map DnsResultDone results @ [DnsFinished cancelled] \<and>
    servers \<noteq> [] \<and> mset (map dr_Query results) = mset (Queries (lb_ParseAddr L) (dn_Name t)) \<and>
    length results = (if lb_ParseAddr L (dn_Name t) = None then 6 else 1)"
proof -
  let ?qs = "Queries (lb_ParseAddr L) (dn_Name t)"
  let ?cl = "normalized (case c of None \<Rightarrow> HostClient | Some c \<Rightarrow> c)"
  let ?rs = "map (\<lambda>q. lookup_query L ?cl (env q) cache q) ?qs"
  let ?out = "map ((!) ?rs) order"
  have evs: "evs = [DnsStarted t (cl_Nameservers ?cl)] @ map DnsResultDone ?out @ [DnsFinished cancelled]"
    using assms(1,2) by (simp add: dns_Run_def Let_def comp_def)
  have "mset ?out = image_mset ((!) ?rs) (mset [0..<length ?rs])" using assms(3) by simp
  also have "\<dots> = mset (map ((!) ?rs) [0..<length ?rs])" by (simp only: mset_map)
  also have "\<dots> = mset ?rs" by (simp only: map_nth)
  finally have out: "mset ?out = mset ?rs" .
  have "mset (map dr_Query ?out) = image_mset dr_Query (mset ?rs)" using out by (simp only: mset_map)
  also have "\<dots> = mset ?qs" by (simp add: multiset.map_comp comp_def)
  finally have "mset (map dr_Query ?out) = mset ?qs" .
  moreover have "length ?out = length ?qs" using out mset_eq_length by fastforce
  moreover have "length ?qs = (if lb_ParseAddr L (dn_Name t) = None then 6 else 1)"
    by (auto simp: Queries_def srvServices_def split: option.splits)
  ultimately show ?thesis
    using evs normalized_usable(1) by (intro exI [of _ "cl_Nameservers ?cl"] exI [of _ ?out]) simp
qed

theorem dns_run_reports_every_question_witness:
  "\<exists>servers results. dns_Run demo_lib \<lparr>cl_Nameservers = [], cl_Timeout = 0, cl_Attempts = 0\<rparr> None (\<lambda>_. demo_dns_env)
      (\<lambda>_. \<lparr>ta_addrs = [], ta_status = []\<rparr>) [3, 1, 0, 2, 5, 4] False \<lparr>dn_Name = ''host'', dn_Timeout = Second\<rparr> =
    Inr ([DnsStarted \<lparr>dn_Name = ''host'', dn_Timeout = Second\<rparr> servers] @ map DnsResultDone results @ [DnsFinished False]) \<and>
    length results = 6"
proof -
  let ?t = "\<lparr>dn_Name = ''host'', dn_Timeout = Second\<rparr>"
  have norm: "dns_normalize (lb_ParseAddr demo_lib) (lb_String demo_lib) ?t = Inr ?t" by code_simp
  have perm: "mset [3, 1, 0, 2, 5, 4] = mset [0..<length (Queries (lb_ParseAddr demo_lib) (dn_Name ?t))]"
    by (simp add: Queries_def demo_lib_def srvServices_def upt_rec numeral_eq_Suc)
  obtain evs where run: "dns_Run demo_lib \<lparr>cl_Nameservers = [], cl_Timeout = 0, cl_Attempts = 0\<rparr> None (\<lambda>_. demo_dns_env)
      (\<lambda>_. \<lparr>ta_addrs = [], ta_status = []\<rparr>) [3, 1, 0, 2, 5, 4] False ?t = Inr evs"
    using norm by (simp add: dns_Run_def Let_def)
  from dns_run_reports_every_question [OF run norm perm] run show ?thesis
    by (auto simp: demo_lib_def)
qed

end
