(* ===== verification/Proto.thy ===== *)
theory Proto
  imports Prober_Prelude
begin

text \<open>
  The messages of the agent stream, \<^verbatim>\<open>api/proto/prober/v1/agent.proto\<close>, as the agent and the
  backend exchange them. A \<^verbatim>\<open>oneof\<close> is a datatype, with a constructor for the case that none
  of its fields is set; \<^verbatim>\<open>uint32\<close> and \<^verbatim>\<open>uint64\<close> are words; an enum is open, so a value
  outside it is kept. Time stamps are left out, except where the backend reads them.
\<close>

datatype pb_Protocol = PROTOCOL_UNSPECIFIED | PROTOCOL_ICMP | PROTOCOL_UDP | PROTOCOL_TCP
  | PROTOCOL_Other nat

datatype pb_AddressFamily = ADDRESS_FAMILY_UNSPECIFIED | ADDRESS_FAMILY_IPV4 | ADDRESS_FAMILY_IPV6
  | ADDRESS_FAMILY_Other nat

datatype pb_TraceMode = TRACE_MODE_UNSPECIFIED | TRACE_MODE_MTR | TRACE_MODE_PING | TRACE_MODE_Other nat

datatype pb_SipTransport = SIP_TRANSPORT_UNSPECIFIED | SIP_TRANSPORT_UDP | SIP_TRANSPORT_TCP
  | SIP_TRANSPORT_TLS | SIP_TRANSPORT_WSS | SIP_TRANSPORT_Other nat

record TraceSpec =
  ts_Target :: string
  ts_Protocol :: pb_Protocol
  ts_Family :: pb_AddressFamily
  ts_Port :: u32
  ts_ResolveNames :: bool
  ts_Cycles :: u32
  ts_IntervalMs :: u32
  ts_FirstTtl :: u32
  ts_MaxTtl :: u32
  ts_PacketSize :: u32
  ts_Dscp :: u32
  ts_Source :: string
  ts_Mode :: pb_TraceMode
  ts_ProbeTimeoutMs :: u32

record SipOptionsSpec =
  so_Target :: string
  so_Port :: u32
  so_Transport :: pb_SipTransport
  so_Family :: pb_AddressFamily
  so_Cycles :: u32
  so_IntervalMs :: u32
  so_TimeoutMs :: u32
  so_Source :: string
  so_UserAgent :: string

record DnsSpec =
  ds_Name :: string
  ds_TimeoutMs :: u32

datatype job_spec = NoSpec | TraceJob TraceSpec | SipJob SipOptionsSpec | DnsJob DnsSpec

record StartJob =
  sj_JobId :: string
  sj_Spec :: job_spec

record pb_Monitor =
  mo_Id :: string
  mo_IntervalS :: u32
  mo_Labels :: "(string \<times> string) list"
  mo_Spec :: job_spec

record Assignment =
  as_Version :: u64
  as_Monitors :: "pb_Monitor list"

record JobStarted =
  js_Target :: string
  js_Resolved :: string
  js_Source :: string
  js_Protocol :: pb_Protocol
  js_Family :: pb_AddressFamily
  js_Transport :: string
  js_Nameservers :: "string list"

record pb_HopAddress =
  pa_Ip :: string
  pa_Name :: string
  pa_Count :: u32

record pb_Hop =
  ph_Ttl :: u32
  ph_Addresses :: "pb_HopAddress list"
  ph_SampleUs :: "u32 option"
  ph_Sent :: u32
  ph_Received :: u32
  ph_LossPct :: real
  ph_LastUs :: u32
  ph_BestUs :: u32
  ph_AvgUs :: u32
  ph_WorstUs :: u32
  ph_StdevUs :: u32
  ph_JitterUs :: u32

record pb_Cycle =
  pc_Number :: u32
  pc_ReachedAt :: u32
  pc_Hops :: "pb_Hop list"

record SipResult =
  sr_Cycle :: u32
  sr_StatusCode :: u32
  sr_Reason :: string
  sr_RttUs :: "u32 option"
  sr_Responded :: bool
  sr_Request :: string
  sr_Response :: string
  sr_Tls :: bool
  sr_TlsValid :: bool
  sr_TlsError :: string

record pb_DnsRecord =
  pr_Value :: string
  pr_Priority :: u32
  pr_Weight :: u32
  pr_Port :: u32
  pr_Ttl :: u32
  pr_Addresses :: "string list"
  pr_AddressStatus :: string

record pb_DnsResult =
  pd_Type :: string
  pd_Name :: string
  pd_Records :: "pb_DnsRecord list"
  pd_Error :: string
  pd_RttUs :: u32
  pd_Status :: string
  pd_Server :: string

datatype finish_reason = REASON_UNSPECIFIED | REASON_COMPLETED | REASON_CANCELLED

datatype error_code = CODE_UNSPECIFIED | CODE_RESOLVE | CODE_POLICY | CODE_LIMIT | CODE_ENGINE

datatype job_event =
    NoEvent
  | EvStarted JobStarted
  | EvCycle pb_Cycle
  | EvFinished u32 finish_reason
  | EvError error_code string
  | EvSipResult SipResult
  | EvDnsResult pb_DnsResult

record JobEvent =
  je_JobId :: string
  je_Seq :: u64
  je_Time :: "instant option"
  je_Event :: job_event

definition is_terminal :: "job_event \<Rightarrow> bool" where
  "is_terminal e = (case e of EvFinished _ _ \<Rightarrow> True | EvError _ _ \<Rightarrow> True | _ \<Rightarrow> False)"

record Hello =
  he_Site :: string
  he_Version :: string
  he_Commit :: string
  he_Hostname :: string
  he_StartedAt :: "instant option"
  he_IPv4 :: bool
  he_IPv6 :: bool
  he_Sources :: "string list"
  he_MaxConcurrentJobs :: u32
  he_MaxCycles :: u32
  he_MinIntervalMs :: u32
  he_MaxTtl :: u32

datatype BackendMessage =
    Welcome string
  | Start StartJob
  | CancelMsg string
  | AssignmentMsg Assignment
  | PingMsg u64

datatype AgentMessage =
    HelloMsg Hello
  | Heartbeat u32
  | EventMsg JobEvent
  | PongMsg u64

text \<open>The prefix of the job ids of self-scheduled monitors, the same string on both sides.\<close>

definition monitorJobPrefix :: string where "monitorJobPrefix = ''mon:''"

definition monitorJobID :: "string \<Rightarrow> string" where "monitorJobID i = monitorJobPrefix @ i"

definition isMonitorJob :: "string \<Rightarrow> bool" where "isMonitorJob j = has_prefix j monitorJobPrefix"

definition monitorIDOf :: "string \<Rightarrow> string" where "monitorIDOf j = trim_prefix j monitorJobPrefix"

lemma monitor_job_roundtrip [simp]:
  "isMonitorJob (monitorJobID i)" "monitorIDOf (monitorJobID i) = i"
  by (simp_all add: isMonitorJob_def monitorIDOf_def monitorJobID_def)

end
