(* ===== verification/Sip_Engine.thy ===== *)
theory Sip_Engine
  imports Netip Go_Strings
begin

text \<open>
  \<^verbatim>\<open>internal/sip/sip.go\<close>: the SIP OPTIONS engine. The SIP library and the certificate
  verification of the standard library are the environment of a run: what \<^verbatim>\<open>NewUA\<close> and
  \<^verbatim>\<open>NewClient\<close> return, the answer to the request of each cycle, the TLS handshake made in a
  cycle, the wait after a cycle ending with the context instead of the ticker.
\<close>

section \<open>Transports\<close>

type_synonym Transport = u8

definition sip_UDP :: Transport where "sip_UDP = 1"
definition sip_TCP :: Transport where "sip_TCP = 2"
definition sip_TLS :: Transport where "sip_TLS = 3"
definition sip_WSS :: Transport where "sip_WSS = 4"

lemmas transport_defs = sip_UDP_def sip_TCP_def sip_TLS_def sip_WSS_def

definition Transport_String :: "Transport \<Rightarrow> string" where
  "Transport_String t =
    (if t = sip_UDP then ''udp'' else if t = sip_TCP then ''tcp''
     else if t = sip_TLS then ''tls'' else if t = sip_WSS then ''wss'' else ''unknown'')"

definition Transport_name :: "Transport \<Rightarrow> string" where
  "Transport_name t =
    (if t = sip_UDP then ''UDP'' else if t = sip_TCP then ''TCP''
     else if t = sip_TLS then ''TLS'' else if t = sip_WSS then ''WSS'' else ''UDP'')"

definition tlsBased :: "Transport \<Rightarrow> bool" where
  "tlsBased t = (t = sip_TLS \<or> t = sip_WSS)"

definition defaultPort :: "Transport \<Rightarrow> u16" where
  "defaultPort t = (if t = sip_TLS then 5061 else if t = sip_WSS then 443 else 5060)"

section \<open>The specification\<close>

record sip_Spec =
  ss_Target :: addr
  ss_Port :: u16
  ss_Transport :: Transport
  ss_Cycles :: int
  ss_Interval :: duration
  ss_Timeout :: duration
  ss_Source :: addr
  ss_UserAgent :: string

datatype sip_error = SipTargetRequired | SipUnknownTransport Transport | SipLibrary string

definition sip_normalize :: "sip_Spec \<Rightarrow> sip_error + sip_Spec" where
  "sip_normalize s =
    (if \<not> IsValid (ss_Target s) then Inl SipTargetRequired
     else
       let s = s\<lparr>ss_Target := Unmap (ss_Target s)\<rparr>
       in if ss_Transport s \<notin> {0, sip_UDP, sip_TCP, sip_TLS, sip_WSS}
          then Inl (SipUnknownTransport (ss_Transport s))
          else
            let transport = (if ss_Transport s = 0 then sip_UDP else ss_Transport s);
                port = (if ss_Port s = 0 then defaultPort transport else ss_Port s)
            in Inr (s\<lparr>ss_Transport := transport, ss_Port := port,
                 ss_Interval := (if ss_Interval s \<le> 0 then Second else ss_Interval s),
                 ss_Timeout := (if ss_Timeout s \<le> 0 then 5 * Second else ss_Timeout s),
                 ss_UserAgent := (if ss_UserAgent s = [] then ''prober'' else ss_UserAgent s)\<rparr>))"

definition sip_wf :: "sip_Spec \<Rightarrow> bool" where
  "sip_wf s = (IsValid (ss_Target s) \<and> \<not> Is4In6 (ss_Target s) \<and>
    ss_Transport s \<in> {sip_UDP, sip_TCP, sip_TLS, sip_WSS} \<and> ss_Port s \<noteq> 0 \<and>
    0 < ss_Interval s \<and> 0 < ss_Timeout s \<and> ss_UserAgent s \<noteq> [])"

section \<open>Events\<close>

record sip_Result =
  rs_Cycle :: int
  rs_StatusCode :: int
  rs_Reason :: string
  rs_RTT :: duration
  rs_Responded :: bool
  rs_Request :: string
  rs_Response :: string
  rs_TLS :: bool
  rs_TLSValid :: bool
  rs_TLSError :: string

datatype sip_Event =
    SipStarted sip_Spec
  | SipResultDone sip_Result
  | SipFinished bool
  | SipFailed sip_error

section \<open>The environment of a run\<close>

text \<open>
  \<open>Verify\<close> is \<^verbatim>\<open>Certificate.Verify\<close>: the leaf, the server name to check if any, the
  intermediates; \<open>None\<close> for a chain that verifies, else the error text.
\<close>

record 'c sip_env =
  se_NewUA :: "string option"
  se_NewClient :: "string option"
  se_Do :: "nat \<Rightarrow> (int \<times> string \<times> string) option"
  se_rtt :: "nat \<Rightarrow> duration"
  se_request :: "nat \<Rightarrow> string"
  se_handshake :: "nat \<Rightarrow> 'c list option"
  se_Verify :: "'c \<Rightarrow> string option \<Rightarrow> 'c list \<Rightarrow> string option"
  se_Done :: "nat \<Rightarrow> bool"

definition verifyChain :: "('c \<Rightarrow> string option \<Rightarrow> 'c list \<Rightarrow> string option) \<Rightarrow> 'c list \<Rightarrow> string \<Rightarrow> bool \<times> string" where
  "verifyChain Verify PeerCertificates serverName =
    (case PeerCertificates of
       [] \<Rightarrow> (False, ''server presented no certificate'')
     | leaf # rest \<Rightarrow>
         (case Verify leaf (Some serverName) rest of
            Some err \<Rightarrow>
              (case Verify leaf None rest of
                 Some err2 \<Rightarrow> (False, err2)
               | None \<Rightarrow> (False, err))
          | None \<Rightarrow> (True, [])))"

section \<open>The run\<close>

text \<open>\<^verbatim>\<open>tlsChecked\<close>, \<^verbatim>\<open>tlsValid\<close> and \<^verbatim>\<open>tlsErr\<close>, written by the callback of a handshake.\<close>

type_synonym tls_state = "bool \<times> bool \<times> string"

definition VerifyConnection :: "'c sip_env \<Rightarrow> string \<Rightarrow> nat \<Rightarrow> tls_state \<Rightarrow> tls_state" where
  "VerifyConnection E serverName n st =
    (case se_handshake E n of
       None \<Rightarrow> st
     | Some certs \<Rightarrow> let (valid, why) = verifyChain (se_Verify E) certs serverName in (True, valid, why))"

definition probeOnce :: "'c sip_env \<Rightarrow> nat \<Rightarrow> sip_Result" where
  "probeOnce E n =
    (let out = \<lparr>rs_Cycle = 0, rs_StatusCode = 0, rs_Reason = [], rs_RTT = se_rtt E n, rs_Responded = False,
                rs_Request = se_request E n, rs_Response = [], rs_TLS = False, rs_TLSValid = False,
                rs_TLSError = []\<rparr>
     in case se_Do E n of
          None \<Rightarrow> out
        | Some (code, reason, txt) \<Rightarrow>
            out\<lparr>rs_Responded := True, rs_StatusCode := code, rs_Reason := reason, rs_Response := txt\<rparr>)"

text \<open>One turn of the loop: the result emitted and the TLS state after it.\<close>

definition probe_cycle :: "'c sip_env \<Rightarrow> (addr \<Rightarrow> string) \<Rightarrow> sip_Spec \<Rightarrow> nat \<Rightarrow> tls_state \<Rightarrow> sip_Result \<times> tls_state" where
  "probe_cycle E addr_str spec n st =
    (let st = (if tlsBased (ss_Transport spec)
               then VerifyConnection E (addr_str (ss_Target spec)) n st else st);
         res = (probeOnce E n)\<lparr>rs_Cycle := int n\<rparr>;
         (tlsChecked, tlsValid, tlsErr) = st;
         res = (if tlsBased (ss_Transport spec) then
                  let res = res\<lparr>rs_TLS := True\<rparr>
                  in if tlsChecked then res\<lparr>rs_TLSValid := tlsValid, rs_TLSError := tlsErr\<rparr> else res
                else res)
     in (res, st))"

partial_function (option) sip_loop ::
  "'c sip_env \<Rightarrow> (addr \<Rightarrow> string) \<Rightarrow> sip_Spec \<Rightarrow> nat \<Rightarrow> tls_state \<Rightarrow> sip_Event list \<Rightarrow> (sip_Event list \<times> bool) option"
where
  "sip_loop E addr_str spec n st evs =
    (if ss_Cycles spec = 0 \<or> int n \<le> ss_Cycles spec then
       (let (res, st') = probe_cycle E addr_str spec n st;
            evs' = evs @ [SipResultDone res]
        in if ss_Cycles spec \<noteq> 0 \<and> int n \<ge> ss_Cycles spec then Some (evs', False)
           else if se_Done E n then Some (evs', True)
           else sip_loop E addr_str spec (Suc n) st' evs')
     else Some (evs, False))"

text \<open>The events of a run and the error it returns; \<open>None\<close> for a run that never ends.\<close>

definition sip_Run :: "'c sip_env \<Rightarrow> (addr \<Rightarrow> string) \<Rightarrow> sip_Spec \<Rightarrow> (sip_Event list \<times> sip_error option) option" where
  "sip_Run E addr_str spec =
    (case sip_normalize spec of
       Inl e \<Rightarrow> Some ([], Some e)
     | Inr spec \<Rightarrow>
         (case se_NewUA E of
            Some e \<Rightarrow> Some ([SipFailed (SipLibrary e)], Some (SipLibrary e))
          | None \<Rightarrow>
              (case se_NewClient E of
                 Some e \<Rightarrow> Some ([SipFailed (SipLibrary e)], Some (SipLibrary e))
               | None \<Rightarrow>
                   (case sip_loop E addr_str spec 1 (False, False, []) [SipStarted spec] of
                      None \<Rightarrow> None
                    | Some (evs, cancelled) \<Rightarrow> Some (evs @ [SipFinished cancelled], None)))))"

text \<open>What goes on the wire: the request URI and the address dialled.\<close>

definition recipientURI :: "(addr \<Rightarrow> string) \<Rightarrow> sip_Spec \<Rightarrow> string \<times> string \<times> int \<times> (string \<times> string) list" where
  "recipientURI addr_str spec =
    (if tlsBased (ss_Transport spec) then ''sips'' else ''sip'', addr_str (ss_Target spec),
     uint (ss_Port spec), [(''transport'', Transport_String (ss_Transport spec))])"

definition destination :: "(addr \<Rightarrow> string) \<Rightarrow> addr \<Rightarrow> u16 \<Rightarrow> string" where
  "destination addr_str a port = JoinHostPort (addr_str a) (itoa (unat port))"

section \<open>Lemmas\<close>

lemma sip_normalize_wf:
  assumes "sip_normalize s = Inr t"
  shows "sip_wf t"
proof -
  have v: "IsValid (ss_Target s)" and tr: "ss_Transport s \<in> {0, sip_UDP, sip_TCP, sip_TLS, sip_WSS}"
    using assms by (simp_all add: sip_normalize_def Let_def split: if_split_asm)
  have t: "ss_Target t = Unmap (ss_Target s)"
    "ss_Transport t = (if ss_Transport s = 0 then sip_UDP else ss_Transport s)"
    "ss_Port t = (if ss_Port s = 0 then defaultPort (ss_Transport t) else ss_Port s)"
    "ss_Interval t = (if ss_Interval s \<le> 0 then Second else ss_Interval s)"
    "ss_Timeout t = (if ss_Timeout s \<le> 0 then 5 * Second else ss_Timeout s)"
    "ss_UserAgent t = (if ss_UserAgent s = [] then ''prober'' else ss_UserAgent s)"
    using assms v tr unfolding sip_normalize_def Let_def by auto
  have "ss_Transport t \<in> {sip_UDP, sip_TCP, sip_TLS, sip_WSS}" using tr t(2) by auto
  moreover have "defaultPort x \<noteq> 0" for x by (simp add: defaultPort_def)
  ultimately show ?thesis unfolding sip_wf_def using v t by simp
qed

lemma sip_wf_fixed: "sip_wf s \<Longrightarrow> sip_normalize s = Inr s"
  by (auto simp: sip_normalize_def sip_wf_def Let_def transport_defs Unmap_id)

lemma sip_normalize_Cycles: "sip_normalize s = Inr t \<Longrightarrow> ss_Cycles t = ss_Cycles s"
  by (auto simp: sip_normalize_def Let_def split: if_splits)

text \<open>The TLS state after cycle \<open>n\<close>, and the result of cycle \<open>n\<close>.\<close>

primrec tls_at :: "'c sip_env \<Rightarrow> (addr \<Rightarrow> string) \<Rightarrow> sip_Spec \<Rightarrow> nat \<Rightarrow> tls_state" where
  "tls_at E addr_str spec 0 = (False, False, [])"
| "tls_at E addr_str spec (Suc n) = snd (probe_cycle E addr_str spec (Suc n) (tls_at E addr_str spec n))"

definition result_at :: "'c sip_env \<Rightarrow> (addr \<Rightarrow> string) \<Rightarrow> sip_Spec \<Rightarrow> nat \<Rightarrow> sip_Result" where
  "result_at E addr_str spec n = fst (probe_cycle E addr_str spec n (tls_at E addr_str spec (n - 1)))"

definition last_cycle :: "sip_Spec \<Rightarrow> nat \<Rightarrow> bool" where
  "last_cycle spec n = (ss_Cycles spec \<noteq> 0 \<and> int n \<ge> ss_Cycles spec)"

definition stops_at :: "'c sip_env \<Rightarrow> sip_Spec \<Rightarrow> nat \<Rightarrow> bool" where
  "stops_at E spec n = (last_cycle spec n \<or> se_Done E n)"

lemma sip_loop_stops:
  assumes "ss_Cycles spec = 0 \<or> int (Suc m) \<le> ss_Cycles spec"
    and "\<And>i. m < i \<Longrightarrow> i < Suc m + d \<Longrightarrow> \<not> stops_at E spec i" and "stops_at E spec (Suc m + d)"
  shows "sip_loop E addr_str spec (Suc m) (tls_at E addr_str spec m) evs =
    Some (evs @ map (\<lambda>i. SipResultDone (result_at E addr_str spec i)) [Suc m..<Suc (Suc m + d)],
          \<not> last_cycle spec (Suc m + d))"
  using assms
proof (induction d arbitrary: m evs)
  case 0
  then show ?case
    by (subst sip_loop.simps)
      (auto simp: stops_at_def last_cycle_def result_at_def Let_def split_beta)
next
  case (Suc d)
  have go: "\<not> stops_at E spec (Suc m)" using Suc.prems(2) [of "Suc m"] by simp
  have "sip_loop E addr_str spec (Suc (Suc m)) (tls_at E addr_str spec (Suc m))
      (evs @ [SipResultDone (result_at E addr_str spec (Suc m))]) =
    Some ((evs @ [SipResultDone (result_at E addr_str spec (Suc m))]) @
        map (\<lambda>i. SipResultDone (result_at E addr_str spec i)) [Suc (Suc m)..<Suc (Suc (Suc m) + d)],
      \<not> last_cycle spec (Suc (Suc m) + d))"
    using go Suc.prems by (intro Suc.IH) (auto simp: stops_at_def last_cycle_def)
  moreover have "[Suc m..<Suc (Suc m + Suc d)] = Suc m # [Suc (Suc m)..<Suc (Suc (Suc m) + d)]"
    by (simp add: upt_conv_Cons del: upt_Suc)
  moreover have "sip_loop E addr_str spec (Suc m) (tls_at E addr_str spec m) evs =
      sip_loop E addr_str spec (Suc (Suc m)) (tls_at E addr_str spec (Suc m))
        (evs @ [SipResultDone (result_at E addr_str spec (Suc m))])"
    using go Suc.prems(1)
    by (subst sip_loop.simps) (auto simp: stops_at_def last_cycle_def result_at_def Let_def split_beta)
  ultimately show ?case by (simp del: upt_Suc tls_at.simps)
qed

lemma sip_loop_ended:
  assumes "sip_loop E addr_str spec n st evs = Some r"
  shows "ss_Cycles spec = 0 \<longrightarrow> (\<exists>k \<ge> n. se_Done E k)"
proof (rule sip_loop.raw_induct [OF _ assms])
  fix loop E addr_str spec n st evs r
  assume IH: "\<And>E addr_str spec n st evs r. loop E addr_str spec n st evs = Some r \<Longrightarrow>
      ss_Cycles spec = 0 \<longrightarrow> (\<exists>k \<ge> n. se_Done E k)"
    and body: "(if ss_Cycles spec = 0 \<or> int n \<le> ss_Cycles spec then
       (let (res, st') = probe_cycle E addr_str spec n st; evs' = evs @ [SipResultDone res]
        in if ss_Cycles spec \<noteq> 0 \<and> int n \<ge> ss_Cycles spec then Some (evs', False)
           else if se_Done E n then Some (evs', True)
           else loop E addr_str spec (Suc n) st' evs')
     else Some (evs, False)) = Some r"
  show "ss_Cycles spec = 0 \<longrightarrow> (\<exists>k \<ge> n. se_Done E k)"
  proof
    assume zero: "ss_Cycles spec = 0"
    show "\<exists>k \<ge> n. se_Done E k"
    proof (cases "se_Done E n")
      case False
      with body zero have "loop E addr_str spec (Suc n) (snd (probe_cycle E addr_str spec n st))
          (evs @ [SipResultDone (fst (probe_cycle E addr_str spec n st))]) = Some r"
        by (simp add: Let_def split_beta)
      from IH [OF this] zero show ?thesis by (meson Suc_leD)
    qed auto
  qed
qed

text \<open>The first cycle at which the loop stops.\<close>

lemma first_stop:
  assumes "1 \<le> k" and "stops_at E spec k"
  shows "\<exists>d. stops_at E spec (Suc d) \<and> (\<forall>i. 0 < i \<longrightarrow> i < Suc d \<longrightarrow> \<not> stops_at E spec i)"
proof -
  define n where "n = (LEAST n. 0 < n \<and> stops_at E spec n)"
  have n: "0 < n \<and> stops_at E spec n"
    unfolding n_def by (rule LeastI [of _ k]) (use assms in simp)
  moreover have "i < n \<Longrightarrow> \<not> (0 < i \<and> stops_at E spec i)" for i
    unfolding n_def by (rule not_less_Least)
  ultimately show ?thesis by (metis Suc_pred)
qed

text \<open>A certificate is reported as valid only when it verified with the name.\<close>

lemma verifyChain_valid:
  "verifyChain Verify certs serverName = (True, why) \<longleftrightarrow>
    (\<exists>leaf rest. certs = leaf # rest \<and> Verify leaf (Some serverName) rest = None) \<and> why = []"
  by (auto simp: verifyChain_def split: list.splits option.splits)

text \<open>A chain that is trusted but was issued for another name is reported as invalid, with the name error.\<close>

lemma verifyChain_other_name:
  "Verify leaf (Some serverName) rest = Some err \<Longrightarrow> Verify leaf None rest = None \<Longrightarrow>
    verifyChain Verify (leaf # rest) serverName = (False, err)"
  by (simp add: verifyChain_def)

lemma tls_at_handshake:
  "tls_at E addr_str spec n = (True, valid, why) \<Longrightarrow>
    tlsBased (ss_Transport spec) \<and> (\<exists>j certs. 1 \<le> j \<and> j \<le> n \<and> se_handshake E j = Some certs \<and>
      verifyChain (se_Verify E) certs (addr_str (ss_Target spec)) = (valid, why))"
proof (induction n)
  case 0
  then show ?case by simp
next
  case (Suc n)
  show ?case
  proof (cases "tlsBased (ss_Transport spec) \<and> se_handshake E (Suc n) \<noteq> None")
    case True
    with Suc.prems show ?thesis
      by (auto simp: probe_cycle_def VerifyConnection_def Let_def split_beta intro!: exI [of _ "Suc n"])
  next
    case False
    with Suc.prems have "tls_at E addr_str spec n = (True, valid, why)"
      by (auto simp: probe_cycle_def VerifyConnection_def Let_def split_beta split: if_splits)
    with Suc.IH show ?thesis by (meson le_Suc_eq)
  qed
qed

lemma result_at_tls:
  assumes "0 < n"
  shows "rs_TLS (result_at E addr_str spec n) = tlsBased (ss_Transport spec)"
    and "rs_TLSValid (result_at E addr_str spec n) \<Longrightarrow> \<exists>why. tls_at E addr_str spec n = (True, True, why)"
proof -
  obtain m where n: "n = Suc m" using assms by (cases n) auto
  show "rs_TLS (result_at E addr_str spec n) = tlsBased (ss_Transport spec)"
    by (simp add: n result_at_def probe_cycle_def probeOnce_def Let_def split_beta split: option.splits)
  show "\<exists>why. tls_at E addr_str spec n = (True, True, why)" if "rs_TLSValid (result_at E addr_str spec n)"
    using that
    by (auto simp: n result_at_def probe_cycle_def probeOnce_def Let_def prod_eq_iff split_beta
        split: option.splits if_splits)
qed

lemma result_at_answer:
  "rs_Cycle (result_at E addr_str spec n) = int n \<and>
   rs_RTT (result_at E addr_str spec n) = se_rtt E n \<and>
   (rs_Responded (result_at E addr_str spec n), rs_StatusCode (result_at E addr_str spec n),
    rs_Reason (result_at E addr_str spec n), rs_Response (result_at E addr_str spec n)) =
   (case se_Do E n of None \<Rightarrow> (False, 0, [], []) | Some (code, reason, txt) \<Rightarrow> (True, code, reason, txt))"
  by (simp add: result_at_def probe_cycle_def probeOnce_def Let_def split_beta split: option.splits)

definition sip_events :: "'c sip_env \<Rightarrow> (addr \<Rightarrow> string) \<Rightarrow> sip_Spec \<Rightarrow> nat \<Rightarrow> bool \<Rightarrow> sip_Event list" where
  "sip_events E addr_str spec k cancelled =
    SipStarted spec # map (\<lambda>i. SipResultDone (result_at E addr_str spec i)) [1..<Suc k] @ [SipFinished cancelled]"

lemma sip_Run_stops:
  assumes "sip_normalize spec = Inr t" and "se_NewUA E = None" and "se_NewClient E = None"
    and "0 \<le> ss_Cycles t" and "1 \<le> k" and "stops_at E t k"
  shows "\<exists>d. stops_at E t (Suc d) \<and> (\<forall>i. 0 < i \<longrightarrow> i < Suc d \<longrightarrow> \<not> stops_at E t i) \<and>
    sip_Run E addr_str spec = Some (sip_events E addr_str t (Suc d) (\<not> last_cycle t (Suc d)), None)"
proof -
  obtain d where d: "stops_at E t (Suc d)" "\<forall>i. 0 < i \<longrightarrow> i < Suc d \<longrightarrow> \<not> stops_at E t i"
    using first_stop [OF assms(5,6)] by blast
  have "sip_loop E addr_str t (Suc 0) (tls_at E addr_str t 0) [SipStarted t] =
    Some ([SipStarted t] @ map (\<lambda>i. SipResultDone (result_at E addr_str t i)) [Suc 0..<Suc (Suc 0 + d)],
          \<not> last_cycle t (Suc 0 + d))"
    using d assms(4) by (intro sip_loop_stops) auto
  with assms(1-3) d show ?thesis
    by (intro exI [of _ d]) (simp add: sip_Run_def sip_events_def del: upt_Suc)
qed

section \<open>Theorems\<close>

text \<open>(C32) A SIP run of a given number of cycles ends: it reports the start, the results of cycles 1, 2, ... up to
  the last one in order, and one final event, which says cancelled exactly when the context ended the wait
  between two cycles. A result is an answer exactly when the library returned one; it says that the
  certificate is valid only when a handshake of the run verified it with the target's name.\<close>

theorem sip_run_reports:
  assumes "sip_normalize spec = Inr t" and "se_NewUA E = None" and "se_NewClient E = None"
    and "0 < ss_Cycles spec"
  shows "\<exists>k. 1 \<le> k \<and> int k \<le> ss_Cycles spec \<and> (int k < ss_Cycles spec \<longrightarrow> se_Done E k) \<and>
    sip_Run E addr_str spec = Some (sip_events E addr_str t k (int k < ss_Cycles spec), None) \<and>
    (\<forall>i \<in> {1..k}. (rs_Responded (result_at E addr_str t i) \<longleftrightarrow> se_Do E i \<noteq> None) \<and>
       (rs_TLSValid (result_at E addr_str t i) \<longrightarrow>
         (\<exists>j leaf rest. 1 \<le> j \<and> j \<le> i \<and> se_handshake E j = Some (leaf # rest) \<and>
            se_Verify E leaf (Some (addr_str (ss_Target t))) rest = None)))"
proof -
  have cycles: "ss_Cycles t = ss_Cycles spec" using assms(1) by (rule sip_normalize_Cycles)
  have pos: "0 \<le> ss_Cycles t" "1 \<le> nat (ss_Cycles t)" using assms(4) cycles by auto
  have "stops_at E t (nat (ss_Cycles t))" using assms(4) cycles by (simp add: stops_at_def last_cycle_def)
  from sip_Run_stops [OF assms(1-3) pos this] obtain d where d: "stops_at E t (Suc d)" "\<forall>i. 0 < i \<longrightarrow> i < Suc d \<longrightarrow> \<not> stops_at E t i"
    and run: "sip_Run E addr_str spec = Some (sip_events E addr_str t (Suc d) (\<not> last_cycle t (Suc d)), None)"
    by blast
  have le: "int (Suc d) \<le> ss_Cycles spec"
  proof (rule ccontr)
    assume "\<not> int (Suc d) \<le> ss_Cycles spec"
    then have "0 < d" "last_cycle t d" using assms(4) cycles by (simp_all add: last_cycle_def)
    with d(2) show False by (simp add: stops_at_def)
  qed
  have last: "last_cycle t (Suc d) \<longleftrightarrow> \<not> int (Suc d) < ss_Cycles spec"
    using assms(4) cycles by (auto simp: last_cycle_def)
  have valid: "\<exists>j leaf rest. 1 \<le> j \<and> j \<le> i \<and> se_handshake E j = Some (leaf # rest) \<and>
      se_Verify E leaf (Some (addr_str (ss_Target t))) rest = None"
    if "i \<in> {1..Suc d}" "rs_TLSValid (result_at E addr_str t i)" for i
    using result_at_tls(2) [of i E addr_str t] tls_at_handshake [of E addr_str t i] that
    by (fastforce simp: verifyChain_valid)
  have "rs_Responded (result_at E addr_str t i) \<longleftrightarrow> se_Do E i \<noteq> None" for i
    using result_at_answer [of E addr_str t i] by (auto split: option.splits)
  moreover have "(\<not> last_cycle t (Suc d)) = (int (Suc d) < ss_Cycles spec)" using last by simp
  ultimately show ?thesis
    using d(1) le run valid unfolding stops_at_def
    by (intro exI [where x = "Suc d" and P = "\<lambda>k. 1 \<le> k \<and> _ k"] conjI ballI impI) simp_all
qed

text \<open>A SIP run without a number of cycles ends exactly when its context is cancelled between two cycles.\<close>

theorem sip_run_until_cancelled:
  assumes "sip_normalize spec = Inr t" and "se_NewUA E = None" and "se_NewClient E = None"
    and "ss_Cycles spec = 0"
  shows "(\<exists>r. sip_Run E addr_str spec = Some r) \<longleftrightarrow> (\<exists>n \<ge> 1. se_Done E n)"
proof
  have cycles: "ss_Cycles t = 0" using assms(1,4) sip_normalize_Cycles by metis
  show "\<exists>n \<ge> 1. se_Done E n" if "\<exists>r. sip_Run E addr_str spec = Some r"
    using that assms(1-3) cycles sip_loop_ended [of E addr_str t 1 "(False, False, [])" "[SipStarted t]"]
    by (auto simp: sip_Run_def split: option.splits)
  show "\<exists>r. sip_Run E addr_str spec = Some r" if "\<exists>n \<ge> 1. se_Done E n"
  proof -
    from that obtain n where "1 \<le> n" "stops_at E t n" by (auto simp: stops_at_def)
    from sip_Run_stops [OF assms(1-3) _ this, of addr_str] cycles show ?thesis by auto
  qed
qed

section \<open>Witnesses\<close>

definition demo_sip_env :: "nat sip_env" where
  "demo_sip_env = \<lparr>se_NewUA = None, se_NewClient = None,
    se_Do = (\<lambda>n. if n = 1 then Some (200, ''OK'', ''SIP/2.0 200 OK'') else None), se_rtt = (\<lambda>_. 5 * Millisecond),
    se_request = (\<lambda>_. ''OPTIONS''), se_handshake = (\<lambda>n. if n = 1 then Some [7] else None),
    se_Verify = (\<lambda>c n ics. None), se_Done = (\<lambda>n. n = 3)\<rparr>"

definition demo_sip_spec :: sip_Spec where
  "demo_sip_spec = \<lparr>ss_Target = V4 0x7f000001, ss_Port = 5061, ss_Transport = sip_TLS, ss_Cycles = 2,
    ss_Interval = Second, ss_Timeout = Second, ss_Source = NoAddr, ss_UserAgent = ''p''\<rparr>"

lemma demo_sip_normal:
  "sip_normalize demo_sip_spec = Inr demo_sip_spec"
  "sip_normalize (demo_sip_spec\<lparr>ss_Cycles := 0\<rparr>) = Inr (demo_sip_spec\<lparr>ss_Cycles := 0\<rparr>)"
  by (rule sip_wf_fixed; simp add: sip_wf_def demo_sip_spec_def transport_defs addr_defs)+

theorem sip_run_reports_witness:
  "\<exists>k. 1 \<le> k \<and> int k \<le> 2 \<and>
    sip_Run demo_sip_env (\<lambda>_. ''127.0.0.1'') demo_sip_spec =
      Some (sip_events demo_sip_env (\<lambda>_. ''127.0.0.1'') demo_sip_spec k (int k < 2), None)"
  using sip_run_reports [OF demo_sip_normal(1), of demo_sip_env "\<lambda>_. ''127.0.0.1''"]
  by (auto simp: demo_sip_env_def demo_sip_spec_def)

theorem sip_run_until_cancelled_witness:
  "\<exists>r. sip_Run demo_sip_env (\<lambda>_. ''127.0.0.1'') (demo_sip_spec\<lparr>ss_Cycles := 0\<rparr>) = Some r"
  using sip_run_until_cancelled [OF demo_sip_normal(2), of demo_sip_env "\<lambda>_. ''127.0.0.1''"]
  by (auto simp: demo_sip_env_def)

end
