(* ===== verification/Agent_Convert.thy ===== *)
theory Agent_Convert
  imports Proto Trace_Session Sip_Engine Dns_Client
begin

text \<open>
  \<^verbatim>\<open>internal/agent/convert.go\<close>, \<^verbatim>\<open>sipconvert.go\<close> and \<^verbatim>\<open>dnsconvert.go\<close>: from the messages of the stream to the engines' specifications
  and from the engines' events to messages. \<open>ParseAddr\<close> and \<open>addr_str\<close> stand for
  \<^verbatim>\<open>netip.ParseAddr\<close> and \<^verbatim>\<open>Addr.String\<close>. Go's conversions between integer types keep the
  low bits, which is \<^verbatim>\<open>word_of_int\<close>.
\<close>

section \<open>Specifications\<close>

definition specFromProto :: "(string \<Rightarrow> addr option) \<Rightarrow> TraceSpec \<Rightarrow> addr \<Rightarrow> Spec" where
  "specFromProto ParseAddr t resolved =
    \<lparr>sp_Target = resolved,
     sp_Protocol = (case ts_Protocol t of
         PROTOCOL_UDP \<Rightarrow> UDP
       | PROTOCOL_TCP \<Rightarrow> TCP
       | _ \<Rightarrow> ICMP),
     sp_Mode = (if ts_Mode t = TRACE_MODE_PING then Ping else 0),
     sp_Port = ucast (ts_Port t),
     sp_ResolveNames = ts_ResolveNames t,
     sp_Cycles = uint (ts_Cycles t),
     sp_Interval = (if ts_IntervalMs t > 0 then uint (ts_IntervalMs t) * Millisecond else 0),
     sp_FirstTTL = uint (ts_FirstTtl t),
     sp_MaxTTL = uint (ts_MaxTtl t),
     sp_PacketSize = uint (ts_PacketSize t),
     sp_DSCP = uint (ts_Dscp t),
     sp_Source = (if ts_Source t \<noteq> [] then
         (case ParseAddr (ts_Source t) of Some a \<Rightarrow> a | None \<Rightarrow> NoAddr) else NoAddr),
     sp_ProbeTimeout = (if ts_ProbeTimeoutMs t > 0 then uint (ts_ProbeTimeoutMs t) * Millisecond else 0)\<rparr>"

definition sipSpecFromProto :: "(string \<Rightarrow> addr option) \<Rightarrow> SipOptionsSpec \<Rightarrow> addr \<Rightarrow> sip_Spec" where
  "sipSpecFromProto ParseAddr t resolved =
    \<lparr>ss_Target = resolved,
     ss_Port = ucast (so_Port t),
     ss_Transport = (case so_Transport t of
         SIP_TRANSPORT_TCP \<Rightarrow> sip_TCP
       | SIP_TRANSPORT_TLS \<Rightarrow> sip_TLS
       | SIP_TRANSPORT_WSS \<Rightarrow> sip_WSS
       | _ \<Rightarrow> sip_UDP),
     ss_Cycles = uint (so_Cycles t),
     ss_Interval = (if so_IntervalMs t > 0 then uint (so_IntervalMs t) * Millisecond else 0),
     ss_Timeout = (if so_TimeoutMs t > 0 then uint (so_TimeoutMs t) * Millisecond else 0),
     ss_Source = (if so_Source t \<noteq> [] then
         (case ParseAddr (so_Source t) of Some a \<Rightarrow> a | None \<Rightarrow> NoAddr) else NoAddr),
     ss_UserAgent = so_UserAgent t\<rparr>"

definition dnsSpecFromProto :: "DnsSpec \<Rightarrow> dns_Spec" where
  "dnsSpecFromProto t =
    \<lparr>dn_Name = ds_Name t,
     dn_Timeout = (if ds_TimeoutMs t > 0 then uint (ds_TimeoutMs t) * Millisecond else 0)\<rparr>"

section \<open>Events\<close>

text \<open>\<^verbatim>\<open>Duration.Microseconds\<close>, then the conversion to \<^verbatim>\<open>uint32\<close>.\<close>

definition us :: "duration \<Rightarrow> u32" where
  "us d = word_of_int (go_div d 1000)"

definition sourceStr :: "(addr \<Rightarrow> string) \<Rightarrow> addr \<Rightarrow> string" where
  "sourceStr addr_str a = (if IsValid a then addr_str a else [])"

definition protoToProto :: "Protocol \<Rightarrow> pb_Protocol" where
  "protoToProto p = (if p = UDP then PROTOCOL_UDP else if p = TCP then PROTOCOL_TCP else PROTOCOL_ICMP)"

definition agent_familyOf :: "addr \<Rightarrow> pb_AddressFamily" where
  "agent_familyOf a = (if Is6 a then ADDRESS_FAMILY_IPV6 else ADDRESS_FAMILY_IPV4)"

definition hopToProto :: "(addr \<Rightarrow> string) \<Rightarrow> Hop \<Rightarrow> pb_Hop" where
  "hopToProto addr_str h =
    \<lparr>ph_Ttl = word_of_int (hp_TTL h),
     ph_Addresses = map (\<lambda>a. \<lparr>pa_Ip = addr_str (ha_Addr a), pa_Name = ha_Name a,
       pa_Count = word_of_int (ha_Count a)\<rparr>) (hp_Addresses h),
     ph_SampleUs = map_option us (hp_Sample h),
     ph_Sent = word_of_int (hp_Sent h), ph_Received = word_of_int (hp_Received h),
     ph_LossPct = hp_LossPct h, ph_LastUs = us (hp_Last h), ph_BestUs = us (hp_Best h),
     ph_AvgUs = us (hp_Avg h), ph_WorstUs = us (hp_Worst h), ph_StdevUs = us (hp_Stdev h),
     ph_JitterUs = us (hp_Jitter h)\<rparr>"

definition cycleToProto :: "(addr \<Rightarrow> string) \<Rightarrow> Cycle \<Rightarrow> pb_Cycle" where
  "cycleToProto addr_str c =
    \<lparr>pc_Number = of_nat (cy_Number c), pc_ReachedAt = word_of_int (cy_ReachedAt c),
     pc_Hops = map (hopToProto addr_str) (cy_Hops c)\<rparr>"

definition eventToProto ::
  "(addr \<Rightarrow> string) \<Rightarrow> (run_error \<Rightarrow> string) \<Rightarrow> string \<Rightarrow> u64 \<Rightarrow> instant \<Rightarrow> Event \<Rightarrow> JobEvent" where
  "eventToProto addr_str err_str jobID seq now ev =
    \<lparr>je_JobId = jobID, je_Seq = seq, je_Time = Some now,
     je_Event = (case ev of
         Started spec \<Rightarrow> EvStarted
           \<lparr>js_Target = addr_str (sp_Target spec), js_Resolved = addr_str (sp_Target spec),
            js_Source = sourceStr addr_str (sp_Source spec), js_Protocol = protoToProto (sp_Protocol spec),
            js_Family = agent_familyOf (sp_Target spec), js_Transport = [], js_Nameservers = []\<rparr>
       | CycleDone c \<Rightarrow> EvCycle (cycleToProto addr_str c)
       | Finished cancelled \<Rightarrow> EvFinished 0 (if cancelled then REASON_CANCELLED else REASON_COMPLETED)
       | Failed e \<Rightarrow> EvError CODE_ENGINE (err_str e))\<rparr>"

definition sipEventToProto ::
  "(addr \<Rightarrow> string) \<Rightarrow> (sip_error \<Rightarrow> string) \<Rightarrow> string \<Rightarrow> u64 \<Rightarrow> instant \<Rightarrow> sip_Event \<Rightarrow> JobEvent" where
  "sipEventToProto addr_str err_str jobID seq now ev =
    \<lparr>je_JobId = jobID, je_Seq = seq, je_Time = Some now,
     je_Event = (case ev of
         SipStarted spec \<Rightarrow> EvStarted
           \<lparr>js_Target = addr_str (ss_Target spec), js_Resolved = addr_str (ss_Target spec),
            js_Source = sourceStr addr_str (ss_Source spec), js_Protocol = PROTOCOL_UNSPECIFIED,
            js_Family = agent_familyOf (ss_Target spec), js_Transport = Transport_String (ss_Transport spec),
            js_Nameservers = []\<rparr>
       | SipResultDone r \<Rightarrow> EvSipResult
           \<lparr>sr_Cycle = word_of_int (rs_Cycle r), sr_StatusCode = word_of_int (rs_StatusCode r),
            sr_Reason = rs_Reason r, sr_RttUs = (if rs_Responded r then Some (us (rs_RTT r)) else None),
            sr_Responded = rs_Responded r, sr_Request = rs_Request r, sr_Response = rs_Response r,
            sr_Tls = rs_TLS r, sr_TlsValid = rs_TLSValid r, sr_TlsError = rs_TLSError r\<rparr>
       | SipFinished cancelled \<Rightarrow> EvFinished 0 (if cancelled then REASON_CANCELLED else REASON_COMPLETED)
       | SipFailed e \<Rightarrow> EvError CODE_ENGINE (err_str e))\<rparr>"

definition dnsRecordToProto :: "dns_Record \<Rightarrow> pb_DnsRecord" where
  "dnsRecordToProto rec =
    \<lparr>pr_Value = rc_Value rec, pr_Priority = ucast (rc_Priority rec), pr_Weight = ucast (rc_Weight rec),
     pr_Port = ucast (rc_Port rec), pr_Ttl = rc_TTL rec, pr_Addresses = rc_Addresses rec,
     pr_AddressStatus = rc_AddressStatus rec\<rparr>"

definition dnsEventToProto ::
  "(dns_error \<Rightarrow> string) \<Rightarrow> string \<Rightarrow> u64 \<Rightarrow> instant \<Rightarrow> dns_Event \<Rightarrow> JobEvent" where
  "dnsEventToProto err_str jobID seq now ev =
    \<lparr>je_JobId = jobID, je_Seq = seq, je_Time = Some now,
     je_Event = (case ev of
         DnsStarted spec servers \<Rightarrow> EvStarted
           \<lparr>js_Target = dn_Name spec, js_Resolved = [], js_Source = [], js_Protocol = PROTOCOL_UNSPECIFIED,
            js_Family = ADDRESS_FAMILY_UNSPECIFIED, js_Transport = [], js_Nameservers = servers\<rparr>
       | DnsResultDone r \<Rightarrow> EvDnsResult
           \<lparr>pd_Type = qy_Type (dr_Query r), pd_Name = qy_Name (dr_Query r),
            pd_Records = map dnsRecordToProto (dr_Records r),
            pd_Error = (case dr_Err r of Some e \<Rightarrow> err_str e | None \<Rightarrow> []),
            pd_RttUs = us (dr_RTT r), pd_Status = dr_Status r, pd_Server = dr_Server r\<rparr>
       | DnsFinished cancelled \<Rightarrow> EvFinished 0 (if cancelled then REASON_CANCELLED else REASON_COMPLETED))\<rparr>"

section \<open>Theorems\<close>

lemma us_exact: "0 \<le> d \<Longrightarrow> d < 4294967296000 \<Longrightarrow> uint (us d) = d div 1000"
proof -
  assume d: "0 \<le> d" "d < 4294967296000"
  then have "d div 1000 < 2 ^ 32" by simp
  with d show ?thesis
    by (simp add: us_def uint_word_of_int take_bit_int_eq_self_iff)
qed

text \<open>What the agent puts on the stream is what the engine reported: for a cycle whose numbers fit
  32 bits and whose times are shorter than 71 minutes, every count of every hop arrives unchanged and every
  time truncated to microseconds, in the order of the hops.\<close>

theorem cycleToProto_lossless:
  assumes "cy_Number c < 2 ^ 32" and "0 \<le> cy_ReachedAt c" and "cy_ReachedAt c < 2 ^ 32"
    and "i < length (cy_Hops c)" and "h = cy_Hops c ! i"
    and "0 \<le> hp_TTL h" "hp_TTL h < 2 ^ 32" "0 \<le> hp_Sent h" "hp_Sent h < 2 ^ 32"
      "0 \<le> hp_Received h" "hp_Received h < 2 ^ 32"
    and times: "\<forall>d \<in> {hp_Last h, hp_Best h, hp_Avg h, hp_Worst h, hp_Stdev h, hp_Jitter h}.
      0 \<le> d \<and> d < 4294967296000"
    and "p = pc_Hops (cycleToProto addr_str c) ! i"
  shows "unat (pc_Number (cycleToProto addr_str c)) = cy_Number c \<and>
    uint (pc_ReachedAt (cycleToProto addr_str c)) = cy_ReachedAt c \<and>
    length (pc_Hops (cycleToProto addr_str c)) = length (cy_Hops c) \<and>
    uint (ph_Ttl p) = hp_TTL h \<and> uint (ph_Sent p) = hp_Sent h \<and> uint (ph_Received p) = hp_Received h \<and>
    ph_LossPct p = hp_LossPct h \<and> map pa_Ip (ph_Addresses p) = map (addr_str \<circ> ha_Addr) (hp_Addresses h) \<and>
    uint (ph_LastUs p) = hp_Last h div 1000 \<and> uint (ph_BestUs p) = hp_Best h div 1000 \<and>
    uint (ph_AvgUs p) = hp_Avg h div 1000 \<and> uint (ph_WorstUs p) = hp_Worst h div 1000 \<and>
    uint (ph_StdevUs p) = hp_Stdev h div 1000 \<and> uint (ph_JitterUs p) = hp_Jitter h div 1000"
proof -
  have p: "p = hopToProto addr_str h" using assms by (simp add: cycleToProto_def)
  have "uint (ph_Ttl p) = hp_TTL h" "uint (ph_Sent p) = hp_Sent h" "uint (ph_Received p) = hp_Received h"
    using assms(6-11) by (simp_all add: p hopToProto_def uint_word_of_int take_bit_int_eq_self_iff)
  moreover have "uint (ph_LastUs p) = hp_Last h div 1000" "uint (ph_BestUs p) = hp_Best h div 1000"
    "uint (ph_AvgUs p) = hp_Avg h div 1000" "uint (ph_WorstUs p) = hp_Worst h div 1000"
    "uint (ph_StdevUs p) = hp_Stdev h div 1000" "uint (ph_JitterUs p) = hp_Jitter h div 1000"
    using times us_exact by (simp_all add: p hopToProto_def)
  moreover have "unat (pc_Number (cycleToProto addr_str c)) = cy_Number c"
    using assms(1) by (simp add: cycleToProto_def unat_of_nat take_bit_nat_eq_self_iff)
  moreover have "uint (pc_ReachedAt (cycleToProto addr_str c)) = cy_ReachedAt c"
    using assms(2,3) by (simp add: cycleToProto_def uint_word_of_int take_bit_int_eq_self_iff)
  ultimately show ?thesis
    by (simp add: p hopToProto_def cycleToProto_def)
qed

definition demo_hop :: Hop where
  "demo_hop = \<lparr>hp_TTL = 3, hp_Addresses = [], hp_Sample = None, hp_Sent = 5, hp_Received = 4, hp_LossPct = 20,
    hp_Last = 1500, hp_Best = 1000, hp_Avg = 1200, hp_Worst = 2000, hp_Stdev = 100, hp_Jitter = 50\<rparr>"

theorem cycleToProto_lossless_witness:
  "uint (ph_Sent (pc_Hops (cycleToProto (\<lambda>_. []) \<lparr>cy_Number = 7, cy_ReachedAt = 3, cy_Hops = [demo_hop]\<rparr>) ! 0)) = 5"
  using cycleToProto_lossless [of "\<lparr>cy_Number = 7, cy_ReachedAt = 3, cy_Hops = [demo_hop]\<rparr>" 0 demo_hop _ "\<lambda>_. []"]
  by (simp add: demo_hop_def)

end
