(* ===== verification/Agent_Config.thy ===== *)
theory Agent_Config
  imports Proto Netip Go_Strings
begin

text \<open>
  The parts of \<^verbatim>\<open>internal/agent/config.go\<close> and \<^verbatim>\<open>internal/agent/agent.go\<close> that do not touch the
  running jobs: limits, the backend's configuration, the nameservers of the DNS tool, the
  backoff between sessions, and the resolution of a target. Files, certificates, resolvers and
  the routing table are parameters.
\<close>

section \<open>Limits\<close>

record Limits =
  lm_MaxConcurrentJobs :: int
  lm_MaxCycles :: int
  lm_MinIntervalMS :: int
  lm_MaxTTL :: int

definition withDefaults :: "Limits \<Rightarrow> Limits" where
  "withDefaults l =
    \<lparr>lm_MaxConcurrentJobs = (if lm_MaxConcurrentJobs l \<le> 0 then 20 else lm_MaxConcurrentJobs l),
     lm_MaxCycles = (if lm_MaxCycles l \<le> 0 then 1000 else lm_MaxCycles l),
     lm_MinIntervalMS = (if lm_MinIntervalMS l \<le> 0 then 100 else lm_MinIntervalMS l),
     lm_MaxTTL = (if lm_MaxTTL l \<le> 0 then 40 else lm_MaxTTL l)\<rparr>"

section \<open>The backend\<close>

record BackendConfig =
  bc_Address :: string
  bc_Site :: string
  bc_Token :: string
  bc_TokenFile :: string
  bc_CA :: string
  bc_CAFile :: string
  bc_ServerName :: string
  bc_InsecureSkipVerify :: bool
  bc_SkipHostnameVerify :: bool
  bc_DialTimeout :: duration

datatype config_error =
    BothTokens
  | ReadTokenFile string
  | EmptyTokenFile string
  | TokenRequired
  | BothCAs
  | CAMeaningless
  | ReadCAFile string
  | NoCertificate string
  | AddressRequired
  | SiteRequired
  | NameserverEmpty
  | NameserverInvalid string

definition agent_token :: "(string \<Rightarrow> string + string) \<Rightarrow> BackendConfig \<Rightarrow> config_error + string" where
  "agent_token ReadFile c =
    (if bc_Token c \<noteq> [] \<and> bc_TokenFile c \<noteq> [] then Inl BothTokens
     else if bc_TokenFile c \<noteq> [] then
       (case ReadFile (bc_TokenFile c) of
          Inl e \<Rightarrow> Inl (ReadTokenFile e)
        | Inr b \<Rightarrow> let tok = TrimSpace b
                   in if tok = [] then Inl (EmptyTokenFile (bc_TokenFile c)) else Inr tok)
     else if bc_Token c \<noteq> [] then Inr (bc_Token c)
     else Inl TokenRequired)"

text \<open>
  The client's TLS configuration: the pool of roots (\<open>None\<close> is the system store), the name
  checked, whether the built-in verification is off, and whether the callback that verifies the
  chain without the name is installed.
\<close>

record 'p tls_Config =
  tc_ServerName :: string
  tc_RootCAs :: "'p option"
  tc_InsecureSkipVerify :: bool
  tc_VerifyChainOnly :: bool

definition applyHostnameSkip :: "'p tls_Config \<Rightarrow> 'p tls_Config" where
  "applyHostnameSkip cfg = cfg\<lparr>tc_InsecureSkipVerify := True, tc_VerifyChainOnly := True\<rparr>"

definition tlsConfig ::
  "(string \<Rightarrow> string + string) \<Rightarrow> (string \<Rightarrow> 'p option) \<Rightarrow> BackendConfig \<Rightarrow> config_error + 'p tls_Config" where
  "tlsConfig ReadFile AppendCertsFromPEM c =
    (if bc_CA c \<noteq> [] \<and> bc_CAFile c \<noteq> [] then Inl BothCAs
     else
       let cfg = \<lparr>tc_ServerName = bc_ServerName c, tc_RootCAs = None, tc_InsecureSkipVerify = False,
                  tc_VerifyChainOnly = False\<rparr>
       in if bc_InsecureSkipVerify c then
            (if bc_CA c \<noteq> [] \<or> bc_CAFile c \<noteq> [] then Inl CAMeaningless
             else Inr (cfg\<lparr>tc_InsecureSkipVerify := True\<rparr>))
          else if bc_CAFile c = [] \<and> bc_CA c = [] then
            Inr (if bc_SkipHostnameVerify c then applyHostnameSkip cfg else cfg)
          else
            rbind (if bc_CAFile c \<noteq> []
                   then (case ReadFile (bc_CAFile c) of Inl e \<Rightarrow> Inl (ReadCAFile e) | Inr b \<Rightarrow> Inr b)
                   else Inr (bc_CA c))
              (\<lambda>pem. case AppendCertsFromPEM pem of
                  None \<Rightarrow> Inl (NoCertificate (if bc_CAFile c \<noteq> [] then ''ca_file ('' @ bc_CAFile c @ '')'' else ''ca''))
                | Some pool \<Rightarrow>
                    let cfg = cfg\<lparr>tc_RootCAs := Some pool\<rparr>
                    in Inr (if bc_SkipHostnameVerify c then applyHostnameSkip cfg else cfg)))"

text \<open>
  Whether a connection with the configuration accepts the certificates a backend presents:
  \<open>Verify\<close> checks a chain against the roots and, when given, the name.
\<close>

definition tls_accepts ::
  "('p option \<Rightarrow> string option \<Rightarrow> 'c list \<Rightarrow> bool) \<Rightarrow> 'p tls_Config \<Rightarrow> 'c list \<Rightarrow> bool" where
  "tls_accepts Verify cfg certs =
    (if \<not> tc_InsecureSkipVerify cfg then Verify (tc_RootCAs cfg) (Some (tc_ServerName cfg)) certs
     else if tc_VerifyChainOnly cfg then certs \<noteq> [] \<and> Verify (tc_RootCAs cfg) None certs
     else True)"

definition BackendConfig_Validate ::
  "(string \<Rightarrow> string + string) \<Rightarrow> (string \<Rightarrow> 'p option) \<Rightarrow> BackendConfig \<Rightarrow> config_error option" where
  "BackendConfig_Validate ReadFile AppendCertsFromPEM c =
    (if bc_Address c = [] then Some AddressRequired
     else if bc_Site c = [] then Some SiteRequired
     else case agent_token ReadFile c of
         Inl e \<Rightarrow> Some e
       | Inr _ \<Rightarrow>
           (case tlsConfig ReadFile AppendCertsFromPEM c of Inl e \<Rightarrow> Some e | Inr _ \<Rightarrow> None))"

definition dialTimeout :: "BackendConfig \<Rightarrow> duration" where
  "dialTimeout c = (if bc_DialTimeout c \<le> 0 then 10 * Second else bc_DialTimeout c)"

section \<open>The nameservers of the DNS tool\<close>

text \<open>\<open>ParseAddrPort\<close> returns the canonical text of an address with a port.\<close>

fun nameservers ::
  "(string \<Rightarrow> string option) \<Rightarrow> (string \<Rightarrow> addr option) \<Rightarrow> (addr \<Rightarrow> string) \<Rightarrow> string list \<Rightarrow> config_error + string list" where
  "nameservers ParseAddrPort ParseAddr addr_str [] = Inr []"
| "nameservers ParseAddrPort ParseAddr addr_str (ns # rest) =
    (if ns = [] then Inl NameserverEmpty
     else
       rbind (case ParseAddrPort ns of
                Some ap \<Rightarrow> Inr ap
              | None \<Rightarrow> (case ParseAddr ns of
                    None \<Rightarrow> Inl (NameserverInvalid ns)
                  | Some a \<Rightarrow> Inr (JoinHostPort (addr_str a) ''53'')))
         (\<lambda>x. rbind (nameservers ParseAddrPort ParseAddr addr_str rest) (\<lambda>xs. Inr (x # xs))))"

definition dns_client ::
  "(string \<Rightarrow> string option) \<Rightarrow> (string \<Rightarrow> addr option) \<Rightarrow> (addr \<Rightarrow> string) \<Rightarrow> string list \<Rightarrow> config_error + string list option" where
  "dns_client ParseAddrPort ParseAddr addr_str Nameservers =
    (if Nameservers = [] then Inr None
     else rbind (nameservers ParseAddrPort ParseAddr addr_str Nameservers) (\<lambda>xs. Inr (Some xs)))"

section \<open>Backoff\<close>

definition minBackoff :: duration where "minBackoff = Second"
definition maxBackoff :: duration where "maxBackoff = 30 * Second"
definition healthy :: duration where "healthy = 5 * Second"

lemmas backoff_defs = minBackoff_def maxBackoff_def healthy_def

text \<open>The loop of \<^verbatim>\<open>Run\<close>: the sessions last as given; the waits between them.\<close>

fun reconnect_waits :: "duration \<Rightarrow> duration list \<Rightarrow> duration list" where
  "reconnect_waits backoff [] = []"
| "reconnect_waits backoff (lasted # rest) =
    (let backoff = (if lasted \<ge> healthy then minBackoff else backoff)
     in backoff # reconnect_waits (min (backoff * 2) maxBackoff) rest)"

definition agent_Run :: "duration list \<Rightarrow> duration list" where
  "agent_Run sessions = reconnect_waits minBackoff sessions"

section \<open>Resolving a target\<close>

datatype resolve_error = LookupError string | NoAddresses

text \<open>\<open>Lookup\<close> is \<^verbatim>\<open>net.DefaultResolver.LookupNetIP\<close>, given the network and the name.\<close>

type_synonym lookup_ip = "string \<Rightarrow> string \<Rightarrow> string + addr list"

definition network_of :: "pb_AddressFamily \<Rightarrow> string" where
  "network_of f = (case f of ADDRESS_FAMILY_IPV4 \<Rightarrow> ''ip4'' | ADDRESS_FAMILY_IPV6 \<Rightarrow> ''ip6'' | _ \<Rightarrow> ''ip'')"

definition usable :: "bool \<Rightarrow> bool \<Rightarrow> addr \<Rightarrow> bool" where
  "usable caps4 caps6 ip = (Is6 ip \<and> caps6 \<or> Is4 ip \<and> caps4)"

definition agent_resolve ::
  "(string \<Rightarrow> addr option) \<Rightarrow> lookup_ip \<Rightarrow> bool \<Rightarrow> bool \<Rightarrow> TraceSpec \<Rightarrow> resolve_error + addr" where
  "agent_resolve ParseAddr Lookup caps4 caps6 spec =
    (case ParseAddr (ts_Target spec) of
       Some a \<Rightarrow> Inr a
     | None \<Rightarrow>
         (case Lookup (network_of (ts_Family spec)) (ts_Target spec) of
            Inl e \<Rightarrow> Inl (LookupError e)
          | Inr [] \<Rightarrow> Inl NoAddresses
          | Inr (ip0 # rest) \<Rightarrow>
              let ips = map Unmap (ip0 # rest)
              in case find (\<lambda>ip. Is6 ip = caps6 \<and> usable caps4 caps6 ip) ips of
                  Some ip \<Rightarrow> Inr ip
                | None \<Rightarrow>
                    (case find (\<lambda>ip. Is6 ip = False \<and> usable caps4 caps6 ip) ips of
                       Some ip \<Rightarrow> Inr ip
                     | None \<Rightarrow> Inr (Unmap ip0))))"

definition resolveFamily ::
  "(string \<Rightarrow> addr option) \<Rightarrow> lookup_ip \<Rightarrow> string \<Rightarrow> pb_AddressFamily \<Rightarrow> resolve_error + addr" where
  "resolveFamily ParseAddr Lookup target family =
    (case ParseAddr target of
       Some a \<Rightarrow> Inr (Unmap a)
     | None \<Rightarrow>
         (case Lookup (network_of family) target of
            Inl e \<Rightarrow> Inl (LookupError e)
          | Inr [] \<Rightarrow> Inl NoAddresses
          | Inr (ip0 # rest) \<Rightarrow>
              if family = ADDRESS_FAMILY_UNSPECIFIED then
                (case find (\<lambda>ip. Is4 (Unmap ip) = True) (ip0 # rest) of
                   Some ip \<Rightarrow> Inr (Unmap ip)
                 | None \<Rightarrow>
                     (case find (\<lambda>ip. Is4 (Unmap ip) = False) (ip0 # rest) of
                        Some ip \<Rightarrow> Inr (Unmap ip)
                      | None \<Rightarrow> Inr (Unmap ip0)))
              else Inr (Unmap ip0)))"

text \<open>\<open>Dial\<close> is the local address of a UDP socket connected to an address and a port, if any.\<close>

definition dialSource :: "(addr \<Rightarrow> u16 \<Rightarrow> addr option) \<Rightarrow> addr \<Rightarrow> u16 \<Rightarrow> addr" where
  "dialSource Dial target port =
    (case Dial target (if port = 0 then 33434 else port) of Some a \<Rightarrow> Unmap a | None \<Rightarrow> NoAddr)"

text \<open>\<open>Global\<close> is the test for a global unicast address that is neither link-local nor loopback.\<close>

definition globalUnicast :: "(addr \<Rightarrow> string) \<Rightarrow> (addr \<Rightarrow> bool) \<Rightarrow> addr list option \<Rightarrow> bool \<Rightarrow> string" where
  "globalUnicast addr_str Global InterfaceAddrs v6 =
    (case InterfaceAddrs of
       None \<Rightarrow> []
     | Some ips \<Rightarrow>
         (case find (\<lambda>ip. Is6 ip = v6 \<and> Global ip) (map Unmap ips) of Some ip \<Rightarrow> addr_str ip | None \<Rightarrow> []))"

definition egressSource ::
  "(addr \<Rightarrow> string) \<Rightarrow> (addr \<Rightarrow> u16 \<Rightarrow> addr option) \<Rightarrow> (addr \<Rightarrow> bool) \<Rightarrow> addr list option \<Rightarrow> addr \<Rightarrow> bool \<Rightarrow> string" where
  "egressSource addr_str Dial Global InterfaceAddrs publicTarget v6 =
    (let a = dialSource Dial publicTarget 443
     in if IsValid a then addr_str a else globalUnicast addr_str Global InterfaceAddrs v6)"

definition egressSources ::
  "(addr \<Rightarrow> string) \<Rightarrow> (addr \<Rightarrow> u16 \<Rightarrow> addr option) \<Rightarrow> (addr \<Rightarrow> bool) \<Rightarrow> addr list option \<Rightarrow> bool \<Rightarrow> bool \<Rightarrow> string list" where
  "egressSources addr_str Dial Global InterfaceAddrs caps4 caps6 =
    (let s4 = egressSource addr_str Dial Global InterfaceAddrs (V4 0x01010101) False;
         s6 = egressSource addr_str Dial Global InterfaceAddrs (V6 0x26064700470000000000000000001111 []) True
     in (if caps4 \<and> s4 \<noteq> [] then [s4] else []) @ (if caps6 \<and> s6 \<noteq> [] then [s6] else []))"

section \<open>Theorems\<close>

lemma reconnect_waits_length [simp]: "length (reconnect_waits b ls) = length ls"
  by (induction ls arbitrary: b) (simp_all add: Let_def)

lemma reconnect_waits_Suc:
  "Suc i < length ls \<Longrightarrow> reconnect_waits b ls ! Suc i =
    (if ls ! Suc i \<ge> healthy then minBackoff else min (reconnect_waits b ls ! i * 2) maxBackoff)"
proof (induction ls arbitrary: b i)
  case Nil
  then show ?case by simp
next
  case (Cons l ls)
  then show ?case by (cases i; cases ls) (simp_all add: Let_def)
qed

lemma reconnect_waits_0:
  "0 < length ls \<Longrightarrow> reconnect_waits b ls ! 0 = (if ls ! 0 \<ge> healthy then minBackoff else b)"
  by (cases ls) (simp_all add: Let_def)

lemma agent_Run_bounds: "i < length ls \<Longrightarrow> minBackoff \<le> agent_Run ls ! i \<and> agent_Run ls ! i \<le> maxBackoff"
proof (induction i)
  case 0
  then show ?case using reconnect_waits_0 [of ls minBackoff] by (auto simp: agent_Run_def backoff_defs)
next
  case (Suc i)
  then show ?case using reconnect_waits_Suc [of i ls minBackoff] by (auto simp: agent_Run_def backoff_defs)
qed

text \<open>(C26) Between two sessions the agent waits at least one second and at most thirty; after a session that stayed up
  for five seconds it waits one second; and each further session that fails early doubles the wait, up to
  the thirty seconds.\<close>

theorem reconnect_backoff:
  assumes "j + k < length sessions" and "\<forall>i. j < i \<and> i \<le> j + k \<longrightarrow> sessions ! i < healthy"
  shows "length (agent_Run sessions) = length sessions \<and>
    Second \<le> agent_Run sessions ! j \<and> agent_Run sessions ! j \<le> 30 * Second \<and>
    (5 * Second \<le> sessions ! j \<longrightarrow> agent_Run sessions ! j = Second) \<and>
    agent_Run sessions ! (j + k) = min (2 ^ k * agent_Run sessions ! j) (30 * Second)"
proof -
  have j: "Second \<le> agent_Run sessions ! j" "agent_Run sessions ! j \<le> 30 * Second"
    using agent_Run_bounds [of j sessions] assms(1) by (simp_all add: backoff_defs)
  have "5 * Second \<le> sessions ! j \<longrightarrow> agent_Run sessions ! j = Second"
  proof (cases j)
    case 0
    with assms(1) have "0 < length sessions" by auto
    with 0 reconnect_waits_0 [of sessions minBackoff] show ?thesis by (simp add: agent_Run_def backoff_defs)
  next
    case (Suc i)
    with assms(1) reconnect_waits_Suc [of i sessions minBackoff] show ?thesis
      by (simp add: agent_Run_def backoff_defs)
  qed
  moreover have "agent_Run sessions ! (j + k) = min (2 ^ k * agent_Run sessions ! j) (30 * Second)"
    using assms
  proof (induction k)
    case 0
    then show ?case using j(2) by simp
  next
    case (Suc k)
    then have IH: "agent_Run sessions ! (j + k) = min (2 ^ k * agent_Run sessions ! j) (30 * Second)" by simp
    from Suc.prems(2) have "\<not> healthy \<le> sessions ! Suc (j + k)" by (simp add: not_le)
    then have "agent_Run sessions ! (j + Suc k) = min (agent_Run sessions ! (j + k) * 2) maxBackoff"
      using Suc.prems reconnect_waits_Suc [of "j + k" sessions minBackoff] by (simp add: agent_Run_def)
    with IH show ?case by (simp add: maxBackoff_def min_def mult.commute)
  qed
  ultimately show ?thesis using j by (simp add: agent_Run_def)
qed

theorem reconnect_backoff_witness:
  "agent_Run [6 * Second, 0, 0, 0] ! (0 + 3) = min (2 ^ 3 * agent_Run [6 * Second, 0, 0, 0] ! 0) (30 * Second)"
proof -
  have "\<forall>i. 0 < i \<and> i \<le> 0 + 3 \<longrightarrow> [6 * Second, 0, 0, 0] ! i < healthy"
    by (auto simp: healthy_def nth_Cons split: nat.splits)
  with reconnect_backoff [of 0 3 "[6 * Second, 0, 0, 0]"] show ?thesis by simp
qed

section \<open>Configuration\<close>

lemma tlsConfig_verifies:
  assumes "tlsConfig ReadFile Append c = Inr cfg" and "\<not> bc_InsecureSkipVerify c"
  shows "tc_InsecureSkipVerify cfg = bc_SkipHostnameVerify c" and "tc_VerifyChainOnly cfg = bc_SkipHostnameVerify c"
    and "tc_ServerName cfg = bc_ServerName c"
    and "tc_RootCAs cfg = None \<longleftrightarrow> bc_CA c = [] \<and> bc_CAFile c = []"
  using assms
  by (cases "bc_CAFile c = []"; cases "bc_CA c = []"; cases "bc_SkipHostnameVerify c";
      auto simp: tlsConfig_def applyHostnameSkip_def Let_def split: option.splits sum.splits)+



section \<open>Resolution\<close>

lemma find_Some_in: "find P xs = Some x \<Longrightarrow> x \<in> set xs \<and> P x"
  by (auto simp: find_Some_iff)

text \<open>A name is resolved to one of the addresses the resolver returned, unmapped. For a trace it is one the engine
  can probe whenever there is one, and an IPv6 one when the engine has IPv6 and the name an IPv6 address.
  For SIP it is IPv4 when no family was asked for and there is one; and when the resolver honours the
  network it is asked for, the address is of the family asked for.\<close>

theorem resolve_picks_usable_address:
  assumes "ParseAddr (ts_Target spec) = None" and "Lookup (network_of (ts_Family spec)) (ts_Target spec) = Inr ips"
    and "ips \<noteq> []" and "\<forall>ip \<in> set ips. IsValid ip"
  shows "\<exists>a b. agent_resolve ParseAddr Lookup caps4 caps6 spec = Inr a \<and> a \<in> Unmap ` set ips \<and>
    ((\<exists>ip \<in> set ips. usable caps4 caps6 (Unmap ip)) \<longrightarrow> usable caps4 caps6 a) \<and>
    (caps6 \<and> (\<exists>ip \<in> set ips. Is6 (Unmap ip)) \<longrightarrow> Is6 a) \<and>
    resolveFamily ParseAddr Lookup (ts_Target spec) (ts_Family spec) = Inr b \<and> b \<in> Unmap ` set ips \<and>
    (ts_Family spec = ADDRESS_FAMILY_UNSPECIFIED \<and> (\<exists>ip \<in> set ips. Is4 (Unmap ip)) \<longrightarrow> Is4 b) \<and>
    ((\<forall>ip \<in> set ips. Is4 (Unmap ip)) \<longrightarrow> Is4 a \<and> Is4 b) \<and>
    ((\<forall>ip \<in> set ips. Is6 (Unmap ip)) \<longrightarrow> Is6 a \<and> Is6 b)"
proof -
  obtain ip0 rest where ips: "ips = ip0 # rest" using assms(3) by (cases ips) auto
  let ?us = "map Unmap ips"
  define a where "a = (case find (\<lambda>ip. Is6 ip = caps6 \<and> usable caps4 caps6 ip) ?us of Some ip \<Rightarrow> ip
    | None \<Rightarrow> (case find (\<lambda>ip. Is6 ip = False \<and> usable caps4 caps6 ip) ?us of Some ip \<Rightarrow> ip | None \<Rightarrow> Unmap ip0))"
  have res: "agent_resolve ParseAddr Lookup caps4 caps6 spec = Inr a"
    using assms(1,2) by (simp add: agent_resolve_def a_def ips Let_def split: option.splits)
  have valid: "x \<in> set ?us \<Longrightarrow> Is4 x = (\<not> Is6 x)" for x
    using assms(4) valid_family by force
  have a_in: "a \<in> set ?us"
    unfolding a_def by (auto split: option.splits dest!: find_Some_in simp: ips)
  have a_usable: "usable caps4 caps6 a" if "x \<in> set ?us" "usable caps4 caps6 x" for x
    using that valid unfolding a_def
    by (auto split: option.splits dest!: find_Some_in simp: find_None_iff usable_def)
  have a_six: "Is6 a" if "caps6" "x \<in> set ?us" "Is6 x" for x
    using that unfolding a_def
    by (auto split: option.splits dest!: find_Some_in simp: find_None_iff usable_def)
  define b where "b = (if ts_Family spec = ADDRESS_FAMILY_UNSPECIFIED then
      (case find (\<lambda>ip. Is4 (Unmap ip) = True) ips of Some ip \<Rightarrow> Unmap ip
       | None \<Rightarrow> (case find (\<lambda>ip. Is4 (Unmap ip) = False) ips of Some ip \<Rightarrow> Unmap ip | None \<Rightarrow> Unmap ip0))
      else Unmap ip0)"
  have fam: "resolveFamily ParseAddr Lookup (ts_Target spec) (ts_Family spec) = Inr b"
    using assms(1,2) by (simp add: resolveFamily_def b_def ips split: option.splits)
  have b_in: "b \<in> set ?us"
    unfolding b_def by (auto split: option.splits dest!: find_Some_in simp: ips)
  have b_four: "Is4 b" if "ts_Family spec = ADDRESS_FAMILY_UNSPECIFIED" "ip \<in> set ips" "Is4 (Unmap ip)" for ip
    using that unfolding b_def by (auto split: option.splits dest!: find_Some_in simp: find_None_iff)
  show ?thesis using res fam a_in b_in a_usable a_six b_four
    by (intro exI [of _ a] exI [of _ b]) auto
qed

theorem resolve_picks_usable_address_witness:
  "\<exists>a. agent_resolve (\<lambda>_. None) (\<lambda>_ _. Inr [V4 1, V6 1 []]) True True
     \<lparr>ts_Target = ''h'', ts_Protocol = PROTOCOL_ICMP, ts_Family = ADDRESS_FAMILY_UNSPECIFIED, ts_Port = 0,
      ts_ResolveNames = False, ts_Cycles = 0, ts_IntervalMs = 0, ts_FirstTtl = 0, ts_MaxTtl = 0, ts_PacketSize = 0,
      ts_Dscp = 0, ts_Source = [], ts_Mode = TRACE_MODE_MTR, ts_ProbeTimeoutMs = 0\<rparr> = Inr a \<and> Is6 a"
  using resolve_picks_usable_address [of "\<lambda>_. None"
     "\<lparr>ts_Target = ''h'', ts_Protocol = PROTOCOL_ICMP, ts_Family = ADDRESS_FAMILY_UNSPECIFIED, ts_Port = 0,
      ts_ResolveNames = False, ts_Cycles = 0, ts_IntervalMs = 0, ts_FirstTtl = 0, ts_MaxTtl = 0, ts_PacketSize = 0,
      ts_Dscp = 0, ts_Source = [], ts_Mode = TRACE_MODE_MTR, ts_ProbeTimeoutMs = 0\<rparr>"
     "\<lambda>_ _. Inr [V4 1, V6 1 []]" "[V4 1, V6 1 []]" True True]
  by (auto simp: addr_defs drop_bit_eq_div)

end
