(* ===== verification/Agent_Jobs.thy ===== *)
theory Agent_Jobs
  imports Agent_Convert Agent_Config "HOL-Library.AList"
begin

text \<open>
  The jobs of the agent: \<^verbatim>\<open>jobTable\<close>, \<^verbatim>\<open>sequence\<close>, \<^verbatim>\<open>startJob\<close> and the messages of a session in
  \<^verbatim>\<open>internal/agent/agent.go\<close>, and the self-scheduled monitors of \<^verbatim>\<open>internal/agent/scheduler.go\<close>.
  A context is a number; its cancel function adds it to the cancelled ones, and a job's context
  is over when it, the context it was derived from, or the session is cancelled. A handle of the
  job table is the context of its job.
\<close>

section \<open>The job table\<close>

type_synonym ctx = nat
type_synonym jobTable = "(string \<times> ctx) list"

definition jobs_add :: "string \<Rightarrow> ctx \<Rightarrow> jobTable \<Rightarrow> jobTable" where
  "jobs_add jid h m = AList.update jid h m"

definition jobs_remove :: "string \<Rightarrow> ctx \<Rightarrow> jobTable \<Rightarrow> jobTable" where
  "jobs_remove jid h m = (if map_of m jid = Some h then AList.delete jid m else m)"

text \<open>The contexts that \<^verbatim>\<open>cancel\<close> and \<^verbatim>\<open>cancelAll\<close> cancel.\<close>

definition jobs_cancel :: "string \<Rightarrow> jobTable \<Rightarrow> ctx list" where
  "jobs_cancel jid m = (case map_of m jid of Some h \<Rightarrow> [h] | None \<Rightarrow> [])"

definition jobs_cancelAll :: "jobTable \<Rightarrow> ctx list" where
  "jobs_cancelAll m = map snd m"

definition jobs_count :: "jobTable \<Rightarrow> nat" where
  "jobs_count m = length m"

definition jobs_has :: "string \<Rightarrow> jobTable \<Rightarrow> bool" where
  "jobs_has jid m = (map_of m jid \<noteq> None)"

interpretation jobs: owned_slots map_of jobs_add jobs_remove
  by unfold_locales (simp_all add: jobs_add_def jobs_remove_def update_conv' delete_conv')

lemma jobs_add_distinct: "distinct (map fst m) \<Longrightarrow> distinct (map fst (jobs_add jid h m))"
  by (simp add: jobs_add_def distinct_update)

lemma jobs_remove_distinct: "distinct (map fst m) \<Longrightarrow> distinct (map fst (jobs_remove jid h m))"
  by (simp add: jobs_remove_def distinct_delete)

lemma jobs_add_length: "length (jobs_add jid h m) \<le> Suc (length m)"
  by (induction m) (auto simp: jobs_add_def)

lemma jobs_remove_length: "length (jobs_remove jid h m) \<le> length m"
  by (simp add: jobs_remove_def length_delete_le)

lemma jobs_add_set: "set (jobs_add jid h m) \<subseteq> insert (jid, h) (set m)"
  by (induction m) (auto simp: jobs_add_def)

lemma jobs_remove_set: "set (jobs_remove jid h m) \<subseteq> set m"
  by (auto simp: jobs_remove_def AList.delete_eq)

lemma jobs_remove_gone: "distinct (map fst m) \<Longrightarrow> (jid, h) \<notin> set (jobs_remove jid h m)"
  by (auto simp: jobs_remove_def AList.delete_eq)

section \<open>The agent\<close>

text \<open>
  A running job: its context, its id and the context it was derived from. \<open>ag_starting\<close> holds
  the calls of \<^verbatim>\<open>startJob\<close> that have passed the limit and not yet registered their job: the
  receive loop (\<open>None\<close>) and each monitor's goroutine make one call at a time.
\<close>

record live_job =
  lj_ctx :: ctx
  lj_id :: string
  lj_parent :: ctx

record runner =
  ru_ctx :: ctx
  ru_pos :: nat
  ru_count :: nat
  ru_monitor :: pb_Monitor

record starting =
  st_caller :: "ctx option"
  st_parent :: ctx
  st_job :: StartJob

record agent =
  ag_limits :: Limits
  ag_seq :: u64
  ag_jobs :: jobTable
  ag_live :: "live_job list"
  ag_starting :: "starting list"
  ag_done :: "ctx list"
  ag_next :: ctx
  ag_version :: u64
  ag_cancels :: "ctx list"
  ag_runners :: "runner list"
  ag_sent :: "AgentMessage list"

text \<open>Context 0 is the session's.\<close>

definition ctx_over :: "agent \<Rightarrow> live_job \<Rightarrow> bool" where
  "ctx_over s j = (\<exists>c \<in> {lj_ctx j, lj_parent j, 0}. c \<in> set (ag_done s))"

definition seq_next :: "agent \<Rightarrow> agent" where
  "seq_next s = s\<lparr>ag_seq := ag_seq s + 1\<rparr>"

definition send_msg :: "AgentMessage \<Rightarrow> agent \<Rightarrow> agent" where
  "send_msg m s = s\<lparr>ag_sent := ag_sent s @ [m]\<rparr>"

definition sendError :: "instant \<Rightarrow> string \<Rightarrow> error_code \<Rightarrow> string \<Rightarrow> agent \<Rightarrow> agent" where
  "sendError now jobID code msg s =
    (let s = seq_next s
     in send_msg (EventMsg \<lparr>je_JobId = jobID, je_Seq = ag_seq s, je_Time = Some now, je_Event = EvError code msg\<rparr>) s)"

text \<open>An event of the engine, converted with the next sequence number and sent.\<close>

definition send_event :: "(u64 \<Rightarrow> JobEvent) \<Rightarrow> agent \<Rightarrow> agent" where
  "send_event conv s = (let s = seq_next s in send_msg (EventMsg (conv (ag_seq s))) s)"

section \<open>What a job sends\<close>

text \<open>
  The goroutine of a job sends the engine's events as they come and, when the run returned an
  error, a job error. A trace or SIP job fills in the source address the kernel would use.
\<close>

definition fill_source :: "(addr \<Rightarrow> string) \<Rightarrow> addr \<Rightarrow> JobEvent \<Rightarrow> JobEvent" where
  "fill_source addr_str eff je =
    (case je_Event je of
       EvStarted st \<Rightarrow> if js_Source st = [] \<and> IsValid eff
                      then je\<lparr>je_Event := EvStarted (st\<lparr>js_Source := addr_str eff\<rparr>)\<rparr> else je
     | _ \<Rightarrow> je)"

definition error_event :: "instant \<Rightarrow> string \<Rightarrow> error_code \<Rightarrow> string \<Rightarrow> u64 \<Rightarrow> JobEvent" where
  "error_event now jobID code msg n =
    \<lparr>je_JobId = jobID, je_Seq = n, je_Time = Some now, je_Event = EvError code msg\<rparr>"

definition trace_job ::
  "(addr \<Rightarrow> string) \<Rightarrow> (run_error \<Rightarrow> string) \<Rightarrow> instant \<Rightarrow> string \<Rightarrow> addr \<Rightarrow> Event list \<Rightarrow> string option \<Rightarrow> (u64 \<Rightarrow> JobEvent) list" where
  "trace_job addr_str err_str now jobID eff evs err =
    map (\<lambda>ev n. fill_source addr_str eff (eventToProto addr_str err_str jobID n now ev)) evs @
    (case err of None \<Rightarrow> [] | Some msg \<Rightarrow> [error_event now jobID CODE_ENGINE msg])"

text \<open>The user agent and the source address of a SIP job, filled in before it runs.\<close>

definition sip_job_spec :: "string \<Rightarrow> (addr \<Rightarrow> u16 \<Rightarrow> addr option) \<Rightarrow> addr \<Rightarrow> sip_Spec \<Rightarrow> sip_Spec" where
  "sip_job_spec version Dial resolved es =
    (let es = (if ss_UserAgent es = [] then es\<lparr>ss_UserAgent := ''prober/'' @ version\<rparr> else es)
     in if \<not> IsValid (ss_Source es) then es\<lparr>ss_Source := dialSource Dial resolved (ss_Port es)\<rparr> else es)"

definition sip_job ::
  "(addr \<Rightarrow> string) \<Rightarrow> (sip_error \<Rightarrow> string) \<Rightarrow> instant \<Rightarrow> string \<Rightarrow> addr \<Rightarrow> sip_Event list \<times> sip_error option \<Rightarrow> (u64 \<Rightarrow> JobEvent) list" where
  "sip_job addr_str err_str now jobID eff run =
    map (\<lambda>ev n. fill_source addr_str eff (sipEventToProto addr_str err_str jobID n now ev)) (fst run) @
    (case snd run of None \<Rightarrow> [] | Some e \<Rightarrow> [error_event now jobID CODE_ENGINE (err_str e)])"

definition dns_job ::
  "(dns_error \<Rightarrow> string) \<Rightarrow> (dns_spec_error \<Rightarrow> string) \<Rightarrow> instant \<Rightarrow> string \<Rightarrow> dns_spec_error + dns_Event list \<Rightarrow> (u64 \<Rightarrow> JobEvent) list" where
  "dns_job err_str spec_str now jobID run =
    (case run of
       Inl e \<Rightarrow> [error_event now jobID CODE_RESOLVE (spec_str e)]
     | Inr evs \<Rightarrow> map (\<lambda>ev n. dnsEventToProto err_str jobID n now ev) evs)"

section \<open>Starting a job\<close>

text \<open>The goroutine of a job: a fresh context, registered under the job's id.\<close>

definition launch :: "ctx \<Rightarrow> string \<Rightarrow> agent \<Rightarrow> agent" where
  "launch parent jid s =
    s\<lparr>ag_next := ag_next s + 1, ag_jobs := jobs_add jid (ag_next s) (ag_jobs s),
      ag_live := ag_live s @ [\<lparr>lj_ctx = ag_next s, lj_id = jid, lj_parent = parent\<rparr>]\<rparr>"

text \<open>
  What the resolvers answer for a trace and for a SIP target, and how errors are printed.
\<close>

record start_env =
  en_now :: instant
  en_trace :: "TraceSpec \<Rightarrow> resolve_error + addr"
  en_sip :: "SipOptionsSpec \<Rightarrow> resolve_error + addr"
  en_show :: "resolve_error \<Rightarrow> string"

definition startTrace :: "start_env \<Rightarrow> ctx \<Rightarrow> string \<Rightarrow> TraceSpec \<Rightarrow> agent \<Rightarrow> agent" where
  "startTrace V parent jid spec s =
    (case en_trace V spec of
       Inl err \<Rightarrow> sendError (en_now V) jid CODE_RESOLVE (en_show V err) s
     | Inr resolved \<Rightarrow> launch parent jid s)"

definition startSip :: "start_env \<Rightarrow> ctx \<Rightarrow> string \<Rightarrow> SipOptionsSpec \<Rightarrow> agent \<Rightarrow> agent" where
  "startSip V parent jid spec s =
    (case en_sip V spec of
       Inl err \<Rightarrow> sendError (en_now V) jid CODE_RESOLVE (en_show V err) s
     | Inr resolved \<Rightarrow> launch parent jid s)"

definition startDns :: "ctx \<Rightarrow> string \<Rightarrow> DnsSpec \<Rightarrow> agent \<Rightarrow> agent" where
  "startDns parent jid spec s = launch parent jid s"

definition at_limit :: "agent \<Rightarrow> bool" where
  "at_limit s = (int (jobs_count (ag_jobs s)) \<ge> lm_MaxConcurrentJobs (ag_limits s))"

definition dispatch :: "start_env \<Rightarrow> ctx \<Rightarrow> StartJob \<Rightarrow> agent \<Rightarrow> agent" where
  "dispatch V parent job s =
    (case sj_Spec job of
       TraceJob spec \<Rightarrow> startTrace V parent (sj_JobId job) spec s
     | SipJob spec \<Rightarrow> startSip V parent (sj_JobId job) spec s
     | DnsJob spec \<Rightarrow> startDns parent (sj_JobId job) spec s
     | NoSpec \<Rightarrow> sendError (en_now V) (sj_JobId job) CODE_UNSPECIFIED ''no job spec'' s)"

definition startJob :: "start_env \<Rightarrow> ctx \<Rightarrow> StartJob \<Rightarrow> agent \<Rightarrow> agent" where
  "startJob V parent job s =
    (if at_limit s then sendError (en_now V) (sj_JobId job) CODE_LIMIT ''agent at job limit'' s
     else dispatch V parent job s)"

text \<open>The end of a job's goroutine: \<^verbatim>\<open>remove\<close>, then \<^verbatim>\<open>cancel\<close>.\<close>

definition finish_job :: "live_job \<Rightarrow> agent \<Rightarrow> agent" where
  "finish_job j s =
    s\<lparr>ag_jobs := jobs_remove (lj_id j) (lj_ctx j) (ag_jobs s), ag_done := ag_done s @ [lj_ctx j],
      ag_live := remove1 j (ag_live s)\<rparr>"

section \<open>The scheduler\<close>

definition stopLocked :: "agent \<Rightarrow> agent" where
  "stopLocked s = s\<lparr>ag_done := ag_done s @ ag_cancels s, ag_cancels := []\<rparr>"

definition start_runners :: "pb_Monitor list \<Rightarrow> agent \<Rightarrow> agent" where
  "start_runners ms s =
    (let n = length ms; ctxs = map (\<lambda>i. ag_next s + i) [0..<n]
     in s\<lparr>ag_next := ag_next s + n, ag_cancels := ag_cancels s @ ctxs,
          ag_runners := ag_runners s @
            map (\<lambda>i. \<lparr>ru_ctx = ag_next s + i, ru_pos = i, ru_count = n, ru_monitor = ms ! i\<rparr>) [0..<n]\<rparr>)"

definition sched_apply :: "Assignment \<Rightarrow> agent \<Rightarrow> agent" where
  "sched_apply as s =
    (if as_Version as \<noteq> 0 \<and> as_Version as = ag_version s then s
     else start_runners (as_Monitors as) ((stopLocked s)\<lparr>ag_version := as_Version as\<rparr>))"

definition monitor_interval :: "pb_Monitor \<Rightarrow> duration" where
  "monitor_interval m =
    (let interval = uint (mo_IntervalS m) * Second in if interval \<le> 0 then Minute else interval)"

text \<open>The product is taken in \<^verbatim>\<open>int64\<close>, so it wraps around.\<close>

definition monitor_offset :: "duration \<Rightarrow> nat \<Rightarrow> nat \<Rightarrow> duration" where
  "monitor_offset interval i n =
    (if n > 1 then go_div (sint (word_of_int (interval * int i) :: 64 word)) (int n) else 0)"

text \<open>The instants at which a monitor fires, from the start of its goroutine.\<close>

definition fire_at :: "runner \<Rightarrow> nat \<Rightarrow> duration" where
  "fire_at r k = monitor_offset (monitor_interval (ru_monitor r)) (ru_pos r) (ru_count r) +
    int k * monitor_interval (ru_monitor r)"

definition startJobFromMonitor :: "pb_Monitor \<Rightarrow> StartJob option" where
  "startJobFromMonitor m =
    (case mo_Spec m of
       TraceJob t \<Rightarrow> Some \<lparr>sj_JobId = monitorJobID (mo_Id m), sj_Spec = TraceJob t\<rparr>
     | SipJob t \<Rightarrow> Some \<lparr>sj_JobId = monitorJobID (mo_Id m), sj_Spec = SipJob t\<rparr>
     | _ \<Rightarrow> None)"

text \<open>What a tick starts: nothing while the monitor's previous job is registered.\<close>

definition fire :: "runner \<Rightarrow> agent \<Rightarrow> StartJob option" where
  "fire r s =
    (if jobs_has (monitorJobID (mo_Id (ru_monitor r))) (ag_jobs s) then None
     else startJobFromMonitor (ru_monitor r))"

section \<open>The session\<close>

text \<open>The messages of the backend that are handled at once.\<close>

definition on_message :: "BackendMessage \<Rightarrow> agent \<Rightarrow> agent" where
  "on_message m s =
    (case m of
       CancelMsg jid \<Rightarrow> s\<lparr>ag_done := ag_done s @ jobs_cancel jid (ag_jobs s)\<rparr>
     | AssignmentMsg as \<Rightarrow> sched_apply as s
     | PingMsg nonce \<Rightarrow> send_msg (PongMsg nonce) s
     | _ \<Rightarrow> s)"

definition heartbeat :: "agent \<Rightarrow> agent" where
  "heartbeat s = send_msg (Heartbeat (of_nat (jobs_count (ag_jobs s)))) s"

text \<open>What the agent says of itself when a session opens.\<close>

definition hello :: "BackendConfig \<Rightarrow> string \<Rightarrow> string \<Rightarrow> string \<Rightarrow> instant \<Rightarrow> bool \<Rightarrow> bool \<Rightarrow> string list \<Rightarrow> Limits \<Rightarrow> Hello" where
  "hello cfg version commit hostname started caps4 caps6 sources l =
    \<lparr>he_Site = bc_Site cfg, he_Version = version, he_Commit = commit, he_Hostname = hostname,
     he_StartedAt = Some started, he_IPv4 = caps4, he_IPv6 = caps6, he_Sources = sources,
     he_MaxConcurrentJobs = word_of_int (lm_MaxConcurrentJobs l), he_MaxCycles = word_of_int (lm_MaxCycles l),
     he_MinIntervalMs = word_of_int (lm_MinIntervalMS l), he_MaxTtl = word_of_int (lm_MaxTTL l)\<rparr>"

definition session_start :: "Limits \<Rightarrow> u64 \<Rightarrow> agent" where
  "session_start l seq = \<lparr>ag_limits = l, ag_seq = seq, ag_jobs = [], ag_live = [], ag_starting = [], ag_done = [],
    ag_next = 1, ag_version = 0, ag_cancels = [], ag_runners = [], ag_sent = []\<rparr>"

text \<open>The deferred calls when the receive loop returns: \<^verbatim>\<open>cancelAll\<close>, then the session's cancel.\<close>

definition session_end :: "agent \<Rightarrow> agent" where
  "session_end s = s\<lparr>ag_done := ag_done s @ jobs_cancelAll (ag_jobs s) @ [0]\<rparr>"

text \<open>
  What the goroutines of a session do by themselves. The limit is tested in one step and the job registered in
  another: the resolution of the target lies between.
\<close>

inductive agent_work :: "agent \<Rightarrow> agent \<Rightarrow> bool" where
  refuse: "at_limit s \<Longrightarrow> agent_work s (startJob V parent job s)"
| admit: "\<not> at_limit s \<Longrightarrow> c \<notin> st_caller ` set (ag_starting s) \<Longrightarrow>
    (c = None \<and> parent = 0 \<or> (\<exists>r \<in> set (ag_runners s). c = Some (ru_ctx r) \<and> parent = ru_ctx r \<and> fire r s = Some job)) \<Longrightarrow>
    agent_work s (s\<lparr>ag_starting := ag_starting s @ [\<lparr>st_caller = c, st_parent = parent, st_job = job\<rparr>]\<rparr>)"
| commit: "st \<in> set (ag_starting s) \<Longrightarrow>
    agent_work s (dispatch V (st_parent st) (st_job st) (s\<lparr>ag_starting := remove1 st (ag_starting s)\<rparr>))"
| event: "j \<in> set (ag_live s) \<Longrightarrow> (\<And>n. je_Seq (conv n) = n) \<Longrightarrow> agent_work s (send_event conv s)"
| exit: "j \<in> set (ag_live s) \<Longrightarrow> agent_work s (finish_job j s)"
| runner_exit: "r \<in> set (ag_runners s) \<Longrightarrow> ru_ctx r \<in> set (ag_done s) \<Longrightarrow>
    Some (ru_ctx r) \<notin> st_caller ` set (ag_starting s) \<Longrightarrow>
    agent_work s (s\<lparr>ag_runners := remove1 r (ag_runners s)\<rparr>)"
| beat: "agent_work s (heartbeat s)"

text \<open>The steps of a session whose scheduler runs at most \<open>N\<close> monitor goroutines at a time.\<close>

inductive agent_step :: "nat \<Rightarrow> agent \<Rightarrow> agent \<Rightarrow> bool" for N where
  work: "agent_work s t \<Longrightarrow> agent_step N s t"
| message: "length (ag_runners (on_message m s)) \<le> N \<Longrightarrow> agent_step N s (on_message m s)"
| over: "agent_step N s (session_end s)"

section \<open>The invariant of a session\<close>

definition sent_events :: "agent \<Rightarrow> JobEvent list" where
  "sent_events s = concat (map (\<lambda>m. case m of EventMsg e \<Rightarrow> [e] | _ \<Rightarrow> []) (ag_sent s))"

text \<open>The table lists live jobs, every context is used once.\<close>

definition table_inv :: "agent \<Rightarrow> bool" where
  "table_inv s = (distinct (map fst (ag_jobs s)) \<and> distinct (map lj_ctx (ag_live s)) \<and>
    (\<forall>(jid, h) \<in> set (ag_jobs s). \<exists>j \<in> set (ag_live s). lj_ctx j = h \<and> lj_id j = jid) \<and>
    (\<forall>j \<in> set (ag_live s). lj_ctx j < ag_next s))"

text \<open>A caller starts one job at a time, and what was admitted fits.\<close>

definition start_inv :: "nat \<Rightarrow> agent \<Rightarrow> bool" where
  "start_inv N s = (0 < lm_MaxConcurrentJobs (ag_limits s) \<and> length (ag_runners s) \<le> N \<and>
    distinct (map st_caller (ag_starting s)) \<and>
    st_caller ` set (ag_starting s) \<subseteq> insert None ((\<lambda>r. Some (ru_ctx r)) ` set (ag_runners s)) \<and>
    int (length (ag_jobs s) + length (ag_starting s)) \<le> lm_MaxConcurrentJobs (ag_limits s) + int N)"

definition seq_inv :: "u64 \<Rightarrow> agent \<Rightarrow> bool" where
  "seq_inv q s = (map je_Seq (sent_events s) = map (\<lambda>i. q + of_nat (Suc i)) [0..<length (sent_events s)] \<and>
    ag_seq s = q + of_nat (length (sent_events s)))"

lemma sent_events_send [simp]:
  "sent_events (send_msg (EventMsg e) s) = sent_events s @ [e]"
  "sent_events (send_msg (PongMsg n) s) = sent_events s"
  "sent_events (send_msg (Heartbeat k) s) = sent_events s"
  by (simp_all add: sent_events_def send_msg_def)

lemma agent_frames [simp]:
  "ag_jobs (send_msg m s) = ag_jobs s" "ag_live (send_msg m s) = ag_live s" "ag_next (send_msg m s) = ag_next s"
  "ag_limits (send_msg m s) = ag_limits s" "ag_runners (send_msg m s) = ag_runners s"
  "ag_starting (send_msg m s) = ag_starting s" "ag_seq (send_msg m s) = ag_seq s"
  "ag_jobs (seq_next s) = ag_jobs s" "ag_live (seq_next s) = ag_live s" "ag_next (seq_next s) = ag_next s"
  "ag_limits (seq_next s) = ag_limits s" "ag_runners (seq_next s) = ag_runners s"
  "ag_starting (seq_next s) = ag_starting s" "ag_seq (seq_next s) = ag_seq s + 1"
  "sent_events (seq_next s) = sent_events s"
  by (simp_all add: send_msg_def seq_next_def sent_events_def)

lemma sent_events_frame: "ag_sent s' = ag_sent s \<Longrightarrow> sent_events s' = sent_events s"
  by (simp add: sent_events_def)

definition agent_inv :: "nat \<Rightarrow> u64 \<Rightarrow> agent \<Rightarrow> bool" where
  "agent_inv N q s = (table_inv s \<and> start_inv N s \<and> seq_inv q s)"

lemmas agent_inv_defs = agent_inv_def table_inv_def start_inv_def seq_inv_def

lemma agent_inv_callers:
  "agent_inv N q s \<Longrightarrow>
    st_caller ` set (ag_starting s) \<subseteq> insert None ((\<lambda>r. Some (ru_ctx r)) ` set (ag_runners s))"
  by (simp add: agent_inv_defs)

lemma table_inv_frame:
  "table_inv s \<Longrightarrow> ag_jobs s' = ag_jobs s \<Longrightarrow> ag_live s' = ag_live s \<Longrightarrow> ag_next s \<le> ag_next s' \<Longrightarrow> table_inv s'"
  by (auto simp: table_inv_def intro: less_le_trans)

text \<open>Steps that leave the parts of the invariant alone.\<close>

lemma agent_inv_frame:
  assumes "agent_inv N q s" and "ag_jobs s' = ag_jobs s" and "ag_live s' = ag_live s" and "ag_next s \<le> ag_next s'"
    and "ag_limits s' = ag_limits s" and "ag_runners s' = ag_runners s" and "ag_starting s' = ag_starting s"
    and "sent_events s' = sent_events s" and "ag_seq s' = ag_seq s"
  shows "agent_inv N q s'"
  using assms by (fastforce simp: agent_inv_defs)

lemma seq_inv_event:
  assumes "seq_inv q s" and "je_Seq (conv (ag_seq s + 1)) = ag_seq s + 1"
  shows "seq_inv q (send_event conv s)"
  using assms by (simp add: seq_inv_def send_event_def Let_def algebra_simps)

lemma send_event_inv: "agent_inv N q s \<Longrightarrow> je_Seq (conv (ag_seq s + 1)) = ag_seq s + 1 \<Longrightarrow> agent_inv N q (send_event conv s)"
  using seq_inv_event [of q s conv]
  by (simp add: agent_inv_def table_inv_def start_inv_def) (simp add: send_event_def Let_def)

lemma sendError_event: "sendError now jid code msg = send_event (error_event now jid code msg)"
  by (simp add: fun_eq_iff sendError_def send_event_def error_event_def Let_def)

lemma sendError_inv: "agent_inv N q s \<Longrightarrow> agent_inv N q (sendError now jid code msg s)"
  unfolding sendError_event by (rule send_event_inv) (simp_all add: error_event_def)

lemma launch_table_inv:
  assumes "table_inv s"
  shows "table_inv (launch parent jid s)"
proof -
  have "distinct (map fst (jobs_add jid (ag_next s) (ag_jobs s)))"
    using assms by (simp add: table_inv_def jobs_add_distinct)
  moreover have "distinct (map lj_ctx (ag_live s @ [\<lparr>lj_ctx = ag_next s, lj_id = jid, lj_parent = parent\<rparr>]))"
    using assms by (auto simp: table_inv_def)
  moreover have "\<exists>j \<in> set (ag_live (launch parent jid s)). lj_ctx j = h \<and> lj_id j = k"
    if "(k, h) \<in> set (jobs_add jid (ag_next s) (ag_jobs s))" for k h
    using that jobs_add_set [of jid "ag_next s" "ag_jobs s"] assms
    by (fastforce simp: table_inv_def launch_def)
  moreover have "\<forall>j \<in> set (ag_live (launch parent jid s)). lj_ctx j < ag_next (launch parent jid s)"
    using assms by (auto simp: table_inv_def launch_def)
  ultimately show ?thesis by (auto simp: table_inv_def launch_def)
qed

text \<open>An admitted call registers its job, or reports an error.\<close>

lemma dispatch_cases:
  "dispatch V parent job s = launch parent (sj_JobId job) s \<or>
    (\<exists>code msg. dispatch V parent job s = sendError (en_now V) (sj_JobId job) code msg s)"
  by (auto simp: dispatch_def startTrace_def startSip_def startDns_def split: job_spec.splits sum.splits)

lemma distinct_map_remove1: "distinct (map f xs) \<Longrightarrow> distinct (map f (remove1 x xs))"
proof (induction xs)
  case (Cons y ys)
  have "f ` set (remove1 x ys) \<subseteq> f ` set ys" by (simp add: set_remove1_subset image_mono)
  with Cons show ?case by auto
qed simp

lemma commit_inv:
  assumes inv: "agent_inv N q s" and st: "st \<in> set (ag_starting s)"
  shows "agent_inv N q (dispatch V (st_parent st) (st_job st) (s\<lparr>ag_starting := remove1 st (ag_starting s)\<rparr>))"
proof -
  let ?s = "s\<lparr>ag_starting := remove1 st (ag_starting s)\<rparr>"
  have len: "length (ag_starting s) = Suc (length (ag_starting ?s))"
    using st length_pos_if_in_set [OF st] by (simp add: length_remove1)
  have sub: "set (ag_starting ?s) \<subseteq> set (ag_starting s)" by (simp add: set_remove1_subset)
  have dist: "distinct (map st_caller (ag_starting ?s))"
    using inv by (simp add: agent_inv_defs distinct_map_remove1)
  have callers: "st_caller ` set (ag_starting ?s) \<subseteq> insert None ((\<lambda>r. Some (ru_ctx r)) ` set (ag_runners s))"
  proof -
    have "st_caller ` set (ag_starting ?s) \<subseteq> st_caller ` set (ag_starting s)" using sub by (rule image_mono)
    also have "\<dots> \<subseteq> insert None ((\<lambda>r. Some (ru_ctx r)) ` set (ag_runners s))"
      using inv by (rule agent_inv_callers)
    finally show ?thesis .
  qed
  have seq: "seq_inv q ?s" "table_inv ?s"
    using inv by (simp_all add: agent_inv_defs sent_events_def)
  have room: "int (Suc (length (ag_jobs s) + length (ag_starting ?s))) \<le> lm_MaxConcurrentJobs (ag_limits s) + int N"
    using inv len by (simp add: agent_inv_defs)
  have base: "agent_inv N q ?s"
    using inv seq dist callers room by (simp add: agent_inv_def start_inv_def)
  from dispatch_cases [of V "st_parent st" "st_job st" ?s] show ?thesis
  proof (elim disjE exE)
    assume d: "dispatch V (st_parent st) (st_job st) ?s = launch (st_parent st) (sj_JobId (st_job st)) ?s"
    have "length (ag_jobs (launch (st_parent st) (sj_JobId (st_job st)) ?s)) \<le> Suc (length (ag_jobs s))"
      by (simp add: launch_def jobs_add_length)
    with base room have "start_inv N (launch (st_parent st) (sj_JobId (st_job st)) ?s)"
      by (simp add: agent_inv_def start_inv_def) (simp add: launch_def)
    moreover have "seq_inv q (launch (st_parent st) (sj_JobId (st_job st)) ?s)"
      using seq(1) by (simp add: seq_inv_def launch_def sent_events_def)
    ultimately show ?thesis unfolding d agent_inv_def using seq(2) launch_table_inv by blast
  next
    fix code msg
    assume "dispatch V (st_parent st) (st_job st) ?s = sendError (en_now V) (sj_JobId (st_job st)) code msg ?s"
    with base sendError_inv show ?thesis by simp
  qed
qed

lemma admit_inv:
  assumes inv: "agent_inv N q s" and room: "\<not> at_limit s" and new: "c \<notin> st_caller ` set (ag_starting s)"
    and caller: "c \<in> insert None ((\<lambda>r. Some (ru_ctx r)) ` set (ag_runners s))"
  shows "agent_inv N q (s\<lparr>ag_starting := ag_starting s @ [\<lparr>st_caller = c, st_parent = parent, st_job = job\<rparr>]\<rparr>)"
proof -
  let ?st = "ag_starting s @ [\<lparr>st_caller = c, st_parent = parent, st_job = job\<rparr>]"
  let ?callers = "insert None ((\<lambda>r. Some (ru_ctx r)) ` set (ag_runners s))"
  have dist: "distinct (map st_caller ?st)" and sub: "st_caller ` set ?st \<subseteq> ?callers"
    using inv new caller by (auto simp: agent_inv_defs)
  have "length ?st = card (st_caller ` set ?st)"
    using dist by (metis distinct_card length_map set_map)
  also have "\<dots> \<le> card ?callers" using sub by (intro card_mono) auto
  also have "\<dots> \<le> Suc (card ((\<lambda>r. Some (ru_ctx r)) ` set (ag_runners s)))" by (simp add: card_insert_if)
  also have "\<dots> \<le> Suc (length (ag_runners s))"
    using card_image_le [of "set (ag_runners s)" "\<lambda>r. Some (ru_ctx r)"] card_length [of "ag_runners s"] by simp
  finally have "length ?st \<le> Suc N" using inv by (simp add: agent_inv_defs)
  with room have "int (length (ag_jobs s) + length ?st) \<le> lm_MaxConcurrentJobs (ag_limits s) + int N"
    by (simp add: at_limit_def jobs_count_def)
  with inv dist sub show ?thesis by (simp add: agent_inv_defs sent_events_def)
qed

lemma finish_job_inv:
  assumes inv: "agent_inv N q s" and j: "j \<in> set (ag_live s)"
  shows "agent_inv N q (finish_job j s)"
proof -
  let ?jobs = "jobs_remove (lj_id j) (lj_ctx j) (ag_jobs s)" and ?live = "remove1 j (ag_live s)"
  have dist: "distinct (map fst ?jobs)" "distinct (map lj_ctx ?live)"
    using inv by (simp_all add: agent_inv_defs jobs_remove_distinct distinct_map_remove1)
  have "\<exists>i \<in> set ?live. lj_ctx i = h \<and> lj_id i = jid" if "(jid, h) \<in> set ?jobs" for jid h
  proof -
    have "(jid, h) \<in> set (ag_jobs s)" using that jobs_remove_set by blast
    then obtain i where i: "i \<in> set (ag_live s)" "lj_ctx i = h" "lj_id i = jid"
      using inv by (force simp: agent_inv_defs)
    moreover have "i \<noteq> j"
      using that i inv jobs_remove_gone [of "ag_jobs s" "lj_id j" "lj_ctx j"] by (auto simp: agent_inv_defs)
    ultimately show ?thesis by (intro bexI [of _ i]) simp_all
  qed
  moreover have "\<forall>i \<in> set ?live. lj_ctx i < ag_next s"
    using inv set_remove1_subset [of j "ag_live s"] by (auto simp: agent_inv_defs)
  ultimately have "table_inv (finish_job j s)"
    using dist by (auto simp: table_inv_def finish_job_def)
  moreover have "start_inv N (finish_job j s)"
    using inv jobs_remove_length [of "lj_id j" "lj_ctx j" "ag_jobs s"]
    by (simp add: agent_inv_def start_inv_def finish_job_def)
  moreover have "seq_inv q (finish_job j s)"
    using inv by (simp add: agent_inv_def seq_inv_def finish_job_def sent_events_def)
  ultimately show ?thesis by (simp add: agent_inv_def)
qed

lemma message_frame:
  "ag_jobs (on_message m s) = ag_jobs s" "ag_live (on_message m s) = ag_live s"
  "ag_limits (on_message m s) = ag_limits s" "ag_starting (on_message m s) = ag_starting s"
  "sent_events (on_message m s) = sent_events s" "ag_seq (on_message m s) = ag_seq s"
  "ag_next s \<le> ag_next (on_message m s)" "set (ag_runners s) \<subseteq> set (ag_runners (on_message m s))"
  by (cases m; simp add: on_message_def sched_apply_def stopLocked_def start_runners_def sent_events_def send_msg_def Let_def)+

lemma message_inv:
  assumes inv: "agent_inv N q s" and n: "length (ag_runners (on_message m s)) \<le> N"
  shows "agent_inv N q (on_message m s)"
proof -
  have "st_caller ` set (ag_starting s) \<subseteq> insert None ((\<lambda>r. Some (ru_ctx r)) ` set (ag_runners (on_message m s)))"
    by (rule order_trans [OF agent_inv_callers [OF inv]]) (intro insert_mono image_mono message_frame(8))
  then have "start_inv N (on_message m s)"
    using inv n by (simp add: agent_inv_def start_inv_def message_frame)
  moreover have "table_inv (on_message m s)"
    by (rule table_inv_frame [of s]) (use inv in \<open>simp_all add: agent_inv_def message_frame(1,2,7)\<close>)
  moreover have "seq_inv q (on_message m s)" using inv by (simp add: agent_inv_def seq_inv_def message_frame)
  ultimately show ?thesis by (simp add: agent_inv_def)
qed

lemma runner_exit_inv:
  assumes inv: "agent_inv N q s" and idle: "Some (ru_ctx r) \<notin> st_caller ` set (ag_starting s)"
  shows "agent_inv N q (s\<lparr>ag_runners := remove1 r (ag_runners s)\<rparr>)"
proof -
  have "c \<in> insert None ((\<lambda>r. Some (ru_ctx r)) ` set (remove1 r (ag_runners s)))"
    if "c \<in> st_caller ` set (ag_starting s)" for c
  proof -
    have "c \<in> insert None ((\<lambda>r. Some (ru_ctx r)) ` set (ag_runners s))"
      using agent_inv_callers [OF inv] that by (rule subsetD)
    moreover have "c \<noteq> Some (ru_ctx r)" using idle that by metis
    ultimately consider "c = None" | p where "p \<in> set (ag_runners s)" "c = Some (ru_ctx p)" "p \<noteq> r" by auto
    then show ?thesis by cases auto
  qed
  moreover have "length (remove1 r (ag_runners s)) \<le> N" using inv by (auto simp: agent_inv_defs length_remove1)
  ultimately have "start_inv N (s\<lparr>ag_runners := remove1 r (ag_runners s)\<rparr>)"
    using inv by (auto simp: agent_inv_def start_inv_def)
  with inv show ?thesis by (simp add: agent_inv_def table_inv_def seq_inv_def sent_events_def)
qed

lemma agent_work_inv:
  assumes "agent_inv N q s" and "agent_work s s'"
  shows "agent_inv N q s'"
  using assms(2,1)
proof (cases rule: agent_work.cases)
  case (refuse V parent job)
  then show ?thesis using assms(1) sendError_inv by (simp add: startJob_def)
next
  case (admit c parent job)
  then show ?thesis using assms(1) by (auto intro: admit_inv)
next
  case (commit st V)
  then show ?thesis using assms(1) commit_inv by blast
next
  case (event j conv)
  then show ?thesis using assms(1) send_event_inv by simp
next
  case (exit j)
  then show ?thesis using assms(1) finish_job_inv by blast
next
  case (runner_exit r)
  then show ?thesis using assms(1) runner_exit_inv by blast
next
  case beat
  then show ?thesis using assms(1) by (intro agent_inv_frame [OF assms(1)]) (simp_all add: heartbeat_def)
qed

lemma agent_step_inv:
  assumes "agent_inv N q s" and "agent_step N s s'"
  shows "agent_inv N q s'"
  using assms(2,1)
proof (cases rule: agent_step.cases)
  case work
  then show ?thesis using assms(1) agent_work_inv by blast
next
  case (message m)
  then show ?thesis using assms(1) message_inv by blast
next
  case over
  then show ?thesis
    using assms(1) by (intro agent_inv_frame [OF assms(1)]) (simp_all add: session_end_def sent_events_def)
qed

definition agent_start :: "u64 \<Rightarrow> agent \<Rightarrow> bool" where
  "agent_start q s = (\<exists>l. s = session_start (withDefaults l) q)"

interpretation agent: invariant_system "agent_start q" "agent_step N" "agent_inv N q" for N q
proof
  show "agent_inv N q s" if "agent_start q s" for s
    using that by (auto simp: agent_start_def session_start_def agent_inv_defs sent_events_def withDefaults_def)
  show "agent_inv N q t" if "agent_inv N q s" "agent_step N s t" for s t
    using that by (rule agent_step_inv)
qed

section \<open>Theorems\<close>


text \<open>The demonstration: two jobs under one limit, one from the backend and one from a monitor.\<close>

definition demo_limits :: Limits where
  "demo_limits = \<lparr>lm_MaxConcurrentJobs = 1, lm_MaxCycles = 0, lm_MinIntervalMS = 0, lm_MaxTTL = 0\<rparr>"

definition demo_start_env :: start_env where
  "demo_start_env = \<lparr>en_now = 0, en_trace = (\<lambda>_. Inr (V4 1)), en_sip = (\<lambda>_. Inr (V4 1)), en_show = (\<lambda>_. [])\<rparr>"

definition demo_sip_job :: "SipOptionsSpec" where
  "demo_sip_job = \<lparr>so_Target = ''h'', so_Port = 0, so_Transport = SIP_TRANSPORT_UDP, so_Family = ADDRESS_FAMILY_UNSPECIFIED,
    so_Cycles = 1, so_IntervalMs = 0, so_TimeoutMs = 0, so_Source = [], so_UserAgent = []\<rparr>"

definition demo_monitor :: pb_Monitor where
  "demo_monitor = \<lparr>mo_Id = ''m'', mo_IntervalS = 60, mo_Labels = [], mo_Spec = SipJob demo_sip_job\<rparr>"

definition demo_start :: StartJob where
  "demo_start = \<lparr>sj_JobId = ''j'', sj_Spec = SipJob demo_sip_job\<rparr>"

definition demo0 :: agent where "demo0 = session_start (withDefaults demo_limits) 0"
definition demo1 :: agent where
  "demo1 = on_message (AssignmentMsg \<lparr>as_Version = 1, as_Monitors = [demo_monitor]\<rparr>) demo0"
definition demo2 :: agent where
  "demo2 = demo1\<lparr>ag_starting := [\<lparr>st_caller = None, st_parent = 0, st_job = demo_start\<rparr>]\<rparr>"
definition demo3 :: agent where
  "demo3 = demo1\<lparr>ag_starting := [\<lparr>st_caller = None, st_parent = 0, st_job = demo_start\<rparr>,
    \<lparr>st_caller = Some 1, st_parent = 1, st_job = \<lparr>sj_JobId = ''mon:m'', sj_Spec = SipJob demo_sip_job\<rparr>\<rparr>]\<rparr>"
definition demo4 :: agent where
  "demo4 = dispatch demo_start_env 0 demo_start
    (demo3\<lparr>ag_starting := remove1 \<lparr>st_caller = None, st_parent = 0, st_job = demo_start\<rparr> (ag_starting demo3)\<rparr>)"
definition demo5 :: agent where
  "demo5 = dispatch demo_start_env 1 \<lparr>sj_JobId = ''mon:m'', sj_Spec = SipJob demo_sip_job\<rparr>
    (demo4\<lparr>ag_starting := remove1 \<lparr>st_caller = Some 1, st_parent = 1,
       st_job = \<lparr>sj_JobId = ''mon:m'', sj_Spec = SipJob demo_sip_job\<rparr>\<rparr> (ag_starting demo4)\<rparr>)"

lemmas demo_agent_eval = demo_limits_def demo_start_env_def demo_monitor_def demo_start_def demo0_def demo1_def demo2_def
  demo3_def demo4_def demo5_def session_start_def withDefaults_def on_message_def sched_apply_def stopLocked_def
  start_runners_def dispatch_def startSip_def launch_def jobs_add_def at_limit_def jobs_count_def fire_def
  jobs_has_def startJobFromMonitor_def monitorJobID_def monitorJobPrefix_def

lemma demo_agent_steps: "(agent_step 1)\<^sup>*\<^sup>* demo0 demo5"
proof -
  have "agent_step 1 demo0 demo1"
    unfolding demo1_def by (rule agent_step.message) (simp add: demo_agent_eval)
  moreover have "agent_step 1 demo1 demo2"
    by (rule agent_step.work) (use agent_work.admit [of demo1 None 0 demo_start] in \<open>simp add: demo_agent_eval\<close>)
  moreover have "agent_step 1 demo2 demo3"
    by (rule agent_step.work)
      (use agent_work.admit [of demo2 "Some 1" 1 "\<lparr>sj_JobId = ''mon:m'', sj_Spec = SipJob demo_sip_job\<rparr>"] in \<open>simp add: demo_agent_eval\<close>)
  moreover have "agent_step 1 demo3 demo4"
    unfolding demo4_def
    by (rule agent_step.work)
      (use agent_work.commit [of "\<lparr>st_caller = None, st_parent = 0, st_job = demo_start\<rparr>" demo3 demo_start_env] in \<open>simp add: demo3_def\<close>)
  moreover have "agent_step 1 demo4 demo5"
    unfolding demo5_def
    by (rule agent_step.work)
      (use agent_work.commit [of "\<lparr>st_caller = Some 1, st_parent = 1,
       st_job = \<lparr>sj_JobId = ''mon:m'', sj_Spec = SipJob demo_sip_job\<rparr>\<rparr>" demo4 demo_start_env] in \<open>simp add: demo_agent_eval\<close>)
  ultimately show ?thesis by (meson rtranclp.rtrancl_into_rtrancl rtranclp.rtrancl_refl)
qed

text \<open>The limit can be exceeded: the monitor and the backend both pass the test before either registers.\<close>

lemma job_limit_exceeded:
  "\<exists>s. (agent_step 1)\<^sup>*\<^sup>* (session_start (withDefaults demo_limits) 0) s \<and>
    int (jobs_count (ag_jobs s)) > lm_MaxConcurrentJobs (ag_limits s)"
  using demo_agent_steps by (intro exI [of _ demo5]) (simp add: demo_agent_eval)


end
