(* ===== verification/Agent_Theorems.thy ===== *)
theory Agent_Theorems
  imports Agent_Jobs
begin

text \<open>
  What the operations of the agent's sessions guarantee one by one: a job that ends frees only its own
  entry, an assignment replaces the schedule, monitors are staggered, a tick is tagged as a
  monitor's, and every SIP and DNS job ends with a terminal event.
\<close>

section \<open>Jobs under one id\<close>

text \<open>A job that ends takes back only its own entry: when its id was given to a newer job in the meantime
  (a replayed start, an assignment applied again), the newer job stays registered, and no other
  context than the ending job's own is cancelled.\<close>

theorem newer_job_survives:
  "map_of (ag_jobs (finish_job \<lparr>lj_ctx = ag_next s, lj_id = jid, lj_parent = p\<rparr>
      (launch p' jid (launch p jid s)))) jid = Some (ag_next s + 1) \<and>
   map_of (ag_jobs (finish_job j s)) k =
     (if k = lj_id j \<and> map_of (ag_jobs s) k = Some (lj_ctx j) then None else map_of (ag_jobs s) k) \<and>
   set (ag_done (finish_job j s)) = insert (lj_ctx j) (set (ag_done s))"
proof -
  have "map_of (jobs_remove jid (ag_next s) (jobs_add jid (ag_next s + 1) (jobs_add jid (ag_next s) (ag_jobs s)))) =
      (map_of (ag_jobs s))(jid \<mapsto> ag_next s + 1)"
    by (rule jobs.remove_replaced) simp
  moreover have "map_of (jobs_remove (lj_id j) (lj_ctx j) (ag_jobs s)) k =
     (if k = lj_id j \<and> map_of (ag_jobs s) k = Some (lj_ctx j) then None else map_of (ag_jobs s) k)"
    by (auto simp: jobs.lookup_remove)
  ultimately show ?thesis by (simp add: finish_job_def launch_def)
qed

section \<open>Assignments\<close>

lemma sched_apply_eq:
  assumes "\<not> (as_Version as \<noteq> 0 \<and> as_Version as = ag_version s)"
  shows "ag_version (sched_apply as s) = as_Version as"
    and "ag_done (sched_apply as s) = ag_done s @ ag_cancels s"
    and "ag_cancels (sched_apply as s) = map (\<lambda>i. ag_next s + i) [0..<length (as_Monitors as)]"
    and "ag_runners (sched_apply as s) = ag_runners s @
      map (\<lambda>i. \<lparr>ru_ctx = ag_next s + i, ru_pos = i, ru_count = length (as_Monitors as), ru_monitor = as_Monitors as ! i\<rparr>)
        [0..<length (as_Monitors as)]"
    and "ag_jobs (sched_apply as s) = ag_jobs s"
  using assms by (auto simp: sched_apply_def stopLocked_def start_runners_def Let_def)

text \<open>Applying an assignment of the version in force changes nothing. Any other assignment takes effect at
  once: every goroutine of the schedule before it is cancelled, one goroutine per monitor is started
  in the order of the assignment, each with a context of its own, and the running jobs stay registered.\<close>

theorem assignment_replaces_schedule:
  "if as_Version as \<noteq> 0 \<and> as_Version as = ag_version s then sched_apply as s = s
   else ag_version (sched_apply as s) = as_Version as \<and>
     set (ag_cancels s) \<subseteq> set (ag_done (sched_apply as s)) \<and>
     (\<exists>new. ag_runners (sched_apply as s) = ag_runners s @ new \<and> map ru_monitor new = as_Monitors as \<and>
       distinct (map ru_ctx new) \<and> map ru_ctx new = ag_cancels (sched_apply as s) \<and>
       map ru_pos new = [0..<length (as_Monitors as)]) \<and>
     ag_jobs (sched_apply as s) = ag_jobs s"
proof (cases "as_Version as \<noteq> 0 \<and> as_Version as = ag_version s")
  case True
  show ?thesis by (subst if_P [OF True]) (use True in \<open>auto simp: sched_apply_def\<close>)
next
  case False
  define new where "new = map (\<lambda>i. \<lparr>ru_ctx = ag_next s + i, ru_pos = i, ru_count = length (as_Monitors as),
      ru_monitor = as_Monitors as ! i\<rparr>) [0..<length (as_Monitors as)]"
  note eq = sched_apply_eq [OF False, folded new_def]
  have new: "map ru_monitor new = as_Monitors as"
    "map ru_ctx new = map (\<lambda>i. ag_next s + i) [0..<length (as_Monitors as)]"
    "map ru_pos new = [0..<length (as_Monitors as)]"
    by (simp_all add: new_def comp_def map_nth)
  have "distinct (map ru_ctx new)" unfolding new(2) by (simp add: distinct_map)
  with new show ?thesis
    by (subst if_not_P [OF False]) (auto simp: eq intro!: exI [of _ new])
qed

section \<open>Staggering\<close>

lemma monitor_offset_exact:
  assumes "0 \<le> interval" and "interval * int n < 2 ^ 63" and "i < n"
  shows "monitor_offset interval i n = interval * int i div int n"
proof (cases "n > 1")
  case True
  have "interval * int i \<le> interval * int n" using assms(1,3) by (intro mult_left_mono) auto
  with assms have small: "0 \<le> interval * int i" "interval * int i < 2 ^ 63" by auto
  have "sint (word_of_int p :: 64 word) = p" if "0 \<le> p" "p < 2 ^ 63" for p
    using that by (simp add: signed_of_int signed_take_bit_int_eq_self)
  from this [OF small] have "sint (word_of_int (interval * int i) :: 64 word) = interval * int i" .
  with True small show ?thesis by (simp add: monitor_offset_def)
next
  case False
  with assms(3) have "n = 1" "i = 0" by simp_all
  then show ?thesis by (simp add: monitor_offset_def)
qed

lemma div_strict_mono_step:
  fixes a b n :: int
  assumes "0 < n" and "a + n \<le> b"
  shows "a div n < b div n"
proof -
  have "a div n + 1 = (a + n) div n" using assms(1) by simp
  also have "\<dots> \<le> b div n" using assms by (intro zdiv_mono1) auto
  finally show ?thesis by simp
qed

text \<open>The monitors of an assignment that have the same interval are spread over it: each starts within one interval,
  a later one after an earlier one, and no two ever fire at the same moment. The product of the
  interval and the number of monitors must fit 64 bits, and the interval have a nanosecond for each.\<close>

theorem monitors_staggered:
  assumes "ru_pos r < ru_pos r'" and "ru_pos r' < n" and "ru_count r = n" and "ru_count r' = n"
    and "monitor_interval (ru_monitor r) = iv" and "monitor_interval (ru_monitor r') = iv"
    and "iv * int n < 2 ^ 63" and "int n \<le> iv"
  shows "0 \<le> fire_at r 0 \<and> fire_at r 0 < fire_at r' 0 \<and> fire_at r' 0 < iv \<and> fire_at r k \<noteq> fire_at r' k'"
proof -
  let ?o = "\<lambda>i. iv * int i div int n"
  have n: "0 < int n" "0 \<le> iv" using assms by auto
  have f: "fire_at r k = ?o (ru_pos r) + int k * iv" "fire_at r' k = ?o (ru_pos r') + int k * iv" for k
    using assms n by (simp_all add: fire_at_def monitor_offset_exact)
  have "iv * int (ru_pos r) + iv \<le> iv * int (ru_pos r')"
    using assms(1) n(2) mult_left_mono [of "int (ru_pos r) + 1" "int (ru_pos r')" iv] by (simp add: algebra_simps)
  then have less: "?o (ru_pos r) < ?o (ru_pos r')"
    using n(1) assms(8) by (intro div_strict_mono_step) auto
  have bound: "?o (ru_pos r') < iv"
    using assms(2,8) n by (intro div_less_of_less_mult) auto
  have low: "0 \<le> ?o (ru_pos r)" using n by (simp add: pos_imp_zdiv_nonneg_iff)
  have "?o (ru_pos r) + int k * iv \<noteq> ?o (ru_pos r') + int k' * iv"
  proof
    assume "?o (ru_pos r) + int k * iv = ?o (ru_pos r') + int k' * iv"
    then have "?o (ru_pos r) mod iv = ?o (ru_pos r') mod iv" by (metis mod_mult_self1)
    with less bound low show False by simp
  qed
  with f less bound low show ?thesis by simp
qed

theorem monitors_staggered_witness:
  "fire_at \<lparr>ru_ctx = 1, ru_pos = 0, ru_count = 2, ru_monitor = demo_monitor\<rparr> 3 \<noteq>
   fire_at \<lparr>ru_ctx = 2, ru_pos = 1, ru_count = 2, ru_monitor = demo_monitor\<rparr> 3"
  using monitors_staggered [of "\<lparr>ru_ctx = 1, ru_pos = 0, ru_count = 2, ru_monitor = demo_monitor\<rparr>"
      "\<lparr>ru_ctx = 2, ru_pos = 1, ru_count = 2, ru_monitor = demo_monitor\<rparr>" 2 "60 * Second" 3 3]
  by (simp add: monitor_interval_def demo_monitor_def)

section \<open>Ticks\<close>

text \<open>A tick of a monitor starts a job only when the previous one of that monitor is no longer registered; the
  job's id marks it as that monitor's, so that the backend can tell its events from those of an
  interactive run; a tick at the limit is refused with one error event and leaves the jobs alone.\<close>

theorem monitor_tick:
  assumes "fire r s = Some job"
  shows "map_of (ag_jobs s) (sj_JobId job) = None \<and> isMonitorJob (sj_JobId job) \<and>
    monitorIDOf (sj_JobId job) = mo_Id (ru_monitor r) \<and> sj_Spec job = mo_Spec (ru_monitor r) \<and>
    (at_limit s \<longrightarrow> ag_jobs (startJob V parent job s) = ag_jobs s \<and>
      map je_Event (sent_events (startJob V parent job s)) =
        map je_Event (sent_events s) @ [EvError CODE_LIMIT ''agent at job limit''])"
proof -
  have id: "sj_JobId job = monitorJobID (mo_Id (ru_monitor r))" "sj_Spec job = mo_Spec (ru_monitor r)"
      "map_of (ag_jobs s) (sj_JobId job) = None"
    using assms by (auto simp: fire_def jobs_has_def startJobFromMonitor_def split: if_splits job_spec.splits)
  show ?thesis using id by (simp add: startJob_def sendError_def Let_def)
qed

theorem monitor_tick_witness:
  "isMonitorJob (sj_JobId \<lparr>sj_JobId = ''mon:m'', sj_Spec = SipJob demo_sip_job\<rparr>)"
proof -
  have "fire \<lparr>ru_ctx = 1, ru_pos = 0, ru_count = 1, ru_monitor = demo_monitor\<rparr> demo1 =
      Some \<lparr>sj_JobId = ''mon:m'', sj_Spec = SipJob demo_sip_job\<rparr>"
    by (simp add: demo_agent_eval)
  from monitor_tick [OF this] show ?thesis by simp
qed

section \<open>The end of a job\<close>

text \<open>The terminal events among those a job sends.\<close>

definition terminals :: "(u64 \<Rightarrow> JobEvent) list \<Rightarrow> nat" where
  "terminals convs = length (filter (\<lambda>c. is_terminal (je_Event (c 0))) convs)"

lemma terminals_append [simp]: "terminals (xs @ ys) = terminals xs + terminals ys"
  by (simp add: terminals_def)

lemma fill_source_terminal [simp]: "is_terminal (je_Event (fill_source a e je)) = is_terminal (je_Event je)"
  by (auto simp: fill_source_def is_terminal_def split: job_event.splits)

lemma event_terminal [simp]:
  "is_terminal (je_Event (sipEventToProto a es jid n now ev)) \<longleftrightarrow> (\<exists>c. ev = SipFinished c) \<or> (\<exists>e. ev = SipFailed e)"
  "is_terminal (je_Event (dnsEventToProto ds jid n now dev)) \<longleftrightarrow> (\<exists>c. dev = DnsFinished c)"
  "is_terminal (je_Event (error_event now jid code msg n))"
    apply (cases ev; simp add: sipEventToProto_def is_terminal_def)
   apply (cases dev; simp add: dnsEventToProto_def is_terminal_def)
  apply (simp add: is_terminal_def error_event_def)
  done

lemma sip_loop_results:
  assumes "sip_loop E addr_str spec n st evs = Some r"
  shows "\<exists>rs. fst r = evs @ map SipResultDone rs"
proof (rule sip_loop.raw_induct [OF _ assms])
  fix loop E addr_str spec n st evs r
  assume IH: "\<And>E addr_str spec n st evs r. loop E addr_str spec n st evs = Some r \<Longrightarrow>
      \<exists>rs. fst r = evs @ map SipResultDone rs"
    and body: "(if ss_Cycles spec = 0 \<or> int n \<le> ss_Cycles spec then
       (let (res, st') = probe_cycle E addr_str spec n st; evs' = evs @ [SipResultDone res]
        in if ss_Cycles spec \<noteq> 0 \<and> int n \<ge> ss_Cycles spec then Some (evs', False)
           else if se_Done E n then Some (evs', True)
           else loop E addr_str spec (Suc n) st' evs')
     else Some (evs, False)) = Some r"
  obtain res st' where pc: "probe_cycle E addr_str spec n st = (res, st')" by (rule prod.exhaust)
  from body pc consider "fst r = evs" | "fst r = evs @ [SipResultDone res]"
    | "loop E addr_str spec (Suc n) st' (evs @ [SipResultDone res]) = Some r"
    by (auto simp: Let_def split: if_splits)
  then show "\<exists>rs. fst r = evs @ map SipResultDone rs"
  proof cases
    case 1
    then show ?thesis by (intro exI [of _ "[]"]) simp
  next
    case 2
    then show ?thesis by (intro exI [of _ "[res]"]) simp
  next
    case 3
    from IH [OF this] obtain rs where "fst r = (evs @ [SipResultDone res]) @ map SipResultDone rs" by blast
    then show ?thesis by (intro exI [of _ "res # rs"]) simp
  qed
qed

lemma sip_Run_shape:
  assumes "sip_Run E addr_str spec = Some (evs, err)"
  shows "(\<exists>t rs c. evs = SipStarted t # map SipResultDone rs @ [SipFinished c] \<and> err = None) \<or>
    (\<exists>e. evs = [SipFailed (SipLibrary e)] \<and> err = Some (SipLibrary e)) \<or>
    (\<exists>e. evs = [] \<and> err = Some e \<and> sip_normalize spec = Inl e)"
  using assms
  by (auto simp: sip_Run_def split: sum.splits option.splits dest!: sip_loop_results)

text \<open>(C24) Every SIP job that returns and every DNS job closes with a terminal event as its last. It is the only one,
  except that a SIP run whose library cannot be set up is reported twice: by the run itself and again
  by the agent.\<close>

theorem sip_and_dns_jobs_end:
  assumes "sip_Run E addr_str spec = Some run"
    and "dns_Run L HostClient c env cache order cancelled dspec = drun"
  shows "is_terminal (je_Event (last (sip_job addr_str err_str now jid eff run) n)) \<and>
    terminals (sip_job addr_str err_str now jid eff run) =
      (if \<exists>e. fst run = [SipFailed (SipLibrary e)] then 2 else 1) \<and>
    is_terminal (je_Event (last (dns_job derr dspec_str now jid drun) n)) \<and>
    terminals (dns_job derr dspec_str now jid drun) = 1"
proof -
  obtain evs err where run: "run = (evs, err)" by force
  have "terminals (map (\<lambda>r n. fill_source addr_str eff (sipEventToProto addr_str err_str jid n now (SipResultDone r))) rs) = 0"
    for rs by (simp add: terminals_def filter_empty_conv)
  with sip_Run_shape [OF assms(1) [unfolded run]]
  have sip: "is_terminal (je_Event (last (sip_job addr_str err_str now jid eff run) n)) \<and>
      terminals (sip_job addr_str err_str now jid eff run) = (if \<exists>e. fst run = [SipFailed (SipLibrary e)] then 2 else 1)"
    by (auto simp: run sip_job_def comp_def) (simp_all add: terminals_def)
  have "terminals (map (\<lambda>i n. dnsEventToProto derr jid n now (DnsResultDone (rs ! i))) is) = 0" for rs and "is" :: "nat list"
    by (simp add: terminals_def filter_empty_conv)
  then have "is_terminal (je_Event (last (dns_job derr dspec_str now jid drun) n)) \<and>
      terminals (dns_job derr dspec_str now jid drun) = 1"
    using assms(2)
    by (cases "dns_normalize (lb_ParseAddr L) (lb_String L) dspec")
      (auto simp: dns_job_def dns_Run_def Let_def comp_def terminals_def)
  with sip show ?thesis by simp
qed

theorem sip_and_dns_jobs_end_witness:
  "\<exists>run. sip_Run demo_sip_env (\<lambda>_. []) (demo_sip_spec\<lparr>ss_Target := NoAddr\<rparr>) = Some run \<and>
    terminals (sip_job (\<lambda>_. []) (\<lambda>_. []) 0 ''j'' NoAddr run) = 1"
proof -
  have "sip_Run demo_sip_env (\<lambda>_. []) (demo_sip_spec\<lparr>ss_Target := NoAddr\<rparr>) = Some ([], Some SipTargetRequired)"
    by (simp add: sip_Run_def sip_normalize_def IsValid_def)
  from this sip_and_dns_jobs_end [OF this refl] show ?thesis by simp
qed

end
