(* ===== verification/Auth_Session.thy ===== *)
theory Auth_Session
  imports Go_Strings Prober_Prelude
begin

text \<open>
  \<^verbatim>\<open>internal/auth/config.go\<close> and \<^verbatim>\<open>internal/auth/session.go\<close>: the configuration of the login and the signed
  session cookie. The text of a cookie is base64 without padding, modelled bit by bit; HMAC-SHA256
  and the JSON form of the two payloads are fields of \<open>auth_lib\<close>.
\<close>

section \<open>Base64 without padding\<close>

definition b64_alphabet :: string where
  "b64_alphabet = ''ABCDEFGHIJKLMNOPQRSTUVWXYZabcdefghijklmnopqrstuvwxyz0123456789-_''"

primrec bits_val :: "bool list \<Rightarrow> nat" where
  "bits_val [] = 0"
| "bits_val (b # bs) = (if b then 2 ^ length bs else 0) + bits_val bs"

definition sext_char :: "bool list \<Rightarrow> char" where "sext_char bs = b64_alphabet ! bits_val bs"

definition val_bits :: "nat \<Rightarrow> bool list" where
  "val_bits n = map (\<lambda>k. n div 2 ^ k mod 2 = 1) [5, 4, 3, 2, 1, 0]"

fun char_index :: "char \<Rightarrow> string \<Rightarrow> nat option" where
  "char_index c [] = None"
| "char_index c (d # ds) = (if c = d then Some 0 else map_option Suc (char_index c ds))"

definition sext_of :: "char \<Rightarrow> bool list option" where
  "sext_of c = map_option val_bits (char_index c b64_alphabet)"

fun bits8 :: "char \<Rightarrow> bool list" where
  "bits8 (Char b0 b1 b2 b3 b4 b5 b6 b7) = [b7, b6, b5, b4, b3, b2, b1, b0]"

fun octets :: "bool list \<Rightarrow> string" where
  "octets (b7 # b6 # b5 # b4 # b3 # b2 # b1 # b0 # bs) = Char b0 b1 b2 b3 b4 b5 b6 b7 # octets bs"
| "octets bs = []"

fun EncodeToString :: "string \<Rightarrow> string" where
  "EncodeToString (x # y # z # s) =
    (let bs = bits8 x @ bits8 y @ bits8 z
     in map sext_char [take 6 bs, take 6 (drop 6 bs), take 6 (drop 12 bs), drop 18 bs] @ EncodeToString s)"
| "EncodeToString [x, y] =
    (let bs = bits8 x @ bits8 y @ [False, False] in map sext_char [take 6 bs, take 6 (drop 6 bs), drop 12 bs])"
| "EncodeToString [x] =
    (let bs = bits8 x @ [False, False, False, False] in map sext_char [take 6 bs, drop 6 bs])"
| "EncodeToString [] = []"

fun quanta :: "bool list list \<Rightarrow> string option" where
  "quanta (a # b # c # d # r) = map_option (\<lambda>s. octets (a @ b @ c @ d) @ s) (quanta r)"
| "quanta [a, b, c] = Some (octets (a @ b @ c))"
| "quanta [a, b] = Some (octets (a @ b))"
| "quanta [a] = None"
| "quanta [] = Some []"

fun all_some :: "'a option list \<Rightarrow> 'a list option" where
  "all_some [] = Some []"
| "all_some (None # xs) = None"
| "all_some (Some x # xs) = map_option ((#) x) (all_some xs)"

text \<open>Line breaks are skipped, as Go's decoder does.\<close>

definition DecodeString :: "string \<Rightarrow> string option" where
  "DecodeString s = Option.bind (all_some (map sext_of (filter (\<lambda>c. c \<noteq> CHR 0x0A \<and> c \<noteq> CHR 0x0D) s))) quanta"

lemma char_index_nth: "distinct cs \<Longrightarrow> i < length cs \<Longrightarrow> char_index (cs ! i) cs = Some i"
proof (induction cs arbitrary: i)
  case Nil
  then show ?case by simp
next
  case (Cons c cs)
  then show ?case by (cases i) auto
qed

lemma b64_distinct: "distinct b64_alphabet" "length b64_alphabet = 64"
  by (simp_all add: b64_alphabet_def)

lemma sext_roundtrip: "length bs = 6 \<Longrightarrow> sext_of (sext_char bs) = Some bs"
proof -
  assume "length bs = 6"
  then obtain a b c d e f where bs: "bs = [a, b, c, d, e, f]"
    by (auto simp: length_Suc_conv numeral_eq_Suc)
  have "bits_val bs < 64" and v: "val_bits (bits_val bs) = bs"
    by (cases a; cases b; cases c; cases d; cases e; cases f; simp add: bs val_bits_def)+
  then have "char_index (sext_char bs) b64_alphabet = Some (bits_val bs)"
    using char_index_nth b64_distinct by (simp add: sext_char_def)
  with v show ?thesis by (simp add: sext_of_def)
qed

lemma sext_char_in: "length bs = 6 \<Longrightarrow> sext_char bs \<in> set b64_alphabet"
proof -
  assume a: "length bs = 6"
  have "char_index c cs = Some i \<Longrightarrow> c \<in> set cs" for c cs i
    by (induction cs arbitrary: i) (auto split: if_splits)
  then show ?thesis using sext_roundtrip [OF a] by (auto simp: sext_of_def)
qed

lemma length_bits8 [simp]: "length (bits8 c) = 8"
  by (cases c) simp

lemma octets_bits8 [simp]: "octets (bits8 c @ bs) = c # octets bs"
  by (cases c) simp

lemma Encode_alphabet: "set (EncodeToString s) \<subseteq> set b64_alphabet"
  by (induction s rule: EncodeToString.induct) (auto simp: Let_def sext_char_in)

lemma Encode_plain: "c \<in> set (EncodeToString s) \<Longrightarrow> c \<noteq> CHR ''.'' \<and> c \<noteq> CHR 0x0A \<and> c \<noteq> CHR 0x0D"
proof -
  assume "c \<in> set (EncodeToString s)"
  then have "c \<in> set b64_alphabet" using Encode_alphabet by blast
  then show ?thesis by (auto simp: b64_alphabet_def)
qed

lemma sext_six [simp]: "sext_of (sext_char [a, b, c, d, e, f]) = Some [a, b, c, d, e, f]"
  by (rule sext_roundtrip) simp

lemma quanta_encode: "Option.bind (all_some (map sext_of (EncodeToString s))) quanta = Some s"
proof (induction s rule: EncodeToString.induct)
  case (1 x y z s)
  then obtain vs where vs: "all_some (map sext_of (EncodeToString s)) = Some vs" "quanta vs = Some s"
    by (auto simp: bind_eq_Some_conv)
  then show ?case
    by (cases x; cases y; cases z) (simp add: Let_def eval_nat_numeral)
next
  case (2 x y)
  then show ?case by (cases x; cases y) (simp add: Let_def eval_nat_numeral)
next
  case (3 x)
  then show ?case by (cases x) (simp add: Let_def eval_nat_numeral)
qed simp

lemma Decode_Encode [simp]: "DecodeString (EncodeToString s) = Some s"
proof -
  have "filter (\<lambda>c. c \<noteq> CHR 0x0A \<and> c \<noteq> CHR 0x0D) (EncodeToString s) = EncodeToString s"
    by (rule filter_True) (use Encode_plain in blast)
  then show ?thesis by (simp add: DecodeString_def quanta_encode)
qed

lemma Encode_no_dot: "CHR ''.'' \<notin> set (EncodeToString s)"
  using Encode_plain by blast

lemma Encode_inj: "EncodeToString s = EncodeToString t \<longleftrightarrow> s = t"
  by (metis Decode_Encode option.inject)

section \<open>Configuration\<close>

definition LogoutLocal :: string where "LogoutLocal = ''local''"
definition LogoutProvider :: string where "LogoutProvider = ''provider''"

record auth_Config =
  au_Enabled :: bool
  au_Issuer :: string
  au_ClientID :: string
  au_ClientSecret :: string
  au_RedirectURL :: string
  au_Scopes :: "string list"
  au_AuthURL :: string
  au_TokenURL :: string
  au_JWKSURL :: string
  au_UserInfoURL :: string
  au_Timeout :: duration
  au_CookieSecret :: string
  au_CookieName :: string
  au_SecureCookie :: "bool option"
  au_SessionTTL :: duration
  au_Logout :: string
  au_PostLogoutRedirectURL :: string
  au_AllowedGroups :: "string list"
  au_GroupsClaim :: string

definition applyDefaults :: "auth_Config \<Rightarrow> auth_Config" where
  "applyDefaults c = c\<lparr>
    au_Scopes := (if au_Scopes c = [] then [''openid'', ''profile'', ''email''] else au_Scopes c),
    au_CookieName := (if au_CookieName c = [] then ''prober_session'' else au_CookieName c),
    au_SessionTTL := (if au_SessionTTL c = 0 then 12 * Hour else au_SessionTTL c),
    au_GroupsClaim := (if au_GroupsClaim c = [] then ''groups'' else au_GroupsClaim c),
    au_Logout := (if au_Logout c = [] then LogoutLocal else au_Logout c),
    au_SecureCookie := (if au_SecureCookie c = None then Some True else au_SecureCookie c),
    au_Timeout := (if au_Timeout c \<le> 0 then 10 * Second else au_Timeout c)\<rparr>"

datatype auth_config_error = IssuerRequired | ClientIDRequired | RedirectRequired | ShortSecret nat | BadLogout string | JWKSRequired

definition auth_validate :: "auth_Config \<Rightarrow> auth_config_error option" where
  "auth_validate c =
    (if au_Issuer c = [] \<and> au_AuthURL c = [] then Some IssuerRequired
     else if au_ClientID c = [] then Some ClientIDRequired
     else if au_RedirectURL c = [] then Some RedirectRequired
     else if au_CookieSecret c \<noteq> [] \<and> length (au_CookieSecret c) < 32 then Some (ShortSecret (length (au_CookieSecret c)))
     else if au_Logout c \<noteq> LogoutLocal \<and> au_Logout c \<noteq> LogoutProvider then Some (BadLogout (au_Logout c))
     else None)"

definition auth_Validate :: "auth_Config \<Rightarrow> auth_config_error option" where
  "auth_Validate c = auth_validate (applyDefaults c)"

section \<open>The session cookie\<close>

record User =
  ur_Subject :: string
  ur_Email :: string
  ur_Name :: string
  ur_Groups :: "string list"

record auth_session =
  sn_User :: User
  sn_Expires :: int
  sn_IDToken :: string

record flow =
  fw_State :: string
  fw_Nonce :: string
  fw_Verifier :: string
  fw_Return :: string

text \<open>
  \<open>al_hmac key message\<close> is HMAC-SHA256. \<open>al_put_session\<close>, \<open>al_get_session\<close> and the same for a flow are
  \<^verbatim>\<open>json.Marshal\<close> and \<^verbatim>\<open>json.Unmarshal\<close> at the two types. \<open>None\<close> is an error.
\<close>

record auth_lib =
  al_hmac :: "string \<Rightarrow> string \<Rightarrow> string"
  al_put_session :: "auth_session \<Rightarrow> string option"
  al_get_session :: "string \<Rightarrow> auth_session option"
  al_put_flow :: "flow \<Rightarrow> string option"
  al_get_flow :: "string \<Rightarrow> flow option"

definition sign :: "auth_lib \<Rightarrow> auth_Config \<Rightarrow> string \<Rightarrow> string" where
  "sign L cfg body = EncodeToString (al_hmac L (au_CookieSecret cfg) body)"

text \<open>The body and its signature, separated by a dot.\<close>

definition seal :: "auth_lib \<Rightarrow> auth_Config \<Rightarrow> string \<Rightarrow> string" where
  "seal L cfg payload = (let body = EncodeToString payload in body @ ''.'' @ sign L cfg body)"

definition encode :: "auth_lib \<Rightarrow> auth_Config \<Rightarrow> auth_session \<Rightarrow> string option" where
  "encode L cfg s = map_option (seal L cfg) (al_put_session L s)"

text \<open>\<^verbatim>\<open>strings.Cut\<close> at the first dot.\<close>

fun Cut :: "char \<Rightarrow> string \<Rightarrow> (string \<times> string) option" where
  "Cut d [] = None"
| "Cut d (c # s) = (if c = d then Some ([], s) else map_option (\<lambda>(a, b). (c # a, b)) (Cut d s))"

datatype session_error = Malformed_cookie | Bad_signature | Bad_encoding | Bad_payload | Session_expired

text \<open>\<open>now\<close> is in nanoseconds; \<^verbatim>\<open>Unix()\<close> rounds it down to seconds.\<close>

definition Unix :: "instant \<Rightarrow> int" where "Unix t = t div Second"

definition decode :: "auth_lib \<Rightarrow> auth_Config \<Rightarrow> instant \<Rightarrow> string \<Rightarrow> session_error + auth_session" where
  "decode L cfg now token =
    (case Cut (CHR ''.'') token of
       None \<Rightarrow> Inl Malformed_cookie
     | Some (body, sig) \<Rightarrow>
         if sig \<noteq> sign L cfg body then Inl Bad_signature
         else case DecodeString body of
             None \<Rightarrow> Inl Bad_encoding
           | Some payload \<Rightarrow>
               (case al_get_session L payload of
                  None \<Rightarrow> Inl Bad_payload
                | Some s \<Rightarrow> if sn_Expires s \<le> Unix now then Inl Session_expired else Inr s))"

definition decodeFlow :: "auth_lib \<Rightarrow> auth_Config \<Rightarrow> string \<Rightarrow> flow option" where
  "decodeFlow L cfg token =
    (case Cut (CHR ''.'') token of
       None \<Rightarrow> None
     | Some (body, sig) \<Rightarrow>
         if sig \<noteq> sign L cfg body then None
         else Option.bind (DecodeString body) (al_get_flow L))"

definition cookiePath :: "string \<Rightarrow> string" where
  "cookiePath base = (if base = [] then ''/'' else base @ ''/'')"

record cookie =
  ck_Name :: string
  ck_Value :: string
  ck_Path :: string
  ck_HttpOnly :: bool
  ck_Secure :: bool
  ck_SameSite :: string
  ck_MaxAge :: int

text \<open>Both are called after the defaults are filled in, so that the pointer is not nil.\<close>

definition setCookie :: "auth_Config \<Rightarrow> string \<Rightarrow> string \<Rightarrow> string \<Rightarrow> duration \<Rightarrow> cookie" where
  "setCookie cfg base name v ttl = \<lparr>ck_Name = name, ck_Value = v, ck_Path = cookiePath base, ck_HttpOnly = True,
    ck_Secure = the (au_SecureCookie cfg), ck_SameSite = ''Lax'', ck_MaxAge = go_div ttl Second\<rparr>"

definition clearCookie :: "auth_Config \<Rightarrow> string \<Rightarrow> string \<Rightarrow> cookie" where
  "clearCookie cfg base name = \<lparr>ck_Name = name, ck_Value = [], ck_Path = cookiePath base, ck_HttpOnly = True,
    ck_Secure = the (au_SecureCookie cfg), ck_SameSite = ''Lax'', ck_MaxAge = - 1\<rparr>"

section \<open>Lemmas\<close>

lemma Cut_append: "d \<notin> set a \<Longrightarrow> Cut d (a @ d # b) = Some (a, b)"
  by (induction a) auto

lemma Cut_Some: "Cut d s = Some (a, b) \<Longrightarrow> s = a @ d # b \<and> d \<notin> set a"
  by (induction s arbitrary: a b) (auto split: if_splits)

lemma Cut_seal: "Cut (CHR ''.'') (seal L cfg payload) = Some (EncodeToString payload, sign L cfg (EncodeToString payload))"
  by (simp add: seal_def Let_def Cut_append Encode_no_dot)

end
