(* ===== verification/Go_Json.thy ===== *)
theory Go_Json
  imports Prober_Prelude
begin

text \<open>
  The values of \<^verbatim>\<open>encoding/json\<close> as Go sees them in an \<^verbatim>\<open>any\<close>: an object is a map, so that the order of
  its fields is not significant; the numbers the program writes are integers or floats.
\<close>

datatype json = JNull | JBool bool | JInt int | JNum real | JStr string | JArr "json list" | JObj "(string \<times> json) list"

definition field :: "json \<Rightarrow> string \<Rightarrow> json option" where
  "field j k = (case j of JObj fs \<Rightarrow> map_of fs k | _ \<Rightarrow> None)"

lemma field_JObj [simp]: "field (JObj fs) k = map_of fs k"
  by (simp add: field_def)

end
