(* ===== verification/Go_Quote.thy ===== *)
theory Go_Quote
  imports Go_Strings
begin

text \<open>
  \<^verbatim>\<open>strconv.Quote\<close>, as the error texts and the log queries use it, and its reader. A string is a list of
  bytes; a byte from 0x80 on is copied, which is what Go does with the bytes of a printable character.
\<close>

definition hex_digit :: "nat \<Rightarrow> char" where "hex_digit n = ''0123456789abcdef'' ! n"

definition backslash :: char where "backslash = CHR 0x5C"

definition dquote :: char where "dquote = CHR 0x22"

definition quote_char :: "char \<Rightarrow> string" where
  "quote_char c =
    (if c = dquote \<or> c = backslash then [backslash, c]
     else if c = CHR 0x07 then [backslash, CHR ''a'']
     else if c = CHR 0x08 then [backslash, CHR ''b'']
     else if c = CHR 0x0C then [backslash, CHR ''f'']
     else if c = CHR 0x0A then [backslash, CHR ''n'']
     else if c = CHR 0x0D then [backslash, CHR ''r'']
     else if c = CHR 0x09 then [backslash, CHR ''t'']
     else if c = CHR 0x0B then [backslash, CHR ''v'']
     else let n = of_char c in
       if n < 32 \<or> n = 127 then [backslash, CHR ''x'', hex_digit (n div 16), hex_digit (n mod 16)] else [c])"

definition Quote :: "string \<Rightarrow> string" where "Quote s = dquote # concat (map quote_char s) @ [dquote]"

section \<open>Reading a quoted string\<close>

definition hex_val :: "char \<Rightarrow> nat option" where
  "hex_val c =
    (let n = of_char c :: nat in
     if 48 \<le> n \<and> n \<le> 57 then Some (n - 48) else if 97 \<le> n \<and> n \<le> 102 then Some (n - 87) else None)"

definition unescape :: "char \<Rightarrow> char option" where
  "unescape c =
    (if c = dquote \<or> c = backslash then Some c
     else map_of [(CHR ''a'', CHR 0x07), (CHR ''b'', CHR 0x08), (CHR ''f'', CHR 0x0C), (CHR ''n'', CHR 0x0A),
       (CHR ''r'', CHR 0x0D), (CHR ''t'', CHR 0x09), (CHR ''v'', CHR 0x0B)] c)"

text \<open>
  \<open>scan\<close> reads up to the closing quote: the value and the rest of the input. An escape it does not know, or
  the end of the input, is an error.
\<close>

definition push :: "char \<Rightarrow> (string \<times> string) option \<Rightarrow> (string \<times> string) option" where
  "push c r = map_option (\<lambda>(v, rest). (c # v, rest)) r"

fun scan :: "string \<Rightarrow> (string \<times> string) option" where
  "scan [] = None"
| "scan (c # s) =
    (if c = dquote then Some ([], s)
     else if c = backslash then
       (case s of
          [] \<Rightarrow> None
        | e # t \<Rightarrow>
            if e = CHR ''x'' then
              (case t of
                 h # l # r \<Rightarrow>
                   (case (hex_val h, hex_val l) of
                      (Some a, Some b) \<Rightarrow> push (char_of (16 * a + b)) (scan r)
                    | _ \<Rightarrow> None)
               | _ \<Rightarrow> None)
            else case unescape e of Some d \<Rightarrow> push d (scan t) | None \<Rightarrow> None)
     else push c (scan s))"

definition scan_quoted :: "string \<Rightarrow> (string \<times> string) option" where
  "scan_quoted s = (case s of c # t \<Rightarrow> if c = dquote then scan t else None | [] \<Rightarrow> None)"

lemma hex_val_digit: "n < 16 \<Longrightarrow> hex_val (hex_digit n) = Some n"
proof -
  assume "n < 16"
  then have "n \<in> set [0..<16]" by simp
  then have "n \<in> {0, 1, 2, 3, 4, 5, 6, 7, 8, 9, 10, 11, 12, 13, 14, 15}" unfolding upt_rec_numeral by (simp add: numeral_eq_Suc upt_rec)
  then show ?thesis by (auto simp: hex_val_def hex_digit_def)
qed

lemma quote_char_cases [case_names escape hex plain]:
  assumes "\<And>e. quote_char c = [backslash, e] \<Longrightarrow> e \<noteq> CHR ''x'' \<Longrightarrow> unescape e = Some c \<Longrightarrow> P"
    and "\<And>n. n = of_char c \<Longrightarrow> n < 256 \<Longrightarrow>
      quote_char c = [backslash, CHR ''x'', hex_digit (n div 16), hex_digit (n mod 16)] \<Longrightarrow> P"
    and "quote_char c = [c] \<Longrightarrow> c \<noteq> dquote \<Longrightarrow> c \<noteq> backslash \<Longrightarrow> P"
  shows P
proof (cases "quote_char c = [c]")
  case True
  moreover have "c \<noteq> dquote" "c \<noteq> backslash" using True by (auto simp: quote_char_def)
  ultimately show ?thesis using assms(3) by blast
next
  case False
  show ?thesis
  proof (cases "\<exists>a b. quote_char c = [backslash, CHR ''x'', a, b]")
    case True
    then show ?thesis using assms(2) [of "of_char c"] of_char_eq_iff
      by (auto simp: quote_char_def Let_def split: if_splits)
  next
    case no_hex: False
    with False have "\<exists>e. quote_char c = [backslash, e] \<and> e \<noteq> CHR ''x'' \<and> unescape e = Some c"
      by (auto simp: quote_char_def Let_def unescape_def backslash_def dquote_def split: if_splits)
    then show ?thesis using assms(1) by blast
  qed
qed

lemma scan_quote_char: "scan (quote_char c @ t) = push c (scan t)"
proof (cases c rule: quote_char_cases)
  case (escape e)
  then show ?thesis by (simp add: backslash_def dquote_def)
next
  case (hex n)
  have "char_of (16 * (n div 16) + n mod 16) = c" by (simp add: hex(1))
  with hex(2,3) show ?thesis by (simp add: hex_val_digit backslash_def dquote_def del: mult_div_mod_eq)
next
  case plain
  then show ?thesis by simp
qed

text \<open>Whatever follows a quoted string, the reader finds its end: no text can close the quotes early.\<close>

lemma scan_quotes: "scan (concat (map quote_char s) @ dquote # t) = Some (s, t)"
proof (induction s)
  case Nil
  then show ?case by simp
next
  case (Cons c s)
  then show ?case using scan_quote_char [of c "concat (map quote_char s) @ dquote # t"] by (simp add: push_def)
qed

lemma scan_Quote [simp]: "scan_quoted (Quote s @ t) = Some (s, t)"
  by (simp add: scan_quoted_def Quote_def scan_quotes)

lemma Quote_inj: "Quote s = Quote t \<longleftrightarrow> s = t"
  by (metis append_Nil2 option.inject prod.inject scan_Quote)

end
