(* ===== verification/Auth_Login.thy ===== *)
theory Auth_Login
  imports Auth_Session Go_Json Go_Quote Netip
begin

text \<open>
  \<^verbatim>\<open>internal/auth/auth.go\<close>: the login with the identity provider, the session of a request, and
  who is let in. What the OIDC and OAuth2 libraries do with the provider is a field of \<open>provider\<close>;
  \<open>None\<close> stands for a discovery that has not succeeded yet.
\<close>

section \<open>State\<close>

record id_token =
  it_Subject :: string
  it_Nonce :: string
  it_Claims :: "string + (string \<times> json) list"

text \<open>
  \<open>pv_AuthCodeURL state nonce verifier\<close>; \<open>pv_Exchange code verifier\<close> returns the raw id token of the
  response, if it has one; \<open>pv_Verify\<close> checks the signature, the issuer and the audience of a raw token.
\<close>

record provider =
  pv_AuthCodeURL :: "string \<Rightarrow> string \<Rightarrow> string \<Rightarrow> string"
  pv_Exchange :: "string \<Rightarrow> string \<Rightarrow> string + string option"
  pv_Verify :: "string \<Rightarrow> string + id_token"
  pv_logoutURL :: string

record Auth =
  at_cfg :: auth_Config
  at_base :: string
  at_provider :: "provider option"

text \<open>
  \<^verbatim>\<open>New\<close>: \<open>bytes\<close> are the random bytes of the secret used when none is configured; \<open>byhand\<close> is the provider made from
  the configured endpoints. \<^verbatim>\<open>randString\<close> is the text of 32 random bytes.
\<close>

definition randString :: "string \<Rightarrow> string" where "randString bytes = EncodeToString bytes"

definition auth_New :: "auth_Config \<Rightarrow> string \<Rightarrow> string \<Rightarrow> provider \<Rightarrow> auth_config_error + Auth" where
  "auth_New cfg base bytes byhand =
    (let cfg = applyDefaults cfg
     in case auth_validate cfg of
          Some e \<Rightarrow> Inl e
        | None \<Rightarrow>
            let cfg = (if au_CookieSecret cfg = [] then cfg\<lparr>au_CookieSecret := randString bytes\<rparr> else cfg)
            in if au_AuthURL cfg \<noteq> [] then
                 (if au_JWKSURL cfg = [] then Inl JWKSRequired
                  else Inr \<lparr>at_cfg = cfg, at_base = base, at_provider = Some (byhand\<lparr>pv_logoutURL := []\<rparr>)\<rparr>)
               else Inr \<lparr>at_cfg = cfg, at_base = base, at_provider = None\<rparr>)"

definition setProvider :: "provider \<Rightarrow> Auth \<Rightarrow> Auth" where
  "setProvider p a = a\<lparr>at_provider := Some p\<rparr>"

definition Ready :: "Auth \<Rightarrow> bool" where "Ready a = (at_provider a \<noteq> None)"

text \<open>
  \<^verbatim>\<open>tryDiscover\<close>: \<open>NewProvider\<close> is what the OIDC library makes of the issuer's document, an error or the provider and, when
  its other claims read, the logout endpoint among them.
\<close>

type_synonym discovery = "string \<Rightarrow> string + provider \<times> string option"

definition tryDiscover :: "discovery \<Rightarrow> Auth \<Rightarrow> string option \<times> Auth" where
  "tryDiscover NewProvider a =
    (case NewProvider (au_Issuer (at_cfg a)) of
       Inl e \<Rightarrow> (Some (''OIDC discovery on '' @ au_Issuer (at_cfg a) @ '': '' @ e), a)
     | Inr (p, claims) \<Rightarrow>
         let logout = (case claims of Some endSession \<Rightarrow> endSession | None \<Rightarrow> [])
         in (None, setProvider (p\<lparr>pv_logoutURL := logout\<rparr>) a))"

text \<open>
  \<^verbatim>\<open>discover\<close>: the attempts in order, as many as the context lets happen; the result is the waits in between and what
  signing in has then.
\<close>

definition discoveryRetryMin :: duration where "discoveryRetryMin = 2 * Second"
definition discoveryRetryMax :: duration where "discoveryRetryMax = 30 * Second"

fun discover :: "duration \<Rightarrow> discovery list \<Rightarrow> Auth \<Rightarrow> duration list \<times> Auth" where
  "discover wait [] a = ([], a)"
| "discover wait (N # rest) a =
    (case tryDiscover N a of
       (None, a) \<Rightarrow> ([], a)
     | (Some e, a) \<Rightarrow>
         let (ws, a) = discover (if 2 * wait > discoveryRetryMax then discoveryRetryMax else 2 * wait) rest a in (wait # ws, a))"

section \<open>Requests and responses\<close>

record http_req =
  hq_cookie :: "string \<Rightarrow> string option"
  hq_query :: "string \<Rightarrow> string"
  hq_id :: string

record http_resp =
  hr_Status :: nat
  hr_Location :: "string option"
  hr_Body :: json
  hr_Cookies :: "cookie list"

definition plain :: "nat \<Rightarrow> json \<Rightarrow> http_resp" where
  "plain code body = \<lparr>hr_Status = code, hr_Location = None, hr_Body = body, hr_Cookies = []\<rparr>"

definition stateCookie :: string where "stateCookie = ''prober_oidc''"

definition notReady :: http_resp where
  "notReady = plain 503 (JObj [(''error'', JStr (''the identity provider is not reachable, so signing in is not possible yet '' @
    [CHR 0xE2, CHR 0x80, CHR 0x94] @ '' this will clear by itself when it answers; sessions already signed in are unaffected''))])"

text \<open>A 5xx withholds its cause and names the request.\<close>

definition fail :: "http_req \<Rightarrow> nat \<Rightarrow> string \<Rightarrow> http_resp" where
  "fail r code err =
    (if code \<ge> 500 then plain code (JObj [(''error'', JStr ''internal error''), (''request_id'', JStr (hq_id r))])
     else plain code (JObj [(''error'', JStr err)]))"

definition unauthorized :: "Auth \<Rightarrow> http_resp" where
  "unauthorized a = plain 401 (JObj [(''error'', JStr ''not authenticated''), (''login_url'', JStr (at_base a @ ''/api/auth/login''))])"

definition with_cookies :: "cookie list \<Rightarrow> http_resp \<Rightarrow> http_resp" where
  "with_cookies cs r = r\<lparr>hr_Cookies := cs @ hr_Cookies r\<rparr>"

section \<open>Who the user is\<close>

definition str_of :: "json option \<Rightarrow> string" where
  "str_of v = (case v of Some (JStr s) \<Rightarrow> s | _ \<Rightarrow> [])"

definition asStrings :: "json \<Rightarrow> string list" where
  "asStrings v =
    (case v of
       JArr xs \<Rightarrow> concat (map (\<lambda>x. case x of JStr s \<Rightarrow> [s] | _ \<Rightarrow> []) xs)
     | JObj fs \<Rightarrow> sort (remdups (map fst fs))
     | JStr s \<Rightarrow> if s = [] then [] else [s]
     | _ \<Rightarrow> [])"

fun walk :: "json \<Rightarrow> string list \<Rightarrow> json option" where
  "walk cur [] = Some cur"
| "walk cur (part # parts) = (case field cur part of None \<Rightarrow> None | Some v \<Rightarrow> walk v parts)"

definition claimValues :: "(string \<times> json) list \<Rightarrow> string \<Rightarrow> string list" where
  "claimValues claims path =
    (if path = [] then []
     else case map_of claims path of
            Some v \<Rightarrow> asStrings v
          | None \<Rightarrow> (case walk (JObj claims) (split_on (CHR ''.'') path) of Some v \<Rightarrow> asStrings v | None \<Rightarrow> []))"

definition userFrom :: "auth_Config \<Rightarrow> id_token \<Rightarrow> string + User" where
  "userFrom cfg t =
    (case it_Claims t of
       Inl e \<Rightarrow> Inl (''id_token claims: '' @ e)
     | Inr claims \<Rightarrow>
         let email = str_of (map_of claims ''email'');
             name = str_of (map_of claims ''name'');
             name = (if name = [] then str_of (map_of claims ''preferred_username'') else name);
             name = (if name = [] then email else name)
         in Inr \<lparr>ur_Subject = it_Subject t, ur_Email = email, ur_Name = name, ur_Groups = claimValues claims (au_GroupsClaim cfg)\<rparr>)"

text \<open>\<open>None\<close> lets the user in. A list of strings is printed by \<^verbatim>\<open>%v\<close> in brackets, separated by spaces.\<close>

definition print_list :: "string list \<Rightarrow> string" where "print_list xs = ''['' @ join_with (CHR '' '') xs @ '']''"

definition authorize :: "auth_Config \<Rightarrow> User \<Rightarrow> string option" where
  "authorize cfg u =
    (if au_AllowedGroups cfg = [] \<or> (\<exists>g \<in> set (ur_Groups u). g \<in> set (au_AllowedGroups cfg)) then None
     else let who = (if ur_Email u = [] then ur_Subject u else ur_Email u);
              found = (if ur_Groups u = [] then ''no groups at all'' else ''groups '' @ print_list (ur_Groups u))
          in Some (''account '' @ Quote who @ '' has '' @ found @ '' from claim '' @ Quote (au_GroupsClaim cfg) @
            '', and none of them are in allowed_groups '' @ print_list (au_AllowedGroups cfg)))"

section \<open>Login\<close>

definition safeReturn :: "string \<Rightarrow> string \<Rightarrow> string" where
  "safeReturn base p =
    (if p = [] \<or> \<not> has_prefix p ''/'' \<or> has_prefix p ''//'' then ''/''
     else if base \<noteq> [] then
       (if p = base then ''/''
        else case CutPrefix p (base @ ''/'') of Some after \<Rightarrow> ''/'' @ after | None \<Rightarrow> p)
     else p)"

text \<open>\<open>state\<close>, \<open>nonce\<close> and \<open>verifier\<close> are the random strings drawn for this login.\<close>

definition login_flow :: "Auth \<Rightarrow> http_req \<Rightarrow> string \<Rightarrow> string \<Rightarrow> string \<Rightarrow> flow" where
  "login_flow a r state nonce verifier =
    \<lparr>fw_State = state, fw_Nonce = nonce, fw_Verifier = verifier, fw_Return = safeReturn (at_base a) (hq_query r ''return_to'')\<rparr>"

definition login :: "auth_lib \<Rightarrow> Auth \<Rightarrow> http_req \<Rightarrow> string \<Rightarrow> string \<Rightarrow> string \<Rightarrow> http_resp" where
  "login L a r state nonce verifier =
    (case at_provider a of
       None \<Rightarrow> notReady
     | Some p \<Rightarrow>
         let f = login_flow a r state nonce verifier
         in case al_put_flow L f of
              None \<Rightarrow> fail r 500 ''json: error''
            | Some payload \<Rightarrow>
                \<lparr>hr_Status = 302, hr_Location = Some (pv_AuthCodeURL p (fw_State f) (fw_Nonce f) (fw_Verifier f)), hr_Body = JNull,
                 hr_Cookies = [setCookie (at_cfg a) (at_base a) stateCookie (seal L (at_cfg a) payload) (10 * Minute)]\<rparr>)"

text \<open>
  The checks of \<^verbatim>\<open>callback\<close> up to the user who is logged in: the flow of the state cookie, the state of
  the query, the exchange of the code, the id token and its nonce, and the authorisation.
\<close>

definition callback_user :: "auth_lib \<Rightarrow> Auth \<Rightarrow> provider \<Rightarrow> http_req \<Rightarrow> string \<Rightarrow> (nat \<times> string) + (User \<times> flow \<times> string)" where
  "callback_user L a p r token =
    (case decodeFlow L (at_cfg a) token of
       None \<Rightarrow> Inl (400, ''bad login state'')
     | Some f \<Rightarrow>
         if hq_query r ''state'' \<noteq> fw_State f then Inl (400, ''state mismatch'')
         else case pv_Exchange p (hq_query r ''code'') (fw_Verifier f) of
             Inl e \<Rightarrow> Inl (500, ''token exchange: '' @ e)
           | Inr None \<Rightarrow> Inl (500, ''provider returned no id_token: it is OAuth2, not OIDC'')
           | Inr (Some raw) \<Rightarrow>
               (case pv_Verify p raw of
                  Inl e \<Rightarrow> Inl (403, ''id_token: '' @ e)
                | Inr t \<Rightarrow>
                    if it_Nonce t \<noteq> fw_Nonce f then Inl (403, ''nonce mismatch'')
                    else case userFrom (at_cfg a) t of
                        Inl e \<Rightarrow> Inl (403, e)
                      | Inr u \<Rightarrow> (case authorize (at_cfg a) u of None \<Rightarrow> Inr (u, f, raw) | Some e \<Rightarrow> Inl (403, e))))"

definition new_session :: "auth_Config \<Rightarrow> instant \<Rightarrow> User \<Rightarrow> string \<Rightarrow> auth_session" where
  "new_session cfg now u raw = \<lparr>sn_User = u, sn_Expires = Unix (now + au_SessionTTL cfg),
    sn_IDToken = (if au_Logout cfg = LogoutProvider then raw else [])\<rparr>"

definition callback :: "auth_lib \<Rightarrow> Auth \<Rightarrow> instant \<Rightarrow> http_req \<Rightarrow> http_resp" where
  "callback L a now r =
    (case at_provider a of
       None \<Rightarrow> notReady
     | Some p \<Rightarrow>
         if hq_query r ''error'' \<noteq> [] then fail r 403 (''provider refused: '' @ hq_query r ''error'' @ '': '' @ hq_query r ''error_description'')
         else case hq_cookie r stateCookie of
             None \<Rightarrow> fail r 400 ''no login in progress (cookie missing or expired)''
           | Some token \<Rightarrow>
               with_cookies [clearCookie (at_cfg a) (at_base a) stateCookie]
                 (case callback_user L a p r token of
                    Inl (code, e) \<Rightarrow> fail r code e
                  | Inr (u, f, raw) \<Rightarrow>
                      (case encode L (at_cfg a) (new_session (at_cfg a) now u raw) of
                         None \<Rightarrow> fail r 500 ''json: error''
                       | Some tok \<Rightarrow>
                           \<lparr>hr_Status = 302, hr_Location = Some (at_base a @ fw_Return f), hr_Body = JNull,
                            hr_Cookies = [setCookie (at_cfg a) (at_base a) (au_CookieName (at_cfg a)) tok (au_SessionTTL (at_cfg a))]\<rparr>)))"

section \<open>Sessions\<close>

definition sessionFull :: "auth_lib \<Rightarrow> Auth \<Rightarrow> instant \<Rightarrow> http_req \<Rightarrow> auth_session option" where
  "sessionFull L a now r =
    (case hq_cookie r (au_CookieName (at_cfg a)) of
       None \<Rightarrow> None
     | Some v \<Rightarrow> (case decode L (at_cfg a) now v of Inr s \<Rightarrow> Some s | Inl _ \<Rightarrow> None))"

definition session_user :: "auth_lib \<Rightarrow> Auth \<Rightarrow> instant \<Rightarrow> http_req \<Rightarrow> User option" where
  "session_user L a now r = map_option sn_User (sessionFull L a now r)"

text \<open>\<open>next\<close> is the handler behind the middleware, given the user.\<close>

definition Middleware :: "auth_lib \<Rightarrow> Auth \<Rightarrow> instant \<Rightarrow> (User \<Rightarrow> http_resp) \<Rightarrow> http_req \<Rightarrow> http_resp" where
  "Middleware L a now handler r =
    (case session_user L a now r of
       None \<Rightarrow>
         with_cookies (if hq_cookie r (au_CookieName (at_cfg a)) \<noteq> None
                       then [clearCookie (at_cfg a) (at_base a) (au_CookieName (at_cfg a))] else []) (unauthorized a)
     | Some u \<Rightarrow> handler u)"

definition user_json :: "User \<Rightarrow> json" where
  "user_json u = JObj ([(''sub'', JStr (ur_Subject u))] @
    (if ur_Email u = [] then [] else [(''email'', JStr (ur_Email u))]) @
    (if ur_Name u = [] then [] else [(''name'', JStr (ur_Name u))]) @
    (if ur_Groups u = [] then [] else [(''groups'', JArr (map JStr (ur_Groups u)))]))"

definition auth_me :: "auth_lib \<Rightarrow> Auth \<Rightarrow> instant \<Rightarrow> http_req \<Rightarrow> http_resp" where
  "auth_me L a now r = (case session_user L a now r of None \<Rightarrow> unauthorized a | Some u \<Rightarrow> plain 200 (user_json u))"

text \<open>
  \<^verbatim>\<open>logout\<close>: \<open>with_query\<close> parses the provider's logout URL and sets query parameters on it; \<open>None\<close> when
  the URL does not parse.
\<close>

definition logout :: "auth_lib \<Rightarrow> (string \<Rightarrow> (string \<times> string) list \<Rightarrow> string option) \<Rightarrow> Auth \<Rightarrow> instant \<Rightarrow> http_req \<Rightarrow> http_resp" where
  "logout L with_query a now r =
    (let url = (case at_provider a of Some p \<Rightarrow> pv_logoutURL p | None \<Rightarrow> []);
         out = (case sessionFull L a now r of
                  Some s \<Rightarrow>
                    if au_Logout (at_cfg a) = LogoutProvider \<and> url \<noteq> [] then
                      (case with_query url
                         ((if sn_IDToken s \<noteq> [] then [(''id_token_hint'', sn_IDToken s)] else []) @
                          [(''client_id'', au_ClientID (at_cfg a))] @
                          (if au_PostLogoutRedirectURL (at_cfg a) \<noteq> []
                           then [(''post_logout_redirect_uri'', au_PostLogoutRedirectURL (at_cfg a))] else [])) of
                         Some u \<Rightarrow> [(''provider_logout_url'', JStr u)]
                       | None \<Rightarrow> [])
                    else []
                | None \<Rightarrow> [])
     in with_cookies [clearCookie (at_cfg a) (at_base a) (au_CookieName (at_cfg a))] (plain 200 (JObj out)))"

end
