(* ===== verification/Auth_Theorems.thy ===== *)
theory Auth_Theorems
  imports Auth_Login
begin

text \<open>
  What the login guarantees: a request is let in only with a session that this server gave to a user
  the identity provider vouched for; where a login returns to; and who is authorised.
\<close>

section \<open>What a cookie can say\<close>

lemma decode_exact:
  "decode L cfg now token = Inr s \<longleftrightarrow>
    (\<exists>body payload. CHR ''.'' \<notin> set body \<and> token = body @ CHR ''.'' # sign L cfg body \<and>
      DecodeString body = Some payload \<and> al_get_session L payload = Some s \<and> Unix now < sn_Expires s)"
proof
  assume "decode L cfg now token = Inr s"
  then obtain body sig payload where "Cut (CHR ''.'') token = Some (body, sig)" "sig = sign L cfg body"
      "DecodeString body = Some payload" "al_get_session L payload = Some s" "Unix now < sn_Expires s"
    by (auto simp: decode_def split: option.splits if_splits)
  then show "\<exists>body payload. CHR ''.'' \<notin> set body \<and> token = body @ CHR ''.'' # sign L cfg body \<and>
      DecodeString body = Some payload \<and> al_get_session L payload = Some s \<and> Unix now < sn_Expires s"
    using Cut_Some by blast
qed (auto simp: decode_def Cut_append)

lemma decodeFlow_exact:
  "decodeFlow L cfg token = Some f \<longleftrightarrow>
    (\<exists>body payload. CHR ''.'' \<notin> set body \<and> token = body @ CHR ''.'' # sign L cfg body \<and>
      DecodeString body = Some payload \<and> al_get_flow L payload = Some f)"
proof
  assume "decodeFlow L cfg token = Some f"
  then obtain body sig where "Cut (CHR ''.'') token = Some (body, sig)" "sig = sign L cfg body"
      "Option.bind (DecodeString body) (al_get_flow L) = Some f"
    by (auto simp: decodeFlow_def split: option.splits if_splits)
  then show "\<exists>body payload. CHR ''.'' \<notin> set body \<and> token = body @ CHR ''.'' # sign L cfg body \<and>
      DecodeString body = Some payload \<and> al_get_flow L payload = Some f"
    using Cut_Some by (fastforce simp: bind_eq_Some_conv)
qed (auto simp: decodeFlow_def Cut_append)

lemma decode_seal:
  "decode L cfg now (seal L cfg payload) = Inr s \<longleftrightarrow> al_get_session L payload = Some s \<and> Unix now < sn_Expires s"
  by (auto simp: decode_def Cut_seal split: option.splits if_splits)

lemma decodeFlow_seal: "decodeFlow L cfg (seal L cfg payload) = al_get_flow L payload"
  by (simp add: decodeFlow_def Cut_seal)

lemma decode_Nil [simp]: "decode L cfg now [] = Inl Malformed_cookie" "decodeFlow L cfg [] = None"
  by (simp_all add: decode_def decodeFlow_def)

lemma Unix_nonneg: "0 \<le> t \<Longrightarrow> 0 \<le> Unix t"
  by (simp add: Unix_def)

lemma Unix_less: "Unix t < Unix u \<Longrightarrow> t < u"
proof (rule ccontr)
  assume "Unix t < Unix u" and "\<not> t < u"
  then have "u div Second \<le> t div Second" by (intro zdiv_mono1) simp_all
  with \<open>Unix t < Unix u\<close> show False by (simp add: Unix_def)
qed

section \<open>The server and its clients\<close>

definition zero_flow :: flow where
  "zero_flow = \<lparr>fw_State = [], fw_Nonce = [], fw_Verifier = [], fw_Return = []\<rparr>"

text \<open>
  What is assumed of \<^verbatim>\<open>encoding/json\<close>: a value is read back; and since the two payloads have no field in
  common, either of them read as the other gives zero values.
\<close>

definition json_codec :: "auth_lib \<Rightarrow> bool" where
  "json_codec L =
    ((\<forall>s p. al_put_session L s = Some p \<longrightarrow> al_get_session L p = Some s) \<and>
     (\<forall>f p. al_put_flow L f = Some p \<longrightarrow> al_get_flow L p = Some f) \<and>
     (\<forall>f p s. al_put_flow L f = Some p \<and> al_get_session L p = Some s \<longrightarrow> sn_Expires s = 0) \<and>
     (\<forall>s p f. al_put_session L s = Some p \<and> al_get_flow L p = Some f \<longrightarrow> f = zero_flow))"

record login_log =
  lg_at :: instant
  lg_user :: User
  lg_flow :: flow
  lg_raw :: string

record auth_sys =
  ax_auth :: Auth
  ax_now :: instant
  ax_issued :: "string list"
  ax_flows :: "flow list"
  ax_logins :: "login_log list"
  ax_seen :: "(instant \<times> User) list"

text \<open>A client may send any cookie, except that it cannot sign: a correctly signed one was issued.\<close>

definition presentable :: "auth_lib \<Rightarrow> auth_sys \<Rightarrow> string \<Rightarrow> bool" where
  "presentable L x token =
    (\<forall>body. CHR ''.'' \<notin> set body \<and> token = body @ CHR ''.'' # sign L (at_cfg (ax_auth x)) body \<longrightarrow> token \<in> set (ax_issued x))"

text \<open>The login a callback completes, if it does.\<close>

definition callback_login :: "auth_lib \<Rightarrow> Auth \<Rightarrow> instant \<Rightarrow> http_req \<Rightarrow> login_log option" where
  "callback_login L a now r =
    (case at_provider a of
       None \<Rightarrow> None
     | Some p \<Rightarrow>
         if hq_query r ''error'' \<noteq> [] then None
         else case hq_cookie r stateCookie of
             None \<Rightarrow> None
           | Some token \<Rightarrow>
               (case callback_user L a p r token of
                  Inl _ \<Rightarrow> None
                | Inr (u, f, raw) \<Rightarrow> Some \<lparr>lg_at = now, lg_user = u, lg_flow = f, lg_raw = raw\<rparr>))"

definition issue :: "http_resp \<Rightarrow> auth_sys \<Rightarrow> auth_sys" where
  "issue resp x = x\<lparr>ax_issued := ax_issued x @ map ck_Value (hr_Cookies resp)\<rparr>"

text \<open>Requests to the server in any order; \<open>P\<close> is the provider that discovery finds.\<close>

inductive auth_step :: "auth_lib \<Rightarrow> provider \<Rightarrow> auth_sys \<Rightarrow> auth_sys \<Rightarrow> bool" for L P where
  discovered: "auth_step L P x (x\<lparr>ax_auth := setProvider P (ax_auth x)\<rparr>)"
| tick: "ax_now x \<le> now \<Longrightarrow> auth_step L P x (x\<lparr>ax_now := now\<rparr>)"
| login: "auth_step L P x (issue (login L (ax_auth x) r st n v) (x\<lparr>ax_flows := ax_flows x @ [login_flow (ax_auth x) r st n v]\<rparr>))"
| callback: "(\<And>token. hq_cookie r stateCookie = Some token \<Longrightarrow> presentable L x token) \<Longrightarrow>
    auth_step L P x (issue (callback L (ax_auth x) (ax_now x) r)
      (x\<lparr>ax_logins := ax_logins x @ (case callback_login L (ax_auth x) (ax_now x) r of None \<Rightarrow> [] | Some l \<Rightarrow> [l])\<rparr>))"
| request: "\<lbrakk>\<And>token. hq_cookie r (au_CookieName (at_cfg (ax_auth x))) = Some token \<Longrightarrow> presentable L x token;
     session_user L (ax_auth x) (ax_now x) r = Some u\<rbrakk> \<Longrightarrow>
    auth_step L P x (x\<lparr>ax_seen := ax_seen x @ [(ax_now x, u)]\<rparr>)"

definition auth_start :: "auth_Config \<Rightarrow> provider \<Rightarrow> auth_sys \<Rightarrow> bool" where
  "auth_start cfg P x = (at_cfg (ax_auth x) = cfg \<and> at_provider (ax_auth x) \<in> {None, Some P} \<and> 0 \<le> ax_now x \<and>
    ax_issued x = [] \<and> ax_flows x = [] \<and> ax_logins x = [] \<and> ax_seen x = [])"

text \<open>A login that the provider has vouched for, and that began here.\<close>

definition vouched :: "auth_Config \<Rightarrow> provider \<Rightarrow> flow list \<Rightarrow> login_log \<Rightarrow> bool" where
  "vouched cfg P flows l =
    ((lg_flow l \<in> set flows \<or> lg_flow l = zero_flow) \<and> authorize cfg (lg_user l) = None \<and>
     (\<exists>code t. pv_Exchange P code (fw_Verifier (lg_flow l)) = Inr (Some (lg_raw l)) \<and> pv_Verify P (lg_raw l) = Inr t \<and>
        it_Nonce t = fw_Nonce (lg_flow l) \<and> userFrom cfg t = Inr (lg_user l)))"

definition login_session :: "auth_Config \<Rightarrow> login_log \<Rightarrow> auth_session" where
  "login_session cfg l = new_session cfg (lg_at l) (lg_user l) (lg_raw l)"

text \<open>Every cookie issued is empty, seals a flow that was begun, or seals the session of a login.\<close>

definition issued_ok :: "auth_lib \<Rightarrow> auth_Config \<Rightarrow> flow list \<Rightarrow> login_log list \<Rightarrow> string \<Rightarrow> bool" where
  "issued_ok L cfg flows logins token = (token = [] \<or>
    (\<exists>f \<in> set flows. \<exists>payload. al_put_flow L f = Some payload \<and> token = seal L cfg payload) \<or>
    (\<exists>l \<in> set logins. \<exists>payload. al_put_session L (login_session cfg l) = Some payload \<and> token = seal L cfg payload))"

lemma issued_ok_mono: "issued_ok L cfg fs ls token \<Longrightarrow> issued_ok L cfg (fs @ gs) (ls @ ms) token"
  by (auto simp: issued_ok_def)

definition auth_inv :: "auth_lib \<Rightarrow> auth_Config \<Rightarrow> provider \<Rightarrow> auth_sys \<Rightarrow> bool" where
  "auth_inv L cfg P x =
    (at_cfg (ax_auth x) = cfg \<and> at_provider (ax_auth x) \<in> {None, Some P} \<and> 0 \<le> ax_now x \<and>
     (\<forall>token \<in> set (ax_issued x). issued_ok L cfg (ax_flows x) (ax_logins x) token) \<and>
     (\<forall>l \<in> set (ax_logins x). lg_at l \<le> ax_now x \<and> vouched cfg P (ax_flows x) l) \<and>
     (\<forall>(t, u) \<in> set (ax_seen x). \<exists>l \<in> set (ax_logins x). lg_user l = u \<and> lg_at l \<le> t \<and>
        t < lg_at l + au_SessionTTL cfg))"

lemma auth_inv_start: "auth_start cfg P x \<Longrightarrow> auth_inv L cfg P x"
  by (simp add: auth_start_def auth_inv_def)

lemma vouched_mono: "vouched cfg P fs l \<Longrightarrow> vouched cfg P (fs @ gs) l"
  by (auto simp: vouched_def)

lemma login_cookies:
  "token \<in> set (map ck_Value (hr_Cookies (login L a r st n v))) \<Longrightarrow>
    \<exists>payload. al_put_flow L (login_flow a r st n v) = Some payload \<and> token = seal L (at_cfg a) payload"
  by (auto simp: login_def notReady_def plain_def fail_def setCookie_def Let_def split: option.splits)

lemma callback_cookies:
  "token \<in> set (map ck_Value (hr_Cookies (callback L a now r))) \<Longrightarrow> token = [] \<or>
    (\<exists>l payload. callback_login L a now r = Some l \<and> al_put_session L (login_session (at_cfg a) l) = Some payload \<and>
      token = seal L (at_cfg a) payload)"
  by (auto simp: callback_def callback_login_def notReady_def plain_def fail_def with_cookies_def setCookie_def clearCookie_def
      login_session_def encode_def split: option.splits sum.splits prod.splits if_splits)

lemma callback_login_vouched:
  assumes "callback_login L a now r = Some l" and "at_provider a \<in> {None, Some P}"
  shows "lg_at l = now" and "\<exists>token. hq_cookie r stateCookie = Some token \<and> decodeFlow L (at_cfg a) token = Some (lg_flow l)"
    and "authorize (at_cfg a) (lg_user l) = None"
    and "\<exists>code t. pv_Exchange P code (fw_Verifier (lg_flow l)) = Inr (Some (lg_raw l)) \<and> pv_Verify P (lg_raw l) = Inr t \<and>
      it_Nonce t = fw_Nonce (lg_flow l) \<and> userFrom (at_cfg a) t = Inr (lg_user l)"
  using assms
  by (auto simp: callback_login_def callback_user_def split: option.splits sum.splits prod.splits if_splits)

text \<open>A cookie that is accepted as a flow was issued as one, or is a session cookie that reads as the zero flow.\<close>

lemma presented_flow:
  assumes "auth_inv L cfg P x" and "json_codec L" and "presentable L x token" and "decodeFlow L cfg token = Some f"
  shows "f \<in> set (ax_flows x) \<or> f = zero_flow"
proof -
  have "token \<in> set (ax_issued x)"
    using assms(1,3,4) by (auto simp: auth_inv_def presentable_def decodeFlow_exact)
  then consider "token = []"
    | g payload where "g \<in> set (ax_flows x)" "al_put_flow L g = Some payload" "token = seal L cfg payload"
    | l payload where "al_put_session L (login_session cfg l) = Some payload" "token = seal L cfg payload"
    using assms(1) unfolding auth_inv_def issued_ok_def by blast
  then show ?thesis
  proof cases
    case 1
    with assms(4) show ?thesis by simp
  next
    case 2
    with assms(2,4) have "al_get_flow L payload = Some g" "al_get_flow L payload = Some f"
      by (auto simp: json_codec_def decodeFlow_seal)
    with 2 show ?thesis by simp
  next
    case 3
    with assms(2,4) show ?thesis by (auto simp: json_codec_def decodeFlow_seal)
  qed
qed

lemma presented_session:
  assumes "auth_inv L cfg P x" and "json_codec L" and "presentable L x token" and "decode L cfg (ax_now x) token = Inr s"
  shows "\<exists>l \<in> set (ax_logins x). s = login_session cfg l \<and> Unix (ax_now x) < sn_Expires s"
proof -
  have "token \<in> set (ax_issued x)"
    using assms(1,3,4) by (auto simp: auth_inv_def presentable_def decode_exact)
  then consider "token = []"
    | g payload where "al_put_flow L g = Some payload" "token = seal L cfg payload"
    | l payload where "l \<in> set (ax_logins x)" "al_put_session L (login_session cfg l) = Some payload" "token = seal L cfg payload"
    using assms(1) unfolding auth_inv_def issued_ok_def by blast
  then show ?thesis
  proof cases
    case 1
    with assms(4) show ?thesis by simp
  next
    case 2
    with assms(4) have s: "al_get_session L payload = Some s" "Unix (ax_now x) < sn_Expires s" by (simp_all add: decode_seal)
    with 2(1) assms(2) have "sn_Expires s = 0" unfolding json_codec_def by blast
    with s(2) assms(1) show ?thesis using Unix_nonneg [of "ax_now x"] by (simp add: auth_inv_def)
  next
    case 3
    with assms(4) have s: "al_get_session L payload = Some s" "Unix (ax_now x) < sn_Expires s" by (simp_all add: decode_seal)
    from 3(2) assms(2) have "al_get_session L payload = Some (login_session cfg l)" unfolding json_codec_def by blast
    with s 3(1) show ?thesis by auto
  qed
qed

lemma auth_inv_login:
  assumes "auth_inv L cfg P x"
  shows "auth_inv L cfg P (issue (login L (ax_auth x) r st n v) (x\<lparr>ax_flows := ax_flows x @ [login_flow (ax_auth x) r st n v]\<rparr>))"
proof -
  let ?fs = "ax_flows x @ [login_flow (ax_auth x) r st n v]"
  have cfg: "at_cfg (ax_auth x) = cfg" using assms by (simp add: auth_inv_def)
  have "issued_ok L cfg ?fs (ax_logins x) token" if "token \<in> set (ax_issued x)" for token
    using issued_ok_mono [of L cfg "ax_flows x" "ax_logins x" token _ "[]"] assms that by (simp add: auth_inv_def)
  moreover have "issued_ok L cfg ?fs (ax_logins x) token"
    if "token \<in> set (map ck_Value (hr_Cookies (login L (ax_auth x) r st n v)))" for token
    using login_cookies [OF that] by (auto simp: issued_ok_def cfg)
  ultimately show ?thesis using assms by (auto simp: auth_inv_def issue_def vouched_mono)
qed

lemma new_login_vouched:
  assumes "auth_inv L cfg P x" and "json_codec L" and "callback_login L (ax_auth x) (ax_now x) r = Some l"
    and "\<And>token. hq_cookie r stateCookie = Some token \<Longrightarrow> presentable L x token"
  shows "lg_at l \<le> ax_now x \<and> vouched cfg P (ax_flows x) l"
proof -
  have cfg: "at_cfg (ax_auth x) = cfg" "at_provider (ax_auth x) \<in> {None, Some P}" using assms(1) by (auto simp: auth_inv_def)
  note v = callback_login_vouched [OF assms(3) cfg(2)]
  from v(2) obtain token where "hq_cookie r stateCookie = Some token" "decodeFlow L cfg token = Some (lg_flow l)"
    by (auto simp: cfg(1))
  with assms(4) presented_flow [OF assms(1,2)] have "lg_flow l \<in> set (ax_flows x) \<or> lg_flow l = zero_flow" by blast
  with v(1,3,4) show ?thesis by (simp add: vouched_def cfg(1))
qed

lemma auth_inv_callback:
  assumes "auth_inv L cfg P x" and "json_codec L" and "\<And>token. hq_cookie r stateCookie = Some token \<Longrightarrow> presentable L x token"
  shows "auth_inv L cfg P (issue (callback L (ax_auth x) (ax_now x) r)
    (x\<lparr>ax_logins := ax_logins x @ (case callback_login L (ax_auth x) (ax_now x) r of None \<Rightarrow> [] | Some l \<Rightarrow> [l])\<rparr>))" (is "auth_inv L cfg P ?y")
proof -
  let ?new = "case callback_login L (ax_auth x) (ax_now x) r of None \<Rightarrow> [] | Some l \<Rightarrow> [l]"
  have cfg: "at_cfg (ax_auth x) = cfg" using assms(1) by (simp add: auth_inv_def)
  have "issued_ok L cfg (ax_flows x) (ax_logins x @ ?new) token" if "token \<in> set (ax_issued x)" for token
    using issued_ok_mono [of L cfg "ax_flows x" "ax_logins x" token "[]"] assms(1) that by (simp add: auth_inv_def)
  moreover have "issued_ok L cfg (ax_flows x) (ax_logins x @ ?new) token"
    if "token \<in> set (map ck_Value (hr_Cookies (callback L (ax_auth x) (ax_now x) r)))" for token
    using callback_cookies [OF that] by (auto simp: issued_ok_def cfg)
  ultimately have i: "\<forall>token \<in> set (ax_issued ?y). issued_ok L cfg (ax_flows ?y) (ax_logins ?y) token" by (auto simp: issue_def)
  have l: "\<forall>l \<in> set (ax_logins ?y). lg_at l \<le> ax_now ?y \<and> vouched cfg P (ax_flows ?y) l"
    using assms(1) new_login_vouched [OF assms(1,2) _ assms(3)] by (auto simp: issue_def auth_inv_def split: option.splits)
  have s: "\<forall>(t, u) \<in> set (ax_seen ?y). \<exists>l \<in> set (ax_logins ?y). lg_user l = u \<and> lg_at l \<le> t \<and> t < lg_at l + au_SessionTTL cfg"
    using assms(1) by (fastforce simp: issue_def auth_inv_def)
  have "at_cfg (ax_auth ?y) = cfg" "at_provider (ax_auth ?y) \<in> {None, Some P}" "0 \<le> ax_now ?y" using assms(1) by (simp_all add: issue_def auth_inv_def)
  with i l s show ?thesis unfolding auth_inv_def by (intro conjI)
qed

lemma auth_inv_request:
  assumes "auth_inv L cfg P x" and "json_codec L" and "session_user L (ax_auth x) (ax_now x) r = Some u"
    and "\<And>token. hq_cookie r (au_CookieName (at_cfg (ax_auth x))) = Some token \<Longrightarrow> presentable L x token"
  shows "auth_inv L cfg P (x\<lparr>ax_seen := ax_seen x @ [(ax_now x, u)]\<rparr>)"
proof -
  have cfg: "at_cfg (ax_auth x) = cfg" using assms(1) by (simp add: auth_inv_def)
  from assms(3) obtain token s where "hq_cookie r (au_CookieName cfg) = Some token" "decode L cfg (ax_now x) token = Inr s"
      and u: "u = sn_User s"
    by (auto simp: session_user_def sessionFull_def cfg split: option.splits sum.splits)
  with assms(4) presented_session [OF assms(1,2)] obtain l where l: "l \<in> set (ax_logins x)" "s = login_session cfg l" "Unix (ax_now x) < sn_Expires s"
    by (auto simp: cfg)
  have "lg_at l \<le> ax_now x" using assms(1) l(1) by (simp add: auth_inv_def)
  with l u have "\<exists>l \<in> set (ax_logins x). lg_user l = u \<and> lg_at l \<le> ax_now x \<and> ax_now x < lg_at l + au_SessionTTL cfg"
    by (auto simp: login_session_def new_session_def dest: Unix_less)
  with assms(1) show ?thesis by (auto simp: auth_inv_def)
qed

lemma auth_inv_step:
  assumes "auth_inv L cfg P x" and "auth_step L P x y" and "json_codec L"
  shows "auth_inv L cfg P y"
  using assms(2)
proof cases
  case discovered
  with assms(1) show ?thesis by (simp add: auth_inv_def setProvider_def)
next
  case (tick now)
  with assms(1) show ?thesis by (fastforce simp: auth_inv_def)
next
  case login
  with auth_inv_login [OF assms(1)] show ?thesis by simp
next
  case callback
  with auth_inv_callback [OF assms(1,3)] show ?thesis by simp
next
  case request
  with auth_inv_request [OF assms(1,3)] show ?thesis by simp
qed

interpretation auth: invariant_system "auth_start cfg P" "auth_step L P" "\<lambda>x. json_codec L \<longrightarrow> auth_inv L cfg P x" for L cfg P
  by unfold_locales (auto intro: auth_inv_start auth_inv_step)

lemma auth_inv_seen:
  "auth_inv L cfg P x \<Longrightarrow> (t, u) \<in> set (ax_seen x) \<Longrightarrow>
    \<exists>l \<in> set (ax_logins x). lg_user l = u \<and> lg_at l \<le> t \<and> t < lg_at l + au_SessionTTL cfg"
  by (auto simp: auth_inv_def)

section \<open>Theorems\<close>


definition demo_auth_cfg :: auth_Config where
  "demo_auth_cfg = applyDefaults \<lparr>au_Enabled = True, au_Issuer = ''https://idp'', au_ClientID = ''prober'', au_ClientSecret = [],
    au_RedirectURL = ''https://p/api/auth/callback'', au_Scopes = [], au_AuthURL = [], au_TokenURL = [], au_JWKSURL = [], au_UserInfoURL = [],
    au_Timeout = 0, au_CookieSecret = ''0123456789abcdef0123456789abcdef'', au_CookieName = [], au_SecureCookie = None,
    au_SessionTTL = 0, au_Logout = [], au_PostLogoutRedirectURL = [], au_AllowedGroups = [''noc''], au_GroupsClaim = []\<rparr>"

definition demo_user :: User where
  "demo_user = \<lparr>ur_Subject = ''7'', ur_Email = ''a@b'', ur_Name = ''a@b'', ur_Groups = [''noc'']\<rparr>"

definition demo_flow :: flow where
  "demo_flow = \<lparr>fw_State = ''s'', fw_Nonce = ''n'', fw_Verifier = ''v'', fw_Return = ''/''\<rparr>"

definition demo_provider :: provider where
  "demo_provider = \<lparr>pv_AuthCodeURL = (\<lambda>s n v. ''https://idp/auth''), pv_Exchange = (\<lambda>c v. Inr (Some ''raw'')),
    pv_Verify = (\<lambda>raw. Inr \<lparr>it_Subject = ''7'', it_Nonce = ''n'',
      it_Claims = Inr [(''email'', JStr ''a@b''), (''groups'', JArr [JStr ''noc''])]\<rparr>), pv_logoutURL = []\<rparr>"

definition demo_login_session :: auth_session where
  "demo_login_session = new_session demo_auth_cfg 100 demo_user ''raw''"

definition demo_auth_lib :: auth_lib where
  "demo_auth_lib = \<lparr>al_hmac = (\<lambda>k m. take 4 m),
    al_put_session = (\<lambda>s. if s = demo_login_session then Some ''S'' else None),
    al_get_session = (\<lambda>p. if p = ''S'' then Some demo_login_session else None),
    al_put_flow = (\<lambda>f. if f = demo_flow then Some ''F'' else None),
    al_get_flow = (\<lambda>p. if p = ''F'' then Some demo_flow else if p = ''S'' then Some zero_flow else None)\<rparr>"

definition demo_auth :: auth_sys where
  "demo_auth = \<lparr>ax_auth = \<lparr>at_cfg = demo_auth_cfg, at_base = [], at_provider = Some demo_provider\<rparr>, ax_now = 100,
    ax_issued = [], ax_flows = [], ax_logins = [], ax_seen = []\<rparr>"

definition demo_req :: http_req where
  "demo_req = \<lparr>hq_cookie = (\<lambda>n. if n = stateCookie then Some (seal demo_auth_lib demo_auth_cfg ''F'')
      else if n = ''prober_session'' then Some (seal demo_auth_lib demo_auth_cfg ''S'') else None),
    hq_query = (\<lambda>k. if k = ''state'' then ''s'' else []), hq_id = []\<rparr>"

lemma demo_codec: "json_codec demo_auth_lib"
proof -
  have a: "p = ''S'' \<and> s = demo_login_session" if "al_put_session demo_auth_lib s = Some p" for s p
    using that by (cases "s = demo_login_session") (simp_all add: demo_auth_lib_def)
  have b: "p = ''F'' \<and> f = demo_flow" if "al_put_flow demo_auth_lib f = Some p" for f p
    using that by (cases "f = demo_flow") (simp_all add: demo_auth_lib_def)
  have c: "al_get_session demo_auth_lib ''S'' = Some demo_login_session" "al_get_session demo_auth_lib ''F'' = None"
    "al_get_flow demo_auth_lib ''F'' = Some demo_flow" "al_get_flow demo_auth_lib ''S'' = Some zero_flow"
    by (simp_all add: demo_auth_lib_def)
  show ?thesis unfolding json_codec_def
  proof (intro conjI allI impI)
    fix s p assume "al_put_session demo_auth_lib s = Some p"
    from a [OF this] show "al_get_session demo_auth_lib p = Some s" using c(1) by (elim conjE) (simp only:)
  next
    fix f p assume "al_put_flow demo_auth_lib f = Some p"
    from b [OF this] show "al_get_flow demo_auth_lib p = Some f" using c(3) by (elim conjE) (simp only:)
  next
    fix f p s assume "al_put_flow demo_auth_lib f = Some p \<and> al_get_session demo_auth_lib p = Some s"
    with b c(2) show "sn_Expires s = 0" by (metis option.distinct(1))
  next
    fix s p f assume "al_put_session demo_auth_lib s = Some p \<and> al_get_flow demo_auth_lib p = Some f"
    with a c(4) show "f = zero_flow" by (metis option.inject)
  qed
qed

lemma demo_flow_eq: "login_flow (ax_auth demo_auth) demo_req ''s'' ''n'' ''v'' = demo_flow"
  by (simp add: login_flow_def demo_auth_def demo_req_def demo_flow_def safeReturn_def)

lemma demo_callback_user:
  "callback_user demo_auth_lib (ax_auth demo_auth) demo_provider demo_req (seal demo_auth_lib demo_auth_cfg ''F'') =
    Inr (demo_user, demo_flow, ''raw'')"
proof -
  have "decodeFlow demo_auth_lib (at_cfg (ax_auth demo_auth)) (seal demo_auth_lib demo_auth_cfg ''F'') = Some demo_flow"
    by (simp add: demo_auth_def decodeFlow_seal) (simp add: demo_auth_lib_def)
  moreover have "userFrom demo_auth_cfg \<lparr>it_Subject = ''7'', it_Nonce = ''n'',
      it_Claims = Inr [(''email'', JStr ''a@b''), (''groups'', JArr [JStr ''noc''])]\<rparr> = Inr demo_user"
    by (simp add: userFrom_def str_of_def claimValues_def asStrings_def demo_user_def demo_auth_cfg_def applyDefaults_def Let_def)
  moreover have "authorize demo_auth_cfg demo_user = None"
    by (simp add: authorize_def demo_auth_cfg_def demo_user_def applyDefaults_def)
  ultimately show ?thesis
    by (simp add: callback_user_def demo_provider_def) (simp add: demo_req_def demo_flow_def demo_auth_def)
qed

lemma presentable_issued: "token \<in> set (ax_issued x) \<Longrightarrow> presentable L x token"
  unfolding presentable_def by blast

lemma demo_login: "login demo_auth_lib (ax_auth demo_auth) demo_req ''s'' ''n'' ''v'' =
  \<lparr>hr_Status = 302, hr_Location = Some ''https://idp/auth'', hr_Body = JNull,
    hr_Cookies = [setCookie demo_auth_cfg [] stateCookie (seal demo_auth_lib demo_auth_cfg ''F'') (10 * Minute)]\<rparr>"
proof -
  have "al_put_flow demo_auth_lib demo_flow = Some ''F''" by (simp add: demo_auth_lib_def)
  moreover have "at_provider (ax_auth demo_auth) = Some demo_provider" "at_cfg (ax_auth demo_auth) = demo_auth_cfg"
    "at_base (ax_auth demo_auth) = []" by (simp_all add: demo_auth_def)
  ultimately show ?thesis unfolding login_def Let_def demo_flow_eq by (simp add: demo_provider_def)
qed


text \<open>
  After a login the browser is sent to a path of this server: the location starts with the base path
  and a slash, or, without a base path, with a single slash.
\<close>

lemma safeReturn_local:
  assumes "base = [] \<or> has_prefix base ''/'' \<and> \<not> has_prefix base ''//'' \<and> base \<noteq> ''/''"
  shows "has_prefix (base @ safeReturn base p) ''/'' \<and> \<not> has_prefix (base @ safeReturn base p) ''//''"
proof (cases "base = []")
  case True
  then show ?thesis by (simp add: safeReturn_def has_prefix_def)
next
  case False
  with assms obtain c b where b: "base = CHR ''/'' # c # b" "c \<noteq> CHR ''/''"
    by (cases base; cases "tl base") (auto simp: has_prefix_def)
  then show ?thesis by (simp add: has_prefix_def)
qed

text \<open>But a path of a slash and a backslash passes, which browsers read as two slashes.\<close>

lemma safeReturn_backslash: "safeReturn [] (CHR ''/'' # CHR 0x5C # ''evil.com'') = CHR ''/'' # CHR 0x5C # ''evil.com''"
  by (simp add: safeReturn_def has_prefix_def)

text \<open>A cookie of this server is read back until it expires, and the same text with another secret's signature is not.\<close>

lemma session_cookie_roundtrip:
  assumes "encode L cfg s = Some token" and "json_codec L"
  shows "decode L cfg now token = (if Unix now < sn_Expires s then Inr s else Inl Session_expired)"
proof -
  obtain payload where p: "al_put_session L s = Some payload" "token = seal L cfg payload"
    using assms(1) by (auto simp: encode_def)
  then have "al_get_session L payload = Some s" using assms(2) by (simp add: json_codec_def)
  with p(2) show ?thesis by (simp add: decode_def Cut_seal)
qed

text \<open>
  A configuration that passes the check without contacting the provider can still be refused at the start: the keys of a
  provider configured by hand are only asked for there.
\<close>

lemma Validate_accepts_without_keys:
  "auth_Validate (demo_auth_cfg\<lparr>au_AuthURL := ''https://idp/auth''\<rparr>) = None \<and>
    auth_New (demo_auth_cfg\<lparr>au_AuthURL := ''https://idp/auth''\<rparr>) base bytes byhand = Inl JWKSRequired"
  by (simp add: auth_Validate_def auth_New_def auth_validate_def demo_auth_cfg_def applyDefaults_def LogoutLocal_def LogoutProvider_def Let_def)

section \<open>Discovery\<close>

definition fails :: "auth_Config \<Rightarrow> discovery \<Rightarrow> bool" where
  "fails cfg N = (case N (au_Issuer cfg) of Inl _ \<Rightarrow> True | Inr _ \<Rightarrow> False)"

lemma tryDiscover_cases:
  "fails (at_cfg a) N \<Longrightarrow> \<exists>e. tryDiscover N a = (Some e, a)"
  "\<not> fails (at_cfg a) N \<Longrightarrow> \<exists>p. tryDiscover N a = (None, setProvider p a)"
  by (auto simp: fails_def tryDiscover_def Let_def split: sum.splits prod.splits)

lemma discover_waits:
  assumes "discover wait Ns a = (ws, a')" and "0 < wait" and "wait \<le> discoveryRetryMax"
  shows "length ws = length (takeWhile (fails (at_cfg a)) Ns) \<and> (\<forall>k < length ws. ws ! k = min (wait * 2 ^ k) discoveryRetryMax) \<and>
    (if \<forall>N \<in> set Ns. fails (at_cfg a) N then a' = a else (\<exists>p. a' = setProvider p a))"
  using assms
proof (induction wait Ns a arbitrary: ws a' rule: discover.induct)
  case (1 wait a)
  then show ?case by simp
next
  case (2 wait N rest a)
  show ?case
  proof (cases "fails (at_cfg a) N")
    case False
    then obtain p where "tryDiscover N a = (None, setProvider p a)" using tryDiscover_cases(2) by blast
    then have "ws = []" "a' = setProvider p a" using "2.prems"(1) by simp_all
    then show ?thesis using False by auto
  next
    case True
    then obtain e where e: "tryDiscover N a = (Some e, a)" using tryDiscover_cases(1) by blast
    let ?w = "if 2 * wait > discoveryRetryMax then discoveryRetryMax else 2 * wait"
    obtain ws1 where d: "discover ?w rest a = (ws1, a')" and ws: "ws = wait # ws1"
      using "2.prems"(1) e by (auto simp: Let_def split: prod.splits)
    have w: "0 < ?w" "?w \<le> discoveryRetryMax" using "2.prems"(2,3) by (auto simp: discoveryRetryMax_def)
    note ih = "2.IH" [OF e [symmetric] refl d w]
    have "ws ! k = min (wait * 2 ^ k) discoveryRetryMax" if "k < length ws" for k
    proof (cases k)
      case 0
      then show ?thesis using ws "2.prems"(3) by simp
    next
      case (Suc j)
      have one: "(1 :: int) \<le> 2 ^ j" by simp
      have "ws ! k = min (?w * 2 ^ j) discoveryRetryMax" using ih ws that Suc by simp
      moreover have "min (?w * 2 ^ j) discoveryRetryMax = min (2 * wait * 2 ^ j) discoveryRetryMax"
      proof (cases "2 * wait > discoveryRetryMax")
        case True
        have m: "discoveryRetryMax \<le> discoveryRetryMax * 2 ^ j" using one by (simp add: discoveryRetryMax_def)
        also have "\<dots> \<le> 2 * wait * 2 ^ j" using True by (intro mult_right_mono) simp_all
        finally have "discoveryRetryMax \<le> 2 * wait * 2 ^ j" .
        then show ?thesis using m by (simp only: True if_True min_absorb2)
      qed simp
      ultimately show ?thesis using Suc by (simp add: ac_simps)
    qed
    then show ?thesis using ih ws True by auto
  qed
qed

text \<open>An identity provider that is down does not stop the server: discovery is tried again after 2, 4, 8, 16 and then every 30
  seconds until it succeeds, after which one can sign in; all the time the sessions already signed in are the same.\<close>

theorem discovery_recovers:
  assumes "discover discoveryRetryMin Ns a = (ws, a')" and "\<not> Ready a"
  shows "length ws = length (takeWhile (fails (at_cfg a)) Ns) \<and>
    (\<forall>k < length ws. ws ! k = min (2 * Second * 2 ^ k) (30 * Second)) \<and>
    (Ready a' \<longleftrightarrow> (\<exists>N \<in> set Ns. \<not> fails (at_cfg a) N)) \<and>
    session_user L a' now r = session_user L a now r"
proof -
  have b: "0 < discoveryRetryMin" "discoveryRetryMin \<le> discoveryRetryMax" by (simp_all add: discoveryRetryMin_def discoveryRetryMax_def)
  note d = discover_waits [OF assms(1) b]
  have "session_user L (setProvider p a) now r = session_user L a now r" for p
    by (simp add: session_user_def sessionFull_def setProvider_def cong: option.case_cong)
  then show ?thesis using d assms(2) by (auto simp: Ready_def setProvider_def discoveryRetryMin_def discoveryRetryMax_def split: if_splits)
qed

theorem discovery_recovers_witness:
  "\<exists>a'. discover discoveryRetryMin [\<lambda>_. Inl ''down'', \<lambda>_. Inr (demo_provider, None)] ((ax_auth demo_auth)\<lparr>at_provider := None\<rparr>) = ([2 * Second], a') \<and> Ready a'"
proof -
  let ?a = "(ax_auth demo_auth)\<lparr>at_provider := None\<rparr>" and ?Ns = "[\<lambda>_. Inl ''down'', \<lambda>_. Inr (demo_provider, None)] :: discovery list"
  obtain ws a' where d: "discover discoveryRetryMin ?Ns ?a = (ws, a')" by (rule prod.exhaust)
  have "\<not> Ready ?a" by (simp add: Ready_def)
  from discovery_recovers [OF d this] have r: "length ws = 1" "\<forall>k < length ws. ws ! k = min (2 * Second * 2 ^ k) (30 * Second)" "Ready a'"
    by (simp_all add: fails_def)
  then have "ws = [2 * Second]" by (cases ws) auto
  with d r(3) show ?thesis by blast
qed

end
