(* ===== verification/Monitor_Registry.thy ===== *)
theory Monitor_Registry
  imports Proto "HOL-Library.AList"
begin

text \<open>
  The configuration of the backend (\<^verbatim>\<open>internal/backend/config.go\<close>), the words of the HTTP API
  for protocols, families, modes and transports (\<^verbatim>\<open>internal/backend/http.go\<close>), and the registry of
  monitors with the assignment it makes for a site (\<^verbatim>\<open>internal/backend/monitor.go\<close>).
\<close>

section \<open>The words of the API\<close>

definition protoOf :: "string \<Rightarrow> pb_Protocol" where
  "protoOf s = (if s = ''tcp'' \<or> s = ''TCP'' then PROTOCOL_TCP
    else if s = ''udp'' \<or> s = ''UDP'' then PROTOCOL_UDP else PROTOCOL_ICMP)"

definition familyOf :: "string \<Rightarrow> pb_AddressFamily" where
  "familyOf s = (if s = ''4'' \<or> s = ''ipv4'' then ADDRESS_FAMILY_IPV4
    else if s = ''6'' \<or> s = ''ipv6'' then ADDRESS_FAMILY_IPV6 else ADDRESS_FAMILY_UNSPECIFIED)"

definition modeOf :: "string \<Rightarrow> pb_TraceMode" where
  "modeOf s = (if s = ''ping'' then TRACE_MODE_PING else TRACE_MODE_MTR)"

definition sipTransportOf :: "string \<Rightarrow> pb_SipTransport" where
  "sipTransportOf s = (if s = ''tcp'' then SIP_TRANSPORT_TCP else if s = ''tls'' then SIP_TRANSPORT_TLS
    else if s = ''wss'' then SIP_TRANSPORT_WSS else SIP_TRANSPORT_UDP)"

section \<open>Configuration\<close>

record TraceParams =
  tp_Protocol :: string
  tp_Family :: string
  tp_Port :: u32
  tp_Cycles :: u32
  tp_IntervalMS :: u32
  tp_FirstTTL :: u32
  tp_MaxTTL :: u32
  tp_ResolveNames :: bool

record SipParams =
  sq_Transport :: string
  sq_Family :: string
  sq_Port :: u32
  sq_Cycles :: u32
  sq_IntervalMS :: u32
  sq_TimeoutMS :: u32

record MonitorConfig =
  mc_ID :: string
  mc_Kind :: string
  mc_Target :: string
  mc_IntervalS :: u32
  mc_Sites :: "string list"
  mc_Labels :: "(string \<times> string) list"
  mc_Trace :: "TraceParams option"
  mc_SIP :: "SipParams option"

record AgentAuth =
  aa_Site :: string
  aa_Token :: string

record GRPCListen =
  gl_Addr :: string
  gl_Cert :: string
  gl_CertFile :: string
  gl_Key :: string
  gl_KeyFile :: string

record Config =
  cf_GRPC :: GRPCListen
  cf_HTTP :: string
  cf_AgentToken :: string
  cf_AllowedSites :: "string list"
  cf_Agents :: "AgentAuth list"
  cf_RunTTL :: duration
  cf_Monitors :: "MonitorConfig list"

datatype backend_config_error =
    GrpcAddrRequired
  | CertRequired
  | KeyRequired
  | BothCerts
  | BothKeys
  | HttpRequired
  | AgentIncomplete nat
  | DuplicateSite nat string
  | DuplicateToken nat
  | MonitorIdRequired nat
  | DuplicateMonitor nat string
  | MonitorTargetRequired nat string
  | MonitorIntervalRequired nat string
  | MonitorKindRequired nat string
  | MonitorKindUnknown nat string string

fun validateAgents :: "nat \<Rightarrow> string list \<Rightarrow> string list \<Rightarrow> AgentAuth list \<Rightarrow> backend_config_error option" where
  "validateAgents i seen tokens [] = None"
| "validateAgents i seen tokens (a # as) =
    (if aa_Site a = [] \<or> aa_Token a = [] then Some (AgentIncomplete i)
     else if aa_Site a \<in> set seen then Some (DuplicateSite i (aa_Site a))
     else if aa_Token a \<in> set tokens then Some (DuplicateToken i)
     else validateAgents (Suc i) (aa_Site a # seen) (aa_Token a # tokens) as)"

fun validateMonitors_from :: "nat \<Rightarrow> string list \<Rightarrow> MonitorConfig list \<Rightarrow> backend_config_error option" where
  "validateMonitors_from i ids [] = None"
| "validateMonitors_from i ids (m # ms) =
    (if mc_ID m = [] then Some (MonitorIdRequired i)
     else if mc_ID m \<in> set ids then Some (DuplicateMonitor i (mc_ID m))
     else if mc_Target m = [] then Some (MonitorTargetRequired i (mc_ID m))
     else if mc_IntervalS m = 0 then Some (MonitorIntervalRequired i (mc_ID m))
     else if mc_Kind m \<in> {''trace'', ''ping'', ''sip''} then validateMonitors_from (Suc i) (mc_ID m # ids) ms
     else if mc_Kind m = [] then Some (MonitorKindRequired i (mc_ID m))
     else Some (MonitorKindUnknown i (mc_ID m) (mc_Kind m)))"

definition validateMonitors :: "MonitorConfig list \<Rightarrow> backend_config_error option" where
  "validateMonitors ms = validateMonitors_from 0 [] ms"

definition Config_Validate :: "Config \<Rightarrow> backend_config_error option" where
  "Config_Validate c =
    (let g = cf_GRPC c
     in if gl_Addr g = [] then Some GrpcAddrRequired
        else if gl_Cert g = [] \<and> gl_CertFile g = [] then Some CertRequired
        else if gl_Key g = [] \<and> gl_KeyFile g = [] then Some KeyRequired
        else if gl_Cert g \<noteq> [] \<and> gl_CertFile g \<noteq> [] then Some BothCerts
        else if gl_Key g \<noteq> [] \<and> gl_KeyFile g \<noteq> [] then Some BothKeys
        else if cf_HTTP c = [] then Some HttpRequired
        else case validateAgents 0 [] [] (cf_Agents c) of
            Some e \<Rightarrow> Some e
          | None \<Rightarrow> validateMonitors (cf_Monitors c))"

definition runTTL :: "Config \<Rightarrow> duration" where
  "runTTL c = (if cf_RunTTL c \<le> 0 then 5 * Minute else cf_RunTTL c)"

text \<open>The key pair: each half from exactly one place.\<close>

datatype pem_error = PemBoth | PemRequired | PemRead string | PemPair string

definition pemBytes :: "(string \<Rightarrow> string + string) \<Rightarrow> string \<Rightarrow> string \<Rightarrow> pem_error + string" where
  "pemBytes ReadFile inline file =
    (if inline \<noteq> [] then Inr inline
     else if file \<noteq> [] then (case ReadFile file of Inl e \<Rightarrow> Inl (PemRead e) | Inr b \<Rightarrow> Inr b)
     else Inl PemRequired)"

definition certificate ::
  "(string \<Rightarrow> string + string) \<Rightarrow> (string \<Rightarrow> string \<Rightarrow> string + 'k) \<Rightarrow> GRPCListen \<Rightarrow> pem_error + 'k" where
  "certificate ReadFile X509KeyPair g =
    (if gl_Cert g \<noteq> [] \<and> gl_CertFile g \<noteq> [] then Inl PemBoth
     else if gl_Key g \<noteq> [] \<and> gl_KeyFile g \<noteq> [] then Inl PemBoth
     else
       rbind (pemBytes ReadFile (gl_Cert g) (gl_CertFile g)) (\<lambda>cert.
       rbind (pemBytes ReadFile (gl_Key g) (gl_KeyFile g)) (\<lambda>key.
       case X509KeyPair cert key of Inl e \<Rightarrow> Inl (PemPair e) | Inr k \<Rightarrow> Inr k)))"

section \<open>The registry\<close>

record MonitorRegistry =
  mr_version :: u64
  mr_byID :: "(string \<times> MonitorConfig) list"
  mr_order :: "string list"

text \<open>Later entries of the list replace earlier ones under the same id.\<close>

definition registry_set :: "MonitorConfig list \<Rightarrow> u64 \<Rightarrow> MonitorRegistry" where
  "registry_set mons version =
    \<lparr>mr_version = version, mr_byID = fold (\<lambda>m. AList.update (mc_ID m) m) mons [], mr_order = map mc_ID mons\<rparr>"

definition NewMonitorRegistry :: "MonitorConfig list \<Rightarrow> MonitorRegistry" where
  "NewMonitorRegistry mons = registry_set mons 1"

definition registry_Replace :: "MonitorConfig list \<Rightarrow> MonitorRegistry \<Rightarrow> MonitorRegistry" where
  "registry_Replace mons r = registry_set mons (mr_version r + 1)"

text \<open>A missing entry of a map reads as the zero value.\<close>

definition zero_monitor :: MonitorConfig where
  "zero_monitor = \<lparr>mc_ID = [], mc_Kind = [], mc_Target = [], mc_IntervalS = 0, mc_Sites = [], mc_Labels = [],
    mc_Trace = None, mc_SIP = None\<rparr>"

definition registry_get :: "MonitorRegistry \<Rightarrow> string \<Rightarrow> MonitorConfig" where
  "registry_get r i = (case map_of (mr_byID r) i of Some m \<Rightarrow> m | None \<Rightarrow> zero_monitor)"

definition ListVersioned :: "MonitorRegistry \<Rightarrow> MonitorConfig list \<times> u64" where
  "ListVersioned r = (map (registry_get r) (mr_order r), mr_version r)"

definition registry_lookup :: "MonitorRegistry \<Rightarrow> string \<Rightarrow> MonitorConfig option" where
  "registry_lookup r i = map_of (mr_byID r) i"

definition siteMatches :: "string list \<Rightarrow> string \<Rightarrow> bool" where
  "siteMatches sites site = (sites = [] \<or> site \<in> set sites)"

definition zero_sip :: SipParams where
  "zero_sip = \<lparr>sq_Transport = [], sq_Family = [], sq_Port = 0, sq_Cycles = 0, sq_IntervalMS = 0, sq_TimeoutMS = 0\<rparr>"

definition zero_trace :: TraceParams where
  "zero_trace = \<lparr>tp_Protocol = [], tp_Family = [], tp_Port = 0, tp_Cycles = 0, tp_IntervalMS = 0, tp_FirstTTL = 0,
    tp_MaxTTL = 0, tp_ResolveNames = False\<rparr>"

definition monitorToProto :: "MonitorConfig \<Rightarrow> pb_Monitor" where
  "monitorToProto m =
    \<lparr>mo_Id = mc_ID m, mo_IntervalS = mc_IntervalS m, mo_Labels = mc_Labels m,
     mo_Spec =
       (if mc_Kind m = ''sip'' then
          (let sp = (case mc_SIP m of None \<Rightarrow> zero_sip | Some sp \<Rightarrow> sp)
           in SipJob \<lparr>so_Target = mc_Target m, so_Port = sq_Port sp, so_Transport = sipTransportOf (sq_Transport sp),
                so_Family = familyOf (sq_Family sp), so_Cycles = sq_Cycles sp, so_IntervalMs = sq_IntervalMS sp,
                so_TimeoutMs = sq_TimeoutMS sp, so_Source = [], so_UserAgent = []\<rparr>)
        else
          (let tp = (case mc_Trace m of None \<Rightarrow> zero_trace | Some tp \<Rightarrow> tp)
           in TraceJob \<lparr>ts_Target = mc_Target m, ts_Protocol = protoOf (tp_Protocol tp),
                ts_Family = familyOf (tp_Family tp), ts_Port = tp_Port tp, ts_ResolveNames = tp_ResolveNames tp,
                ts_Cycles = tp_Cycles tp, ts_IntervalMs = tp_IntervalMS tp, ts_FirstTtl = tp_FirstTTL tp,
                ts_MaxTtl = tp_MaxTTL tp, ts_PacketSize = 0, ts_Dscp = 0, ts_Source = [],
                ts_Mode = (if mc_Kind m = ''ping'' then TRACE_MODE_PING else TRACE_MODE_MTR), ts_ProbeTimeoutMs = 0\<rparr>))\<rparr>"

definition AssignmentFor :: "MonitorRegistry \<Rightarrow> string \<Rightarrow> Assignment" where
  "AssignmentFor r site =
    \<lparr>as_Version = mr_version r,
     as_Monitors = map monitorToProto (filter (\<lambda>m. siteMatches (mc_Sites m) site) (map (registry_get r) (mr_order r)))\<rparr>"

section \<open>Lemmas\<close>

lemma fold_update_map:
  assumes "distinct (map mc_ID mons)" and "m \<in> set mons"
  shows "map_of (fold (\<lambda>m. AList.update (mc_ID m) m) mons []) (mc_ID m) = Some m"
  using assms by (induction mons rule: rev_induct) (auto simp: update_conv' dest: image_eqI [OF sym])

lemma registry_get_set:
  "distinct (map mc_ID mons) \<Longrightarrow> m \<in> set mons \<Longrightarrow> registry_get (registry_set mons v) (mc_ID m) = m"
  by (simp add: registry_get_def registry_set_def fold_update_map)

lemma registry_list_set:
  assumes "distinct (map mc_ID mons)"
  shows "map (registry_get (registry_set mons v)) (mr_order (registry_set mons v)) = mons"
proof -
  have "map (\<lambda>m. registry_get (registry_set mons v) (mc_ID m)) mons = mons"
    using registry_get_set [OF assms] by (intro map_idI)
  then show ?thesis by (simp add: registry_set_def comp_def)
qed

lemma validateAgents_ok:
  assumes "validateAgents i seen tokens as = None" and "distinct seen" and "distinct tokens"
  shows "distinct (rev seen @ map aa_Site as) \<and> distinct (rev tokens @ map aa_Token as) \<and>
    (\<forall>a \<in> set as. aa_Site a \<noteq> [] \<and> aa_Token a \<noteq> [])"
  using assms
proof (induction as arbitrary: i seen tokens)
  case Nil
  then show ?case by simp
next
  case (Cons a as)
  then have "validateAgents (Suc i) (aa_Site a # seen) (aa_Token a # tokens) as = None"
    and new: "aa_Site a \<notin> set seen" "aa_Token a \<notin> set tokens" "aa_Site a \<noteq> []" "aa_Token a \<noteq> []"
    by (auto split: if_splits)
  from Cons.IH [OF this(1)] new Cons.prems(2,3) show ?case by auto
qed

lemma validateMonitors_from_ok:
  assumes "validateMonitors_from i ids ms = None" and "distinct ids"
  shows "distinct (rev ids @ map mc_ID ms) \<and>
    (\<forall>m \<in> set ms. mc_ID m \<noteq> [] \<and> mc_Target m \<noteq> [] \<and> mc_IntervalS m \<noteq> 0 \<and> mc_Kind m \<in> {''trace'', ''ping'', ''sip''})"
  using assms
proof (induction ms arbitrary: i ids)
  case Nil
  then show ?case by simp
next
  case (Cons m ms)
  then have "validateMonitors_from (Suc i) (mc_ID m # ids) ms = None"
    and new: "mc_ID m \<notin> set ids" "mc_ID m \<noteq> []" "mc_Target m \<noteq> []" "mc_IntervalS m \<noteq> 0"
      "mc_Kind m \<in> {''trace'', ''ping'', ''sip''}"
    by (auto split: if_splits)
  from Cons.IH [OF this(1)] new Cons.prems(2) show ?case by auto
qed

lemma validateMonitors_ok:
  assumes "validateMonitors ms = None"
  shows "distinct (map mc_ID ms)"
    and "\<And>m. m \<in> set ms \<Longrightarrow> mc_ID m \<noteq> [] \<and> mc_Target m \<noteq> [] \<and> mc_IntervalS m \<noteq> 0 \<and> mc_Kind m \<in> {''trace'', ''ping'', ''sip''}"
  using validateMonitors_from_ok [of 0 "[]" ms] assms by (auto simp: validateMonitors_def)

section \<open>Theorems\<close>

text \<open>A configuration that is accepted has an address for the agents, exactly one certificate and one key
  source, agents with pairwise different non-empty sites and tokens, and monitors with pairwise different
  non-empty ids, a target, a positive interval and a known kind.\<close>

theorem Config_Validate_sound:
  assumes "Config_Validate c = None"
  shows "gl_Addr (cf_GRPC c) \<noteq> [] \<and> cf_HTTP c \<noteq> [] \<and>
    (gl_Cert (cf_GRPC c) = []) \<noteq> (gl_CertFile (cf_GRPC c) = []) \<and>
    (gl_Key (cf_GRPC c) = []) \<noteq> (gl_KeyFile (cf_GRPC c) = []) \<and>
    distinct (map aa_Site (cf_Agents c)) \<and> distinct (map aa_Token (cf_Agents c)) \<and>
    (\<forall>a \<in> set (cf_Agents c). aa_Site a \<noteq> [] \<and> aa_Token a \<noteq> []) \<and>
    distinct (map mc_ID (cf_Monitors c)) \<and>
    (\<forall>m \<in> set (cf_Monitors c). mc_ID m \<noteq> [] \<and> mc_Target m \<noteq> [] \<and> 0 < mc_IntervalS m \<and>
      mc_Kind m \<in> {''trace'', ''ping'', ''sip''})"
proof -
  have ok: "validateAgents 0 [] [] (cf_Agents c) = None" "validateMonitors (cf_Monitors c) = None"
    and rest: "gl_Addr (cf_GRPC c) \<noteq> []" "cf_HTTP c \<noteq> []"
      "(gl_Cert (cf_GRPC c) = []) \<noteq> (gl_CertFile (cf_GRPC c) = [])"
      "(gl_Key (cf_GRPC c) = []) \<noteq> (gl_KeyFile (cf_GRPC c) = [])"
    using assms by (auto simp: Config_Validate_def Let_def split: if_splits option.splits)
  show ?thesis
    using rest validateAgents_ok [OF ok(1)] validateMonitors_ok [OF ok(2)] by (auto simp: word_neq_0_conv)
qed

definition demo_mon :: MonitorConfig where
  "demo_mon = \<lparr>mc_ID = ''m'', mc_Kind = ''ping'', mc_Target = ''1.1.1.1'', mc_IntervalS = 15, mc_Sites = [''fra''],
    mc_Labels = [], mc_Trace = None, mc_SIP = None\<rparr>"

definition demo_config :: Config where
  "demo_config = \<lparr>cf_GRPC = \<lparr>gl_Addr = '':1'', gl_Cert = ''C'', gl_CertFile = [], gl_Key = [], gl_KeyFile = ''/k''\<rparr>,
    cf_HTTP = '':2'', cf_AgentToken = ''shared'', cf_AllowedSites = [''fra'', ''ams''],
    cf_Agents = [\<lparr>aa_Site = ''fra'', aa_Token = ''t1''\<rparr>], cf_RunTTL = 0, cf_Monitors = [demo_mon]\<rparr>"

theorem Config_Validate_sound_witness: "distinct (map mc_ID (cf_Monitors demo_config))"
proof -
  have "Config_Validate demo_config = None" by code_simp
  from Config_Validate_sound [OF this] show ?thesis by blast
qed

text \<open>A validated list of monitors is what the registry holds: listed in configuration order together with its
  version, found under its ids; each reload raises the version by one; and a site is assigned exactly the monitors that
  name it or name no site, in configuration order, as the kind of job the monitor asks for.\<close>

theorem registry_assigns:
  assumes "validateMonitors mons = None"
  shows "ListVersioned (registry_Replace mons r) = (mons, mr_version r + 1) \<and>
    (\<forall>m \<in> set mons. registry_lookup (registry_Replace mons r) (mc_ID m) = Some m) \<and>
    as_Version (AssignmentFor (registry_Replace mons r) site) = mr_version r + 1 \<and>
    map mo_Id (as_Monitors (AssignmentFor (registry_Replace mons r) site)) =
      map mc_ID (filter (\<lambda>m. mc_Sites m = [] \<or> site \<in> set (mc_Sites m)) mons) \<and>
    (\<forall>p \<in> set (as_Monitors (AssignmentFor (registry_Replace mons r) site)). 0 < mo_IntervalS p \<and>
      (\<exists>m \<in> set mons. mo_Id p = mc_ID m \<and>
        (case mo_Spec p of
           SipJob s \<Rightarrow> mc_Kind m = ''sip'' \<and> so_Target s = mc_Target m
         | TraceJob t \<Rightarrow> mc_Kind m \<noteq> ''sip'' \<and> ts_Target t = mc_Target m \<and>
             (ts_Mode t = TRACE_MODE_PING \<longleftrightarrow> mc_Kind m = ''ping'')
         | _ \<Rightarrow> False)))"
proof -
  note ok = validateMonitors_ok [OF assms]
  let ?r = "registry_Replace mons r"
  have list: "map (registry_get ?r) (mr_order ?r) = mons" "mr_version ?r = mr_version r + 1"
    using registry_list_set [OF ok(1)] by (simp_all add: registry_Replace_def registry_set_def)
  have look: "registry_lookup ?r (mc_ID m) = Some m" if "m \<in> set mons" for m
  proof -
    have "registry_get ?r (mc_ID m) = m" using registry_get_set [OF ok(1) that] by (simp add: registry_Replace_def)
    moreover have "m \<noteq> zero_monitor" using ok(2) [OF that] by (auto simp: zero_monitor_def)
    ultimately show ?thesis
      by (simp add: registry_get_def registry_lookup_def split: option.splits)
  qed
  have mons: "as_Monitors (AssignmentFor ?r site) =
      map monitorToProto (filter (\<lambda>m. mc_Sites m = [] \<or> site \<in> set (mc_Sites m)) mons)"
    by (simp add: AssignmentFor_def list siteMatches_def)
  have spec: "0 < mo_IntervalS (monitorToProto m) \<and> mo_Id (monitorToProto m) = mc_ID m \<and>
        (case mo_Spec (monitorToProto m) of
           SipJob s \<Rightarrow> mc_Kind m = ''sip'' \<and> so_Target s = mc_Target m
         | TraceJob t \<Rightarrow> mc_Kind m \<noteq> ''sip'' \<and> ts_Target t = mc_Target m \<and>
             (ts_Mode t = TRACE_MODE_PING \<longleftrightarrow> mc_Kind m = ''ping'')
         | _ \<Rightarrow> False)" if "m \<in> set mons" for m
    using ok(2) [OF that] by (auto simp: monitorToProto_def Let_def word_neq_0_conv)
  have "ListVersioned ?r = (mons, mr_version r + 1)" by (simp add: ListVersioned_def list)
  moreover have "as_Version (AssignmentFor ?r site) = mr_version r + 1" by (simp add: AssignmentFor_def list)
  moreover have "map mo_Id (as_Monitors (AssignmentFor ?r site)) =
      map mc_ID (filter (\<lambda>m. mc_Sites m = [] \<or> site \<in> set (mc_Sites m)) mons)"
    by (simp add: mons comp_def monitorToProto_def)
  moreover have "\<forall>p \<in> set (as_Monitors (AssignmentFor ?r site)). 0 < mo_IntervalS p \<and>
      (\<exists>m \<in> set mons. mo_Id p = mc_ID m \<and>
        (case mo_Spec p of
           SipJob s \<Rightarrow> mc_Kind m = ''sip'' \<and> so_Target s = mc_Target m
         | TraceJob t \<Rightarrow> mc_Kind m \<noteq> ''sip'' \<and> ts_Target t = mc_Target m \<and>
             (ts_Mode t = TRACE_MODE_PING \<longleftrightarrow> mc_Kind m = ''ping'')
         | _ \<Rightarrow> False))"
    unfolding mons using spec by fastforce
  ultimately show ?thesis using look by blast
qed

theorem registry_assigns_witness:
  "map mo_Id (as_Monitors (AssignmentFor (registry_Replace [demo_mon] (NewMonitorRegistry [])) ''fra'')) = [''m'']"
proof -
  have "validateMonitors [demo_mon] = None" by code_simp
  from registry_assigns [OF this, of "NewMonitorRegistry []" "''fra''"] show ?thesis
    by (simp add: demo_mon_def)
qed

end
