(* ===== verification/Backend_Gateway.thy ===== *)
theory Backend_Gateway
  imports Monitor_Registry
begin

text \<open>
  \<^verbatim>\<open>internal/backend/gateway.go\<close>: which site a stream may register as, the registry of connected
  agents, the round-trip measurement, the routing of events and the dispatch of jobs. Connections
  are objects: \<open>gw_conns\<close> is the store of connection objects, \<open>gw_agents\<close> the map from sites to
  them, \<open>gw_sinks\<close> the map from job ids to the runs their events go to.
\<close>

section \<open>The gateway\<close>

record agentConn =
  cn_site :: string
  cn_hello :: Hello
  cn_connectedAt :: instant
  cn_assignmentVersion :: u64
  cn_pingNonce :: u64
  cn_pingSentAt :: instant
  cn_rttUs :: int
  cn_out :: "BackendMessage list"

type_synonym conn = nat
type_synonym run_ref = string

record Gateway =
  gw_tokens :: "(string \<times> string) list"
  gw_sharedToken :: string
  gw_allowedSites :: "string list"
  gw_agents :: "(string \<times> conn) list"
  gw_sinks :: "(string \<times> run_ref) list"
  gw_reg :: "MonitorRegistry option"
  gw_conns :: "conn \<Rightarrow> agentConn"

definition NewGateway :: "Config \<Rightarrow> (conn \<Rightarrow> agentConn) \<Rightarrow> Gateway" where
  "NewGateway cfg conns =
    \<lparr>gw_tokens = fold (\<lambda>a. AList.update (aa_Token a) (aa_Site a)) (cf_Agents cfg) [],
     gw_sharedToken = cf_AgentToken cfg, gw_allowedSites = cf_AllowedSites cfg,
     gw_agents = [], gw_sinks = [], gw_reg = None, gw_conns = conns\<rparr>"

text \<open>The sink is a component of the server; that it is wired is the second argument of \<open>route\<close>.\<close>

definition SetMonitoring :: "MonitorRegistry \<Rightarrow> Gateway \<Rightarrow> Gateway" where [simp]:
  "SetMonitoring reg g = g\<lparr>gw_reg := Some reg\<rparr>"

section \<open>Authentication\<close>

text \<open>The values of the authorization header, \<open>None\<close> without metadata.\<close>

definition bearerToken :: "string list option \<Rightarrow> string" where
  "bearerToken authorization =
    (case authorization of
       Some [v] \<Rightarrow> if length v > length ''Bearer '' \<and> take (length ''Bearer '') v = ''Bearer ''
                   then drop (length ''Bearer '') v else []
     | _ \<Rightarrow> [])"

datatype grpc_error = Unauthenticated string | InvalidArgument string | PermissionDenied string | StreamError string

definition authSite :: "Gateway \<Rightarrow> string \<Rightarrow> Hello \<Rightarrow> grpc_error + string" where
  "authSite g tok hello =
    (if tok = [] then Inl (Unauthenticated ''missing bearer token'')
     else
       let pinned = (case map_of (gw_tokens g) tok of Some s \<Rightarrow> s | None \<Rightarrow> [])
       in if pinned \<noteq> [] then Inr pinned
          else if gw_sharedToken g \<noteq> [] \<and> tok = gw_sharedToken g then
            (let site = he_Site hello
             in if site = [] then Inl (InvalidArgument ''hello.site is required to register with the shared token'')
                else if gw_allowedSites g \<noteq> [] \<and> site \<notin> set (gw_allowedSites g) then Inl (PermissionDenied site)
                else Inr site)
          else Inl (Unauthenticated ''unknown token''))"

section \<open>The registry of agents\<close>

definition addAgent :: "string \<Rightarrow> conn \<Rightarrow> (string \<times> conn) list \<Rightarrow> (string \<times> conn) list" where
  "addAgent site c agents = AList.update site c agents"

definition removeAgent :: "string \<Rightarrow> conn \<Rightarrow> (string \<times> conn) list \<Rightarrow> (string \<times> conn) list" where
  "removeAgent site c agents = (if map_of agents site = Some c then AList.delete site agents else agents)"

interpretation agents: owned_slots map_of addAgent removeAgent
  by unfold_locales (simp_all add: addAgent_def removeAgent_def update_conv' delete_conv')

definition Connected :: "Gateway \<Rightarrow> string \<Rightarrow> bool" where
  "Connected g site = (map_of (gw_agents g) site \<noteq> None)"

definition Sites :: "Gateway \<Rightarrow> Hello list" where
  "Sites g = map (\<lambda>(site, c). cn_hello (gw_conns g c)) (gw_agents g)"

record AgentInfo =
  ai_Hello :: Hello
  ai_ConnectedAt :: instant
  ai_RTTMicros :: int

definition Agents :: "Gateway \<Rightarrow> AgentInfo list" where
  "Agents g = map (\<lambda>(site, c). let x = gw_conns g c in
    \<lparr>ai_Hello = cn_hello x, ai_ConnectedAt = cn_connectedAt x, ai_RTTMicros = cn_rttUs x\<rparr>) (gw_agents g)"

section \<open>Connections\<close>

text \<open>\<open>alive\<close> tells whether a send on a connection's stream succeeds.\<close>

definition conn_send :: "(conn \<Rightarrow> bool) \<Rightarrow> conn \<Rightarrow> BackendMessage \<Rightarrow> Gateway \<Rightarrow> Gateway \<times> bool" where
  "conn_send alive c m g =
    (if alive c then (g\<lparr>gw_conns := (gw_conns g)(c := (gw_conns g c)\<lparr>cn_out := cn_out (gw_conns g c) @ [m]\<rparr>)\<rparr>, True)
     else (g, False))"

definition ping :: "(conn \<Rightarrow> bool) \<Rightarrow> instant \<Rightarrow> conn \<Rightarrow> Gateway \<Rightarrow> Gateway" where
  "ping alive now c g =
    (let x = gw_conns g c;
         nonce = cn_pingNonce x + 1;
         g = g\<lparr>gw_conns := (gw_conns g)(c := x\<lparr>cn_pingNonce := nonce, cn_pingSentAt := now\<rparr>)\<rparr>
     in fst (conn_send alive c (PingMsg nonce) g))"

definition onPong :: "instant \<Rightarrow> conn \<Rightarrow> u64 \<Rightarrow> Gateway \<Rightarrow> Gateway" where
  "onPong now c nonce g =
    (let x = gw_conns g c
     in if nonce = cn_pingNonce x
        then g\<lparr>gw_conns := (gw_conns g)(c := x\<lparr>cn_rttUs := go_div (now - cn_pingSentAt x) 1000\<rparr>)\<rparr>
        else g)"

text \<open>
  The opening of a session: the first message must be a Hello, the token decides the site, the
  connection is registered under it, then the welcome and the assignment are sent.
\<close>

definition session_open ::
  "(conn \<Rightarrow> bool) \<Rightarrow> instant \<Rightarrow> conn \<Rightarrow> string list option \<Rightarrow> AgentMessage \<Rightarrow> Gateway \<Rightarrow> Gateway \<times> (grpc_error + string)" where
  "session_open alive now c authorization first g =
    (case first of
       HelloMsg hello \<Rightarrow>
         (case authSite g (bearerToken authorization) hello of
            Inl e \<Rightarrow> (g, Inl e)
          | Inr site \<Rightarrow>
              let conn = \<lparr>cn_site = site, cn_hello = hello, cn_connectedAt = now, cn_assignmentVersion = 0,
                          cn_pingNonce = 0, cn_pingSentAt = 0, cn_rttUs = 0, cn_out = []\<rparr>;
                  g = g\<lparr>gw_conns := (gw_conns g)(c := conn), gw_agents := addAgent site c (gw_agents g)\<rparr>;
                  (g, ok) = conn_send alive c (Welcome site) g
              in if \<not> ok then (g\<lparr>gw_agents := removeAgent site c (gw_agents g)\<rparr>, Inl (StreamError ''send''))
                 else
                   let (g, ok) = (case gw_reg g of
                       None \<Rightarrow> (g, True)
                     | Some reg \<Rightarrow>
                         let as = AssignmentFor reg site;
                             (g, ok) = conn_send alive c (AssignmentMsg as) g
                         in (if ok then g\<lparr>gw_conns := (gw_conns g)(c := (gw_conns g c)\<lparr>cn_assignmentVersion := as_Version as\<rparr>)\<rparr>
                             else g, ok))
                   in if \<not> ok then (g\<lparr>gw_agents := removeAgent site c (gw_agents g)\<rparr>, Inl (StreamError ''send''))
                      else (g\<lparr>gw_conns := (gw_conns g)(c := (gw_conns g c)\<lparr>cn_rttUs := - 1\<rparr>)\<rparr>, Inr site))
     | _ \<Rightarrow> (g, Inl (InvalidArgument ''first message must be Hello'')))"

section \<open>Routing and dispatch\<close>

datatype destination = ToMonitorSink string | ToRun run_ref | Dropped

text \<open>Where an event goes; without monitoring a monitor's event is dropped.\<close>

definition route :: "Gateway \<Rightarrow> bool \<Rightarrow> string \<Rightarrow> JobEvent \<Rightarrow> destination" where
  "route g monitoring site ev =
    (if isMonitorJob (je_JobId ev) then (if monitoring then ToMonitorSink site else Dropped)
     else case map_of (gw_sinks g) (je_JobId ev) of Some r \<Rightarrow> ToRun r | None \<Rightarrow> Dropped)"

definition push_assignment :: "(conn \<Rightarrow> bool) \<Rightarrow> MonitorRegistry \<Rightarrow> conn \<Rightarrow> Gateway \<Rightarrow> Gateway" where
  "push_assignment alive reg c g =
    (let as = AssignmentFor reg (cn_site (gw_conns g c));
         (g, ok) = conn_send alive c (AssignmentMsg as) g
     in if ok then g\<lparr>gw_conns := (gw_conns g)(c := (gw_conns g c)\<lparr>cn_assignmentVersion := as_Version as\<rparr>)\<rparr> else g)"

definition PushAssignments :: "(conn \<Rightarrow> bool) \<Rightarrow> Gateway \<Rightarrow> Gateway" where
  "PushAssignments alive g =
    (case gw_reg g of
       None \<Rightarrow> g
     | Some reg \<Rightarrow> fold (push_assignment alive reg) (map snd (gw_agents g)) g)"

definition gw_StartJob :: "(conn \<Rightarrow> bool) \<Rightarrow> string \<Rightarrow> StartJob \<Rightarrow> run_ref \<Rightarrow> Gateway \<Rightarrow> Gateway \<times> string option" where
  "gw_StartJob alive site job sink g =
    (case map_of (gw_agents g) site of
       None \<Rightarrow> (g, Some ''site not connected'')
     | Some c \<Rightarrow>
         let g = g\<lparr>gw_sinks := AList.update (sj_JobId job) sink (gw_sinks g)\<rparr>;
             (g, ok) = conn_send alive c (Start job) g
         in (g, if ok then None else Some ''send''))"

definition CancelJob :: "(conn \<Rightarrow> bool) \<Rightarrow> string \<Rightarrow> string \<Rightarrow> Gateway \<Rightarrow> Gateway" where
  "CancelJob alive site jobID g =
    (case map_of (gw_agents g) site of
       None \<Rightarrow> g
     | Some c \<Rightarrow> fst (conn_send alive c (CancelMsg jobID) g))"

definition EndJob :: "string \<Rightarrow> Gateway \<Rightarrow> Gateway" where
  "EndJob jobID g = g\<lparr>gw_sinks := AList.delete jobID (gw_sinks g)\<rparr>"

text \<open>The sites a run fans out to: those requested, else what the connected agents call themselves.\<close>

definition runSites :: "Gateway \<Rightarrow> string list \<Rightarrow> string list option" where
  "runSites g requested =
    (let sites = (if requested = [] then map he_Site (Sites g) else requested)
     in if sites = [] then None else Some sites)"

section \<open>Lemmas\<close>

lemma find_snoc:
  "find P (xs @ [y]) = (case find P xs of Some x \<Rightarrow> Some x | None \<Rightarrow> if P y then Some y else None)"
  by (induction xs) auto

lemma tokens_map:
  assumes "distinct (map aa_Token as)"
  shows "map_of (fold (\<lambda>a. AList.update (aa_Token a) (aa_Site a)) as []) tok =
    map_option aa_Site (find (\<lambda>a. aa_Token a = tok) as)"
  using assms
proof (induction as rule: rev_induct)
  case Nil
  then show ?case by simp
next
  case (snoc a as)
  then have "aa_Token a \<notin> aa_Token ` set as" by simp
  then have "\<not> (\<exists>x. x \<in> set as \<and> aa_Token x = aa_Token a)" by (metis imageI)
  then have "find (\<lambda>x. aa_Token x = aa_Token a) as = None" by (simp only: find_None_iff not_False_eq_True)
  with snoc show ?case
    by (cases "aa_Token a = tok") (auto simp: find_snoc update_conv' split: option.splits)
qed

text \<open>The registry has one entry per site, and its connection is registered under its own site.\<close>

definition gateway_inv :: "Gateway \<Rightarrow> bool" where
  "gateway_inv g = (distinct (map fst (gw_agents g)) \<and>
    (\<forall>site c. map_of (gw_agents g) site = Some c \<longrightarrow> cn_site (gw_conns g c) = site))"

lemma conn_send_frame:
  "gw_agents (fst (conn_send alive c m g)) = gw_agents g" "gw_sinks (fst (conn_send alive c m g)) = gw_sinks g"
  "gw_reg (fst (conn_send alive c m g)) = gw_reg g"
  "cn_site (gw_conns (fst (conn_send alive c m g)) d) = cn_site (gw_conns g d)"
  "cn_hello (gw_conns (fst (conn_send alive c m g)) d) = cn_hello (gw_conns g d)"
  "snd (conn_send alive c m g) = alive c"
  by (simp_all add: conn_send_def)

lemma gateway_inv_frame:
  "gateway_inv g \<Longrightarrow> gw_agents g' = gw_agents g \<Longrightarrow> (\<And>c. cn_site (gw_conns g' c) = cn_site (gw_conns g c)) \<Longrightarrow> gateway_inv g'"
  by (simp add: gateway_inv_def)

lemma gateway_inv_remove: "gateway_inv g \<Longrightarrow> gateway_inv (g\<lparr>gw_agents := removeAgent site c (gw_agents g)\<rparr>)"
  using agents.lookup_remove [of site c "gw_agents g"]
  by (auto simp: gateway_inv_def removeAgent_def distinct_delete split: if_splits)

lemma gateway_inv_add:
  assumes "gateway_inv g" and "\<And>s. map_of (gw_agents g) s \<noteq> Some c"
  shows "gateway_inv (g\<lparr>gw_conns := (gw_conns g)(c := x\<lparr>cn_site := site\<rparr>), gw_agents := addAgent site c (gw_agents g)\<rparr>)"
  using assms by (auto simp: gateway_inv_def agents.lookup_add addAgent_def distinct_update update_conv')

section \<open>Theorems\<close>

text \<open>(C27) Which site a stream registers as, for a validated configuration: the site of the pinned token, whatever the
  agent claims; or, with the shared token, the site the agent declares, when it is one of the allowed
  sites or no sites are listed. Every other stream is refused.\<close>

theorem authSite_exact:
  assumes "Config_Validate cfg = None"
  shows "authSite (NewGateway cfg conns) tok hello = Inr site \<longleftrightarrow>
    (\<exists>a \<in> set (cf_Agents cfg). aa_Token a = tok \<and> aa_Site a = site) \<or>
    ((\<forall>a \<in> set (cf_Agents cfg). aa_Token a \<noteq> tok) \<and> tok = cf_AgentToken cfg \<and> tok \<noteq> [] \<and>
     site = he_Site hello \<and> site \<noteq> [] \<and> (cf_AllowedSites cfg = [] \<or> site \<in> set (cf_AllowedSites cfg)))"
proof -
  have "validateAgents 0 [] [] (cf_Agents cfg) = None"
    using assms by (auto simp: Config_Validate_def Let_def split: if_splits option.splits)
  from validateAgents_ok [OF this]
  have ok: "distinct (map aa_Token (cf_Agents cfg))"
      "\<And>a. a \<in> set (cf_Agents cfg) \<Longrightarrow> aa_Site a \<noteq> [] \<and> aa_Token a \<noteq> []" by auto
  let ?f = "find (\<lambda>a. aa_Token a = tok) (cf_Agents cfg)"
  have tok: "map_of (gw_tokens (NewGateway cfg conns)) tok = map_option aa_Site ?f"
    using tokens_map [OF ok(1)] by (simp add: NewGateway_def)
  show ?thesis
  proof (cases ?f)
    case None
    then have "\<forall>a \<in> set (cf_Agents cfg). aa_Token a \<noteq> tok" by (auto simp: find_None_iff)
    with tok None show ?thesis
      by (auto simp: authSite_def NewGateway_def Let_def)
  next
    case (Some a)
    then have a: "a \<in> set (cf_Agents cfg)" "aa_Token a = tok" by (auto simp: find_Some_iff)
    then have unique: "b = a" if "b \<in> set (cf_Agents cfg)" "aa_Token b = tok" for b
      using that ok(1) by (auto simp: distinct_map inj_on_def)
    have "authSite (NewGateway cfg conns) tok hello = Inr (aa_Site a)"
      using tok Some ok(2) [OF a(1)] a(2) by (auto simp: authSite_def Let_def)
    then have "authSite (NewGateway cfg conns) tok hello = Inr site \<longleftrightarrow> aa_Site a = site" by simp
    also have "\<dots> \<longleftrightarrow> (\<exists>b \<in> set (cf_Agents cfg). aa_Token b = tok \<and> aa_Site b = site)"
      using a unique by blast
    finally show ?thesis using a by blast
  qed
qed

definition demo_hello :: Hello where
  "demo_hello = \<lparr>he_Site = ''ams'', he_Version = [], he_Commit = [], he_Hostname = [], he_StartedAt = Some 0, he_IPv4 = True,
    he_IPv6 = False, he_Sources = [], he_MaxConcurrentJobs = 20, he_MaxCycles = 1000, he_MinIntervalMs = 100, he_MaxTtl = 40\<rparr>"

definition demo_conn :: agentConn where
  "demo_conn = \<lparr>cn_site = [], cn_hello = demo_hello, cn_connectedAt = 0, cn_assignmentVersion = 0, cn_pingNonce = 0,
    cn_pingSentAt = 0, cn_rttUs = 0, cn_out = []\<rparr>"

lemma demo_config_valid: "Config_Validate demo_config = None"
  by code_simp

theorem authSite_exact_witness:
  "authSite (NewGateway demo_config (\<lambda>_. demo_conn)) ''t1'' demo_hello = Inr ''fra'' \<and>
   authSite (NewGateway demo_config (\<lambda>_. demo_conn)) ''shared'' demo_hello = Inr ''ams''"
  using authSite_exact [OF demo_config_valid, of "\<lambda>_. demo_conn" "''t1''" demo_hello "''fra''"]
    authSite_exact [OF demo_config_valid, of "\<lambda>_. demo_conn" "''shared''" demo_hello "''ams''"]
  by (simp add: demo_config_def demo_hello_def)

lemma session_open_accepts:
  assumes "session_open alive now c auth first g = (g', Inr site)"
  shows "\<exists>hello. first = HelloMsg hello \<and> authSite g (bearerToken auth) hello = Inr site \<and>
    gw_agents g' = addAgent site c (gw_agents g) \<and> cn_site (gw_conns g' c) = site \<and>
    cn_hello (gw_conns g' c) = hello \<and> cn_rttUs (gw_conns g' c) = - 1 \<and>
    cn_out (gw_conns g' c) = Welcome site #
      (case gw_reg g of None \<Rightarrow> [] | Some reg \<Rightarrow> [AssignmentMsg (AssignmentFor reg site)]) \<and>
    (\<forall>d. d \<noteq> c \<longrightarrow> gw_conns g' d = gw_conns g d) \<and> gw_sinks g' = gw_sinks g"
  using assms
  by (auto simp: session_open_def conn_send_def Let_def split: AgentMessage.splits sum.splits option.splits if_splits)

text \<open>When a session is accepted, its connection is registered under the site the token gave it, in place of an
  older connection of that site and leaving the other sites alone; the agent is sent the welcome and then its
  assignment. When the older session ends afterwards, the new connection stays registered; when the
  new one ends, the site is no longer connected.\<close>

theorem session_registers_site:
  assumes "session_open alive now c auth first g = (g', Inr site)"
  shows "Connected g' site \<and> cn_site (gw_conns g' c) = site \<and>
    (\<forall>s. s \<noteq> site \<longrightarrow> map_of (gw_agents g') s = map_of (gw_agents g) s) \<and>
    cn_out (gw_conns g' c) = Welcome site #
      (case gw_reg g of None \<Rightarrow> [] | Some reg \<Rightarrow> [AssignmentMsg (AssignmentFor reg site)]) \<and>
    (old \<noteq> c \<longrightarrow> map_of (removeAgent site old (gw_agents g')) site = Some c) \<and>
    map_of (removeAgent site c (gw_agents g')) site = None"
proof -
  obtain hello where h: "gw_agents g' = addAgent site c (gw_agents g)" "cn_site (gw_conns g' c) = site"
    "cn_out (gw_conns g' c) = Welcome site #
      (case gw_reg g of None \<Rightarrow> [] | Some reg \<Rightarrow> [AssignmentMsg (AssignmentFor reg site)])"
    using session_open_accepts [OF assms] by blast
  have "old \<noteq> c \<longrightarrow> map_of (removeAgent site old (addAgent site c (gw_agents g))) site = Some c"
    by (simp add: agents.lookup_add agents.remove_stale)
  moreover have "map_of (removeAgent site c (addAgent site c (gw_agents g))) site = None"
    by (simp add: agents.remove_added)
  ultimately show ?thesis using h by (simp add: Connected_def agents.lookup_add)
qed

lemma demo_session:
  "session_open (\<lambda>_. True) 5 1 (Some [''Bearer t1'']) (HelloMsg demo_hello) (NewGateway demo_config (\<lambda>_. demo_conn)) =
    ((NewGateway demo_config (\<lambda>_. demo_conn))\<lparr>gw_agents := [(''fra'', 1)],
      gw_conns := (\<lambda>_. demo_conn)(1 := demo_conn\<lparr>cn_site := ''fra'', cn_connectedAt := 5, cn_rttUs := - 1,
        cn_out := [Welcome ''fra'']\<rparr>)\<rparr>, Inr ''fra'')"
  by (simp add: session_open_def bearerToken_def authSite_def NewGateway_def demo_config_def Let_def conn_send_def
      addAgent_def demo_conn_def fun_upd_def cong: if_cong)

theorem session_registers_site_witness:
  "\<exists>g'. session_open (\<lambda>_. True) 5 1 (Some [''Bearer t1'']) (HelloMsg demo_hello)
      (NewGateway demo_config (\<lambda>_. demo_conn)) = (g', Inr ''fra'') \<and> Connected g' ''fra''"
  using session_registers_site [OF demo_session] demo_session by blast

text \<open>
  The list of sites shows what the agents claim: with a pinned token and another site in its
  Hello, a connected agent is listed under a site that is not connected.
\<close>

lemma listed_site_not_connected:
  "\<exists>g'. session_open (\<lambda>_. True) 5 1 (Some [''Bearer t1'']) (HelloMsg demo_hello)
      (NewGateway demo_config (\<lambda>_. demo_conn)) = (g', Inr ''fra'') \<and>
    map he_Site (Sites g') = [''ams''] \<and> \<not> Connected g' ''ams'' \<and> runSites g' [] = Some [''ams'']"
  using demo_session by (simp add: Sites_def Connected_def runSites_def demo_conn_def demo_hello_def)

text \<open>The events of a job go to the run that started it, from the moment the job is sent until the run ends it, and
  those of the other jobs are not affected; a job is sent only to a connected site; and an event of a
  monitor never reaches a run, nor that of a run the monitors.\<close>

theorem route_follows_jobs:
  assumes "gw_StartJob alive site job sink g = (g', None)" and "\<not> isMonitorJob (sj_JobId job)"
    and "je_JobId ev = sj_JobId job"
  shows "Connected g site \<and> route g' monitoring from ev = ToRun sink \<and>
    route (EndJob (sj_JobId job) g') monitoring from ev = Dropped \<and>
    (je_JobId ev' \<noteq> sj_JobId job \<longrightarrow> route g' monitoring from ev' = route g monitoring from ev') \<and>
    (isMonitorJob (je_JobId ev') \<longrightarrow> route g' monitoring from ev' \<in> {ToMonitorSink from, Dropped}) \<and>
    (\<exists>c. map_of (gw_agents g) site = Some c \<and> last (cn_out (gw_conns g' c)) = Start job)"
proof -
  obtain c where c: "map_of (gw_agents g) site = Some c" "alive c"
      "gw_sinks g' = AList.update (sj_JobId job) sink (gw_sinks g)" "last (cn_out (gw_conns g' c)) = Start job"
    using assms(1)
    by (auto simp: gw_StartJob_def conn_send_def Let_def split: option.splits if_splits)
  show ?thesis
    using assms(2,3) c by (simp add: Connected_def route_def EndJob_def update_conv' delete_conv')
qed

theorem route_follows_jobs_witness:
  "\<exists>g'. gw_StartJob (\<lambda>_. True) ''fra'' \<lparr>sj_JobId = ''r:fra'', sj_Spec = NoSpec\<rparr> ''r''
      ((NewGateway demo_config (\<lambda>_. demo_conn))\<lparr>gw_agents := [(''fra'', 1)]\<rparr>) = (g', None) \<and>
    route g' True ''fra'' \<lparr>je_JobId = ''r:fra'', je_Seq = 1, je_Time = None, je_Event = NoEvent\<rparr> = ToRun ''r''"
proof -
  let ?g = "(NewGateway demo_config (\<lambda>_. demo_conn))\<lparr>gw_agents := [(''fra'', 1)]\<rparr>"
  let ?job = "\<lparr>sj_JobId = ''r:fra'', sj_Spec = NoSpec\<rparr>"
  obtain g' where g': "gw_StartJob (\<lambda>_. True) ''fra'' ?job ''r'' ?g = (g', None)"
    by (simp add: gw_StartJob_def conn_send_def Let_def)
  have "\<not> isMonitorJob (sj_JobId ?job)" by (simp add: isMonitorJob_def monitorJobPrefix_def has_prefix_def)
  from route_follows_jobs [OF g' this, of "\<lparr>je_JobId = ''r:fra'', je_Seq = 1, je_Time = None, je_Event = NoEvent\<rparr>"] g'
  show ?thesis by auto
qed

end
