(* ===== verification/Backend_Run.thy ===== *)
theory Backend_Run
  imports Backend_Gateway "HOL-Library.Multiset"
begin

text \<open>
  \<^verbatim>\<open>internal/backend/run.go\<close>: a run over several sites, its buffered events and the streams that
  watch it. A run's fields are the record \<open>Run\<close>; subscribers are objects referred to by number, so
  the set of subscribers is a list of references. \<open>emit\<close> holds the lock only while it numbers and
  buffers the event; the sends to the subscribers come after, so the part under the lock
  (\<open>emit_publish\<close>) and each send (\<open>trySend\<close>) are operations of their own, and the step relation
  \<open>stream_step\<close> interleaves them with the subscribers' own actions.
\<close>

section \<open>State\<close>

record StreamEvent =
  se_Seq :: u64
  se_Site :: string
  se_Event :: JobEvent

record subscriber =
  sb_ch :: "StreamEvent list"
  sb_closed :: bool

record Run =
  rn_ID :: string
  rn_Sites :: "string list"
  rn_created :: instant
  rn_seq :: u64
  rn_buffer :: "StreamEvent list"
  rn_subs :: "nat list"
  rn_pending :: "string list"
  rn_done :: bool
  rn_doneAt :: instant

record Manager =
  mg_ttl :: duration
  mg_runs :: "(string \<times> Run) list"

definition NewManager :: "duration \<Rightarrow> Manager" where
  "NewManager ttl = \<lparr>mg_ttl = ttl, mg_runs = []\<rparr>"

text \<open>The part of a job id after its last colon; empty when there is none.\<close>

definition siteOf :: "string \<Rightarrow> string" where
  "siteOf jobID = (if CHR '':'' \<in> set jobID then after_last (CHR '':'') jobID else [])"

definition jobID_of :: "string \<Rightarrow> string \<Rightarrow> string" where
  "jobID_of runID site = runID @ '':'' @ site"

section \<open>Events and subscribers\<close>

text \<open>The part of \<^verbatim>\<open>emit\<close> under the lock: the event is numbered and buffered, the subscribers are copied.\<close>

definition emit_publish :: "JobEvent \<Rightarrow> Run \<Rightarrow> Run \<times> StreamEvent \<times> nat list" where
  "emit_publish ev r =
    (let seq = rn_seq r + 1;
         se = \<lparr>se_Seq = seq, se_Site = siteOf (je_JobId ev), se_Event = ev\<rparr>
     in (r\<lparr>rn_seq := seq, rn_buffer := rn_buffer r @ [se]\<rparr>, se, rn_subs r))"

definition chan_cap :: nat where "chan_cap = 256"

text \<open>A send that does not block: the event is left out when the channel is full; a closed channel panics.\<close>

definition push_event :: "StreamEvent \<Rightarrow> subscriber \<Rightarrow> subscriber" where
  "push_event se sub = (if length (sb_ch sub) < chan_cap then sub\<lparr>sb_ch := sb_ch sub @ [se]\<rparr> else sub)"

definition trySend :: "StreamEvent \<Rightarrow> subscriber \<Rightarrow> (unit, subscriber) outcome" where
  "trySend se sub = (if sb_closed sub then Panic else Ok (push_event se sub))"

interpretation stream: mailbox sb_ch chan_cap push_event
  by unfold_locales (simp_all add: push_event_def)

definition sub_close :: "subscriber \<Rightarrow> subscriber" where
  "sub_close sub = sub\<lparr>sb_closed := True\<rparr>"

fun emit_deliver :: "StreamEvent \<Rightarrow> nat list \<Rightarrow> (nat \<Rightarrow> subscriber) \<Rightarrow> (unit, nat \<Rightarrow> subscriber) outcome" where
  "emit_deliver se [] store = Ok store"
| "emit_deliver se (k # ks) store =
    (case trySend se (store k) of
       Ok sub \<Rightarrow> emit_deliver se ks (store(k := sub))
     | _ \<Rightarrow> Panic)"

definition run_emit :: "JobEvent \<Rightarrow> Run \<Rightarrow> (nat \<Rightarrow> subscriber) \<Rightarrow> (unit, Run \<times> (nat \<Rightarrow> subscriber)) outcome" where
  "run_emit ev r store =
    (let (r, se, subs) = emit_publish ev r
     in obind (emit_deliver se subs store) (\<lambda>store. Ok (r, store)))"

text \<open>The part of \<^verbatim>\<open>checkDone\<close> under the lock returns the subscribers to close.\<close>

definition checkDone_locked :: "instant \<Rightarrow> Run \<Rightarrow> Run \<times> nat list" where
  "checkDone_locked now r =
    (if \<not> rn_done r \<and> rn_pending r = [] then (r\<lparr>rn_done := True, rn_doneAt := now, rn_subs := []\<rparr>, rn_subs r)
     else (r, []))"

definition checkDone :: "instant \<Rightarrow> Run \<Rightarrow> (nat \<Rightarrow> subscriber) \<Rightarrow> Run \<times> (nat \<Rightarrow> subscriber)" where
  "checkDone now r store =
    (let (r, subs) = checkDone_locked now r
     in (r, fold (\<lambda>k store. store(k := sub_close (store k))) subs store))"

definition delete_pending :: "string \<Rightarrow> Run \<Rightarrow> Run" where
  "delete_pending jobID r = r\<lparr>rn_pending := filter (\<lambda>j. j \<noteq> jobID) (rn_pending r)\<rparr>"

definition OnEvent :: "instant \<Rightarrow> JobEvent \<Rightarrow> Run \<times> (nat \<Rightarrow> subscriber) \<Rightarrow> (unit, Run \<times> (nat \<Rightarrow> subscriber)) outcome" where
  "OnEvent now ev rs =
    obind (run_emit ev (fst rs) (snd rs)) (\<lambda>(r, store).
      if is_terminal (je_Event ev) then Ok (checkDone now (delete_pending (je_JobId ev) r) store)
      else Ok (r, store))"

text \<open>
  \<^verbatim>\<open>Subscribe\<close>: the buffered events after the given number, and a channel for the following ones,
  closed at once when the run is done. \<open>k\<close> is the reference of the new subscriber.
\<close>

definition Subscribe :: "u64 \<Rightarrow> nat \<Rightarrow> Run \<Rightarrow> Run \<times> StreamEvent list \<times> subscriber" where
  "Subscribe after k r =
    (let backlog = filter (\<lambda>se. after < se_Seq se) (rn_buffer r)
     in if rn_done r then (r, backlog, \<lparr>sb_ch = [], sb_closed = True\<rparr>)
        else (r\<lparr>rn_subs := rn_subs r @ [k]\<rparr>, backlog, \<lparr>sb_ch = [], sb_closed = False\<rparr>))"

definition cancel_locked :: "nat \<Rightarrow> Run \<Rightarrow> Run" where
  "cancel_locked k r = r\<lparr>rn_subs := filter (\<lambda>j. j \<noteq> k) (rn_subs r)\<rparr>"

definition Snapshot :: "Run \<Rightarrow> StreamEvent list" where "Snapshot r = rn_buffer r"

definition finishedAt :: "instant \<Rightarrow> duration \<Rightarrow> Run \<Rightarrow> bool" where
  "finishedAt now ttl r = (rn_done r \<and> now - rn_doneAt r > ttl)"

section \<open>The manager\<close>

definition no_agent_event :: "instant \<Rightarrow> string \<Rightarrow> string \<Rightarrow> JobEvent" where
  "no_agent_event now jobID site = \<lparr>je_JobId = jobID, je_Seq = 0, je_Time = Some now,
    je_Event = EvError CODE_UNSPECIFIED (''site '' @ site @ '' has no connected agent'')\<rparr>"

definition start_error_event :: "instant \<Rightarrow> string \<Rightarrow> string \<Rightarrow> JobEvent" where
  "start_error_event now jobID msg = \<lparr>je_JobId = jobID, je_Seq = 0, je_Time = Some now, je_Event = EvError CODE_UNSPECIFIED msg\<rparr>"

text \<open>
  One round of \<^verbatim>\<open>Manager.Start\<close>'s loop. Nobody subscribes before \<^verbatim>\<open>Start\<close> returns the run, so the
  events it emits itself are only buffered.
\<close>

definition start_site ::
  "(conn \<Rightarrow> bool) \<Rightarrow> instant \<Rightarrow> (string \<Rightarrow> StartJob) \<Rightarrow> string \<Rightarrow> Run \<times> Gateway \<Rightarrow> Run \<times> Gateway" where
  "start_site alive now newJob site rg =
    (let (r, g) = rg;
         jobID = jobID_of (rn_ID r) site;
         r = r\<lparr>rn_pending := List.insert jobID (rn_pending r)\<rparr>
     in if \<not> Connected g site
        then (delete_pending jobID (fst (emit_publish (no_agent_event now jobID site) r)), g)
        else case gw_StartJob alive site (newJob jobID) (rn_ID r) g of
               (g, Some err) \<Rightarrow> (delete_pending jobID (fst (emit_publish (start_error_event now jobID err) r)), g)
             | (g, None) \<Rightarrow> (r, g))"

definition new_run :: "string \<Rightarrow> string list \<Rightarrow> instant \<Rightarrow> Run" where
  "new_run runID sites now = \<lparr>rn_ID = runID, rn_Sites = sites, rn_created = now, rn_seq = 0, rn_buffer = [], rn_subs = [],
    rn_pending = [], rn_done = False, rn_doneAt = 0\<rparr>"

definition Manager_Start ::
  "(conn \<Rightarrow> bool) \<Rightarrow> instant \<Rightarrow> string \<Rightarrow> (string \<Rightarrow> StartJob) \<Rightarrow> string list \<Rightarrow> Manager \<Rightarrow> Gateway \<Rightarrow>
    Manager \<times> Gateway \<times> Run" where
  "Manager_Start alive now runID newJob sites mgr g =
    (let (r, g) = fold (start_site alive now newJob) sites (new_run runID sites now, g);
         r = fst (checkDone_locked now r)
     in (mgr\<lparr>mg_runs := AList.update runID r (mg_runs mgr)\<rparr>, g, r))"

definition Manager_Get :: "string \<Rightarrow> Manager \<Rightarrow> Run option" where
  "Manager_Get i mgr = map_of (mg_runs mgr) i"

definition Manager_Cancel :: "(conn \<Rightarrow> bool) \<Rightarrow> string \<Rightarrow> Manager \<Rightarrow> Gateway \<Rightarrow> Gateway" where
  "Manager_Cancel alive i mgr g =
    (case Manager_Get i mgr of
       None \<Rightarrow> g
     | Some r \<Rightarrow> fold (\<lambda>site. CancelJob alive site (jobID_of i site)) (rn_Sites r) g)"

definition reap :: "instant \<Rightarrow> Manager \<Rightarrow> Gateway \<Rightarrow> Manager \<times> Gateway" where
  "reap now mgr g =
    (let expired = filter (\<lambda>(i, r). finishedAt now (mg_ttl mgr) r) (mg_runs mgr)
     in (mgr\<lparr>mg_runs := filter (\<lambda>(i, r). \<not> finishedAt now (mg_ttl mgr) r) (mg_runs mgr)\<rparr>,
         fold (\<lambda>(i, r). fold (\<lambda>site. EndJob (jobID_of i site)) (rn_Sites r)) expired g))"

section \<open>Streams and emitters interleaved\<close>

text \<open>
  What the readers of the streams see, kept beside the run: the number a stream resumed after, what
  it was given at once, how many events were buffered then, what its reader took from the channel,
  and what a full channel left out. \<open>st_emits\<close> are the emissions that have released the lock and
  still have subscribers to send to; \<open>st_closing\<close> the subscribers about to be closed.
\<close>

record stream_log =
  sl_after :: u64
  sl_backlog :: "StreamEvent list"
  sl_from :: nat
  sl_got :: "StreamEvent list"
  sl_dropped :: "StreamEvent list"

record streams =
  st_run :: Run
  st_sub :: "nat \<Rightarrow> subscriber"
  st_next :: nat
  st_emits :: "(StreamEvent \<times> nat list) list"
  st_closing :: "nat list"
  st_panic :: bool
  st_log :: "nat \<Rightarrow> stream_log"

definition log_drop :: "StreamEvent \<Rightarrow> subscriber \<Rightarrow> stream_log \<Rightarrow> stream_log" where
  "log_drop se sub l = (if length (sb_ch sub) < chan_cap then l else l\<lparr>sl_dropped := sl_dropped l @ [se]\<rparr>)"

inductive stream_step :: "streams \<Rightarrow> streams \<Rightarrow> bool" where
  publish: "\<lbrakk>\<not> st_panic s; emit_publish ev (st_run s) = (r, se, subs)\<rbrakk> \<Longrightarrow>
    stream_step s (s\<lparr>st_run := r, st_emits := st_emits s @ [(se, subs)]\<rparr>)"
| send: "\<lbrakk>\<not> st_panic s; st_emits s = xs @ (se, k # ks) # ys; trySend se (st_sub s k) = Ok sub\<rbrakk> \<Longrightarrow>
    stream_step s (s\<lparr>st_emits := xs @ (se, ks) # ys, st_sub := (st_sub s)(k := sub),
      st_log := (st_log s)(k := log_drop se (st_sub s k) (st_log s k))\<rparr>)"
| send_panic: "\<lbrakk>\<not> st_panic s; st_emits s = xs @ (se, k # ks) # ys; trySend se (st_sub s k) = Panic\<rbrakk> \<Longrightarrow>
    stream_step s (s\<lparr>st_panic := True\<rparr>)"
| sent: "\<lbrakk>\<not> st_panic s; st_emits s = xs @ (se, []) # ys\<rbrakk> \<Longrightarrow> stream_step s (s\<lparr>st_emits := xs @ ys\<rparr>)"
| ended: "\<not> st_panic s \<Longrightarrow> stream_step s (s\<lparr>st_run := delete_pending jobID (st_run s)\<rparr>)"
| check: "\<lbrakk>\<not> st_panic s; checkDone_locked now (st_run s) = (r, ks)\<rbrakk> \<Longrightarrow>
    stream_step s (s\<lparr>st_run := r, st_closing := st_closing s @ ks\<rparr>)"
| subscribe: "\<lbrakk>\<not> st_panic s; Subscribe after (st_next s) (st_run s) = (r, backlog, sub)\<rbrakk> \<Longrightarrow>
    stream_step s (s\<lparr>st_run := r, st_next := Suc (st_next s), st_sub := (st_sub s)(st_next s := sub),
      st_log := (st_log s)(st_next s := \<lparr>sl_after = after, sl_backlog = backlog,
        sl_from = length (rn_buffer (st_run s)), sl_got = [], sl_dropped = []\<rparr>)\<rparr>)"
| cancel: "\<lbrakk>\<not> st_panic s; k < st_next s\<rbrakk> \<Longrightarrow>
    stream_step s (s\<lparr>st_run := cancel_locked k (st_run s), st_closing := st_closing s @ [k]\<rparr>)"
| closing: "\<lbrakk>\<not> st_panic s; st_closing s = xs @ k # ys\<rbrakk> \<Longrightarrow>
    stream_step s (s\<lparr>st_closing := xs @ ys, st_sub := (st_sub s)(k := sub_close (st_sub s k))\<rparr>)"
| recv: "\<lbrakk>\<not> st_panic s; k < st_next s; sb_ch (st_sub s k) = se # rest\<rbrakk> \<Longrightarrow>
    stream_step s (s\<lparr>st_sub := (st_sub s)(k := (st_sub s k)\<lparr>sb_ch := rest\<rparr>),
      st_log := (st_log s)(k := (st_log s k)\<lparr>sl_got := sl_got (st_log s k) @ [se]\<rparr>)\<rparr>)"

section \<open>Lemmas\<close>

lemma siteOf_jobID: "CHR '':'' \<notin> set site \<Longrightarrow> siteOf (jobID_of runID site) = site"
  using after_last_append [of "CHR '':''" site runID] by (simp add: siteOf_def jobID_of_def)

definition run_numbered :: "Run \<Rightarrow> bool" where
  "run_numbered r = (rn_seq r = of_nat (length (rn_buffer r)) \<and>
    (\<forall>i < length (rn_buffer r). se_Seq (rn_buffer r ! i) = of_nat (Suc i)))"

lemma run_numbered_publish: "run_numbered r \<Longrightarrow> run_numbered (fst (emit_publish ev r))"
  by (auto simp: run_numbered_def emit_publish_def Let_def nth_append less_Suc_eq)

definition owed :: "nat \<Rightarrow> (StreamEvent \<times> nat list) list \<Rightarrow> StreamEvent list" where
  "owed k emits = map fst (filter (\<lambda>(se, ks). k \<in> set ks) emits)"

lemma owed_append [simp]: "owed k (xs @ ys) = owed k xs @ owed k ys"
  by (simp add: owed_def)

lemma owed_Nil [simp]: "owed k [] = []"
  by (simp add: owed_def)

lemma owed_Cons [simp]: "owed k ((se, ks) # ys) = (if k \<in> set ks then se # owed k ys else owed k ys)"
  by (simp add: owed_def)

definition taken :: "nat \<Rightarrow> streams \<Rightarrow> StreamEvent multiset" where
  "taken k s = mset (sl_got (st_log s k)) + mset (sb_ch (st_sub s k)) + mset (sl_dropped (st_log s k)) +
    mset (owed k (st_emits s))"

text \<open>What one stream has been given or is owed: the events buffered since it subscribed, until it left.\<close>

definition stream_ok :: "streams \<Rightarrow> nat \<Rightarrow> bool" where
  "stream_ok s k = (let buf = rn_buffer (st_run s); l = st_log s k in
    sl_from l \<le> length buf \<and> sl_backlog l = filter (\<lambda>se. sl_after l < se_Seq se) (take (sl_from l) buf) \<and>
    (\<exists>m \<le> length buf. sl_from l \<le> m \<and> (k \<in> set (rn_subs (st_run s)) \<longrightarrow> m = length buf) \<and>
      taken k s = mset (drop (sl_from l) (take m buf))) \<and>
    (k \<in> set (rn_subs (st_run s)) \<longleftrightarrow> \<not> sb_closed (st_sub s k) \<and> k \<notin> set (st_closing s)))"

definition streams_inv :: "streams \<Rightarrow> bool" where
  "streams_inv s = (run_numbered (st_run s) \<and> (rn_done (st_run s) \<longrightarrow> rn_pending (st_run s) = [] \<and> rn_subs (st_run s) = []) \<and>
    distinct (rn_subs (st_run s)) \<and> (\<forall>k \<in> set (rn_subs (st_run s)). k < st_next s) \<and>
    (\<forall>k \<in> set (st_closing s). k < st_next s) \<and>
    (\<forall>(se, ks) \<in> set (st_emits s). distinct ks \<and> (\<forall>k \<in> set ks. k < st_next s)) \<and>
    (\<forall>k < st_next s. length (sb_ch (st_sub s k)) \<le> chan_cap \<and> stream_ok s k))"

definition streams_start :: "streams \<Rightarrow> bool" where
  "streams_start s = (run_numbered (st_run s) \<and> (rn_done (st_run s) \<longrightarrow> rn_pending (st_run s) = []) \<and> rn_subs (st_run s) = [] \<and>
    st_next s = 0 \<and> st_emits s = [] \<and> st_closing s = [] \<and> \<not> st_panic s)"

lemma streams_inv_start: "streams_start s \<Longrightarrow> streams_inv s"
  by (simp add: streams_start_def streams_inv_def)

text \<open>A step that neither buffers an event nor touches what a stream was given keeps it accounted for.\<close>

lemma stream_ok_frame:
  assumes "stream_ok s k" and "rn_buffer (st_run t) = rn_buffer (st_run s)" and "taken k t = taken k s"
    and "sl_after (st_log t k) = sl_after (st_log s k)" "sl_backlog (st_log t k) = sl_backlog (st_log s k)"
      "sl_from (st_log t k) = sl_from (st_log s k)"
    and "k \<in> set (rn_subs (st_run t)) \<Longrightarrow> k \<in> set (rn_subs (st_run s))"
    and "k \<in> set (rn_subs (st_run t)) \<longleftrightarrow> \<not> sb_closed (st_sub t k) \<and> k \<notin> set (st_closing t)"
  shows "stream_ok t k"
  using assms unfolding stream_ok_def Let_def by metis

lemma stream_ok_publish:
  assumes "stream_ok s k" and "emit_publish ev (st_run s) = (r, se, subs)"
  shows "stream_ok (s\<lparr>st_run := r, st_emits := st_emits s @ [(se, subs)]\<rparr>) k"
proof -
  let ?t = "s\<lparr>st_run := r, st_emits := st_emits s @ [(se, subs)]\<rparr>"
  let ?buf = "rn_buffer (st_run s)" and ?l = "st_log s k"
  have r: "rn_buffer r = ?buf @ [se]" "rn_subs r = rn_subs (st_run s)" "subs = rn_subs (st_run s)"
    using assms(2) by (auto simp: emit_publish_def Let_def)
  obtain m where m: "m \<le> length ?buf" "sl_from ?l \<le> m" "k \<in> set (rn_subs (st_run s)) \<longrightarrow> m = length ?buf"
      "taken k s = mset (drop (sl_from ?l) (take m ?buf))"
    using assms(1) by (auto simp: stream_ok_def Let_def)
  have t: "taken k ?t = taken k s + (if k \<in> set subs then {#se#} else {#})"
    by (simp add: taken_def)
  have "\<exists>m' \<le> length (rn_buffer r). sl_from ?l \<le> m' \<and> (k \<in> set (rn_subs r) \<longrightarrow> m' = length (rn_buffer r)) \<and>
      taken k ?t = mset (drop (sl_from ?l) (take m' (rn_buffer r)))"
  proof (cases "k \<in> set subs")
    case True
    with m r t show ?thesis by (intro exI [of _ "Suc m"]) auto
  next
    case False
    with m r t show ?thesis by (intro exI [of _ m]) auto
  qed
  with assms(1) r show ?thesis by (simp add: stream_ok_def Let_def)
qed

text \<open>Taking an event from an emission and putting it into the channel, or leaving it out, loses nothing.\<close>

lemma taken_send:
  assumes "st_emits s = xs @ (se, k # ks) # ys" and "distinct (k # ks)" and "trySend se (st_sub s k) = Ok sub"
  shows "taken j (s\<lparr>st_emits := xs @ (se, ks) # ys, st_sub := (st_sub s)(k := sub),
    st_log := (st_log s)(k := log_drop se (st_sub s k) (st_log s k))\<rparr>) = taken j s"
  using assms by (auto simp: taken_def trySend_def push_event_def log_drop_def split: if_splits)

lemma streams_inv_publish:
  assumes "streams_inv s" and "emit_publish ev (st_run s) = (r, se, subs)"
  shows "streams_inv (s\<lparr>st_run := r, st_emits := st_emits s @ [(se, subs)]\<rparr>)"
proof -
  have "r = fst (emit_publish ev (st_run s))" using assms(2) by simp
  then have "run_numbered r" using assms(1) run_numbered_publish [of "st_run s" ev] by (simp add: streams_inv_def)
  moreover have "rn_subs r = rn_subs (st_run s)" "rn_pending r = rn_pending (st_run s)" "rn_done r = rn_done (st_run s)"
      "subs = rn_subs (st_run s)"
    using assms(2) by (auto simp: emit_publish_def Let_def)
  ultimately show ?thesis using assms(1) stream_ok_publish [OF _ assms(2)] by (auto simp: streams_inv_def)
qed

lemma streams_inv_subscribe:
  assumes "streams_inv s" and "Subscribe after (st_next s) (st_run s) = (r, backlog, sub)"
  shows "streams_inv (s\<lparr>st_run := r, st_next := Suc (st_next s), st_sub := (st_sub s)(st_next s := sub),
      st_log := (st_log s)(st_next s := \<lparr>sl_after = after, sl_backlog = backlog,
        sl_from = length (rn_buffer (st_run s)), sl_got = [], sl_dropped = []\<rparr>)\<rparr>)" (is "streams_inv ?t")
proof -
  let ?k = "st_next s"
  have f: "rn_buffer r = rn_buffer (st_run s)" "rn_seq r = rn_seq (st_run s)" "rn_pending r = rn_pending (st_run s)"
      "rn_done r = rn_done (st_run s)" "sb_ch sub = []" "sb_closed sub = rn_done (st_run s)"
      "backlog = filter (\<lambda>se. after < se_Seq se) (rn_buffer (st_run s))"
      "rn_subs r = (if rn_done (st_run s) then rn_subs (st_run s) else rn_subs (st_run s) @ [?k])"
    using assms(2) by (auto simp: Subscribe_def Let_def split: if_splits)
  have new: "?k \<notin> set (rn_subs (st_run s))" "owed ?k (st_emits s) = []" "?k \<notin> set (st_closing s)"
    using assms(1) by (auto simp: streams_inv_def owed_def filter_empty_conv)
  have old: "stream_ok ?t j" if "stream_ok s j" "j < ?k" for j
    by (rule stream_ok_frame [OF that(1)]) (use that f in \<open>auto simp: taken_def stream_ok_def Let_def split: if_splits\<close>)
  have "stream_ok ?t ?k" using assms(1) f new by (auto simp: stream_ok_def Let_def taken_def streams_inv_def)
  moreover have "run_numbered r" using assms(1) f by (simp add: streams_inv_def run_numbered_def)
  ultimately show ?thesis using assms(1) f old new by (auto simp: streams_inv_def less_Suc_eq)
qed

text \<open>A step that keeps what every stream was given or is owed keeps the invariant, if it keeps the subscribers and the channels in order.\<close>

lemma streams_inv_frame:
  assumes "streams_inv s" and "st_next t = st_next s" "rn_buffer (st_run t) = rn_buffer (st_run s)" "rn_seq (st_run t) = rn_seq (st_run s)"
    and "rn_done (st_run t) \<Longrightarrow> rn_pending (st_run t) = [] \<and> rn_subs (st_run t) = []"
    and "distinct (rn_subs (st_run t))" "set (rn_subs (st_run t)) \<subseteq> set (rn_subs (st_run s))"
    and "\<forall>k \<in> set (st_closing t). k < st_next s" "\<forall>(se, ks) \<in> set (st_emits t). distinct ks \<and> (\<forall>k \<in> set ks. k < st_next s)"
    and "\<And>j. taken j t = taken j s"
    and "\<And>j. sl_after (st_log t j) = sl_after (st_log s j) \<and> sl_backlog (st_log t j) = sl_backlog (st_log s j) \<and>
      sl_from (st_log t j) = sl_from (st_log s j)"
    and "\<And>j. length (sb_ch (st_sub s j)) \<le> chan_cap \<Longrightarrow> length (sb_ch (st_sub t j)) \<le> chan_cap"
    and "\<And>j. \<lbrakk>j < st_next s; j \<in> set (rn_subs (st_run s)) \<longleftrightarrow> \<not> sb_closed (st_sub s j) \<and> j \<notin> set (st_closing s)\<rbrakk> \<Longrightarrow>
      j \<in> set (rn_subs (st_run t)) \<longleftrightarrow> \<not> sb_closed (st_sub t j) \<and> j \<notin> set (st_closing t)"
  shows "streams_inv t"
proof -
  have "stream_ok t j" if "stream_ok s j" "j < st_next s" for j
  proof (rule stream_ok_frame [OF that(1) assms(3,10)])
    show "j \<in> set (rn_subs (st_run t)) \<longleftrightarrow> \<not> sb_closed (st_sub t j) \<and> j \<notin> set (st_closing t)"
      using that by (intro assms(13)) (auto simp: stream_ok_def Let_def)
  qed (use assms(7,11) in auto)
  then have "\<forall>j < st_next t. length (sb_ch (st_sub t j)) \<le> chan_cap \<and> stream_ok t j"
    using assms(1,2,12) by (simp add: streams_inv_def)
  moreover have "run_numbered (st_run t)" using assms(1,3,4) by (simp add: streams_inv_def run_numbered_def)
  moreover have "\<forall>k \<in> set (rn_subs (st_run t)). k < st_next t" using assms(1,2,7) by (auto simp: streams_inv_def)
  ultimately show ?thesis using assms(2,5,6,8,9) unfolding streams_inv_def by simp
qed

lemma streams_inv_send:
  assumes "streams_inv s" and "st_emits s = xs @ (se, k # ks) # ys" and "trySend se (st_sub s k) = Ok sub"
  shows "streams_inv (s\<lparr>st_emits := xs @ (se, ks) # ys, st_sub := (st_sub s)(k := sub),
      st_log := (st_log s)(k := log_drop se (st_sub s k) (st_log s k))\<rparr>)"
proof -
  have d: "distinct (k # ks)" using assms(1,2) by (auto simp: streams_inv_def)
  have "sb_closed sub = sb_closed (st_sub s k)" using assms(3) by (auto simp: trySend_def push_event_def split: if_splits)
  moreover have "length (sb_ch (st_sub s k)) \<le> chan_cap \<Longrightarrow> length (sb_ch sub) \<le> chan_cap"
    using assms(3) by (auto simp: trySend_def push_event_def split: if_splits)
  ultimately show ?thesis
    by (intro streams_inv_frame [OF assms(1)] taken_send [OF assms(2) d assms(3)])
      (use assms(1,2) d in \<open>auto simp: streams_inv_def log_drop_def\<close>)
qed

lemma streams_inv_step:
  assumes "streams_inv s" and "stream_step s t"
  shows "streams_inv t"
  using assms(2)
proof cases
  case publish
  then show ?thesis using streams_inv_publish [OF assms(1)] by simp
next
  case send
  then show ?thesis using streams_inv_send [OF assms(1)] by simp
next
  case subscribe
  then show ?thesis using streams_inv_subscribe [OF assms(1)] by simp
next
  case send_panic
  then show ?thesis by (intro streams_inv_frame [OF assms(1)]) (use assms(1) in \<open>auto simp: streams_inv_def taken_def\<close>)
next
  case sent
  then show ?thesis by (intro streams_inv_frame [OF assms(1)]) (use assms(1) in \<open>auto simp: streams_inv_def taken_def\<close>)
next
  case ended
  then show ?thesis
    by (intro streams_inv_frame [OF assms(1)]) (use assms(1) in \<open>auto simp: streams_inv_def taken_def delete_pending_def\<close>)
next
  case check
  then show ?thesis
    by (intro streams_inv_frame [OF assms(1)])
      (use assms(1) in \<open>auto simp: streams_inv_def taken_def checkDone_locked_def split: if_splits\<close>)
next
  case cancel
  then show ?thesis
    by (intro streams_inv_frame [OF assms(1)]) (use assms(1) in \<open>auto simp: streams_inv_def taken_def cancel_locked_def\<close>)
next
  case closing
  then show ?thesis by (intro streams_inv_frame [OF assms(1)]) (use assms(1) in \<open>auto simp: streams_inv_def taken_def sub_close_def\<close>)
next
  case recv
  then show ?thesis by (intro streams_inv_frame [OF assms(1)]) (use assms(1) in \<open>auto simp: streams_inv_def taken_def\<close>)
qed

interpretation streams: invariant_system streams_start stream_step streams_inv
  by unfold_locales (auto intro: streams_inv_start streams_inv_step)

lemma numbered_after:
  assumes "run_numbered r" and "length (rn_buffer r) < 2 ^ 64" and "n \<le> length (rn_buffer r)" and "after \<le> of_nat n"
  shows "filter (\<lambda>se. after < se_Seq se) (drop n (rn_buffer r)) = drop n (rn_buffer r)"
proof (rule filter_True, rule ballI)
  fix se assume "se \<in> set (drop n (rn_buffer r))"
  then obtain i where i: "i < length (rn_buffer r) - n" "se = rn_buffer r ! (n + i)"
    by (auto simp: in_set_conv_nth)
  have "(of_nat n :: u64) < of_nat (Suc (n + i))"
    using i assms(2) by (subst of_nat_word_less_iff) (simp add: take_bit_nat_eq_self)
  moreover have "se_Seq se = of_nat (Suc (n + i))" using assms(1) i by (simp add: run_numbered_def)
  ultimately show "after < se_Seq se" using assms(4) by simp
qed

section \<open>Theorems\<close>

text \<open>(C9) However emitters, streams and cancellations interleave, the events of a run are buffered with the numbers 1, 2, ...;
  no stream is handed an event twice, nor one from before it subscribed beyond its backlog; a stream still
  open has been given, holds in its channel (at most 256), is owed, or had dropped exactly the events since it
  subscribed, so that with nothing dropped or owed its backlog and its channel together carry exactly the events
  after the number it resumed from; and once the run is done and the closing is over, every stream is closed.\<close>

theorem streams_account:
  assumes "stream_step\<^sup>*\<^sup>* s0 s" and "streams_start s0" and "length (rn_buffer (st_run s)) < 2 ^ 64" and "k < st_next s"
  shows "let buf = rn_buffer (st_run s); l = st_log s k; ch = sb_ch (st_sub s k) in
    map se_Seq buf = map of_nat [1..<Suc (length buf)] \<and> length ch \<le> 256 \<and>
    mset (sl_got l @ ch @ sl_dropped l) \<subseteq># mset (drop (sl_from l) buf) \<and>
    (k \<in> set (rn_subs (st_run s)) \<and> owed k (st_emits s) = [] \<longrightarrow>
      mset (sl_got l @ ch @ sl_dropped l) = mset (drop (sl_from l) buf) \<and>
      (sl_dropped l = [] \<and> sl_after l \<le> of_nat (sl_from l) \<longrightarrow>
        mset (sl_backlog l @ sl_got l @ ch) = mset (filter (\<lambda>se. sl_after l < se_Seq se) buf))) \<and>
    (rn_done (st_run s) \<longrightarrow> rn_pending (st_run s) = [] \<and> (st_closing s = [] \<longrightarrow> sb_closed (st_sub s k)))"
proof -
  let ?buf = "rn_buffer (st_run s)" and ?l = "st_log s k" and ?ch = "sb_ch (st_sub s k)"
  have inv: "streams_inv s" by (rule streams.inv_reachable [OF assms(2,1)])
  then have num: "run_numbered (st_run s)" and ok: "stream_ok s k" and len: "length ?ch \<le> 256"
    and fin: "rn_done (st_run s) \<longrightarrow> rn_pending (st_run s) = [] \<and> rn_subs (st_run s) = []"
    using assms(4) by (auto simp: streams_inv_def chan_cap_def)
  obtain m where m: "m \<le> length ?buf" "sl_from ?l \<le> m" "k \<in> set (rn_subs (st_run s)) \<longrightarrow> m = length ?buf"
      "taken k s = mset (drop (sl_from ?l) (take m ?buf))"
    and frm: "sl_from ?l \<le> length ?buf" "sl_backlog ?l = filter (\<lambda>se. sl_after ?l < se_Seq se) (take (sl_from ?l) ?buf)"
    and open': "k \<in> set (rn_subs (st_run s)) \<longleftrightarrow> \<not> sb_closed (st_sub s k) \<and> k \<notin> set (st_closing s)"
    using ok by (auto simp: stream_ok_def Let_def)
  have "map se_Seq ?buf = map of_nat [1..<Suc (length ?buf)]"
    using num by (intro nth_equalityI) (auto simp: run_numbered_def nth_append simp del: upt_Suc)
  moreover have "mset (sl_got ?l @ ?ch @ sl_dropped ?l) \<subseteq># taken k s"
    by (simp add: taken_def ac_simps)
  then have "mset (sl_got ?l @ ?ch @ sl_dropped ?l) \<subseteq># mset (drop (sl_from ?l) ?buf)"
  proof (rule subset_mset.order_trans)
    have "drop (sl_from ?l) ?buf = drop (sl_from ?l) (take m ?buf) @ drop m ?buf"
      using m(2) by (metis append_take_drop_id drop_append drop_eq_Nil append_Nil2 length_take min.absorb2 m(1)
          diff_is_0_eq drop_0)
    then show "taken k s \<subseteq># mset (drop (sl_from ?l) ?buf)" using m(4) by simp
  qed
  moreover have all: "mset (sl_got ?l @ ?ch @ sl_dropped ?l) = mset (drop (sl_from ?l) ?buf)"
    if "k \<in> set (rn_subs (st_run s))" "owed k (st_emits s) = []"
    using m that by (simp add: taken_def ac_simps)
  moreover have "mset (sl_backlog ?l @ sl_got ?l @ ?ch) = mset (filter (\<lambda>se. sl_after ?l < se_Seq se) ?buf)"
    if "k \<in> set (rn_subs (st_run s))" "owed k (st_emits s) = []" "sl_dropped ?l = []" "sl_after ?l \<le> of_nat (sl_from ?l)"
  proof -
    have "filter (\<lambda>se. sl_after ?l < se_Seq se) ?buf = sl_backlog ?l @ drop (sl_from ?l) ?buf"
      using numbered_after [OF num assms(3) frm(1) that(4)] frm(2)
      by (metis append_take_drop_id filter_append)
    with all [OF that(1,2)] that(3) show ?thesis by simp
  qed
  moreover have "rn_done (st_run s) \<longrightarrow> rn_pending (st_run s) = [] \<and> (st_closing s = [] \<longrightarrow> sb_closed (st_sub s k))"
    using fin open' by auto
  ultimately show ?thesis using len by (simp add: Let_def)
qed

definition demo_run :: Run where "demo_run = new_run ''r'' [''fra''] 0"

definition demo_streams :: streams where
  "demo_streams = \<lparr>st_run = demo_run\<lparr>rn_pending := [''r:fra'']\<rparr>, st_sub = (\<lambda>_. \<lparr>sb_ch = [], sb_closed = False\<rparr>), st_next = 0,
    st_emits = [], st_closing = [], st_panic = False,
    st_log = (\<lambda>_. \<lparr>sl_after = 0, sl_backlog = [], sl_from = 0, sl_got = [], sl_dropped = []\<rparr>)\<rparr>"

definition demo_event :: "job_event \<Rightarrow> JobEvent" where
  "demo_event e = \<lparr>je_JobId = ''r:fra'', je_Seq = 0, je_Time = None, je_Event = e\<rparr>"

lemma demo_streams_start: "streams_start demo_streams"
  by (simp add: streams_start_def demo_streams_def demo_run_def new_run_def run_numbered_def)

text \<open>A stream is opened, and two events are buffered before either is sent.\<close>

definition demo_open :: streams where
  "demo_open = demo_streams\<lparr>st_run := (st_run demo_streams)\<lparr>rn_subs := [0]\<rparr>, st_next := 1,
    st_sub := (st_sub demo_streams)(0 := \<lparr>sb_ch = [], sb_closed = False\<rparr>),
    st_log := (st_log demo_streams)(0 := \<lparr>sl_after = 0, sl_backlog = [], sl_from = 0, sl_got = [], sl_dropped = []\<rparr>)\<rparr>"

definition demo_se :: "u64 \<Rightarrow> StreamEvent" where
  "demo_se n = \<lparr>se_Seq = n, se_Site = ''fra'', se_Event = demo_event NoEvent\<rparr>"

definition demo_busy :: streams where
  "demo_busy = demo_open\<lparr>st_run := (st_run demo_open)\<lparr>rn_seq := 2, rn_buffer := [demo_se 1, demo_se 2]\<rparr>,
    st_emits := [(demo_se 1, [0]), (demo_se 2, [0])]\<rparr>"

lemmas demo_defs = demo_open_def demo_streams_def demo_run_def new_run_def demo_se_def demo_event_def demo_busy_def

lemma demo_open_step: "stream_step demo_streams demo_open"
  unfolding demo_open_def
  using subscribe [of demo_streams 0 "(st_run demo_streams)\<lparr>rn_subs := [0]\<rparr>" "[]" "\<lparr>sb_ch = [], sb_closed = False\<rparr>"]
  by (simp add: Subscribe_def demo_streams_def demo_run_def new_run_def)

lemma demo_busy_steps: "stream_step\<^sup>*\<^sup>* demo_streams demo_busy"
proof -
  let ?r1 = "(st_run demo_open)\<lparr>rn_seq := 1, rn_buffer := [demo_se 1]\<rparr>"
  let ?s1 = "demo_open\<lparr>st_run := ?r1, st_emits := [(demo_se 1, [0])]\<rparr>"
  have site: "siteOf ''r:fra'' = ''fra''" using siteOf_jobID [of "''fra''" "''r''"] by (simp add: jobID_of_def)
  have p1: "emit_publish (demo_event NoEvent) (st_run demo_open) = (?r1, demo_se 1, [0])"
    by (simp add: emit_publish_def Let_def demo_defs site)
  have p2: "emit_publish (demo_event NoEvent) (st_run ?s1) = (st_run demo_busy, demo_se 2, [0])"
    by (simp add: emit_publish_def Let_def demo_defs site)
  have a: "stream_step demo_open ?s1"
    using publish [OF _ p1] by (simp add: demo_open_def demo_streams_def)
  have b: "stream_step ?s1 demo_busy"
    using publish [OF _ p2] by (simp add: demo_defs)
  show ?thesis
    by (rule rtranclp.rtrancl_into_rtrancl [OF rtranclp.rtrancl_into_rtrancl
        [OF r_into_rtranclp [of stream_step, OF demo_open_step] a] b])
qed

theorem streams_account_witness:
  "stream_step\<^sup>*\<^sup>* demo_streams demo_busy \<and> map se_Seq (rn_buffer (st_run demo_busy)) = [1, 2] \<and>
   map se_Seq (rn_buffer (st_run demo_busy)) = map of_nat [1..<Suc (length (rn_buffer (st_run demo_busy)))]"
proof -
  have "length (rn_buffer (st_run demo_busy)) < 2 ^ 64" "0 < st_next demo_busy" by (simp_all add: demo_defs)
  from streams_account [OF demo_busy_steps demo_streams_start this] demo_busy_steps show ?thesis
    by (simp add: Let_def) (simp add: demo_defs)
qed

text \<open>
  Two interleavings the lock does not exclude: the client leaves between the copying of the
  subscribers and the send, and the send on the closed channel panics; two sites emit at once, and
  the later event reaches the stream first.
\<close>

lemma demo_send:
  assumes "\<not> st_panic s" "st_emits s = xs @ (se, k # ks) # ys" "\<not> sb_closed (st_sub s k)" "length (sb_ch (st_sub s k)) < chan_cap"
  shows "\<exists>t. stream_step s t \<and> st_emits t = xs @ (se, ks) # ys \<and> sb_ch (st_sub t k) = sb_ch (st_sub s k) @ [se] \<and>
    \<not> st_panic t \<and> \<not> sb_closed (st_sub t k)"
proof -
  have "trySend se (st_sub s k) = Ok ((st_sub s k)\<lparr>sb_ch := sb_ch (st_sub s k) @ [se]\<rparr>)"
    using assms by (simp add: trySend_def push_event_def)
  from send [OF assms(1,2) this] assms show ?thesis by (intro exI conjI) (assumption, simp_all)
qed

lemma send_on_closed_channel:
  assumes "\<not> st_panic s" and "k < st_next s" and "st_emits s = (se, k # ks) # ys"
  shows "\<exists>t. stream_step\<^sup>*\<^sup>* s t \<and> st_panic t"
proof -
  obtain s1 where 1: "stream_step s s1" "\<not> st_panic s1" "st_emits s1 = (se, k # ks) # ys"
      "st_closing s1 = st_closing s @ [k]"
    using that [OF cancel [OF assms(1,2)]] assms(1,3) by simp
  obtain s2 where 2: "stream_step s1 s2" "\<not> st_panic s2" "st_emits s2 = (se, k # ks) # ys" "sb_closed (st_sub s2 k)"
    using that [OF closing [OF 1(2,4)]] 1(2,3) by (simp add: sub_close_def)
  have "trySend se (st_sub s2 k) = Panic" using 2(4) by (simp add: trySend_def)
  then obtain s3 where 3: "stream_step s2 s3" "st_panic s3"
    using that [OF send_panic [of s2 "[]" se k ks ys]] 2 by simp
  have "stream_step\<^sup>*\<^sup>* s s1" using 1(1) by (rule r_into_rtranclp)
  then have "stream_step\<^sup>*\<^sup>* s s2" using 2(1) by (rule rtranclp.rtrancl_into_rtrancl)
  then have "stream_step\<^sup>*\<^sup>* s s3" using 3(1) by (rule rtranclp.rtrancl_into_rtrancl)
  with 3(2) show ?thesis by blast
qed

lemma stream_panics: "\<exists>t. stream_step\<^sup>*\<^sup>* demo_streams t \<and> st_panic t"
proof -
  have "\<not> st_panic demo_busy" "0 < st_next demo_busy" "st_emits demo_busy = (demo_se 1, [0]) # [(demo_se 2, [0])]"
    by (simp_all add: demo_defs)
  from send_on_closed_channel [OF this] demo_busy_steps show ?thesis by (meson rtranclp_trans)
qed

lemma stream_out_of_order:
  "\<exists>s. stream_step\<^sup>*\<^sup>* demo_streams s \<and> map se_Seq (sb_ch (st_sub s 0)) = [2, 1]"
proof -
  obtain s1 where 1: "stream_step demo_busy s1" "st_emits s1 = [(demo_se 1, [0]), (demo_se 2, [])]"
      "sb_ch (st_sub s1 0) = [demo_se 2]" "\<not> st_panic s1" "\<not> sb_closed (st_sub s1 0)"
    using demo_send [of demo_busy "[(demo_se 1, [0])]" "demo_se 2" 0 "[]" "[]"]
    by (auto simp: demo_defs chan_cap_def)
  obtain s2 where 2: "stream_step s1 s2" "sb_ch (st_sub s2 0) = [demo_se 2, demo_se 1]"
    using demo_send [of s1 "[]" "demo_se 1" 0 "[]" "[(demo_se 2, [])]"] 1 by (auto simp: chan_cap_def)
  have "stream_step\<^sup>*\<^sup>* demo_streams s2"
    by (rule rtranclp.rtrancl_into_rtrancl [OF rtranclp.rtrancl_into_rtrancl [OF demo_busy_steps 1(1)] 2(1)])
  with 2 show ?thesis by (intro exI [of _ s2]) (simp add: demo_se_def)
qed

section \<open>The life of a run\<close>

fun feed :: "(instant \<times> JobEvent) list \<Rightarrow> Run \<times> (nat \<Rightarrow> subscriber) \<Rightarrow> (unit, Run \<times> (nat \<Rightarrow> subscriber)) outcome" where
  "feed [] rs = Ok rs"
| "feed ((now, ev) # evs) rs = obind (OnEvent now ev rs) (feed evs)"

definition run_ready :: "Run \<Rightarrow> (nat \<Rightarrow> subscriber) \<Rightarrow> bool" where
  "run_ready r store = ((\<forall>k \<in> set (rn_subs r). \<not> sb_closed (store k)) \<and> (rn_done r \<longleftrightarrow> rn_pending r = []) \<and>
    (rn_done r \<longrightarrow> rn_subs r = []))"

lemma emit_deliver_open:
  "\<forall>k \<in> set ks. \<not> sb_closed (store k) \<Longrightarrow>
    \<exists>store'. emit_deliver se ks store = Ok store' \<and> (\<forall>k. sb_closed (store' k) = sb_closed (store k))"
proof (induction ks arbitrary: store)
  case Nil
  then show ?case by simp
next
  case (Cons k ks)
  let ?store = "store(k := push_event se (store k))"
  have c: "sb_closed (?store j) = sb_closed (store j)" for j by (simp add: push_event_def)
  with Cons.prems have "\<forall>k \<in> set ks. \<not> sb_closed (?store k)" by simp
  from Cons.IH [OF this] obtain store' where "emit_deliver se ks ?store = Ok store'"
      "\<forall>k. sb_closed (store' k) = sb_closed (store k)"
    unfolding c by blast
  with Cons.prems show ?case by (simp add: trySend_def)
qed

lemma close_all:
  "sb_closed (fold (\<lambda>k store. store(k := sub_close (store k))) ks store j) = (sb_closed (store j) \<or> j \<in> set ks)"
  by (induction ks arbitrary: store) (auto simp: sub_close_def)

lemma OnEvent_ready:
  assumes "run_ready r store"
  obtains r' store' where "OnEvent now ev (r, store) = Ok (r', store')" and "run_ready r' store'"
    and "map se_Event (rn_buffer r') = map se_Event (rn_buffer r) @ [ev]"
    and "set (rn_pending r') = set (rn_pending r) - (if is_terminal (je_Event ev) then {je_JobId ev} else {})"
    and "rn_subs r' = (if rn_done r' then [] else rn_subs r)"
    and "\<And>k. sb_closed (store' k) = (sb_closed (store k) \<or> rn_done r' \<and> k \<in> set (rn_subs r))"
proof -
  obtain r1 se where p: "emit_publish ev r = (r1, se, rn_subs r)" "rn_buffer r1 = rn_buffer r @ [se]" "se_Event se = ev"
      "rn_pending r1 = rn_pending r" "rn_subs r1 = rn_subs r" "rn_done r1 = rn_done r"
    by (simp add: emit_publish_def Let_def)
  obtain store1 where d: "emit_deliver se (rn_subs r) store = Ok store1" "\<And>k. sb_closed (store1 k) = sb_closed (store k)"
    using emit_deliver_open [of "rn_subs r" store se] assms by (auto simp: run_ready_def)
  let ?on = "if is_terminal (je_Event ev) then checkDone now (delete_pending (je_JobId ev) r1) store1 else (r1, store1)"
  have on: "OnEvent now ev (r, store) = Ok ?on"
    by (simp add: OnEvent_def run_emit_def p(1) d(1))
  show ?thesis
  proof (rule that [of "fst ?on" "snd ?on"])
    show "OnEvent now ev (r, store) = Ok (fst ?on, snd ?on)" using on by simp
    show "run_ready (fst ?on) (snd ?on)"
      using assms p d(2) by (auto simp: run_ready_def checkDone_def checkDone_locked_def delete_pending_def close_all)
    show "map se_Event (rn_buffer (fst ?on)) = map se_Event (rn_buffer r) @ [ev]"
      using p by (simp add: checkDone_def checkDone_locked_def delete_pending_def Let_def)
    show "set (rn_pending (fst ?on)) = set (rn_pending r) - (if is_terminal (je_Event ev) then {je_JobId ev} else {})"
      using p by (auto simp: checkDone_def checkDone_locked_def delete_pending_def Let_def filter_empty_conv)
    show "rn_subs (fst ?on) = (if rn_done (fst ?on) then [] else rn_subs r)"
      using p assms by (auto simp: checkDone_def checkDone_locked_def delete_pending_def Let_def run_ready_def)
    show "sb_closed (snd ?on k) = (sb_closed (store k) \<or> rn_done (fst ?on) \<and> k \<in> set (rn_subs r))" for k
      using p assms d(2) by (auto simp: checkDone_def checkDone_locked_def delete_pending_def Let_def run_ready_def close_all)
  qed
qed

lemma feed_ready:
  "run_ready r store \<Longrightarrow> \<exists>r' store'. feed evs (r, store) = Ok (r', store') \<and> run_ready r' store' \<and>
    map se_Event (rn_buffer r') = map se_Event (rn_buffer r) @ map snd evs \<and>
    set (rn_pending r') = set (rn_pending r) - {je_JobId ev | now ev. (now, ev) \<in> set evs \<and> is_terminal (je_Event ev)} \<and>
    (\<forall>k. sb_closed (store k) \<longrightarrow> sb_closed (store' k)) \<and> (rn_done r' \<longrightarrow> (\<forall>k \<in> set (rn_subs r). sb_closed (store' k)))"
proof (induction evs arbitrary: r store)
  case Nil
  then show ?case by (auto simp: run_ready_def)
next
  case (Cons e evs)
  obtain now ev where e: "e = (now, ev)" by (cases e)
  obtain r1 store1 where 1: "OnEvent now ev (r, store) = Ok (r1, store1)" "run_ready r1 store1"
    "map se_Event (rn_buffer r1) = map se_Event (rn_buffer r) @ [ev]"
    "set (rn_pending r1) = set (rn_pending r) - (if is_terminal (je_Event ev) then {je_JobId ev} else {})"
    "rn_subs r1 = (if rn_done r1 then [] else rn_subs r)"
    "\<And>k. sb_closed (store1 k) = (sb_closed (store k) \<or> rn_done r1 \<and> k \<in> set (rn_subs r))"
    by (rule OnEvent_ready [OF Cons.prems, of now ev]) blast
  from Cons.IH [OF 1(2)] obtain r2 store2 where 2: "feed evs (r1, store1) = Ok (r2, store2)" "run_ready r2 store2"
    "map se_Event (rn_buffer r2) = map se_Event (rn_buffer r1) @ map snd evs"
    "set (rn_pending r2) = set (rn_pending r1) - {je_JobId ev | now ev. (now, ev) \<in> set evs \<and> is_terminal (je_Event ev)}"
    "\<forall>k. sb_closed (store1 k) \<longrightarrow> sb_closed (store2 k)" "rn_done r2 \<longrightarrow> (\<forall>k \<in> set (rn_subs r1). sb_closed (store2 k))"
    by blast
  have "feed (e # evs) (r, store) = Ok (r2, store2)" using e 1(1) 2(1) by simp
  moreover have "map se_Event (rn_buffer r2) = map se_Event (rn_buffer r) @ map snd (e # evs)" using e 1(3) 2(3) by simp
  moreover have "set (rn_pending r2) =
      set (rn_pending r) - {je_JobId ev | now ev. (now, ev) \<in> set (e # evs) \<and> is_terminal (je_Event ev)}"
    unfolding 2(4) 1(4) e by auto
  moreover have "\<forall>k. sb_closed (store k) \<longrightarrow> sb_closed (store2 k)" using 1(6) 2(5) by blast
  moreover have "rn_done r2 \<longrightarrow> (\<forall>k \<in> set (rn_subs r). sb_closed (store2 k))"
    using 1(5,6) 2(5,6) by (cases "rn_done r1") auto
  ultimately show ?case using 2(2) by blast
qed



section \<open>Starting and reaping\<close>

definition site_starts :: "(conn \<Rightarrow> bool) \<Rightarrow> Gateway \<Rightarrow> string \<Rightarrow> bool" where
  "site_starts alive g site = (case map_of (gw_agents g) site of Some c \<Rightarrow> alive c | None \<Rightarrow> False)"

lemma jobID_of_inj [simp]: "jobID_of i s = jobID_of i s' \<longleftrightarrow> s = s'"
  by (simp add: jobID_of_def)

lemma gw_StartJob_frame:
  assumes "gw_StartJob alive site job sink g = (g', err)"
  shows "gw_agents g' = gw_agents g" and "err = None \<longleftrightarrow> site_starts alive g site"
    and "map_of (gw_agents g) site \<noteq> None \<Longrightarrow> gw_sinks g' = AList.update (sj_JobId job) sink (gw_sinks g)"
    and "map_of (gw_agents g) site = None \<Longrightarrow> gw_sinks g' = gw_sinks g"
  using assms by (auto simp: gw_StartJob_def conn_send_def site_starts_def Let_def split: option.splits if_splits)

text \<open>The three ways a start at a site goes: no agent, an agent that refuses, and a job that is on its way.\<close>

lemma start_site_elim:
  fixes r :: Run and site :: string
  defines "j \<equiv> jobID_of (rn_ID r) site" and "r1 \<equiv> r\<lparr>rn_pending := List.insert (jobID_of (rn_ID r) site) (rn_pending r)\<rparr>"
  assumes "start_site alive now newJob site (r, g) = (r', g')" and "gw_StartJob alive site (newJob j) (rn_ID r) g = (g1, err)"
  obtains (none) "map_of (gw_agents g) site = None" "g' = g" "\<not> site_starts alive g site"
      "r' = delete_pending j (fst (emit_publish (no_agent_event now j site) r1))"
    | (err) e where "map_of (gw_agents g) site \<noteq> None" "g' = g1" "\<not> site_starts alive g site"
      "r' = delete_pending j (fst (emit_publish (start_error_event now j e) r1))"
    | (ok) "map_of (gw_agents g) site \<noteq> None" "g' = g1" "site_starts alive g site" "r' = r1"
proof -
  have eq: "(r', g') = (if map_of (gw_agents g) site = None
      then (delete_pending j (fst (emit_publish (no_agent_event now j site) r1)), g)
      else case err of Some e \<Rightarrow> (delete_pending j (fst (emit_publish (start_error_event now j e) r1)), g1) | None \<Rightarrow> (r1, g1))"
    unfolding assms(3) [symmetric] r1_def j_def using assms(4) by (simp add: start_site_def Let_def Connected_def j_def)
  show thesis
  proof (cases "map_of (gw_agents g) site = None")
    case True
    moreover have "\<not> site_starts alive g site" using True by (simp add: site_starts_def)
    ultimately show thesis using eq by (intro none) (simp_all only: refl if_True prod.inject simp_thms)
  next
    case False
    note eq = eq [unfolded if_not_P [OF False]] and starts = gw_StartJob_frame(2) [OF assms(4)]
    show thesis
    proof (cases err)
      case None
      with eq False starts show thesis by (intro ok) (simp_all only: option.case prod.inject simp_thms)
    next
      case (Some e)
      with starts have "\<not> site_starts alive g site" by simp
      with eq False Some show thesis by (intro err) (simp_all only: option.case prod.inject simp_thms)
    qed
  qed
qed

lemma start_site_cases:
  assumes "start_site alive now newJob site (r, g) = (r', g')" and "\<And>j. sj_JobId (newJob j) = j"
  shows "gw_agents g' = gw_agents g" and "rn_ID r' = rn_ID r" and "rn_done r' = rn_done r" and "rn_subs r' = rn_subs r"
    and "set (rn_pending r') = (if site_starts alive g site then insert (jobID_of (rn_ID r) site) (set (rn_pending r))
      else set (rn_pending r) - {jobID_of (rn_ID r) site})"
    and "map (je_JobId \<circ> se_Event) (rn_buffer r') = map (je_JobId \<circ> se_Event) (rn_buffer r) @
      (if site_starts alive g site then [] else [jobID_of (rn_ID r) site])"
    and "\<forall>se \<in> set (rn_buffer r). is_terminal (je_Event (se_Event se)) \<Longrightarrow>
      \<forall>se \<in> set (rn_buffer r'). is_terminal (je_Event (se_Event se))"
    and "map_of (gw_sinks g') = (if map_of (gw_agents g) site = None then map_of (gw_sinks g)
      else (map_of (gw_sinks g))(jobID_of (rn_ID r) site \<mapsto> rn_ID r))"
    and "run_numbered r \<Longrightarrow> run_numbered r'"
proof -
  let ?j = "jobID_of (rn_ID r) site" and ?r = "r\<lparr>rn_pending := List.insert (jobID_of (rn_ID r) site) (rn_pending r)\<rparr>"
  obtain g1 err where s: "gw_StartJob alive site (newJob ?j) (rn_ID r) g = (g1, err)" by force
  note c = start_site_elim [OF assms(1) s] and sinks = gw_StartJob_frame [OF s] assms(2)
  note defs = emit_publish_def Let_def delete_pending_def no_agent_event_def start_error_event_def is_terminal_def
  show "gw_agents g' = gw_agents g" by (rule c) (use sinks in simp_all)
  show "rn_ID r' = rn_ID r" "rn_done r' = rn_done r" "rn_subs r' = rn_subs r" by (rule c; simp add: defs)+
  show "set (rn_pending r') = (if site_starts alive g site then insert ?j (set (rn_pending r)) else set (rn_pending r) - {?j})"
    by (rule c) (auto simp: defs)
  show "map (je_JobId \<circ> se_Event) (rn_buffer r') = map (je_JobId \<circ> se_Event) (rn_buffer r) @
      (if site_starts alive g site then [] else [?j])"
    by (rule c) (auto simp: defs)
  show "\<forall>se \<in> set (rn_buffer r). is_terminal (je_Event (se_Event se)) \<Longrightarrow>
      \<forall>se \<in> set (rn_buffer r'). is_terminal (je_Event (se_Event se))"
    by (rule c) (auto simp: defs)
  show "map_of (gw_sinks g') = (if map_of (gw_agents g) site = None then map_of (gw_sinks g)
      else (map_of (gw_sinks g))(?j \<mapsto> rn_ID r))"
    by (rule c) (use sinks in \<open>auto simp: update_conv'\<close>)
  assume "run_numbered r"
  then have n: "run_numbered ?r" by (simp add: run_numbered_def)
  have d: "run_numbered q \<Longrightarrow> run_numbered (delete_pending ?j q)" for q by (simp add: run_numbered_def delete_pending_def)
  show "run_numbered r'" by (rule c) (simp_all add: d n run_numbered_publish)
qed

lemma start_sites:
  assumes "fold (start_site alive now newJob) sites (new_run runID all now, g) = (r, g')" and "\<And>j. sj_JobId (newJob j) = j"
  shows "gw_agents g' = gw_agents g \<and> rn_ID r = runID \<and> \<not> rn_done r \<and> rn_subs r = [] \<and> run_numbered r \<and>
    set (rn_pending r) = {jobID_of runID s | s. s \<in> set sites \<and> site_starts alive g s} \<and>
    map (je_JobId \<circ> se_Event) (rn_buffer r) = map (jobID_of runID) (filter (\<lambda>s. \<not> site_starts alive g s) sites) \<and>
    (\<forall>se \<in> set (rn_buffer r). is_terminal (je_Event (se_Event se))) \<and>
    (\<forall>s \<in> set sites. site_starts alive g s \<longrightarrow> map_of (gw_sinks g') (jobID_of runID s) = Some runID)"
  using assms(1)
proof (induction sites arbitrary: r g' rule: rev_induct)
  case Nil
  then show ?case by (auto simp: new_run_def run_numbered_def)
next
  case (snoc site sites)
  obtain r1 g1 where 1: "fold (start_site alive now newJob) sites (new_run runID all now, g) = (r1, g1)" by force
  note ih = snoc.IH [OF 1]
  have step: "start_site alive now newJob site (r1, g1) = (r, g')" using snoc.prems 1 by simp
  note s = start_site_cases [OF step assms(2)]
  have g1: "site_starts alive g1 = site_starts alive g" "gw_agents g1 = gw_agents g" "rn_ID r1 = runID"
    using ih by (auto simp: site_starts_def)
  have some: "site_starts alive g q \<Longrightarrow> map_of (gw_agents g) q \<noteq> None" for q
    by (auto simp: site_starts_def split: option.splits)
  have "set (rn_pending r) = {jobID_of runID q | q. q \<in> set (sites @ [site]) \<and> site_starts alive g q}"
    using s(5) ih g1 by auto
  moreover have "\<forall>q \<in> set (sites @ [site]). site_starts alive g q \<longrightarrow> map_of (gw_sinks g') (jobID_of runID q) = Some runID"
    using s(8) ih g1 some [of site] by auto
  moreover have "map (je_JobId \<circ> se_Event) (rn_buffer r) =
      map (jobID_of runID) (filter (\<lambda>s. \<not> site_starts alive g s) (sites @ [site]))"
    using s(6) ih g1 by simp
  moreover have "\<forall>se \<in> set (rn_buffer r). is_terminal (je_Event (se_Event se))" using s(7) ih by blast
  moreover have "gw_agents g' = gw_agents g" "rn_ID r = runID" "\<not> rn_done r" "rn_subs r = []" "run_numbered r"
    using s(1-4,9) ih by simp_all
  ultimately show ?case by (intro conjI)
qed

text \<open>Starting a run dispatches a job to every requested site with a live agent and waits for exactly those;
  every other site yields one error event at once, in the order of the sites, instead of failing the run; the run
  is done at once exactly when no job started, and the events of every started job are routed to it.\<close>

theorem start_dispatches_all_sites:
  assumes "Manager_Start alive now runID newJob sites mgr g = (mgr', g', r)"
    and "\<And>j. sj_JobId (newJob j) = j"
  shows "Manager_Get runID mgr' = Some r \<and> run_ready r store \<and> run_numbered r \<and>
    set (rn_pending r) = {jobID_of runID s | s. s \<in> set sites \<and> site_starts alive g s} \<and>
    map (je_JobId \<circ> se_Event) (rn_buffer r) = map (jobID_of runID) (filter (\<lambda>s. \<not> site_starts alive g s) sites) \<and>
    (\<forall>se \<in> set (rn_buffer r). is_terminal (je_Event (se_Event se))) \<and>
    (\<forall>s \<in> set sites. site_starts alive g s \<and> je_JobId ev = jobID_of runID s \<and> \<not> isMonitorJob (je_JobId ev) \<longrightarrow>
      route g' monitoring s ev = ToRun runID)"
proof -
  obtain r1 where f: "fold (start_site alive now newJob) sites (new_run runID sites now, g) = (r1, g')"
      and r: "r = fst (checkDone_locked now r1)" "mgr' = mgr\<lparr>mg_runs := AList.update runID r (mg_runs mgr)\<rparr>"
    using assms(1) by (auto simp: Manager_Start_def Let_def split: prod.splits)
  note s = start_sites [OF f assms(2)]
  have eq: "rn_pending r = rn_pending r1" "rn_buffer r = rn_buffer r1" "rn_seq r = rn_seq r1" "rn_subs r = []"
      "rn_done r \<longleftrightarrow> rn_pending r1 = []"
    using s r(1) by (auto simp: checkDone_locked_def)
  have "run_ready r store" "run_numbered r" using s eq by (auto simp: run_ready_def run_numbered_def)
  moreover have "Manager_Get runID mgr' = Some r" using r(2) by (simp add: Manager_Get_def update_conv')
  moreover have "\<forall>s \<in> set sites. site_starts alive g s \<and> je_JobId ev = jobID_of runID s \<and> \<not> isMonitorJob (je_JobId ev) \<longrightarrow>
      route g' monitoring s ev = ToRun runID"
    using s by (auto simp: route_def)
  ultimately show ?thesis using s eq(1,2) by auto
qed

definition demo_gateway :: Gateway where
  "demo_gateway = (NewGateway demo_config (\<lambda>_. demo_conn))\<lparr>gw_agents := [(''fra'', 1)]\<rparr>"

definition demo_job :: "string \<Rightarrow> StartJob" where "demo_job j = \<lparr>sj_JobId = j, sj_Spec = NoSpec\<rparr>"

theorem start_dispatches_all_sites_witness:
  "\<exists>mgr g r. Manager_Start (\<lambda>_. True) 3 ''r'' demo_job [''fra'', ''ams''] (NewManager 60) demo_gateway = (mgr, g, r) \<and>
    Manager_Get ''r'' mgr = Some r \<and> set (rn_pending r) = {''r:fra''} \<and> map (je_JobId \<circ> se_Event) (rn_buffer r) = [''r:ams'']"
proof -
  obtain mgr g r where m: "Manager_Start (\<lambda>_. True) 3 ''r'' demo_job [''fra'', ''ams''] (NewManager 60) demo_gateway = (mgr, g, r)"
    by (metis prod_cases3)
  have j: "sj_JobId (demo_job j) = j" for j by (simp add: demo_job_def)
  have s: "site_starts (\<lambda>_. True) demo_gateway = (\<lambda>s. s = ''fra'')" by (rule ext) (simp add: site_starts_def demo_gateway_def)
  have "{jobID_of ''r'' s | s. s \<in> set [''fra'', ''ams''] \<and> s = ''fra''} = {''r:fra''}" by (auto simp: jobID_of_def)
  then show ?thesis using start_dispatches_all_sites [OF m j] m unfolding s by (simp add: jobID_of_def)
qed

lemma EndJobs:
  "map_of (gw_sinks (fold (\<lambda>(i, r). fold (\<lambda>site. EndJob (jobID_of i site)) (rn_Sites r)) rs g)) j =
    (if \<exists>(i, r) \<in> set rs. \<exists>s \<in> set (rn_Sites r). j = jobID_of i s then None else map_of (gw_sinks g) j)"
proof -
  have one: "map_of (gw_sinks (fold (\<lambda>site. EndJob (jobID_of i site)) ss g)) q =
      (if \<exists>s \<in> set ss. q = jobID_of i s then None else map_of (gw_sinks g) q)" for i ss g q
    by (induction ss arbitrary: g) (auto simp: EndJob_def delete_conv')
  show ?thesis by (induction rs arbitrary: g) (auto simp: one)
qed

text \<open>Reaping removes exactly the runs that have been done for longer than the TTL, and with them the routes of
  their jobs: a later event of such a job is dropped, and the routing of every other job is unchanged.\<close>

theorem reap_removes_expired_runs:
  assumes "distinct (map fst (mg_runs mgr))" and "reap now mgr g = (mgr', g')"
  shows "(Manager_Get i mgr' = Some r \<longleftrightarrow> Manager_Get i mgr = Some r \<and> \<not> finishedAt now (mg_ttl mgr) r) \<and>
    route g' monitoring from ev =
      (if \<exists>i r s. Manager_Get i mgr = Some r \<and> finishedAt now (mg_ttl mgr) r \<and> s \<in> set (rn_Sites r) \<and>
          je_JobId ev = jobID_of i s \<and> \<not> isMonitorJob (je_JobId ev)
       then Dropped else route g monitoring from ev)"
proof -
  have m: "mg_runs mgr' = filter (\<lambda>(i, r). \<not> finishedAt now (mg_ttl mgr) r) (mg_runs mgr)"
    using assms(2) by (auto simp: reap_def Let_def)
  have "distinct (map fst (mg_runs mgr'))"
    unfolding m using assms(1) by (rule distinct_map_filter)
  then have "Manager_Get i mgr' = Some r \<longleftrightarrow> Manager_Get i mgr = Some r \<and> \<not> finishedAt now (mg_ttl mgr) r"
    using assms(1) by (auto simp: Manager_Get_def m)
  moreover have "map_of (gw_sinks g') (je_JobId ev) =
      (if \<exists>i r s. Manager_Get i mgr = Some r \<and> finishedAt now (mg_ttl mgr) r \<and> s \<in> set (rn_Sites r) \<and> je_JobId ev = jobID_of i s
       then None else map_of (gw_sinks g) (je_JobId ev))"
    using assms EndJobs [of "filter (\<lambda>(i, r). finishedAt now (mg_ttl mgr) r) (mg_runs mgr)" g "je_JobId ev"]
    by (auto simp: reap_def Let_def Manager_Get_def)
  ultimately show ?thesis by (auto simp: route_def)
qed

theorem reap_removes_expired_runs_witness:
  "\<exists>mgr' g'. reap 100 ((NewManager 60)\<lparr>mg_runs := [(''r'', demo_run\<lparr>rn_done := True, rn_doneAt := 3\<rparr>)]\<rparr>) demo_gateway = (mgr', g') \<and>
    Manager_Get ''r'' mgr' = None"
proof -
  let ?mgr = "(NewManager 60)\<lparr>mg_runs := [(''r'', demo_run\<lparr>rn_done := True, rn_doneAt := 3\<rparr>)]\<rparr>"
  obtain mgr' g' where r: "reap 100 ?mgr demo_gateway = (mgr', g')" by force
  have "Manager_Get ''r'' mgr' \<noteq> Some r" for r
    using reap_removes_expired_runs [OF _ r, of "''r''" r]
    by (auto simp: Manager_Get_def finishedAt_def NewManager_def)
  with r show ?thesis by (cases "Manager_Get ''r'' mgr'") auto
qed

end
