(* ===== verification/Backend_Api.thy ===== *)
theory Backend_Api
  imports Backend_Run Auth_Login
begin

text \<open>
  \<^verbatim>\<open>internal/backend/http.go\<close> and \<^verbatim>\<open>internal/backend/convert.go\<close>: the requests of the browser, the JSON form of
  events, and the event streams. A response is a value; a stream is the bytes written so far.
  \<open>Marshal\<close> stands for \<^verbatim>\<open>json.Marshal\<close>; what a browser reads from a stream is written down from the
  standard of server-sent events.
\<close>

section \<open>Events as JSON\<close>

definition Protocol_String :: "pb_Protocol \<Rightarrow> string" where
  "Protocol_String p =
    (case p of
       PROTOCOL_UNSPECIFIED \<Rightarrow> ''PROTOCOL_UNSPECIFIED'' | PROTOCOL_ICMP \<Rightarrow> ''PROTOCOL_ICMP''
     | PROTOCOL_UDP \<Rightarrow> ''PROTOCOL_UDP'' | PROTOCOL_TCP \<Rightarrow> ''PROTOCOL_TCP'' | PROTOCOL_Other n \<Rightarrow> itoa n)"

definition Family_String :: "pb_AddressFamily \<Rightarrow> string" where
  "Family_String f =
    (case f of
       ADDRESS_FAMILY_UNSPECIFIED \<Rightarrow> ''ADDRESS_FAMILY_UNSPECIFIED'' | ADDRESS_FAMILY_IPV4 \<Rightarrow> ''ADDRESS_FAMILY_IPV4''
     | ADDRESS_FAMILY_IPV6 \<Rightarrow> ''ADDRESS_FAMILY_IPV6'' | ADDRESS_FAMILY_Other n \<Rightarrow> itoa n)"

definition Reason_String :: "finish_reason \<Rightarrow> string" where
  "Reason_String r =
    (case r of
       REASON_UNSPECIFIED \<Rightarrow> ''REASON_UNSPECIFIED'' | REASON_COMPLETED \<Rightarrow> ''REASON_COMPLETED''
     | REASON_CANCELLED \<Rightarrow> ''REASON_CANCELLED'')"

definition Code_String :: "error_code \<Rightarrow> string" where
  "Code_String c =
    (case c of
       CODE_UNSPECIFIED \<Rightarrow> ''CODE_UNSPECIFIED'' | CODE_RESOLVE \<Rightarrow> ''CODE_RESOLVE'' | CODE_POLICY \<Rightarrow> ''CODE_POLICY''
     | CODE_LIMIT \<Rightarrow> ''CODE_LIMIT'' | CODE_ENGINE \<Rightarrow> ''CODE_ENGINE'')"

definition JWord :: "'w::len word \<Rightarrow> json" where "JWord w = JInt (uint w)"

definition JOpt :: "u32 option \<Rightarrow> json" where "JOpt v = (case v of Some x \<Rightarrow> JWord x | None \<Rightarrow> JNull)"

definition hopJSON :: "pb_Hop \<Rightarrow> json" where
  "hopJSON h = JObj [(''ttl'', JWord (ph_Ttl h)),
    (''addresses'', JArr (map (\<lambda>a. JObj [(''ip'', JStr (pa_Ip a)), (''name'', JStr (pa_Name a)), (''count'', JWord (pa_Count a))])
      (ph_Addresses h))),
    (''sent'', JWord (ph_Sent h)), (''received'', JWord (ph_Received h)), (''loss_pct'', JNum (ph_LossPct h)),
    (''last_us'', JWord (ph_LastUs h)), (''best_us'', JWord (ph_BestUs h)), (''avg_us'', JWord (ph_AvgUs h)),
    (''worst_us'', JWord (ph_WorstUs h)), (''stdev_us'', JWord (ph_StdevUs h)), (''jitter_us'', JWord (ph_JitterUs h)),
    (''sample_us'', JOpt (ph_SampleUs h))]"

definition hopsJSON :: "pb_Hop list \<Rightarrow> json" where "hopsJSON hops = JArr (map hopJSON hops)"

definition dnsRecordsJSON :: "pb_DnsRecord list \<Rightarrow> json" where
  "dnsRecordsJSON recs = JArr (map (\<lambda>r. JObj [(''value'', JStr (pr_Value r)), (''priority'', JWord (pr_Priority r)),
    (''weight'', JWord (pr_Weight r)), (''port'', JWord (pr_Port r)), (''ttl'', JWord (pr_Ttl r)),
    (''addresses'', JArr (map JStr (pr_Addresses r))), (''address_status'', JStr (pr_AddressStatus r))]) recs)"

text \<open>The fields of an event by its kind, and the name of the kind.\<close>

definition event_fields :: "job_event \<Rightarrow> string \<times> (string \<times> json) list" where
  "event_fields e =
    (case e of
       EvStarted s \<Rightarrow> (''started'',
         [(''target'', JStr (js_Target s)), (''resolved'', JStr (js_Resolved s)), (''source'', JStr (js_Source s)),
          (''protocol'', JStr (Protocol_String (js_Protocol s))), (''family'', JStr (Family_String (js_Family s))),
          (''transport'', JStr (js_Transport s))] @
         (if js_Nameservers s \<noteq> [] then [(''nameservers'', JArr (map JStr (js_Nameservers s)))] else []))
     | EvCycle c \<Rightarrow> (''cycle'',
         [(''number'', JWord (pc_Number c)), (''reached_at'', JWord (pc_ReachedAt c)), (''hops'', hopsJSON (pc_Hops c))])
     | EvFinished cycles reason \<Rightarrow> (''finished'', [(''cycles'', JWord cycles), (''reason'', JStr (Reason_String reason))])
     | EvError code msg \<Rightarrow> (''error'', [(''code'', JStr (Code_String code)), (''message'', JStr msg)])
     | EvSipResult r \<Rightarrow> (''sip_result'',
         [(''cycle'', JWord (sr_Cycle r)), (''status_code'', JWord (sr_StatusCode r)), (''reason'', JStr (sr_Reason r)),
          (''responded'', JBool (sr_Responded r)), (''request'', JStr (sr_Request r)), (''response'', JStr (sr_Response r)),
          (''tls'', JBool (sr_Tls r)), (''tls_valid'', JBool (sr_TlsValid r)), (''tls_error'', JStr (sr_TlsError r)),
          (''rtt_us'', JOpt (sr_RttUs r))])
     | EvDnsResult r \<Rightarrow> (''dns_result'',
         [(''record_type'', JStr (pd_Type r)), (''name'', JStr (pd_Name r)), (''records'', dnsRecordsJSON (pd_Records r)),
          (''status'', JStr (pd_Status r)), (''server'', JStr (pd_Server r)), (''error'', JStr (pd_Error r)),
          (''rtt_us'', JWord (pd_RttUs r))])
     | NoEvent \<Rightarrow> (''unknown'', []))"

definition eventJSON :: "StreamEvent \<Rightarrow> json \<times> string" where
  "eventJSON se =
    (let (typ, fs) = event_fields (je_Event (se_Event se))
     in (JObj ([(''seq'', JWord (se_Seq se)), (''site'', JStr (se_Site se))] @ fs @ [(''type'', JStr typ)]), typ))"

section \<open>Event streams\<close>

definition LF :: char where "LF = CHR 0x0A"
definition CR :: char where "CR = CHR 0x0D"

definition writeSSEFrame :: "u64 \<Rightarrow> string \<Rightarrow> string \<Rightarrow> string" where
  "writeSSEFrame i name data =
    (if i \<noteq> 0 then ''id: '' @ itoa (unat i) @ [LF] else []) @
    ''event: '' @ name @ [LF] @ ''data: '' @ data @ [LF, LF]"

definition writeSSEComment :: string where "writeSSEComment = '': keepalive'' @ [LF, LF]"

text \<open>The errors of the marshaller are ignored: no data is written then.\<close>

definition marshalled :: "(json \<Rightarrow> string option) \<Rightarrow> json \<Rightarrow> string" where
  "marshalled Marshal j = (case Marshal j of Some t \<Rightarrow> t | None \<Rightarrow> [])"

definition writeSSE :: "(json \<Rightarrow> string option) \<Rightarrow> StreamEvent \<Rightarrow> string" where
  "writeSSE Marshal se = (let (j, typ) = eventJSON se in writeSSEFrame (se_Seq se) typ (marshalled Marshal j))"

text \<open>
  \<^verbatim>\<open>strconv.ParseUint\<close> in base 10 with 64 bits, its error ignored: 0 for a text that is no number, the largest
  value for one that is too large.
\<close>

fun parse_uint :: "nat \<Rightarrow> string \<Rightarrow> nat" where
  "parse_uint acc [] = acc"
| "parse_uint acc (c # s) =
    (case digit_val c of
       None \<Rightarrow> 0
     | Some d \<Rightarrow> if 2 ^ 64 \<le> 10 * acc + d then 2 ^ 64 - 1 else parse_uint (10 * acc + d) s)"

definition ParseUint :: "string \<Rightarrow> u64" where "ParseUint s = of_nat (parse_uint 0 s)"

definition last_event_id :: "string \<Rightarrow> string \<Rightarrow> u64" where
  "last_event_id header query =
    (if header \<noteq> [] then ParseUint header else if query \<noteq> [] then ParseUint query else 0)"

text \<open>What the loop of a stream receives: an event, the close of the channel, the ticker, or the end of the request.\<close>

datatype stream_in = LiveEvent StreamEvent | StreamClosed | Keepalive | ClientGone

fun stream_loop :: "(json \<Rightarrow> string option) \<Rightarrow> stream_in list \<Rightarrow> string" where
  "stream_loop M [] = []"
| "stream_loop M (ClientGone # ins) = []"
| "stream_loop M (StreamClosed # ins) = writeSSEFrame 0 ''done'' ''{}''"
| "stream_loop M (LiveEvent se # ins) = writeSSE M se @ stream_loop M ins"
| "stream_loop M (Keepalive # ins) = writeSSEComment @ stream_loop M ins"

definition writeErr :: "nat \<Rightarrow> string \<Rightarrow> http_resp" where "writeErr code msg = plain code (JObj [(''error'', JStr msg)])"

datatype stream_resp = Refused http_resp | Stream "(string \<times> string) list" string

definition sse_headers :: "(string \<times> string) list" where
  "sse_headers = [(''Content-Type'', ''text/event-stream''), (''Cache-Control'', ''no-cache''), (''Connection'', ''keep-alive''),
    (''X-Accel-Buffering'', ''no'')]"

definition startSSE :: "bool \<Rightarrow> string \<Rightarrow> stream_resp" where
  "startSSE flusher bytes = (if flusher then Stream sse_headers bytes else Refused (writeErr 500 ''streaming unsupported''))"

text \<open>
  \<^verbatim>\<open>runEvents\<close>: \<open>k\<close> is the channel of the subscription. The result is the manager with the subscription and
  what is written for the inputs \<open>ins\<close>.
\<close>

definition runEvents ::
  "(json \<Rightarrow> string option) \<Rightarrow> bool \<Rightarrow> string \<Rightarrow> string \<Rightarrow> string \<Rightarrow> nat \<Rightarrow> stream_in list \<Rightarrow> Manager \<Rightarrow> Manager \<times> stream_resp" where
  "runEvents M flusher i header query k ins mgr =
    (case Manager_Get i mgr of
       None \<Rightarrow> (mgr, Refused (writeErr 404 ''no such run''))
     | Some run \<Rightarrow>
         if \<not> flusher then (mgr, startSSE False [])
         else
           let (run, backlog, sub) = Subscribe (last_event_id header query) k run
           in (mgr\<lparr>mg_runs := AList.update i run (mg_runs mgr)\<rparr>,
               startSSE True (concat (map (writeSSE M) backlog) @ stream_loop M ins)))"

section \<open>Starting and cancelling runs\<close>

record startRequest =
  rq_Target :: string
  rq_Sites :: "string list"
  rq_Protocol :: string
  rq_Family :: string
  rq_Port :: u32
  rq_Resolve :: bool
  rq_Cycles :: u32
  rq_Mode :: string

record sipStartRequest =
  sq2_Target :: string
  sq2_Sites :: "string list"
  sq2_Transport :: string
  sq2_Family :: string
  sq2_Port :: u32
  sq2_Cycles :: u32
  sq2_IntervalMS :: u32
  sq2_TimeoutMS :: u32

record dnsStartRequest =
  dq_Name :: string
  dq_Sites :: "string list"
  dq_TimeoutMS :: u32

text \<open>
  The three handlers share their end: find the sites, start the run, answer with its id. \<open>newID\<close> is the id
  drawn for the run; a request that does not decode is \<open>None\<close>.
\<close>

type_synonym backend = "Manager \<times> Gateway"

definition start_on :: "(conn \<Rightarrow> bool) \<Rightarrow> instant \<Rightarrow> string \<Rightarrow> job_spec \<Rightarrow> string list \<Rightarrow> backend \<Rightarrow> backend \<times> http_resp" where
  "start_on alive now newID spec requested st =
    (let (mgr, g) = st
     in case runSites g requested of
          None \<Rightarrow> (st, writeErr 503 ''no agents connected'')
        | Some sites \<Rightarrow>
            let (mgr, g, run) = Manager_Start alive now newID (\<lambda>jobID. \<lparr>sj_JobId = jobID, sj_Spec = spec\<rparr>) sites mgr g
            in ((mgr, g), plain 201 (JObj [(''id'', JStr (rn_ID run)), (''sites'', JArr (map JStr sites))])))"

definition trace_spec :: "startRequest \<Rightarrow> TraceSpec" where
  "trace_spec req = \<lparr>ts_Target = rq_Target req, ts_Protocol = protoOf (rq_Protocol req), ts_Family = familyOf (rq_Family req),
    ts_Port = rq_Port req, ts_ResolveNames = rq_Resolve req, ts_Cycles = rq_Cycles req, ts_IntervalMs = 0, ts_FirstTtl = 0,
    ts_MaxTtl = 0, ts_PacketSize = 0, ts_Dscp = 0, ts_Source = [], ts_Mode = modeOf (rq_Mode req), ts_ProbeTimeoutMs = 0\<rparr>"

definition startRun :: "(conn \<Rightarrow> bool) \<Rightarrow> instant \<Rightarrow> string \<Rightarrow> startRequest option \<Rightarrow> backend \<Rightarrow> backend \<times> http_resp" where
  "startRun alive now newID body st =
    (case body of
       None \<Rightarrow> (st, writeErr 400 ''invalid JSON'')
     | Some req \<Rightarrow>
         if rq_Target req = [] then (st, writeErr 400 ''target is required'')
         else start_on alive now newID (TraceJob (trace_spec req)) (rq_Sites req) st)"

definition sip_spec :: "sipStartRequest \<Rightarrow> SipOptionsSpec" where
  "sip_spec req = \<lparr>so_Target = sq2_Target req, so_Port = sq2_Port req, so_Transport = sipTransportOf (sq2_Transport req),
    so_Family = familyOf (sq2_Family req), so_Cycles = sq2_Cycles req, so_IntervalMs = sq2_IntervalMS req,
    so_TimeoutMs = sq2_TimeoutMS req, so_Source = [], so_UserAgent = []\<rparr>"

definition startSipRun :: "(conn \<Rightarrow> bool) \<Rightarrow> instant \<Rightarrow> string \<Rightarrow> sipStartRequest option \<Rightarrow> backend \<Rightarrow> backend \<times> http_resp" where
  "startSipRun alive now newID body st =
    (case body of
       None \<Rightarrow> (st, writeErr 400 ''invalid JSON'')
     | Some req \<Rightarrow>
         if sq2_Target req = [] then (st, writeErr 400 ''target is required'')
         else start_on alive now newID (SipJob (sip_spec req)) (sq2_Sites req) st)"

definition startDnsRun :: "(conn \<Rightarrow> bool) \<Rightarrow> instant \<Rightarrow> string \<Rightarrow> dnsStartRequest option \<Rightarrow> backend \<Rightarrow> backend \<times> http_resp" where
  "startDnsRun alive now newID body st =
    (case body of
       None \<Rightarrow> (st, writeErr 400 ''invalid JSON'')
     | Some req \<Rightarrow>
         let name = TrimSpace (dq_Name req)
         in if name = [] then (st, writeErr 400 ''name is required'')
            else start_on alive now newID (DnsJob \<lparr>ds_Name = name, ds_TimeoutMs = dq_TimeoutMS req\<rparr>) (dq_Sites req) st)"

definition cancelRun :: "(conn \<Rightarrow> bool) \<Rightarrow> string \<Rightarrow> backend \<Rightarrow> backend \<times> http_resp" where
  "cancelRun alive i st = ((fst st, Manager_Cancel alive i (fst st) (snd st)), plain 204 JNull)"

section \<open>What the browser asks at the start\<close>

definition versionInfo :: "string \<Rightarrow> string \<Rightarrow> http_resp" where
  "versionInfo version commit = plain 200 (JObj [(''version'', JStr version), (''commit'', JStr commit)])"

definition appConfig :: "auth_lib \<Rightarrow> Auth option \<Rightarrow> string \<Rightarrow> string \<Rightarrow> instant \<Rightarrow> http_req \<Rightarrow> http_resp" where
  "appConfig L a version commit now r =
    plain 200 (JObj [(''version'', JStr version), (''commit'', JStr commit), (''auth_enabled'', JBool (a \<noteq> None)),
      (''user'', case a of
          None \<Rightarrow> JNull
        | Some a \<Rightarrow> (case session_user L a now r of Some u \<Rightarrow> user_json u | None \<Rightarrow> JNull))])"

text \<open>Without agents the answer is \<^verbatim>\<open>null\<close>, since the slice is nil.\<close>

definition nil_array :: "json list \<Rightarrow> json" where "nil_array xs = (if xs = [] then JNull else JArr xs)"

definition probers :: "Gateway \<Rightarrow> http_resp" where
  "probers g = plain 200 (nil_array (map (\<lambda>h. JObj [(''site'', JStr (he_Site h)), (''version'', JStr (he_Version h)),
    (''hostname'', JStr (he_Hostname h)), (''ipv4'', JBool (he_IPv4 h)), (''ipv6'', JBool (he_IPv6 h))])
    (sort_key he_Site (Sites g))))"

text \<open>Sorting by site and then by host name is sorting by host name and then, stably, by site.\<close>

definition agents :: "(instant \<Rightarrow> string) \<Rightarrow> Gateway \<Rightarrow> http_resp" where
  "agents rfc3339 g = plain 200 (JArr (map (\<lambda>info. let h = ai_Hello info in
    JObj [(''site'', JStr (he_Site h)), (''version'', JStr (he_Version h)), (''commit'', JStr (he_Commit h)),
      (''hostname'', JStr (he_Hostname h)), (''ipv4'', JBool (he_IPv4 h)), (''ipv6'', JBool (he_IPv6 h)),
      (''sources'', nil_array (map JStr (he_Sources h))),
      (''started_at'', JStr (case he_StartedAt h of Some t \<Rightarrow> rfc3339 t | None \<Rightarrow> [])),
      (''connected_at'', JStr (rfc3339 (ai_ConnectedAt info))),
      (''rtt_us'', if ai_RTTMicros info \<ge> 0 then JInt (ai_RTTMicros info) else JNull)])
    (sort_key (he_Site \<circ> ai_Hello) (sort_key (he_Hostname \<circ> ai_Hello) (Agents g)))))"

end
