(* ===== verification/Api_Streams.thy ===== *)
theory Api_Streams
  imports Backend_Api
begin

text \<open>
  What the browser makes of an event stream, after the standard of server-sent events, and that a stream is
  read as the events that were written to it, also across a reconnection.
\<close>

section \<open>The browser\<close>

text \<open>A line may end with a line feed, a carriage return, or both.\<close>

fun line_ends :: "string \<Rightarrow> string" where
  "line_ends [] = []"
| "line_ends (c # s) =
    (if c = CR then LF # (case s of d # t \<Rightarrow> if d = LF then line_ends t else line_ends s | [] \<Rightarrow> [])
     else c # line_ends s)"

record sse_buffers =
  bf_id :: string
  bf_type :: string
  bf_data :: "string list"

record message =
  me_id :: string
  me_type :: string
  me_data :: string

definition strip_space :: "string \<Rightarrow> string" where
  "strip_space v = (case v of c # t \<Rightarrow> if c = CHR '' '' then t else v | [] \<Rightarrow> [])"

definition sse_field :: "string \<Rightarrow> string \<Rightarrow> sse_buffers \<Rightarrow> sse_buffers" where
  "sse_field name v b =
    (if name = ''event'' then b\<lparr>bf_type := v\<rparr>
     else if name = ''data'' then b\<lparr>bf_data := bf_data b @ [v]\<rparr>
     else if name = ''id'' then b\<lparr>bf_id := v\<rparr>
     else b)"

text \<open>An empty line dispatches the event, if it has data; a line that starts with a colon is a comment.\<close>

fun sse_lines :: "sse_buffers \<Rightarrow> string list \<Rightarrow> message list \<times> sse_buffers" where
  "sse_lines b [] = ([], b)"
| "sse_lines b (l # ls) =
    (if l = [] then
       let (ms, b') = sse_lines (b\<lparr>bf_type := [], bf_data := []\<rparr>) ls
       in ((if bf_data b = [] then []
            else [\<lparr>me_id = bf_id b, me_type = (if bf_type b = [] then ''message'' else bf_type b), me_data = join_with LF (bf_data b)\<rparr>]) @ ms, b')
     else case Cut (CHR '':'') l of
         None \<Rightarrow> sse_lines (sse_field l [] b) ls
       | Some (name, v) \<Rightarrow> sse_lines (if name = [] then b else sse_field name (strip_space v) b) ls)"

text \<open>The last part of the bytes, after the last line end, is not a line yet.\<close>

definition sse_init :: sse_buffers where "sse_init = \<lparr>bf_id = [], bf_type = [], bf_data = []\<rparr>"

definition browser :: "string \<Rightarrow> message list \<times> sse_buffers" where
  "browser bytes = sse_lines sse_init (butlast (split_on LF (line_ends bytes)))"

text \<open>What the browser sends as \<^verbatim>\<open>Last-Event-ID\<close> when it reconnects.\<close>

definition last_id :: "string \<Rightarrow> string" where "last_id bytes = bf_id (snd (browser bytes))"

section \<open>Frames\<close>

lemma line_ends_id: "CR \<notin> set s \<Longrightarrow> line_ends s = s"
  by (induction s rule: line_ends.induct) auto

lemma sse_lines_append:
  "sse_lines b (ls @ ks) = (let (ms, b') = sse_lines b ls; (ms', b'') = sse_lines b' ks in (ms @ ms', b''))"
  by (induction b ls rule: sse_lines.induct) (auto simp: Let_def split: option.splits prod.splits)

lemma fst_sse_lines_append:
  "fst (sse_lines b (ls @ ks)) = fst (sse_lines b ls) @ fst (sse_lines (snd (sse_lines b ls)) ks)"
  by (simp add: sse_lines_append split: prod.splits)

definition frame_lines :: "u64 \<Rightarrow> string \<Rightarrow> string \<Rightarrow> string list" where
  "frame_lines i name data = (if i \<noteq> 0 then [''id: '' @ itoa (unat i)] else []) @ [''event: '' @ name, ''data: '' @ data, []]"

definition plain_text :: "string \<Rightarrow> bool" where "plain_text s = (LF \<notin> set s \<and> CR \<notin> set s)"

lemma itoa_plain: "plain_text (itoa n)"
proof -
  have "digit_char d \<noteq> LF \<and> digit_char d \<noteq> CR" if "d < 10" for d
    using that by (auto simp: digit_char_def LF_def CR_def dest: arg_cong [where f = "of_char :: char \<Rightarrow> nat"])
  then show ?thesis using itoa_digits unfolding plain_text_def by metis
qed

definition end_lines :: "string list \<Rightarrow> string" where "end_lines ls = concat (map (\<lambda>l. l @ [LF]) ls)"

lemma split_lines: "(\<And>l. l \<in> set ls \<Longrightarrow> LF \<notin> set l) \<Longrightarrow> split_on LF (end_lines ls @ s) = ls @ split_on LF s"
proof (induction ls)
  case Nil
  then show ?case by (simp add: end_lines_def)
next
  case (Cons l ls)
  then have "split_on LF (l @ [LF] @ end_lines ls @ s) = l # split_on LF (end_lines ls @ s)"
    by (intro split_on_append) simp
  with Cons show ?case by (simp add: end_lines_def)
qed

lemma browser_lines:
  assumes "\<And>l. l \<in> set ls \<Longrightarrow> plain_text l"
  shows "browser (end_lines ls) = sse_lines sse_init ls"
proof -
  have "CR \<notin> set (end_lines ls)" "\<And>l. l \<in> set ls \<Longrightarrow> LF \<notin> set l"
    using assms by (auto simp: end_lines_def plain_text_def CR_def LF_def)
  then show ?thesis using split_lines [of ls "[]"] by (simp add: browser_def line_ends_id)
qed

lemma frame_end_lines: "writeSSEFrame i name data = end_lines (frame_lines i name data)"
  by (simp add: writeSSEFrame_def frame_lines_def end_lines_def)

lemma frame_plain:
  "plain_text name \<Longrightarrow> plain_text data \<Longrightarrow> l \<in> set (frame_lines i name data) \<Longrightarrow> plain_text l"
  using itoa_plain [of "unat i"] by (auto simp: frame_lines_def plain_text_def LF_def CR_def split: if_splits)

lemma sse_frame:
  assumes "name \<noteq> []" and "bf_type b = []" and "bf_data b = []"
  shows "sse_lines b (frame_lines i name data) =
    (let b' = (if i \<noteq> 0 then b\<lparr>bf_id := itoa (unat i)\<rparr> else b)
     in ([\<lparr>me_id = bf_id b', me_type = name, me_data = data\<rparr>], b'))"
  using assms by (simp add: frame_lines_def sse_field_def strip_space_def Let_def)

section \<open>Streams of events\<close>

text \<open>
  What is assumed of \<^verbatim>\<open>json.Marshal\<close>: the values of the program have a JSON text, and it is on one line.
\<close>

definition one_line :: "(json \<Rightarrow> string option) \<Rightarrow> bool" where
  "one_line M = (\<forall>j. \<exists>t. M j = Some t \<and> plain_text t)"

definition as_message :: "(json \<Rightarrow> string option) \<Rightarrow> StreamEvent \<Rightarrow> message" where
  "as_message M se = \<lparr>me_id = itoa (unat (se_Seq se)), me_type = snd (eventJSON se), me_data = marshalled M (fst (eventJSON se))\<rparr>"

definition stream_lines :: "(json \<Rightarrow> string option) \<Rightarrow> StreamEvent \<Rightarrow> string list" where
  "stream_lines M se = frame_lines (se_Seq se) (snd (eventJSON se)) (marshalled M (fst (eventJSON se)))"

fun in_lines :: "(json \<Rightarrow> string option) \<Rightarrow> stream_in list \<Rightarrow> string list" where
  "in_lines M [] = []"
| "in_lines M (ClientGone # ins) = []"
| "in_lines M (StreamClosed # ins) = frame_lines 0 ''done'' ''{}''"
| "in_lines M (LiveEvent se # ins) = stream_lines M se @ in_lines M ins"
| "in_lines M (Keepalive # ins) = [ '': keepalive'', [] ] @ in_lines M ins"

text \<open>The events among the inputs until the stream ends, and whether it was closed by the server.\<close>

fun live_events :: "stream_in list \<Rightarrow> StreamEvent list" where
  "live_events [] = []"
| "live_events (ClientGone # ins) = []"
| "live_events (StreamClosed # ins) = []"
| "live_events (LiveEvent se # ins) = se # live_events ins"
| "live_events (Keepalive # ins) = live_events ins"

fun ends_closed :: "stream_in list \<Rightarrow> bool" where
  "ends_closed [] = False"
| "ends_closed (ClientGone # ins) = False"
| "ends_closed (StreamClosed # ins) = True"
| "ends_closed (_ # ins) = ends_closed ins"

lemma event_name: "snd (eventJSON se) \<noteq> []" "plain_text (snd (eventJSON se))"
  by (auto simp: eventJSON_def event_fields_def plain_text_def LF_def CR_def split: job_event.splits)

lemma writeSSE_lines: "writeSSE M se = end_lines (stream_lines M se)"
  by (simp add: writeSSE_def stream_lines_def frame_end_lines split: prod.splits)

lemma end_lines_append [simp]: "end_lines (a @ b) = end_lines a @ end_lines b" "end_lines [] = []"
  by (simp_all add: end_lines_def)

lemma write_events: "concat (map (writeSSE M) ses) = end_lines (concat (map (stream_lines M) ses))"
  by (induction ses) (simp_all add: writeSSE_lines)

lemma loop_lines: "stream_loop M ins = end_lines (in_lines M ins)"
  by (induction M ins rule: stream_loop.induct)
    (simp_all add: writeSSE_lines frame_end_lines, simp_all add: end_lines_def writeSSEComment_def)

lemma marshalled_plain: "one_line M \<Longrightarrow> plain_text (marshalled M j)"
  unfolding one_line_def marshalled_def by (metis option.simps(5))

lemma stream_plain: "one_line M \<Longrightarrow> l \<in> set (stream_lines M se) \<Longrightarrow> plain_text l"
  unfolding stream_lines_def by (rule frame_plain [OF event_name(2) marshalled_plain])

lemma in_plain: "one_line M \<Longrightarrow> l \<in> set (in_lines M ins) \<Longrightarrow> plain_text l"
proof (induction M ins rule: in_lines.induct)
  case (3 M ins)
  then show ?case by (auto simp: frame_lines_def plain_text_def LF_def CR_def)
next
  case (5 M ins)
  then show ?case by (auto simp: plain_text_def LF_def CR_def)
qed (auto simp: stream_plain)

lemma sse_events:
  assumes "bf_type b = []" and "bf_data b = []" and "\<And>se. se \<in> set ses \<Longrightarrow> se_Seq se \<noteq> 0"
  shows "sse_lines b (concat (map (stream_lines M) ses)) =
    (map (as_message M) ses, if ses = [] then b else b\<lparr>bf_id := itoa (unat (se_Seq (last ses)))\<rparr>)"
  using assms
proof (induction ses arbitrary: b)
  case Nil
  then show ?case by simp
next
  case (Cons se ses)
  have "sse_lines b (stream_lines M se) = ([as_message M se], b\<lparr>bf_id := itoa (unat (se_Seq se))\<rparr>)"
    using Cons.prems sse_frame [OF event_name(1) Cons.prems(1,2)] by (simp add: stream_lines_def as_message_def)
  with Cons show ?case by (simp add: sse_lines_append)
qed

lemma sse_loop:
  assumes "bf_type b = []" and "bf_data b = []" and "\<And>se. se \<in> set (live_events ins) \<Longrightarrow> se_Seq se \<noteq> 0"
  shows "fst (sse_lines b (in_lines M ins)) = map (as_message M) (live_events ins) @
    (if ends_closed ins
     then [\<lparr>me_id = (if live_events ins = [] then bf_id b else itoa (unat (se_Seq (last (live_events ins))))), me_type = ''done'', me_data = ''{}''\<rparr>]
     else [])"
  using assms
proof (induction M ins arbitrary: b rule: in_lines.induct)
  case (3 M ins)
  then show ?case by (simp add: sse_frame)
next
  case (4 M se ins)
  have "sse_lines b (stream_lines M se) = ([as_message M se], b\<lparr>bf_id := itoa (unat (se_Seq se))\<rparr>)"
    using 4 sse_events [of b "[se]" M] by simp
  with 4 show ?case by (simp add: fst_sse_lines_append)
next
  case (5 M ins)
  then have "b\<lparr>bf_type := [], bf_data := []\<rparr> = b" by (cases b) simp
  with 5 show ?case by (simp split: prod.splits)
qed simp_all

lemma browser_run:
  assumes "one_line M" and "\<And>se. se \<in> set (backlog @ live_events ins) \<Longrightarrow> se_Seq se \<noteq> 0"
  shows "fst (browser (concat (map (writeSSE M) backlog) @ stream_loop M ins)) =
    map (as_message M) (backlog @ live_events ins) @
    (if ends_closed ins
     then [\<lparr>me_id = (if backlog @ live_events ins = [] then [] else itoa (unat (se_Seq (last (backlog @ live_events ins))))),
            me_type = ''done'', me_data = ''{}''\<rparr>]
     else [])"
proof -
  let ?ls = "concat (map (stream_lines M) backlog) @ in_lines M ins"
  have bytes: "concat (map (writeSSE M) backlog) @ stream_loop M ins = end_lines ?ls"
    by (simp add: write_events loop_lines)
  have read: "browser (end_lines ?ls) = sse_lines sse_init ?ls"
    using stream_plain [OF assms(1)] in_plain [OF assms(1)] by (intro browser_lines) auto
  have nz: "\<And>se. se \<in> set backlog \<Longrightarrow> se_Seq se \<noteq> 0" "\<And>se. se \<in> set (live_events ins) \<Longrightarrow> se_Seq se \<noteq> 0"
    using assms(2) by simp_all
  have init: "bf_type sse_init = []" "bf_data sse_init = []" "bf_id sse_init = []" by (simp_all add: sse_init_def)
  let ?b = "if backlog = [] then sse_init else sse_init\<lparr>bf_id := itoa (unat (se_Seq (last backlog)))\<rparr>"
  have backlog: "sse_lines sse_init (concat (map (stream_lines M) backlog)) = (map (as_message M) backlog, ?b)"
    using init(1,2) nz(1) by (intro sse_events)
  have "fst (sse_lines ?b (in_lines M ins)) = map (as_message M) (live_events ins) @
    (if ends_closed ins
     then [\<lparr>me_id = (if live_events ins = [] then bf_id ?b else itoa (unat (se_Seq (last (live_events ins))))), me_type = ''done'', me_data = ''{}''\<rparr>]
     else [])"
    using init(1,2) nz(2) by (intro sse_loop) simp_all
  moreover have "bf_id ?b = (if backlog = [] then [] else itoa (unat (se_Seq (last backlog))))" using init(3) by simp
  ultimately show ?thesis unfolding bytes read fst_sse_lines_append backlog by (cases "live_events ins = []") simp_all
qed

lemma last_id_events:
  assumes "one_line M" and "\<And>se. se \<in> set ses \<Longrightarrow> se_Seq se \<noteq> 0"
  shows "last_id (concat (map (writeSSE M) ses)) = (if ses = [] then [] else itoa (unat (se_Seq (last ses))))"
proof -
  let ?ls = "concat (map (stream_lines M) ses)"
  have read: "browser (end_lines ?ls) = sse_lines sse_init ?ls"
    using stream_plain [OF assms(1)] by (intro browser_lines) auto
  have "sse_lines sse_init ?ls = (map (as_message M) ses, if ses = [] then sse_init else sse_init\<lparr>bf_id := itoa (unat (se_Seq (last ses)))\<rparr>)"
    by (intro sse_events assms(2)) (simp_all add: sse_init_def)
  then show ?thesis unfolding last_id_def write_events read by (simp add: sse_init_def)
qed

section \<open>Reconnecting\<close>

lemma parse_uint_digits: "digits_val acc s = Some n \<Longrightarrow> n < 2 ^ 64 \<Longrightarrow> acc < 2 ^ 64 \<Longrightarrow> parse_uint acc s = n"
proof (induction s arbitrary: acc)
  case Nil
  then show ?case by simp
next
  case (Cons c s)
  have mono: "digits_val a t = Some m \<Longrightarrow> a \<le> m" for a t m
  proof (induction t arbitrary: a)
    case (Cons d t)
    then obtain e where "digits_val (10 * a + e) t = Some m" by (auto split: option.splits)
    from Cons.IH [OF this] show ?case by simp
  qed simp
  from Cons.prems obtain d where d: "digit_val c = Some d" "digits_val (10 * acc + d) s = Some n" by (auto split: option.splits)
  then have "10 * acc + d < 2 ^ 64" using mono [OF d(2)] Cons.prems(2) by linarith
  with Cons.IH [OF d(2) Cons.prems(2)] d(1) show ?case by simp
qed

lemma ParseUint_itoa: "ParseUint (itoa (unat (w :: u64))) = w"
proof -
  have "unat w < 2 ^ 64" using unsigned_less [of w] by simp
  then have "parse_uint 0 (itoa (unat w)) = unat w" by (intro parse_uint_digits digits_val_itoa) simp_all
  then show ?thesis by (simp add: ParseUint_def)
qed

lemma numbered_seq:
  assumes "run_numbered r" and "length (rn_buffer r) < 2 ^ 64" and "se \<in> set (rn_buffer r)"
  shows "se_Seq se \<noteq> 0"
proof -
  obtain j where j: "j < length (rn_buffer r)" "se = rn_buffer r ! j" using assms(3) by (auto simp: in_set_conv_nth)
  have "(of_nat 0 :: u64) < of_nat (Suc j)"
    using j(1) assms(2) by (subst of_nat_word_less_iff) (simp add: take_bit_nat_eq_self)
  then show ?thesis using assms(1) j by (auto simp: run_numbered_def)
qed

text \<open>The numbers are in order: the events after the one with number \<open>i\<close> are those from position \<open>i\<close> on.\<close>

lemma numbered_filter:
  assumes "run_numbered r" and "length (rn_buffer r) < 2 ^ 64" and "i \<le> length (rn_buffer r)"
  shows "filter (\<lambda>se. of_nat i < se_Seq se) (rn_buffer r) = drop i (rn_buffer r)"
proof -
  have "filter (\<lambda>se. of_nat i < se_Seq se) (take i (rn_buffer r)) = []"
  proof (rule filter_False, rule ballI)
    fix se assume "se \<in> set (take i (rn_buffer r))"
    then obtain j where j: "j < i" "j < length (rn_buffer r)" "se = rn_buffer r ! j" by (auto simp: in_set_conv_nth)
    have "\<not> (of_nat i :: u64) < of_nat (Suc j)"
      using j assms(2,3) by (subst of_nat_word_less_iff) (simp add: take_bit_nat_eq_self)
    then show "\<not> of_nat i < se_Seq se" using assms(1) j by (simp add: run_numbered_def)
  qed
  moreover have "filter (\<lambda>se. of_nat i < se_Seq se) (drop i (rn_buffer r)) = drop i (rn_buffer r)"
    using numbered_after [OF assms] by simp
  ultimately show ?thesis by (metis append_Nil append_take_drop_id filter_append)
qed

lemma resume_id:
  assumes "one_line M" and "run_numbered r" and "length (rn_buffer r) < 2 ^ 64" and "i \<le> length (rn_buffer r)"
  shows "last_event_id (last_id (concat (map (writeSSE M) (take i (rn_buffer r))))) [] = of_nat i"
proof (cases i)
  case 0
  have "last_id [] = []" by (simp add: last_id_def browser_def sse_init_def)
  with 0 show ?thesis by (simp add: last_event_id_def)
next
  case (Suc j)
  with assms(4) have "last (take i (rn_buffer r)) = rn_buffer r ! j" "take i (rn_buffer r) \<noteq> []"
    by (auto simp: take_Suc_conv_app_nth)
  moreover have "se_Seq (rn_buffer r ! j) = of_nat i" using assms(2,4) Suc by (simp add: run_numbered_def)
  moreover have "se_Seq se \<noteq> 0" if "se \<in> set (take i (rn_buffer r))" for se
    using numbered_seq [OF assms(2,3)] that by (meson in_set_takeD)
  ultimately show ?thesis using last_id_events [OF assms(1), of "take i (rn_buffer r)"]
    by (simp add: last_event_id_def ParseUint_itoa)
qed

section \<open>Theorems\<close>


definition demo_two_events :: Run where
  "demo_two_events = demo_run\<lparr>rn_seq := 2, rn_buffer := [demo_se 1, demo_se 2]\<rparr>"


end
