(* ===== verification/Api_Runs.thy ===== *)
theory Api_Runs
  imports Backend_Api
begin

text \<open>
  A request that starts a run, from the browser to the agents: which messages it puts on which connections, and
  what a refused request changes.
\<close>

definition sent_to :: "(conn \<Rightarrow> bool) \<Rightarrow> Gateway \<Rightarrow> conn \<Rightarrow> string list \<Rightarrow> string list" where
  "sent_to alive g c sites = filter (\<lambda>s. map_of (gw_agents g) s = Some c \<and> alive c) sites"

lemma gw_StartJob_out:
  assumes "gw_StartJob alive site job sink g = (g', err)"
  shows "cn_out (gw_conns g' c) = cn_out (gw_conns g c) @ map (\<lambda>_. Start job) (sent_to alive g c [site])"
  using assms
  by (auto simp: gw_StartJob_def conn_send_def sent_to_def Let_def split: option.splits if_splits)

lemma start_site_out:
  assumes "start_site alive now newJob site (r, g) = (r', g')"
  shows "cn_out (gw_conns g' c) =
    cn_out (gw_conns g c) @ map (\<lambda>s. Start (newJob (jobID_of (rn_ID r) s))) (sent_to alive g c [site])"
proof -
  obtain g1 err where s: "gw_StartJob alive site (newJob (jobID_of (rn_ID r) site)) (rn_ID r) g = (g1, err)" by force
  show ?thesis
  proof (cases "Connected g site")
    case True
    then have "g' = g1" using assms s by (auto simp: start_site_def Let_def split: option.splits)
    with gw_StartJob_out [OF s, of c] show ?thesis by (simp add: sent_to_def)
  next
    case False
    with assms have "g' = g" by (simp add: start_site_def Let_def)
    with False show ?thesis by (simp add: sent_to_def Connected_def)
  qed
qed

lemma start_sites_out:
  assumes "fold (start_site alive now newJob) sites (new_run runID all now, g) = (r, g')" and "\<And>j. sj_JobId (newJob j) = j"
  shows "cn_out (gw_conns g' c) =
    cn_out (gw_conns g c) @ map (\<lambda>s. Start (newJob (jobID_of runID s))) (sent_to alive g c sites)"
  using assms(1)
proof (induction sites arbitrary: r g' rule: rev_induct)
  case Nil
  then show ?case by (simp add: sent_to_def)
next
  case (snoc site sites)
  obtain r1 g1 where 1: "fold (start_site alive now newJob) sites (new_run runID all now, g) = (r1, g1)" by force
  have step: "start_site alive now newJob site (r1, g1) = (r, g')" using snoc.prems 1 by simp
  have "rn_ID r1 = runID" "gw_agents g1 = gw_agents g" using start_sites [OF 1 assms(2)] by blast+
  with start_site_out [OF step, of c] snoc.IH [OF 1] show ?case by (simp add: sent_to_def)
qed

lemma Manager_Start_out:
  assumes "Manager_Start alive now runID newJob sites mgr g = (mgr', g', r)" and "\<And>j. sj_JobId (newJob j) = j"
  shows "rn_ID r = runID" and "Manager_Get runID mgr' = Some r" and "gw_agents g' = gw_agents g"
    and "cn_out (gw_conns g' c) =
      cn_out (gw_conns g c) @ map (\<lambda>s. Start (newJob (jobID_of runID s))) (sent_to alive g c sites)"
proof -
  obtain r1 where f: "fold (start_site alive now newJob) sites (new_run runID sites now, g) = (r1, g')"
      and r: "r = fst (checkDone_locked now r1)" "mgr' = mgr\<lparr>mg_runs := AList.update runID r (mg_runs mgr)\<rparr>"
    using assms(1) by (auto simp: Manager_Start_def Let_def split: prod.splits)
  note s = start_sites [OF f assms(2)]
  show "rn_ID r = runID" using s r(1) by (simp add: checkDone_locked_def)
  show "Manager_Get runID mgr' = Some r" using r(2) by (simp add: Manager_Get_def update_conv')
  show "gw_agents g' = gw_agents g" using s by blast
  show "cn_out (gw_conns g' c) = cn_out (gw_conns g c) @ map (\<lambda>s. Start (newJob (jobID_of runID s))) (sent_to alive g c sites)"
    by (rule start_sites_out [OF f assms(2)])
qed

text \<open>The sites a request names, or the ones the connected agents announce.\<close>

definition effective_sites :: "Gateway \<Rightarrow> string list \<Rightarrow> string list" where
  "effective_sites g requested = (if requested = [] then map he_Site (Sites g) else requested)"

definition accepted_start :: "(conn \<Rightarrow> bool) \<Rightarrow> string \<Rightarrow> job_spec \<Rightarrow> string list \<Rightarrow> backend \<Rightarrow> backend \<Rightarrow> http_resp \<Rightarrow> bool" where
  "accepted_start alive newID spec sites st st' resp =
    (resp = plain 201 (JObj [(''id'', JStr newID), (''sites'', JArr (map JStr sites))]) \<and>
     (\<exists>r. Manager_Get newID (fst st') = Some r \<and> rn_ID r = newID) \<and>
     (\<forall>c. cn_out (gw_conns (snd st') c) = cn_out (gw_conns (snd st) c) @
       map (\<lambda>s. Start \<lparr>sj_JobId = jobID_of newID s, sj_Spec = spec\<rparr>) (sent_to alive (snd st) c sites)))"

lemma start_on_cases:
  assumes "start_on alive now newID spec requested st = (st', resp)"
  shows "if effective_sites (snd st) requested = [] then st' = st \<and> resp = writeErr 503 ''no agents connected''
    else accepted_start alive newID spec (effective_sites (snd st) requested) st st' resp"
proof -
  obtain mgr g where st: "st = (mgr, g)" by force
  let ?sites = "effective_sites g requested" and ?job = "\<lambda>jobID. \<lparr>sj_JobId = jobID, sj_Spec = spec\<rparr>"
  obtain mgr' g' r where m: "Manager_Start alive now newID ?job ?sites mgr g = (mgr', g', r)" by (rule prod_cases3)
  have "sj_JobId (?job j) = j" for j by simp
  note out = Manager_Start_out [OF m this]
  have "start_on alive now newID spec requested st = (if ?sites = [] then (st, writeErr 503 ''no agents connected'')
      else ((mgr', g'), plain 201 (JObj [(''id'', JStr (rn_ID r)), (''sites'', JArr (map JStr ?sites))])))"
    using m by (simp add: start_on_def st runSites_def effective_sites_def Let_def)
  then show ?thesis
    using assms out by (cases "?sites = []") (auto simp: st accepted_start_def)
qed

text \<open>The outcome of a start request: \<open>missing\<close> when it names nothing to probe.\<close>

definition start_result :: "(conn \<Rightarrow> bool) \<Rightarrow> string \<Rightarrow> bool \<Rightarrow> string \<Rightarrow> job_spec \<Rightarrow> string list \<Rightarrow> backend \<Rightarrow> backend \<times> http_resp \<Rightarrow> bool" where
  "start_result alive newID missing msg spec requested st result =
    (let sites = effective_sites (snd st) requested in
     if missing then result = (st, writeErr 400 msg)
     else if sites = [] then result = (st, writeErr 503 ''no agents connected'')
     else accepted_start alive newID spec sites st (fst result) (snd result))"

lemma start_result_on:
  "start_result alive newID missing msg spec requested st
    (if missing then (st, writeErr 400 msg) else start_on alive now newID spec requested st)"
proof (cases missing)
  case False
  obtain st' resp where "start_on alive now newID spec requested st = (st', resp)" by (rule prod.exhaust)
  with start_on_cases [OF this] False show ?thesis by (simp add: start_result_def Let_def)
qed (simp add: start_result_def)

section \<open>Theorems\<close>


end
