(* ===== verification/Monitor_Sink.thy ===== *)
theory Monitor_Sink
  imports Monitor_Registry Go_Strings Netip
begin

text \<open>
  \<^verbatim>\<open>internal/backend/monitorsink.go\<close>: the state the backend keeps of every monitor at every site, the
  aggregates shown on the monitors page, the stream of their changes, and the reports shipped to
  VictoriaLogs. The per-site states are objects that handlers hold across lock sections, so they
  live in a store and the two maps hold references. Calls of the Prometheus client are kept as the
  list of calls made. Every function that the code runs under the sink's lock is one operation here;
  \<open>OnMonitorEvent\<close> is their composition.
\<close>

section \<open>Data\<close>

record Outcome =
  oc_At :: "instant option"
  oc_Resolved :: string
  oc_Source :: string
  oc_Up :: bool
  oc_LossPct :: real
  oc_RTTUs :: u32
  oc_HasRTT :: bool
  oc_Reached :: bool
  oc_Cycles :: u32
  oc_Hops :: nat
  oc_Code :: nat
  oc_Reason :: string
  oc_Responded :: bool
  oc_Error :: string

text \<open>The zero value; an \<open>At\<close> of \<open>None\<close> is the zero time.\<close>

definition zero_outcome :: Outcome where
  "zero_outcome = \<lparr>oc_At = None, oc_Resolved = [], oc_Source = [], oc_Up = False, oc_LossPct = 0, oc_RTTUs = 0,
    oc_HasRTT = False, oc_Reached = False, oc_Cycles = 0, oc_Hops = 0, oc_Code = 0, oc_Reason = [], oc_Responded = False,
    oc_Error = []\<rparr>"

record monState =
  mt_kind :: string
  mt_target :: string
  mt_transport :: string
  mt_resolved :: string
  mt_source :: string
  mt_protocol :: string
  mt_labels :: "(string \<times> string) list"
  mt_intervalS :: u32
  mt_startedAt :: instant
  mt_lastCycle :: "pb_Cycle option"
  mt_last :: Outcome

datatype MonitorState = StateUp | StateDown | StatePartial | StateNoData

record Aggregate =
  ag_State :: MonitorState
  ag_Up :: nat
  ag_Down :: nat
  ag_Stale :: nat
  ag_Sites :: nat
  ag_Since :: "instant option"

definition zero_aggregate :: Aggregate where
  "zero_aggregate = \<lparr>ag_State = StateNoData, ag_Up = 0, ag_Down = 0, ag_Stale = 0, ag_Sites = 0, ag_Since = None\<rparr>"

record StatusEvent =
  sv_ID :: string
  sv_Aggregate :: Aggregate
  sv_Changes :: "(string \<times> Aggregate) list option"
  sv_Version :: u64

record statusSub =
  ss_ch :: "StatusEvent list"
  ss_closed :: bool

datatype metric_call =
    ProbesInc "string list"
  | SuccessInc "string list"
  | RttObserve "string list" real
  | LossSet "string list" real
  | UpSet "string list" real
  | SipInc "string list"
  | DeleteSeries string string

datatype vlog_value = VStr string | VInt int | VNum real | VBool bool

type_synonym vlog_record = "(string \<times> vlog_value) list"

record MonitorSink =
  ms_reg :: MonitorRegistry
  ms_vl :: bool
  ms_store :: "nat \<Rightarrow> monState"
  ms_next :: nat
  ms_state :: "((string \<times> string) \<times> nat) list"
  ms_byMonitor :: "(string \<times> (string \<times> nat) list) list"
  ms_agg :: "(string \<times> Aggregate) list"
  ms_subs :: "nat list"
  ms_sub :: "nat \<Rightarrow> statusSub"
  ms_metrics :: "metric_call list"
  ms_written :: "vlog_record list"

section \<open>Helpers\<close>

definition monitorKind :: "MonitorConfig \<Rightarrow> string" where
  "monitorKind m = (if mc_Kind m = [] then ''trace'' else mc_Kind m)"

definition monitorProtocol :: "MonitorConfig \<Rightarrow> string" where
  "monitorProtocol m =
    (if mc_Kind m = ''sip'' then []
     else case mc_Trace m of
            Some t \<Rightarrow> if tp_Protocol t \<noteq> [] then tp_Protocol t else ''icmp''
          | None \<Rightarrow> ''icmp'')"

definition monitorTransport :: "MonitorConfig \<Rightarrow> string" where
  "monitorTransport m =
    (if mc_Kind m = ''sip'' then
       (case mc_SIP m of
          Some s \<Rightarrow> if sq_Transport s \<noteq> [] then sq_Transport s else ''udp''
        | None \<Rightarrow> ''udp'')
     else monitorProtocol m)"

definition protoName :: "pb_Protocol \<Rightarrow> string" where
  "protoName p = (case p of PROTOCOL_TCP \<Rightarrow> ''tcp'' | PROTOCOL_UDP \<Rightarrow> ''udp'' | PROTOCOL_ICMP \<Rightarrow> ''icmp'' | _ \<Rightarrow> [])"

definition boolGauge :: "bool \<Rightarrow> real" where "boolGauge b = (if b then 1 else 0)"

definition usToMs :: "u32 \<Rightarrow> real" where "usToMs us = real (unat us) / 1000"

text \<open>The hop a cycle is judged by, and whether the target answered there.\<close>

definition destHop :: "pb_Cycle \<Rightarrow> pb_Hop option \<times> bool" where
  "destHop c =
    (case (if pc_ReachedAt c > 0 then find (\<lambda>h. ph_Ttl h = pc_ReachedAt c) (pc_Hops c) else None) of
       Some h \<Rightarrow> (Some h, ph_Received h > 0)
     | None \<Rightarrow> if pc_Hops c \<noteq> [] then (Some (last (pc_Hops c)), False) else (None, False))"

text \<open>
  \<^verbatim>\<open>for i, r := range k\<close> with \<open>i\<close> the position: a digit in front gets an underscore before it,
  anything but letters, digits and underscores becomes one.
\<close>

definition label_char :: "char \<Rightarrow> bool" where
  "label_char c = (let n = of_char c :: nat in 97 \<le> n \<and> n \<le> 122 \<or> 65 \<le> n \<and> n \<le> 90 \<or> c = CHR ''_'')"

definition is_digit :: "char \<Rightarrow> bool" where
  "is_digit c = (let n = of_char c :: nat in 48 \<le> n \<and> n \<le> 57)"

fun sanitize_from :: "nat \<Rightarrow> string \<Rightarrow> string" where
  "sanitize_from i [] = []"
| "sanitize_from i (r # k) =
    (if label_char r then [r]
     else if is_digit r then (if i = 0 then ''_'' else []) @ [r]
     else ''_'') @ sanitize_from (Suc i) k"

definition sanitizeLabel :: "string \<Rightarrow> string" where
  "sanitizeLabel k = (let b = sanitize_from 0 k in if b = [] then ''_'' else b)"

definition labelMap :: "string list \<Rightarrow> string list \<Rightarrow> (string \<times> string) list" where
  "labelMap names vals = fold (\<lambda>(n, v). AList.update n v) (zip names vals) []"

text \<open>
  Three intervals, at least a minute; a site is forgotten after twice that, at least an hour. Both fit
  \<^verbatim>\<open>int64\<close> for intervals up to 40 years.
\<close>

definition staleAfter :: "u32 \<Rightarrow> duration" where
  "staleAfter intervalS = max (3 * int (unat intervalS) * Second) Minute"

definition forgetAfterFor :: "u32 \<Rightarrow> duration" where
  "forgetAfterFor intervalS = max Hour (2 * staleAfter intervalS)"

section \<open>The state of a monitor at a site\<close>

definition sites_of :: "string \<Rightarrow> MonitorSink \<Rightarrow> (string \<times> nat) list" where
  "sites_of i s = (case map_of (ms_byMonitor s) i of Some sites \<Rightarrow> sites | None \<Rightarrow> [])"

text \<open>Both maps get the reference.\<close>

definition put_state :: "string \<Rightarrow> string \<Rightarrow> nat \<Rightarrow> MonitorSink \<Rightarrow> MonitorSink" where
  "put_state site i p s = s\<lparr>ms_state := AList.update (site, i) p (ms_state s),
    ms_byMonitor := AList.update i (AList.update site p (sites_of i s)) (ms_byMonitor s)\<rparr>"

definition keepLocked :: "string \<Rightarrow> string \<Rightarrow> nat \<Rightarrow> MonitorSink \<Rightarrow> MonitorSink" where
  "keepLocked site i p s = (if map_of (ms_state s) (site, i) = Some p then s else put_state site i p s)"

definition new_monState :: "MonitorConfig \<Rightarrow> monState" where
  "new_monState mc = \<lparr>mt_kind = monitorKind mc, mt_target = mc_Target mc, mt_transport = monitorTransport mc,
    mt_resolved = [], mt_source = [], mt_protocol = monitorProtocol mc, mt_labels = mc_Labels mc,
    mt_intervalS = mc_IntervalS mc, mt_startedAt = 0, mt_lastCycle = None, mt_last = zero_outcome\<rparr>"

definition stateFor :: "string \<Rightarrow> string \<Rightarrow> MonitorSink \<Rightarrow> MonitorSink \<times> nat option" where
  "stateFor site i s =
    (case map_of (ms_state s) (site, i) of
       Some p \<Rightarrow> (s, Some p)
     | None \<Rightarrow>
         (case registry_lookup (ms_reg s) i of
            None \<Rightarrow> (s, None)
          | Some mc \<Rightarrow>
              let p = ms_next s
              in (put_state site i p (s\<lparr>ms_store := (ms_store s)(p := new_monState mc), ms_next := Suc p\<rparr>), Some p)))"

definition forgetLocked :: "string \<times> string \<Rightarrow> MonitorSink \<Rightarrow> MonitorSink" where
  "forgetLocked k s =
    (let (site, i) = k;
         s = s\<lparr>ms_metrics := ms_metrics s @ [DeleteSeries site i], ms_state := AList.delete k (ms_state s)\<rparr>
     in case map_of (ms_byMonitor s) i of
          None \<Rightarrow> s
        | Some sites \<Rightarrow>
            let sites = AList.delete site sites
            in s\<lparr>ms_byMonitor := (if sites = [] then AList.delete i (ms_byMonitor s)
                                  else AList.update i sites (ms_byMonitor s))\<rparr>)"

section \<open>Aggregates\<close>

definition is_stale :: "instant \<Rightarrow> monState \<Rightarrow> bool" where
  "is_stale now st = (case oc_At (mt_last st) of None \<Rightarrow> False | Some t \<Rightarrow> now - t > staleAfter (mt_intervalS st))"

text \<open>One round of the loop of \<^verbatim>\<open>aggregateLocked\<close>.\<close>

definition aggregate_site :: "instant \<Rightarrow> monState \<Rightarrow> Aggregate \<Rightarrow> Aggregate" where
  "aggregate_site now st a =
    (if oc_At (mt_last st) = None then a
     else
       let a = a\<lparr>ag_Sites := ag_Sites a + 1\<rparr>
       in if is_stale now st then a\<lparr>ag_Stale := ag_Stale a + 1\<rparr>
          else if oc_Up (mt_last st) then a\<lparr>ag_Up := ag_Up a + 1\<rparr>
          else a\<lparr>ag_Down := ag_Down a + 1\<rparr>)"

definition aggregateLocked :: "string \<Rightarrow> instant \<Rightarrow> MonitorSink \<Rightarrow> Aggregate" where
  "aggregateLocked i now s =
    (let a = fold (\<lambda>(site, p). aggregate_site now (ms_store s p)) (sites_of i s) zero_aggregate
     in a\<lparr>ag_State :=
          (if ag_Sites a = 0 \<or> ag_Stale a = ag_Sites a then StateNoData
           else if ag_Up a = ag_Sites a then StateUp
           else if ag_Up a = 0 then StateDown
           else StatePartial)\<rparr>)"

definition refreshLocked :: "string \<Rightarrow> instant \<Rightarrow> MonitorSink \<Rightarrow> MonitorSink \<times> Aggregate \<times> bool" where
  "refreshLocked i now s =
    (let a = aggregateLocked i now s;
         prev = (case map_of (ms_agg s) i of Some a \<Rightarrow> a | None \<Rightarrow> zero_aggregate);
         had = (map_of (ms_agg s) i \<noteq> None);
         a = a\<lparr>ag_Since := (if \<not> had \<or> ag_State a \<noteq> ag_State prev then Some now else ag_Since prev)\<rparr>;
         changed = (\<not> had \<or> ag_State a \<noteq> ag_State prev \<or> ag_Up a \<noteq> ag_Up prev \<or> ag_Down a \<noteq> ag_Down prev \<or>
                    ag_Stale a \<noteq> ag_Stale prev \<or> ag_Sites a \<noteq> ag_Sites prev)
     in (s\<lparr>ms_agg := AList.update i a (ms_agg s)\<rparr>, a, changed))"

section \<open>The stream of changes\<close>

definition status_cap :: nat where "status_cap = 1024"

definition status_send :: "StatusEvent \<Rightarrow> statusSub \<Rightarrow> statusSub \<times> bool" where
  "status_send ev sub =
    (if ss_closed sub then (sub, False)
     else if length (ss_ch sub) < status_cap then (sub\<lparr>ss_ch := ss_ch sub @ [ev]\<rparr>, True)
     else (sub\<lparr>ss_closed := True\<rparr>, False))"

definition status_close :: "statusSub \<Rightarrow> statusSub" where
  "status_close sub = sub\<lparr>ss_closed := True\<rparr>"

definition publish_one :: "StatusEvent \<Rightarrow> nat \<Rightarrow> MonitorSink \<Rightarrow> MonitorSink" where
  "publish_one ev k s =
    (let (sub, ok) = status_send ev (ms_sub s k);
         s = s\<lparr>ms_sub := (ms_sub s)(k := sub)\<rparr>
     in if ok then s else s\<lparr>ms_subs := filter (\<lambda>j. j \<noteq> k) (ms_subs s)\<rparr>)"

definition publishLocked :: "StatusEvent \<Rightarrow> MonitorSink \<Rightarrow> MonitorSink" where
  "publishLocked ev s = fold (publish_one ev) (ms_subs s) s"

definition change_event :: "string \<Rightarrow> Aggregate \<Rightarrow> StatusEvent" where
  "change_event i a = \<lparr>sv_ID = i, sv_Aggregate = a, sv_Changes = None, sv_Version = 0\<rparr>"

definition changes_event :: "(string \<times> Aggregate) list \<Rightarrow> StatusEvent" where
  "changes_event changes = \<lparr>sv_ID = [], sv_Aggregate = zero_aggregate, sv_Changes = Some changes, sv_Version = 0\<rparr>"

definition reload_event :: "u64 \<Rightarrow> StatusEvent" where
  "reload_event v = \<lparr>sv_ID = [], sv_Aggregate = zero_aggregate, sv_Changes = None, sv_Version = v\<rparr>"

definition refresh :: "string \<Rightarrow> instant \<Rightarrow> MonitorSink \<Rightarrow> MonitorSink" where
  "refresh i now s =
    (let (s, a, changed) = refreshLocked i now s
     in if changed then publishLocked (change_event i a) s else s)"

text \<open>\<open>k\<close> is the reference of the new subscriber.\<close>

definition sink_Subscribe :: "nat \<Rightarrow> MonitorSink \<Rightarrow> MonitorSink \<times> (string \<times> Aggregate) list \<times> u64" where
  "sink_Subscribe k s =
    (s\<lparr>ms_subs := ms_subs s @ [k], ms_sub := (ms_sub s)(k := \<lparr>ss_ch = [], ss_closed = False\<rparr>)\<rparr>,
     ms_agg s, mr_version (ms_reg s))"

definition sink_cancel :: "nat \<Rightarrow> MonitorSink \<Rightarrow> MonitorSink" where
  "sink_cancel k s = s\<lparr>ms_subs := filter (\<lambda>j. j \<noteq> k) (ms_subs s), ms_sub := (ms_sub s)(k := status_close (ms_sub s k))\<rparr>"

definition monitorIDsLocked :: "MonitorSink \<Rightarrow> string list" where
  "monitorIDsLocked s = remdups (map fst (ms_byMonitor s) @ map fst (ms_agg s))"

text \<open>The loop that recomputes every monitor and collects the changed ones.\<close>

definition refresh_into :: "instant \<Rightarrow> string \<Rightarrow> MonitorSink \<times> (string \<times> Aggregate) list \<Rightarrow> MonitorSink \<times> (string \<times> Aggregate) list" where
  "refresh_into now i sc =
    (let (s, changed) = sc;
         (s, a, ok) = refreshLocked i now s
     in (s, if ok then AList.update i a changed else changed))"

definition refresh_all :: "instant \<Rightarrow> MonitorSink \<Rightarrow> MonitorSink" where
  "refresh_all now s =
    (let (s, changed) = fold (refresh_into now) (monitorIDsLocked s) (s, [])
     in if changed \<noteq> [] then publishLocked (changes_event changed) s else s)"

definition is_forgotten :: "instant \<Rightarrow> monState \<Rightarrow> bool" where
  "is_forgotten now st =
    (case oc_At (mt_last st) of None \<Rightarrow> False | Some t \<Rightarrow> now - t > forgetAfterFor (mt_intervalS st))"

definition sweep_one :: "instant \<Rightarrow> (string \<times> string) \<times> nat \<Rightarrow> MonitorSink \<Rightarrow> MonitorSink" where
  "sweep_one now kp s = (if is_forgotten now (ms_store s (snd kp)) then forgetLocked (fst kp) s else s)"

definition Sweep :: "instant \<Rightarrow> MonitorSink \<Rightarrow> MonitorSink" where
  "Sweep now s = refresh_all now (fold (sweep_one now) (ms_state s) s)"

definition retain_one :: "(string \<times> string) \<times> nat \<Rightarrow> MonitorSink \<Rightarrow> MonitorSink" where
  "retain_one kp s =
    (let ((site, i), p) = kp
     in case registry_lookup (ms_reg s) i of
          Some mc \<Rightarrow>
            if siteMatches (mc_Sites mc) site
            then s\<lparr>ms_store := (ms_store s)(p := (ms_store s p)\<lparr>mt_intervalS := mc_IntervalS mc\<rparr>)\<rparr>
            else forgetLocked (site, i) s
        | None \<Rightarrow> forgetLocked (site, i) s)"

definition Retain :: "instant \<Rightarrow> MonitorSink \<Rightarrow> MonitorSink" where
  "Retain now s =
    (let s = fold retain_one (ms_state s) s;
         s = s\<lparr>ms_agg := filter (\<lambda>(i, a). registry_lookup (ms_reg s) i \<noteq> None) (ms_agg s)\<rparr>;
         s = refresh_all now s
     in publishLocked (reload_event (mr_version (ms_reg s))) s)"

definition sink_Aggregate :: "string \<Rightarrow> MonitorSink \<Rightarrow> Aggregate option" where
  "sink_Aggregate i s = map_of (ms_agg s) i"

definition Aggregates :: "MonitorSink \<Rightarrow> (string \<times> Aggregate) list" where
  "Aggregates s = ms_agg s"

text \<open>A site's latest outcome as the detail page reads it, sorted by site.\<close>

record MonitorStatus =
  mst_Site :: string
  mst_Stale :: bool
  mst_Outcome :: Outcome

definition Statuses :: "instant \<Rightarrow> string \<Rightarrow> MonitorSink \<Rightarrow> MonitorStatus list" where
  "Statuses now i s =
    sort_key mst_Site
      (map (\<lambda>(site, p). \<lparr>mst_Site = site, mst_Stale = is_stale now (ms_store s p), mst_Outcome = mt_last (ms_store s p)\<rparr>)
        (filter (\<lambda>(site, p). oc_At (mt_last (ms_store s p)) \<noteq> None) (sites_of i s)))"

section \<open>The report of a trace\<close>

text \<open>
  \<^verbatim>\<open>mtrreport.go\<close>. The printing of a number with one decimal (\<open>fl_1f\<close>), of the start time (\<open>fl_start\<close>)
  and of the present time (\<open>fl_now\<close>) are the standard library's. Widths count characters.
\<close>

record fmt_lib =
  fl_1f :: "real \<Rightarrow> string"
  fl_start :: "instant \<Rightarrow> string"
  fl_now :: "instant \<Rightarrow> string"

definition pad_left :: "nat \<Rightarrow> string \<Rightarrow> string" where
  "pad_left w x = replicate (w - length x) (CHR '' '') @ x"

definition pad_right :: "nat \<Rightarrow> string \<Rightarrow> string" where
  "pad_right w x = x @ replicate (w - length x) (CHR '' '')"

definition report_host :: "pb_Hop \<Rightarrow> string" where
  "report_host h =
    (case ph_Addresses h of
       [] \<Rightarrow> ''???''
     | a # _ \<Rightarrow> if pa_Name a \<noteq> [] then pa_Name a else pa_Ip a)"

definition report_width :: "string \<Rightarrow> pb_Hop list \<Rightarrow> nat" where
  "report_width src hops = fold (\<lambda>h w. max w (length (report_host h))) hops (max 20 (length src))"

definition report_hop :: "fmt_lib \<Rightarrow> nat \<Rightarrow> pb_Hop \<Rightarrow> string" where
  "report_hop L w h =
    pad_left 3 (itoa (unat (ph_Ttl h))) @ ''.|-- '' @ pad_right w (report_host h) @
    pad_left 6 (fl_1f L (ph_LossPct h) @ ''%'') @ pad_left 6 (itoa (unat (ph_Sent h))) @
    pad_left 6 (itoa (unat (ph_Received h))) @
    concat (map (\<lambda>f. pad_left 6 (fl_1f L (usToMs (f h)))) [ph_LastUs, ph_AvgUs, ph_BestUs, ph_WorstUs, ph_StdevUs])"

definition mtrReport :: "fmt_lib \<Rightarrow> string \<Rightarrow> string \<Rightarrow> instant \<Rightarrow> pb_Hop list \<Rightarrow> string" where
  "mtrReport L site source start hops =
    (let src = (if source \<noteq> [] then site @ '' ('' @ source @ '')'' else site);
         w = report_width src hops
     in ''Start: '' @ fl_start L start @ [CHR 0x0A] @
        pad_right (8 + w) (''HOST: '' @ src) @
        concat (map (pad_left 6) [''Loss%'', ''Snt'', ''Rcvd'', ''Last'', ''Avg'', ''Best'', ''Wrst'', ''StDev'']) @
        concat (map (\<lambda>h. [CHR 0x0A] @ report_hop L w h) hops))"

definition report_record :: "fmt_lib \<Rightarrow> instant \<Rightarrow> string \<Rightarrow> string \<Rightarrow> monState \<Rightarrow> pb_Cycle \<Rightarrow> string \<Rightarrow> vlog_record" where
  "report_record L now site i st c errMsg =
    (let (hop, reached) = destHop c;
         rec = [(''_time'', VStr (fl_now L now)),
                (''_msg'', VStr (mtrReport L site (mt_source st) (mt_startedAt st) (pc_Hops c))),
                (''site'', VStr site), (''monitor'', VStr i), (''target'', VStr (mt_target st)),
                (''resolved'', VStr (mt_resolved st)), (''source'', VStr (mt_source st)), (''protocol'', VStr (mt_protocol st)),
                (''cycles'', VInt (int (unat (pc_Number c)))), (''hops'', VInt (int (length (pc_Hops c)))),
                (''reached'', VBool reached), (''loss_pct'', VNum 100)];
         rec = (case hop of
                  Some h \<Rightarrow>
                    if reached then
                      fold (\<lambda>(k, v). AList.update k v)
                        [(''sent'', VInt (int (unat (ph_Sent h)))), (''received'', VInt (int (unat (ph_Received h)))),
                         (''loss_pct'', VNum (ph_LossPct h)), (''best_ms'', VNum (usToMs (ph_BestUs h))),
                         (''avg_ms'', VNum (usToMs (ph_AvgUs h))), (''worst_ms'', VNum (usToMs (ph_WorstUs h))),
                         (''stdev_ms'', VNum (usToMs (ph_StdevUs h))), (''jitter_ms'', VNum (usToMs (ph_JitterUs h)))] rec
                    else rec
                | None \<Rightarrow> rec);
         rec = (if errMsg \<noteq> [] then AList.update ''error'' (VStr errMsg) rec else rec)
     in fold (\<lambda>(k, v) rec. if map_of rec k = None then AList.update k (VStr v) rec else rec) (mt_labels st) rec)"

section \<open>Events\<close>

definition upd_state :: "nat \<Rightarrow> (monState \<Rightarrow> monState) \<Rightarrow> MonitorSink \<Rightarrow> MonitorSink" where
  "upd_state p f s = s\<lparr>ms_store := (ms_store s)(p := f (ms_store s p))\<rparr>"

definition dropReport :: "nat \<Rightarrow> MonitorSink \<Rightarrow> MonitorSink" where
  "dropReport p s = upd_state p (\<lambda>st. st\<lparr>mt_lastCycle := None\<rparr>) s"

definition shipReport :: "fmt_lib \<Rightarrow> instant \<Rightarrow> string \<Rightarrow> string \<Rightarrow> nat \<Rightarrow> string \<Rightarrow> MonitorSink \<Rightarrow> MonitorSink" where
  "shipReport L now site i p errMsg s =
    (let st = ms_store s p;
         s = dropReport p s
     in case mt_lastCycle st of
          None \<Rightarrow> s
        | Some c \<Rightarrow> if ms_vl s then s\<lparr>ms_written := ms_written s @ [report_record L now site i st c errMsg]\<rparr> else s)"

definition onStarted :: "instant \<Rightarrow> nat \<Rightarrow> instant option \<Rightarrow> JobStarted \<Rightarrow> MonitorSink \<Rightarrow> MonitorSink" where
  "onStarted now p time started s =
    upd_state p (\<lambda>st. st\<lparr>mt_resolved := js_Resolved started, mt_source := js_Source started,
      mt_protocol := (if js_Protocol started \<noteq> PROTOCOL_UNSPECIFIED then protoName (js_Protocol started) else mt_protocol st),
      mt_startedAt := (case time of Some t \<Rightarrow> t | None \<Rightarrow> now), mt_lastCycle := None\<rparr>) s"

definition cycle_outcome :: "instant \<Rightarrow> monState \<Rightarrow> pb_Cycle \<Rightarrow> Outcome" where
  "cycle_outcome now st c =
    (let (hop, reached) = destHop c;
         o1 = zero_outcome\<lparr>oc_At := Some now, oc_Resolved := mt_resolved st, oc_Source := mt_source st, oc_Up := reached,
                oc_LossPct := (case hop of Some h \<Rightarrow> if reached then ph_LossPct h / 100 else 1 | None \<Rightarrow> 1) * 100,
                oc_Reached := reached, oc_Cycles := pc_Number c, oc_Hops := length (pc_Hops c)\<rparr>
     in case hop of
          Some h \<Rightarrow> if reached then o1\<lparr>oc_RTTUs := ph_AvgUs h, oc_HasRTT := True\<rparr> else o1
        | None \<Rightarrow> o1)"

definition cycle_metrics :: "string list \<Rightarrow> pb_Cycle \<Rightarrow> metric_call list" where
  "cycle_metrics lv c =
    (let (hop, reached) = destHop c
     in [ProbesInc lv] @
        (case hop of Some h \<Rightarrow> if reached then [SuccessInc lv, RttObserve lv (real (unat (ph_AvgUs h)) / 1000000)] else [] | None \<Rightarrow> []) @
        [UpSet lv (boolGauge reached),
         LossSet lv (case hop of Some h \<Rightarrow> if reached then ph_LossPct h / 100 else 1 | None \<Rightarrow> 1)])"

definition onCycle :: "instant \<Rightarrow> string \<Rightarrow> string \<Rightarrow> nat \<Rightarrow> string list \<Rightarrow> pb_Cycle \<Rightarrow> MonitorSink \<Rightarrow> MonitorSink" where
  "onCycle now site i p lv c s =
    (let s = s\<lparr>ms_metrics := ms_metrics s @ cycle_metrics lv c\<rparr>;
         s = keepLocked site i p s
     in upd_state p (\<lambda>st. st\<lparr>mt_last := cycle_outcome now st c,
          mt_lastCycle := (if mt_kind st = ''trace'' then Some c else mt_lastCycle st)\<rparr>) s)"

definition sip_outcome :: "instant \<Rightarrow> monState \<Rightarrow> SipResult \<Rightarrow> Outcome" where
  "sip_outcome now st r =
    (let o1 = zero_outcome\<lparr>oc_At := Some now, oc_Resolved := mt_resolved st, oc_Source := mt_source st, oc_Up := sr_Responded r,
                oc_Code := unat (sr_StatusCode r), oc_Reason := sr_Reason r, oc_Responded := sr_Responded r\<rparr>
     in case sr_RttUs r of
          Some us \<Rightarrow> if sr_Responded r then o1\<lparr>oc_RTTUs := us, oc_HasRTT := True\<rparr> else o1
        | None \<Rightarrow> o1)"

definition sip_metrics :: "string list \<Rightarrow> SipResult \<Rightarrow> metric_call list" where
  "sip_metrics lv r =
    [ProbesInc lv, SipInc (lv @ [if sr_Responded r then itoa (unat (sr_StatusCode r)) else ''timeout''])] @
    (if sr_Responded r then [SuccessInc lv] else []) @ [UpSet lv (boolGauge (sr_Responded r))] @
    (case sr_RttUs r of Some us \<Rightarrow> if sr_Responded r then [RttObserve lv (real (unat us) / 1000000)] else [] | None \<Rightarrow> [])"

definition onSipResult :: "instant \<Rightarrow> string \<Rightarrow> string \<Rightarrow> nat \<Rightarrow> string list \<Rightarrow> SipResult \<Rightarrow> MonitorSink \<Rightarrow> MonitorSink" where
  "onSipResult now site i p lv r s =
    (let s = s\<lparr>ms_metrics := ms_metrics s @ sip_metrics lv r\<rparr>;
         s = keepLocked site i p s
     in upd_state p (\<lambda>st. st\<lparr>mt_last := sip_outcome now st r\<rparr>) s)"

definition error_outcome :: "instant \<Rightarrow> monState \<Rightarrow> string \<Rightarrow> Outcome" where
  "error_outcome now st msg = zero_outcome\<lparr>oc_At := Some now, oc_Resolved := mt_resolved st, oc_Source := mt_source st,
    oc_Error := msg, oc_LossPct := (if mt_kind st \<noteq> ''sip'' then 100 else 0)\<rparr>"

definition onError :: "fmt_lib \<Rightarrow> instant \<Rightarrow> string \<Rightarrow> string \<Rightarrow> nat \<Rightarrow> string list \<Rightarrow> error_code \<Rightarrow> string \<Rightarrow> MonitorSink \<Rightarrow> MonitorSink" where
  "onError L now site i p lv code msg s =
    (let s = s\<lparr>ms_metrics := ms_metrics s @ [ProbesInc lv, UpSet lv 0]\<rparr>;
         s = keepLocked site i p s;
         s = upd_state p (\<lambda>st. st\<lparr>mt_last := error_outcome now st msg\<rparr>) s
     in if code = CODE_ENGINE then shipReport L now site i p msg s else dropReport p s)"

definition handle_event :: "fmt_lib \<Rightarrow> instant \<Rightarrow> string \<Rightarrow> string \<Rightarrow> nat \<Rightarrow> JobEvent \<Rightarrow> MonitorSink \<Rightarrow> MonitorSink" where
  "handle_event L now site i p ev s =
    (let st = ms_store s p;
         lv = [site, i, mt_kind st, mt_target st, mt_transport st]
     in case je_Event ev of
          EvStarted started \<Rightarrow> onStarted now p (je_Time ev) started s
        | EvCycle c \<Rightarrow> onCycle now site i p lv c s
        | EvSipResult r \<Rightarrow> onSipResult now site i p lv r s
        | EvFinished _ reason \<Rightarrow> if reason = REASON_CANCELLED then dropReport p s else shipReport L now site i p [] s
        | EvError code msg \<Rightarrow> onError L now site i p lv code msg s
        | _ \<Rightarrow> s)"

definition moves_aggregate :: "job_event \<Rightarrow> bool" where
  "moves_aggregate e = (case e of EvCycle _ \<Rightarrow> True | EvSipResult _ \<Rightarrow> True | EvError _ _ \<Rightarrow> True | _ \<Rightarrow> False)"

definition OnMonitorEvent :: "fmt_lib \<Rightarrow> instant \<Rightarrow> string \<Rightarrow> JobEvent \<Rightarrow> MonitorSink \<Rightarrow> MonitorSink" where
  "OnMonitorEvent L now site ev s =
    (let i = monitorIDOf (je_JobId ev)
     in case stateFor site i s of
          (s, None) \<Rightarrow> s
        | (s, Some p) \<Rightarrow>
            let s = handle_event L now site i p ev s
            in if moves_aggregate (je_Event ev) then refresh i now s else s)"

definition NewMonitorSink :: "MonitorRegistry \<Rightarrow> bool \<Rightarrow> (nat \<Rightarrow> monState) \<Rightarrow> (nat \<Rightarrow> statusSub) \<Rightarrow> MonitorSink" where
  "NewMonitorSink reg vl store sub = \<lparr>ms_reg = reg, ms_vl = vl, ms_store = store, ms_next = 0, ms_state = [],
    ms_byMonitor = [], ms_agg = [], ms_subs = [], ms_sub = sub, ms_metrics = [], ms_written = []\<rparr>"

end
