(* ===== verification/Vlog_Client.thy ===== *)
theory Vlog_Client
  imports Go_Strings Go_Json "HOL-Library.Sublist"
begin

text \<open>
  \<^verbatim>\<open>internal/vlog/client.go\<close>: the shipper of trace reports to VictoriaLogs and the queries that read them
  back. \<^verbatim>\<open>Run\<close> and the writers around it are a transition system, since the writers do not wait for it.
  JSON, the decoder of a response, HTTP and the printing of floats are fields of \<open>vlog_lib\<close>.
\<close>

section \<open>Configuration\<close>

type_synonym Record = "(string \<times> json) list"

record vlog_Options =
  vo_URL :: string
  vo_Username :: string
  vo_Password :: string
  vo_AccountID :: int
  vo_ProjectID :: int
  vo_StreamFields :: "string list"
  vo_BatchMax :: int
  vo_Flush :: duration

definition defaultBatchMax :: int where "defaultBatchMax = 500"
definition defaultFlush :: duration where "defaultFlush = 2 * Second"
definition queueDepth :: nat where "queueDepth = 4096"

text \<open>The state of a client: what is configured, the channel, and how many records did not fit.\<close>

record vlog_Client =
  vc_base :: string
  vc_query :: string
  vc_opt :: vlog_Options
  vc_ch :: "Record list"
  vc_dropped :: int

text \<open>\<^verbatim>\<open>url.QueryEscape\<close>.\<close>

definition unreserved :: "char \<Rightarrow> bool" where
  "unreserved c = (let n = of_char c :: nat in
    48 \<le> n \<and> n \<le> 57 \<or> 65 \<le> n \<and> n \<le> 90 \<or> 97 \<le> n \<and> n \<le> 122 \<or> c \<in> {CHR ''-'', CHR ''_'', CHR ''.'', CHR ''~''})"

definition escape_char :: "char \<Rightarrow> string" where
  "escape_char c =
    (if unreserved c then [c]
     else if c = CHR '' '' then ''+''
     else let n = of_char c in [CHR ''%'', ''0123456789ABCDEF'' ! (n div 16), ''0123456789ABCDEF'' ! (n mod 16)])"

definition QueryEscape :: "string \<Rightarrow> string" where "QueryEscape s = concat (map escape_char s)"

definition TrimRight :: "string \<Rightarrow> string \<Rightarrow> string" where
  "TrimRight s cutset = rev (dropWhile (\<lambda>c. c \<in> set cutset) (rev s))"

definition vlog_New :: "vlog_Options \<Rightarrow> vlog_Client" where
  "vlog_New opt =
    (let opt = opt\<lparr>vo_BatchMax := (if vo_BatchMax opt \<le> 0 then defaultBatchMax else vo_BatchMax opt),
                   vo_Flush := (if vo_Flush opt \<le> 0 then defaultFlush else vo_Flush opt)\<rparr>
     in \<lparr>vc_base = TrimRight (vo_URL opt) ''/'',
         vc_query = (if vo_StreamFields opt = [] then []
                     else ''_stream_fields='' @ QueryEscape (join_with (CHR '','') (vo_StreamFields opt))),
         vc_opt = opt, vc_ch = [], vc_dropped = 0\<rparr>)"

definition Enabled :: "vlog_Client \<Rightarrow> bool" where "Enabled c = (vc_base c \<noteq> [])"

definition StreamFields :: "vlog_Client \<Rightarrow> string list" where "StreamFields c = vo_StreamFields (vc_opt c)"

section \<open>Requests\<close>

record http_post =
  hp_url :: string
  hp_header :: "(string \<times> string) list"
  hp_basic :: "(string \<times> string) option"
  hp_body :: string

text \<open>
  \<open>vj_Marshal\<close> is \<^verbatim>\<open>json.Marshal\<close>; \<open>vj_NewRequest\<close> the error of building a request for a URL; \<open>vj_Do\<close>
  sends a request, with the flag whether its context is cancelled already, and returns the status and
  the body; \<open>vj_Decode\<close> the objects of a body and the error that ends them, if not its end; \<open>vj_Float\<close>
  prints a float.
\<close>

record vlog_lib =
  vj_Marshal :: "json \<Rightarrow> string option"
  vj_NewRequest :: "string \<Rightarrow> string option"
  vj_Do :: "bool \<Rightarrow> http_post \<Rightarrow> string + (nat \<times> string)"
  vj_Decode :: "string \<Rightarrow> Record list \<times> string option"
  vj_Float :: "real \<Rightarrow> string"

definition Itoa :: "int \<Rightarrow> string" where
  "Itoa n = (if n < 0 then ''-'' @ itoa (nat (- n)) else itoa (nat n))"

definition applyAuth :: "vlog_Client \<Rightarrow> http_post \<Rightarrow> http_post" where
  "applyAuth c r =
    (let r = (if vo_Username (vc_opt c) = [] then r else r\<lparr>hp_basic := Some (vo_Username (vc_opt c), vo_Password (vc_opt c))\<rparr>)
     in r\<lparr>hp_header := hp_header r @ [(''AccountID'', Itoa (vo_AccountID (vc_opt c))), (''ProjectID'', Itoa (vo_ProjectID (vc_opt c)))]\<rparr>)"

definition newline :: char where "newline = CHR 0x0A"

fun encode_all :: "vlog_lib \<Rightarrow> Record list \<Rightarrow> string option" where
  "encode_all L [] = Some []"
| "encode_all L (r # rs) =
    (case vj_Marshal L (JObj r) of
       None \<Rightarrow> None
     | Some t \<Rightarrow> map_option (\<lambda>b. t @ [newline] @ b) (encode_all L rs))"

definition post_request :: "vlog_Client \<Rightarrow> string \<Rightarrow> http_post" where
  "post_request c body = applyAuth c
    \<lparr>hp_url = vc_base c @ ''/insert/jsonline'' @ (if vc_query c \<noteq> [] then ''?'' @ vc_query c else []),
     hp_header = [(''Content-Type'', ''application/x-ndjson'')], hp_basic = None, hp_body = body\<rparr>"

datatype post_result = NoRecords | EncodeFailed | BuildFailed string | PostFailed string nat | Non2xx nat string | Posted

definition vlog_post :: "vlog_lib \<Rightarrow> bool \<Rightarrow> vlog_Client \<Rightarrow> Record list \<Rightarrow> post_result" where
  "vlog_post L cancelled c batch =
    (if batch = [] then NoRecords
     else case encode_all L batch of
         None \<Rightarrow> EncodeFailed
       | Some body \<Rightarrow>
           let req = post_request c body
           in case vj_NewRequest L (hp_url req) of
                Some e \<Rightarrow> BuildFailed e
              | None \<Rightarrow>
                  (case vj_Do L cancelled req of
                     Inl e \<Rightarrow> PostFailed e (length batch)
                   | Inr (status, msg) \<Rightarrow>
                       if status div 100 \<noteq> 2 then Non2xx status (TrimSpace (take 512 msg)) else Posted))"

section \<open>Queries\<close>

definition FormatBool :: "bool \<Rightarrow> string" where "FormatBool b = (if b then ''true'' else ''false'')"

text \<open>The decoder gives every number as a float.\<close>

definition stringValue :: "vlog_lib \<Rightarrow> json \<Rightarrow> string" where
  "stringValue L v =
    (case v of
       JStr x \<Rightarrow> x
     | JNull \<Rightarrow> []
     | JNum x \<Rightarrow> vj_Float L x
     | JInt n \<Rightarrow> vj_Float L (of_int n)
     | JBool b \<Rightarrow> FormatBool b
     | _ \<Rightarrow> (case vj_Marshal L v of Some t \<Rightarrow> t | None \<Rightarrow> []))"

definition vlog_Query :: "vlog_lib \<Rightarrow> vlog_Client \<Rightarrow> string \<Rightarrow> string + (string \<times> string) list list" where
  "vlog_Query L c query =
    (if \<not> Enabled c then Inl ''victorialogs: not configured''
     else
       let req = applyAuth c \<lparr>hp_url = vc_base c @ ''/select/logsql/query'',
             hp_header = [(''Content-Type'', ''application/x-www-form-urlencoded'')], hp_basic = None,
             hp_body = ''query='' @ QueryEscape query\<rparr>
       in case vj_NewRequest L (hp_url req) of
            Some e \<Rightarrow> Inl e
          | None \<Rightarrow>
              (case vj_Do L False req of
                 Inl e \<Rightarrow> Inl (''victorialogs: query: '' @ e)
               | Inr (status, msg) \<Rightarrow>
                   if status div 100 \<noteq> 2
                   then Inl (''victorialogs: query: HTTP '' @ itoa status @ '': '' @ TrimSpace (take 512 msg))
                   else case vj_Decode L msg of
                       (recs, Some e) \<Rightarrow> Inl (''victorialogs: query: decode: '' @ e)
                     | (recs, None) \<Rightarrow> Inr (map (map (\<lambda>(k, v). (k, stringValue L v))) recs)))"

section \<open>Writing and shipping\<close>

text \<open>The \<^verbatim>\<open>select\<close> with a default branch.\<close>

definition vlog_enqueue :: "Record \<Rightarrow> vlog_Client \<Rightarrow> vlog_Client" where
  "vlog_enqueue rec c =
    (if length (vc_ch c) < queueDepth then c\<lparr>vc_ch := vc_ch c @ [rec]\<rparr> else c\<lparr>vc_dropped := vc_dropped c + 1\<rparr>)"

definition vlog_Write :: "Record \<Rightarrow> vlog_Client \<Rightarrow> vlog_Client" where
  "vlog_Write rec c = (if \<not> Enabled c then c else vlog_enqueue rec c)"

datatype run_phase = Batching | Draining | Returned

text \<open>
  \<open>vx_posts\<close> lists the batches given to \<^verbatim>\<open>post\<close>, each with the flag whether the context it was given was
  cancelled; \<open>vx_offered\<close> and \<open>vx_accepted\<close> the records that were written and those that were queued.
\<close>

record vlog_sys =
  vx_client :: vlog_Client
  vx_batch :: "Record list"
  vx_cancelled :: bool
  vx_phase :: run_phase
  vx_posts :: "(bool \<times> Record list) list"
  vx_offered :: "Record list"
  vx_accepted :: "Record list"

definition batch_full :: "vlog_sys \<Rightarrow> bool" where
  "batch_full x = (vo_BatchMax (vc_opt (vx_client x)) \<le> int (length (vx_batch x)))"

text \<open>\<^verbatim>\<open>post\<close> returns at once for an empty batch.\<close>

definition run_post :: "bool \<Rightarrow> vlog_sys \<Rightarrow> vlog_sys" where
  "run_post cancelled x =
    (if vx_batch x = [] then x else x\<lparr>vx_posts := vx_posts x @ [(cancelled, vx_batch x)], vx_batch := []\<rparr>)"

definition run_flush :: "vlog_sys \<Rightarrow> vlog_sys" where "run_flush x = run_post (vx_cancelled x) x"

definition take_next :: "vlog_sys \<Rightarrow> vlog_sys" where
  "take_next x = x\<lparr>vx_client := (vx_client x)\<lparr>vc_ch := tl (vc_ch (vx_client x))\<rparr>,
    vx_batch := vx_batch x @ [hd (vc_ch (vx_client x))]\<rparr>"

definition run_recv :: "vlog_sys \<Rightarrow> vlog_sys" where
  "run_recv x = (let x = take_next x in if batch_full x then run_flush x else x)"

definition drain_recv :: "vlog_sys \<Rightarrow> vlog_sys" where
  "drain_recv x = (let x = take_next x in if batch_full x then run_post False x else x)"

definition drain_end :: "vlog_sys \<Rightarrow> vlog_sys" where
  "drain_end x = (run_post False x)\<lparr>vx_phase := Returned\<rparr>"

definition sys_write :: "Record \<Rightarrow> vlog_sys \<Rightarrow> vlog_sys" where
  "sys_write rec x = x\<lparr>vx_client := vlog_Write rec (vx_client x), vx_offered := vx_offered x @ [rec],
    vx_accepted := (if length (vc_ch (vx_client x)) < queueDepth then vx_accepted x @ [rec] else vx_accepted x)\<rparr>"

text \<open>
  The steps of \<^verbatim>\<open>Run\<close>: a \<^verbatim>\<open>select\<close> takes any of its cases that is ready.
\<close>

inductive shipper_step :: "vlog_sys \<Rightarrow> vlog_sys \<Rightarrow> bool" where
  recv: "vx_phase x = Batching \<Longrightarrow> vc_ch (vx_client x) \<noteq> [] \<Longrightarrow> shipper_step x (run_recv x)"
| tick: "vx_phase x = Batching \<Longrightarrow> shipper_step x (run_flush x)"
| finish: "vx_phase x = Batching \<Longrightarrow> vx_cancelled x \<Longrightarrow> shipper_step x (x\<lparr>vx_phase := Draining\<rparr>)"
| drain: "vx_phase x = Draining \<Longrightarrow> vc_ch (vx_client x) \<noteq> [] \<Longrightarrow> shipper_step x (drain_recv x)"
| return: "vx_phase x = Draining \<Longrightarrow> vc_ch (vx_client x) = [] \<Longrightarrow> shipper_step x (drain_end x)"

inductive vlog_step :: "vlog_sys \<Rightarrow> vlog_sys \<Rightarrow> bool" where
  offer: "vlog_step x (sys_write rec x)"
| cancel: "vlog_step x (x\<lparr>vx_cancelled := True\<rparr>)"
| run: "shipper_step x y \<Longrightarrow> vlog_step x y"

definition vlog_start :: "vlog_Options \<Rightarrow> vlog_sys \<Rightarrow> bool" where
  "vlog_start opt x = (vx_client x = vlog_New opt \<and> Enabled (vlog_New opt) \<and> vx_batch x = [] \<and> \<not> vx_cancelled x \<and>
    vx_phase x = Batching \<and> vx_posts x = [] \<and> vx_offered x = [] \<and> vx_accepted x = [])"

interpretation vlog_queue: mailbox vc_ch queueDepth vlog_enqueue
  by unfold_locales (simp_all add: vlog_enqueue_def)

section \<open>The invariant\<close>

definition vlog_inv :: "vlog_sys \<Rightarrow> bool" where
  "vlog_inv x =
    (let c = vx_client x; bm = vo_BatchMax (vc_opt c) in
     Enabled c \<and> 0 < bm \<and> length (vc_ch c) \<le> queueDepth \<and> int (length (vx_batch x)) < bm \<and>
     vx_accepted x = concat (map snd (vx_posts x)) @ vx_batch x @ vc_ch c \<and>
     subseq (vx_accepted x) (vx_offered x) \<and> vc_dropped c = int (length (vx_offered x)) - int (length (vx_accepted x)) \<and>
     (\<forall>(live, b) \<in> set (vx_posts x). b \<noteq> [] \<and> int (length b) \<le> bm) \<and>
     (vx_phase x \<noteq> Batching \<longrightarrow> vx_cancelled x) \<and> (vx_phase x = Returned \<longrightarrow> vx_batch x = []) \<and>
     (\<not> vx_cancelled x \<longrightarrow> (\<forall>(dead, b) \<in> set (vx_posts x). \<not> dead)))"

lemma New_BatchMax: "0 < vo_BatchMax (vc_opt (vlog_New opt))"
  by (simp add: vlog_New_def Let_def defaultBatchMax_def)

lemma vlog_inv_start: "vlog_start opt x \<Longrightarrow> vlog_inv x"
  using New_BatchMax [of opt]
  by (auto simp: vlog_start_def vlog_inv_def Let_def) (simp_all add: vlog_New_def Let_def)

lemma Write_fields [simp]:
  "vc_opt (vlog_Write rec c) = vc_opt c" "Enabled (vlog_Write rec c) = Enabled c"
  by (simp_all add: vlog_Write_def vlog_enqueue_def Enabled_def)

lemma sys_write_inv: "vlog_inv x \<Longrightarrow> vlog_inv (sys_write rec x)"
proof -
  assume a: "vlog_inv x"
  let ?c = "vx_client x"
  have en: "Enabled ?c" and len: "length (vc_ch ?c) \<le> queueDepth" and sub: "subseq (vx_accepted x) (vx_offered x)"
    using a by (auto simp: vlog_inv_def Let_def)
  have "length (vc_ch (vlog_Write rec ?c)) \<le> queueDepth"
    using vlog_queue.post_bound [OF len] en by (simp add: vlog_Write_def)
  moreover have "subseq (vx_accepted x) (vx_offered x @ [rec])" "subseq (vx_accepted x @ [rec]) (vx_offered x @ [rec])"
    using sub by (auto intro: list_emb_append2 list_emb_append_mono)
  ultimately show ?thesis using a
    unfolding vlog_inv_def sys_write_def Let_def
    by (cases "length (vc_ch ?c) < queueDepth") (auto simp: vlog_Write_def vlog_enqueue_def Enabled_def)
qed

lemma take_next_cancelled: "vx_cancelled (take_next x) = vx_cancelled x"
  by (simp add: take_next_def)

text \<open>Taking a record into the batch, and posting the batch if it is full, is the same in both loops.\<close>

lemma take_post_inv:
  assumes "vlog_inv x" and "vc_ch (vx_client x) \<noteq> []" and "vx_phase x \<noteq> Returned" and "dead \<longrightarrow> vx_cancelled x"
  shows "vlog_inv (let y = take_next x in if batch_full y then run_post dead y else y)"
proof -
  obtain r rest where "vc_ch (vx_client x) = r # rest" using assms(2) by (cases "vc_ch (vx_client x)") auto
  then show ?thesis using assms(1,3,4)
    by (auto simp: vlog_inv_def take_next_def batch_full_def run_post_def Let_def Enabled_def)
qed

lemma run_post_inv: "vlog_inv x \<Longrightarrow> dead \<longrightarrow> vx_cancelled x \<Longrightarrow> vlog_inv (run_post dead x)"
  by (auto simp: vlog_inv_def run_post_def Let_def)

lemma shipper_step_inv: "shipper_step x y \<Longrightarrow> vlog_inv x \<Longrightarrow> vlog_inv y"
proof (induction rule: shipper_step.induct)
  case (recv x)
  then have "vlog_inv (let y = take_next x in if batch_full y then run_post (vx_cancelled x) y else y)"
    by (intro take_post_inv) simp_all
  then show ?case by (simp only: run_recv_def run_flush_def take_next_cancelled Let_def)
next
  case (tick x)
  then show ?case by (simp add: run_flush_def run_post_inv)
next
  case (finish x)
  then show ?case by (auto simp: vlog_inv_def Let_def)
next
  case (drain x)
  then show ?case unfolding drain_recv_def by (intro take_post_inv) simp_all
next
  case (return x)
  then have "vlog_inv (run_post False x)" by (simp add: run_post_inv)
  with return show ?case by (auto simp: vlog_inv_def drain_end_def run_post_def Let_def)
qed

lemma shipper_steps_inv: "shipper_step\<^sup>*\<^sup>* x y \<Longrightarrow> vlog_inv x \<Longrightarrow> vlog_inv y"
  by (induction rule: rtranclp_induct) (auto intro: shipper_step_inv)

lemma vlog_step_inv: "vlog_inv x \<Longrightarrow> vlog_step x y \<Longrightarrow> vlog_inv y"
proof (erule vlog_step.cases)
  fix x' assume "vlog_inv x" "x = x'" "y = x'\<lparr>vx_cancelled := True\<rparr>"
  then show "vlog_inv y" by (auto simp: vlog_inv_def Let_def)
qed (simp_all add: sys_write_inv shipper_step_inv)

interpretation vlog: invariant_system "vlog_start opt" vlog_step vlog_inv for opt
  by unfold_locales (auto intro: vlog_inv_start vlog_step_inv)

section \<open>Theorems\<close>

text \<open>(C14) Whatever the writers do: the records that were queued are, in order and each once, in the batches posted, in
  the batch being filled and in the channel; no batch is empty or above its bound; the records offered that were
  not queued are counted as dropped; and as long as the context is not cancelled no batch is posted with a
  cancelled one.\<close>

theorem vlog_ships_in_order:
  assumes "vlog_step\<^sup>*\<^sup>* x0 x" and "vlog_start opt x0"
  shows "vx_accepted x = concat (map snd (vx_posts x)) @ vx_batch x @ vc_ch (vx_client x) \<and>
    subseq (vx_accepted x) (vx_offered x) \<and>
    vc_dropped (vx_client x) = int (length (vx_offered x)) - int (length (vx_accepted x)) \<and>
    length (vc_ch (vx_client x)) \<le> queueDepth \<and>
    (\<forall>(dead, b) \<in> set (vx_posts x). b \<noteq> [] \<and> int (length b) \<le> vo_BatchMax (vc_opt (vx_client x)) \<and>
      (dead \<longrightarrow> vx_cancelled x)) \<and>
    (vx_phase x = Returned \<longrightarrow> vx_accepted x = concat (map snd (vx_posts x)) @ vc_ch (vx_client x))"
proof -
  have "vlog_inv x" using vlog.inv_reachable [OF assms(2,1)] .
  then show ?thesis by (auto simp: vlog_inv_def Let_def)
qed

lemma drain_queue:
  "vlog_inv x \<Longrightarrow> vx_phase x = Draining \<Longrightarrow> length (vc_ch (vx_client x)) = n \<Longrightarrow>
    \<exists>y new. shipper_step\<^sup>*\<^sup>* x y \<and> vx_phase y = Returned \<and> vc_ch (vx_client y) = [] \<and> vx_accepted y = vx_accepted x \<and>
      vx_posts y = vx_posts x @ map (Pair False) new"
proof (induction n arbitrary: x)
  case 0
  then have "shipper_step x (drain_end x)" by (intro shipper_step.return) simp_all
  moreover have "vx_phase (drain_end x) = Returned" "vc_ch (vx_client (drain_end x)) = []" "vx_accepted (drain_end x) = vx_accepted x"
    "vx_posts (drain_end x) = vx_posts x @ map (Pair False) (if vx_batch x = [] then [] else [vx_batch x])"
    using 0 by (simp_all add: drain_end_def run_post_def)
  ultimately show ?case by (blast intro: r_into_rtranclp)
next
  case (Suc n)
  then have step: "shipper_step x (drain_recv x)" by (intro shipper_step.drain) auto
  have f: "vx_phase (drain_recv x) = Draining" "length (vc_ch (vx_client (drain_recv x))) = n" "vx_accepted (drain_recv x) = vx_accepted x"
    "\<exists>new. vx_posts (drain_recv x) = vx_posts x @ map (Pair False) new"
    using Suc.prems by (auto simp: drain_recv_def take_next_def run_post_def Let_def intro: exI [of _ "[]"] exI [of _ "[_]"])
  from Suc.IH [OF shipper_step_inv [OF step Suc.prems(1)] f(1,2)] obtain y new
    where y: "shipper_step\<^sup>*\<^sup>* (drain_recv x) y" "vx_phase y = Returned" "vc_ch (vx_client y) = []"
      "vx_accepted y = vx_accepted (drain_recv x)" "vx_posts y = vx_posts (drain_recv x) @ map (Pair False) new" by blast
  from f(4) obtain new' where "vx_posts (drain_recv x) = vx_posts x @ map (Pair False) new'" by blast
  with y(5) have "vx_posts y = vx_posts x @ map (Pair False) (new' @ new)" by simp
  with y f(3) step show ?case by (metis converse_rtranclp_into_rtranclp)
qed

text \<open>Once the context is cancelled, \<^verbatim>\<open>Run\<close> by itself posts everything queued before it returns, with a context that is
  not cancelled.\<close>

theorem vlog_drains:
  assumes "vlog_step\<^sup>*\<^sup>* x0 x" and "vlog_start opt x0" and "vx_cancelled x" and "vx_phase x \<noteq> Returned"
  shows "\<exists>y new. shipper_step\<^sup>*\<^sup>* x y \<and> vx_phase y = Returned \<and> vx_posts y = vx_posts x @ map (Pair False) new \<and>
    concat (map snd (vx_posts y)) = vx_accepted x"
proof -
  let ?d = "x\<lparr>vx_phase := Draining\<rparr>"
  have inv: "vlog_inv x" using vlog.inv_reachable [OF assms(2,1)] .
  have to_drain: "shipper_step\<^sup>*\<^sup>* x ?d"
  proof (cases "vx_phase x")
    case Batching
    then show ?thesis using assms(3) by (intro r_into_rtranclp shipper_step.finish)
  next
    case Draining
    then have "?d = x" by (cases x) simp
    then show ?thesis by simp
  qed (use assms(4) in simp)
  have inv_d: "vlog_inv ?d" using inv assms(3) by (auto simp: vlog_inv_def Let_def)
  have d: "vx_phase ?d = Draining" "vx_accepted ?d = vx_accepted x" "vx_posts ?d = vx_posts x" by simp_all
  obtain y new where y: "shipper_step\<^sup>*\<^sup>* ?d y" "vx_phase y = Returned"
      "vc_ch (vx_client y) = []" "vx_accepted y = vx_accepted x" "vx_posts y = vx_posts x @ map (Pair False) new"
    using drain_queue [OF inv_d d(1) refl] unfolding d(2,3) by (elim exE conjE) (rule that)
  have "vlog_inv y" using y(1) inv_d by (rule shipper_steps_inv)
  with y(2,3,4) have "concat (map snd (vx_posts y)) = vx_accepted x" by (auto simp: vlog_inv_def Let_def)
  with y to_drain show ?thesis by (intro exI conjI rtranclp_trans [OF to_drain])
qed

definition demo_options :: vlog_Options where
  "demo_options = \<lparr>vo_URL = ''http://vl/'', vo_Username = [], vo_Password = [], vo_AccountID = 0, vo_ProjectID = 0,
    vo_StreamFields = [''site'', ''monitor''], vo_BatchMax = 0, vo_Flush = 0\<rparr>"

definition demo_vlog :: vlog_sys where
  "demo_vlog = \<lparr>vx_client = vlog_New demo_options, vx_batch = [], vx_cancelled = False, vx_phase = Batching, vx_posts = [],
    vx_offered = [], vx_accepted = []\<rparr>"

lemma demo_client:
  "vc_base (vlog_New demo_options) = ''http://vl''" "vc_ch (vlog_New demo_options) = []"
  "vo_BatchMax (vc_opt (vlog_New demo_options)) = 500" "vc_query (vlog_New demo_options) = ''_stream_fields=site%2Cmonitor''"
  by (simp_all add: vlog_New_def demo_options_def Let_def TrimRight_def defaultBatchMax_def QueryEscape_def escape_char_def
      unreserved_def)

lemma demo_vlog_start: "vlog_start demo_options demo_vlog"
  by (simp add: vlog_start_def demo_vlog_def Enabled_def demo_client)

text \<open>One record written and received; then the context is cancelled.\<close>

lemma demo_shipping:
  "\<exists>x. vlog_step\<^sup>*\<^sup>* demo_vlog x \<and> vx_batch x = [[]] \<and> vx_posts x = [] \<and> vx_cancelled x \<and> vx_phase x = Batching \<and>
    vx_accepted x = [[]] \<and> vx_offered x = [[]]"
proof -
  let ?w = "sys_write [] demo_vlog"
  have en: "Enabled (vlog_New demo_options)" by (simp add: Enabled_def demo_client)
  have w: "vc_ch (vx_client ?w) = [[]]" "vx_phase ?w = Batching"
    by (simp_all add: sys_write_def demo_vlog_def vlog_Write_def vlog_enqueue_def en demo_client queueDepth_def)
  have "vlog_step\<^sup>*\<^sup>* demo_vlog ?w" by (intro r_into_rtranclp vlog_step.offer)
  moreover have "vlog_step ?w (run_recv ?w)" using w by (intro vlog_step.run shipper_step.recv) simp_all
  ultimately have "vlog_step\<^sup>*\<^sup>* demo_vlog (run_recv ?w)" by (rule rtranclp.rtrancl_into_rtrancl)
  then have "vlog_step\<^sup>*\<^sup>* demo_vlog ((run_recv ?w)\<lparr>vx_cancelled := True\<rparr>)"
    using vlog_step.cancel by (rule rtranclp.rtrancl_into_rtrancl)
  moreover have "vx_batch (run_recv ?w) = [[]] \<and> vx_posts (run_recv ?w) = [] \<and> vx_phase (run_recv ?w) = Batching \<and>
      vx_accepted (run_recv ?w) = [[]] \<and> vx_offered (run_recv ?w) = [[]]"
    by (simp add: run_recv_def take_next_def batch_full_def sys_write_def demo_vlog_def vlog_Write_def vlog_enqueue_def en
        demo_client queueDepth_def)
  ultimately show ?thesis by (intro exI [of _ "(run_recv ?w)\<lparr>vx_cancelled := True\<rparr>"]) simp
qed

theorem vlog_ships_in_order_witness:
  "\<exists>x. vlog_step\<^sup>*\<^sup>* demo_vlog x \<and> vx_accepted x = [[]] \<and> vx_batch x = [[]] \<and> vc_dropped (vx_client x) = 0 \<and> vc_ch (vx_client x) = []"
proof -
  from demo_shipping obtain x where x: "vlog_step\<^sup>*\<^sup>* demo_vlog x" "vx_batch x = [[]]" "vx_posts x = []"
      "vx_accepted x = [[]]" "vx_offered x = [[]]"
    by (elim exE conjE) (rule that)
  from vlog_ships_in_order [OF x(1) demo_vlog_start] x show ?thesis by (intro exI [of _ x]) simp
qed

theorem vlog_drains_witness:
  "\<exists>x y. vlog_step\<^sup>*\<^sup>* demo_vlog x \<and> shipper_step\<^sup>*\<^sup>* x y \<and> vx_phase y = Returned \<and> concat (map snd (vx_posts y)) = [[]]"
proof -
  from demo_shipping obtain x where x: "vlog_step\<^sup>*\<^sup>* demo_vlog x" "vx_cancelled x" "vx_phase x = Batching" "vx_accepted x = [[]]"
    by (elim exE conjE) (rule that)
  then have "vx_phase x \<noteq> Returned" by simp
  from vlog_drains [OF x(1) demo_vlog_start x(2) this] obtain y where
    "shipper_step\<^sup>*\<^sup>* x y" "vx_phase y = Returned" "concat (map snd (vx_posts y)) = vx_accepted x"
    by (elim exE conjE) (rule that)
  with x(1,4) show ?thesis by (intro exI conjI) simp_all
qed

text \<open>
  But when the context is cancelled and the ticker is ready at once, \<^verbatim>\<open>Run\<close> may take the tick and post the
  batch with the cancelled context, which fails: the batch is lost although it was queued in time.
\<close>

lemma cancelled_batch_lost:
  "\<exists>x. vlog_step\<^sup>*\<^sup>* demo_vlog x \<and> vx_posts x = [(True, [[]])] \<and>
    (vj_Marshal L (JObj []) = Some t \<longrightarrow> vj_NewRequest L (hp_url (post_request (vlog_New demo_options) (t @ [newline]))) = None \<longrightarrow>
     vj_Do L True (post_request (vlog_New demo_options) (t @ [newline])) = Inl e \<longrightarrow>
     vlog_post L True (vlog_New demo_options) [[]] = PostFailed e 1)"
proof -
  from demo_shipping obtain x where x: "vlog_step\<^sup>*\<^sup>* demo_vlog x" "vx_batch x = [[]]" "vx_posts x = []" "vx_cancelled x"
      "vx_phase x = Batching"
    by (elim exE conjE) (rule that)
  from x(5) have "vlog_step x (run_flush x)" by (intro vlog_step.run shipper_step.tick)
  with x(1) have "vlog_step\<^sup>*\<^sup>* demo_vlog (run_flush x)" by (rule rtranclp.rtrancl_into_rtrancl)
  moreover have "vx_posts (run_flush x) = [(True, [[]])]" using x by (simp add: run_flush_def run_post_def)
  ultimately show ?thesis by (intro exI [of _ "run_flush x"]) (simp add: vlog_post_def Let_def)
qed

text \<open>
  What a batch looks like to the receiver: since JSON has no line breaks, the lines of the body are the
  records, in order.
\<close>

lemma batch_lines:
  assumes "encode_all L batch = Some body" and "\<And>r t. vj_Marshal L (JObj r) = Some t \<Longrightarrow> newline \<notin> set t"
  shows "\<exists>ts. split_on newline body = ts @ [[]] \<and> map Some ts = map (\<lambda>r. vj_Marshal L (JObj r)) batch"
  using assms(1)
proof (induction batch arbitrary: body)
  case Nil
  then show ?case by simp
next
  case (Cons r rs)
  then obtain t b where t: "vj_Marshal L (JObj r) = Some t" "encode_all L rs = Some b" "body = t @ [newline] @ b"
    by (auto split: option.splits)
  from Cons.IH [OF t(2)] obtain ts where ts: "split_on newline b = ts @ [[]]" "map Some ts = map (\<lambda>r. vj_Marshal L (JObj r)) rs"
    by blast
  have "split_on newline body = (t # ts) @ [[]]"
    using split_on_append [OF assms(2) [OF t(1)], of b] ts(1) t(3) by simp
  with t(1) ts(2) show ?case by (intro exI [of _ "t # ts"]) simp
qed

end
