(* ===== verification/Backend_Monitors.thy ===== *)
theory Backend_Monitors
  imports Backend_Api Monitor_Sink Vlog_Client Go_Quote
begin

text \<open>
  \<^verbatim>\<open>internal/backend/monitors.go\<close>: what the monitors page asks for. The registry, the sink and the VictoriaLogs
  client may be absent, as the pointers of \<^verbatim>\<open>API\<close> may be nil.
\<close>

section \<open>The list\<close>

definition State_String :: "MonitorState \<Rightarrow> string" where
  "State_String s = (case s of StateUp \<Rightarrow> ''up'' | StateDown \<Rightarrow> ''down'' | StatePartial \<Rightarrow> ''partial'' | StateNoData \<Rightarrow> ''nodata'')"

text \<open>\<open>rfc\<close> prints a time; a zero time is left out.\<close>

definition aggregate_fields :: "(instant \<Rightarrow> string) \<Rightarrow> Aggregate \<Rightarrow> (string \<times> json) list" where
  "aggregate_fields rfc a = [(''state'', JStr (State_String (ag_State a))), (''up'', JInt (int (ag_Up a))),
    (''down'', JInt (int (ag_Down a))), (''stale'', JInt (int (ag_Stale a))), (''sites'', JInt (int (ag_Sites a)))] @
    (case ag_Since a of Some t \<Rightarrow> [(''since'', JStr (rfc t))] | None \<Rightarrow> [])"

definition trace_json :: "TraceParams \<Rightarrow> json" where
  "trace_json t = JObj [(''protocol'', JStr (tp_Protocol t)), (''family'', JStr (tp_Family t)), (''port'', JWord (tp_Port t)),
    (''cycles'', JWord (tp_Cycles t)), (''interval_ms'', JWord (tp_IntervalMS t)), (''first_ttl'', JWord (tp_FirstTTL t)),
    (''max_ttl'', JWord (tp_MaxTTL t)), (''resolve_names'', JBool (tp_ResolveNames t))]"

definition sip_json :: "SipParams \<Rightarrow> json" where
  "sip_json s = JObj [(''transport'', JStr (sq_Transport s)), (''family'', JStr (sq_Family s)), (''port'', JWord (sq_Port s)),
    (''cycles'', JWord (sq_Cycles s)), (''interval_ms'', JWord (sq_IntervalMS s)), (''timeout_ms'', JWord (sq_TimeoutMS s))]"

definition vl_enabled :: "vlog_Client option \<Rightarrow> bool" where
  "vl_enabled vl = (case vl of Some c \<Rightarrow> Enabled c | None \<Rightarrow> False)"

record monitorJSON =
  mj_ID :: string
  mj_Kind :: string
  mj_Target :: string
  mj_IntervalS :: u32
  mj_Sites :: "string list"
  mj_Labels :: "(string \<times> string) list"
  mj_Trace :: "TraceParams option"
  mj_SIP :: "SipParams option"
  mj_History :: bool
  mj_State :: Aggregate

text \<open>The fields of its JSON object.\<close>

definition monitor_fields :: "(instant \<Rightarrow> string) \<Rightarrow> monitorJSON \<Rightarrow> (string \<times> json) list" where
  "monitor_fields rfc mj =
    [(''id'', JStr (mj_ID mj)), (''kind'', JStr (mj_Kind mj)), (''target'', JStr (mj_Target mj)),
     (''interval_s'', JWord (mj_IntervalS mj)), (''sites'', JArr (map JStr (mj_Sites mj))),
     (''labels'', JObj (map (\<lambda>(k, v). (k, JStr v)) (mj_Labels mj)))] @
    (case mj_Trace mj of Some t \<Rightarrow> [(''trace'', trace_json t)] | None \<Rightarrow> []) @
    (case mj_SIP mj of Some s \<Rightarrow> [(''sip'', sip_json s)] | None \<Rightarrow> []) @
    [(''history'', JBool (mj_History mj)), (''state'', JObj (aggregate_fields rfc (mj_State mj)))]"

text \<open>The aggregate of a monitor nobody has reported on is \<open>None\<close>.\<close>

definition api_monitorJSON :: "vlog_Client option \<Rightarrow> MonitorConfig \<Rightarrow> Aggregate option \<Rightarrow> monitorJSON" where
  "api_monitorJSON vl m agg =
    \<lparr>mj_ID = mc_ID m, mj_Kind = monitorKind m, mj_Target = mc_Target m, mj_IntervalS = mc_IntervalS m, mj_Sites = mc_Sites m,
     mj_Labels = mc_Labels m, mj_Trace = mc_Trace m, mj_SIP = mc_SIP m, mj_History = (vl_enabled vl \<and> monitorKind m = ''trace''),
     mj_State = (case agg of Some a \<Rightarrow> a | None \<Rightarrow> zero_aggregate)\<rparr>"

definition listMonitors ::
  "(instant \<Rightarrow> string) \<Rightarrow> MonitorRegistry option \<Rightarrow> MonitorSink option \<Rightarrow> vlog_Client option \<Rightarrow> http_resp" where
  "listMonitors rfc reg sink vl =
    (case reg of
       None \<Rightarrow> plain 200 (JObj [(''version'', JInt 0), (''monitors'', JArr [])])
     | Some reg \<Rightarrow>
         let (mons, version) = ListVersioned reg;
             aggs = (case sink of Some s \<Rightarrow> Aggregates s | None \<Rightarrow> [])
         in plain 200 (JObj [(''version'', JWord version),
              (''monitors'', JArr (map (\<lambda>m. JObj (monitor_fields rfc (api_monitorJSON vl m (map_of aggs (mc_ID m))))) mons))]))"

section \<open>One monitor\<close>

record siteStatusJSON =
  sj_Site :: string
  sj_Connected :: bool
  sj_At :: string
  sj_Up :: "bool option"
  sj_Stale :: bool
  sj_Resolved :: string
  sj_Source :: string
  sj_LossPct :: real
  sj_RTTMs :: "real option"
  sj_Reached :: bool
  sj_Cycles :: u32
  sj_Hops :: nat
  sj_Code :: nat
  sj_Reason :: string
  sj_Responded :: bool
  sj_Error :: string

definition status_json :: "siteStatusJSON \<Rightarrow> json" where
  "status_json st =
    JObj [(''site'', JStr (sj_Site st)), (''connected'', JBool (sj_Connected st)), (''at'', JStr (sj_At st)),
      (''up'', case sj_Up st of Some b \<Rightarrow> JBool b | None \<Rightarrow> JNull), (''stale'', JBool (sj_Stale st)),
      (''resolved'', JStr (sj_Resolved st)), (''source'', JStr (sj_Source st)), (''loss_pct'', JNum (sj_LossPct st)),
      (''rtt_ms'', case sj_RTTMs st of Some x \<Rightarrow> JNum x | None \<Rightarrow> JNull),
      (''reached'', JBool (sj_Reached st)), (''cycles'', JWord (sj_Cycles st)), (''hops'', JInt (int (sj_Hops st))),
      (''code'', JInt (int (sj_Code st))), (''reason'', JStr (sj_Reason st)), (''responded'', JBool (sj_Responded st)),
      (''error'', JStr (sj_Error st))]"

definition status_row :: "(instant \<Rightarrow> string) \<Rightarrow> bool \<Rightarrow> string \<Rightarrow> MonitorStatus option \<Rightarrow> siteStatusJSON" where
  "status_row rfc live site status =
    (let out = (case status of Some st \<Rightarrow> mst_Outcome st | None \<Rightarrow> zero_outcome) in
     \<lparr>sj_Site = site, sj_Connected = live, sj_At = (case oc_At out of Some t \<Rightarrow> rfc t | None \<Rightarrow> []),
      sj_Up = (if status = None then None else Some (oc_Up out)),
      sj_Stale = (case status of Some st \<Rightarrow> mst_Stale st | None \<Rightarrow> False),
      sj_Resolved = oc_Resolved out, sj_Source = oc_Source out, sj_LossPct = oc_LossPct out,
      sj_RTTMs = (if oc_HasRTT out then Some (usToMs (oc_RTTUs out)) else None),
      sj_Reached = oc_Reached out, sj_Cycles = oc_Cycles out, sj_Hops = oc_Hops out, sj_Code = oc_Code out, sj_Reason = oc_Reason out,
      sj_Responded = oc_Responded out, sj_Error = oc_Error out\<rparr>)"

text \<open>The sites the monitor runs at, and those that have reported.\<close>

definition detail_sites :: "MonitorConfig \<Rightarrow> Gateway \<Rightarrow> MonitorStatus list \<Rightarrow> string list" where
  "detail_sites m g latest =
    sort (remdups ((if mc_Sites m \<noteq> [] then mc_Sites m else map he_Site (Sites g)) @ map mst_Site latest))"

definition monitorDetail ::
  "(instant \<Rightarrow> string) \<Rightarrow> instant \<Rightarrow> MonitorRegistry option \<Rightarrow> MonitorSink option \<Rightarrow> vlog_Client option \<Rightarrow> Gateway \<Rightarrow> string \<Rightarrow> http_resp" where
  "monitorDetail rfc now reg sink vl g i =
    (case Option.bind reg (\<lambda>reg. registry_lookup reg i) of
       None \<Rightarrow> writeErr 404 ''no such monitor''
     | Some m \<Rightarrow>
         let agg = Option.bind sink (sink_Aggregate i);
             latest = (case sink of Some s \<Rightarrow> Statuses now i s | None \<Rightarrow> []);
             rows = map (\<lambda>site. status_row rfc (site \<in> set (map he_Site (Sites g))) site
                      (map_of (map (\<lambda>st. (mst_Site st, st)) latest) site)) (detail_sites m g latest)
         in plain 200 (JObj (monitor_fields rfc (api_monitorJSON vl m agg) @ [(''status'', JArr (map status_json rows))])))"

section \<open>The stream of states\<close>

definition writeEvent :: "(json \<Rightarrow> string option) \<Rightarrow> string \<Rightarrow> json \<Rightarrow> string" where
  "writeEvent M name v = writeSSEFrame 0 name (marshalled M v)"

definition states_json :: "(instant \<Rightarrow> string) \<Rightarrow> (string \<times> Aggregate) list \<Rightarrow> json" where
  "states_json rfc aggs = JObj (map (\<lambda>(i, a). (i, JObj (aggregate_fields rfc a))) aggs)"

definition status_frame :: "(json \<Rightarrow> string option) \<Rightarrow> (instant \<Rightarrow> string) \<Rightarrow> StatusEvent \<Rightarrow> string" where
  "status_frame M rfc ev =
    (if sv_ID ev \<noteq> [] then writeEvent M ''change'' (JObj ([(''id'', JStr (sv_ID ev))] @ aggregate_fields rfc (sv_Aggregate ev)))
     else case sv_Changes ev of
         Some cs \<Rightarrow> writeEvent M ''changes'' (JObj [(''states'', states_json rfc cs)])
       | None \<Rightarrow> writeEvent M ''reload'' (JObj [(''version'', JWord (sv_Version ev))]))"

datatype status_in = StatusMsg StatusEvent | StatusClosed | StatusPing | StatusGone

fun status_loop :: "(json \<Rightarrow> string option) \<Rightarrow> (instant \<Rightarrow> string) \<Rightarrow> status_in list \<Rightarrow> string" where
  "status_loop M rfc [] = []"
| "status_loop M rfc (StatusGone # ins) = []"
| "status_loop M rfc (StatusClosed # ins) = []"
| "status_loop M rfc (StatusMsg ev # ins) = status_frame M rfc ev @ status_loop M rfc ins"
| "status_loop M rfc (StatusPing # ins) = writeSSEComment @ status_loop M rfc ins"

definition monitorStatusStream ::
  "(json \<Rightarrow> string option) \<Rightarrow> (instant \<Rightarrow> string) \<Rightarrow> bool \<Rightarrow> nat \<Rightarrow> status_in list \<Rightarrow> MonitorSink option \<Rightarrow> MonitorSink option \<times> stream_resp" where
  "monitorStatusStream M rfc flusher k ins sink =
    (case sink of
       None \<Rightarrow> (sink, Refused (writeErr 503 ''monitoring is not configured''))
     | Some s \<Rightarrow>
         if \<not> flusher then (sink, startSSE False [])
         else
           let (s, snapshot, version) = sink_Subscribe k s
           in (Some s, startSSE True (writeEvent M ''snapshot'' (JObj [(''version'', JWord version), (''states'', states_json rfc snapshot)]) @
                 status_loop M rfc ins)))"

section \<open>Reports\<close>

definition reportRanges :: "string list" where "reportRanges = [''1h'', ''6h'', ''24h'', ''7d'', ''30d'']"
definition defaultReportLimit :: int where "defaultReportLimit = 50"
definition maxReportLimit :: int where "maxReportLimit = 500"

definition reportsQuery :: "string list \<Rightarrow> string \<Rightarrow> string \<Rightarrow> string \<Rightarrow> int \<Rightarrow> string" where
  "reportsQuery streamFields i site rng limit =
    (let fields = [(''monitor'', i)] @ (if site \<noteq> [] then [(''site'', site)] else []);
         stream = map (\<lambda>(k, v). k @ ''='' @ Quote v) (filter (\<lambda>(k, v). k \<in> set streamFields) fields);
         exact = map (\<lambda>(k, v). k @ '':='' @ Quote v) (filter (\<lambda>(k, v). k \<notin> set streamFields) fields);
         parts = (if stream \<noteq> [] then [''{'' @ join_with (CHR '','') stream @ ''}''] else []) @ exact @ [''_time:'' @ rng]
     in join_with (CHR '' '') parts @ '' | sort by (_time) desc | limit '' @ Itoa limit)"

record traceReport =
  rp_Time :: string
  rp_Site :: string
  rp_Target :: string
  rp_Resolved :: string
  rp_Source :: string
  rp_Reached :: bool
  rp_LossPct :: real
  rp_AvgMs :: "real option"
  rp_Cycles :: int
  rp_Hops :: int
  rp_Error :: string
  rp_Report :: string

text \<open>An absent field of a map reads as the empty string.\<close>

definition rec_get :: "(string \<times> string) list \<Rightarrow> string \<Rightarrow> string" where
  "rec_get rec k = (case map_of rec k of Some v \<Rightarrow> v | None \<Rightarrow> [])"

text \<open>The value \<^verbatim>\<open>strconv.Atoi\<close> returns beside its error: 0 for no number, the nearest bound for one out of range.\<close>

definition Atoi_value :: "string \<Rightarrow> int" where
  "Atoi_value s =
    (let neg = (case s of x # _ \<Rightarrow> x = CHR ''-'' | [] \<Rightarrow> False);
         ds = (case s of x # xs \<Rightarrow> if x = CHR ''-'' \<or> x = CHR ''+'' then xs else s | [] \<Rightarrow> s);
         n = int (parse_uint 0 ds)
     in if neg then (if 2 ^ 63 < n then - (2 ^ 63) else - n) else if 2 ^ 63 \<le> n then 2 ^ 63 - 1 else n)"

text \<open>\<open>ParseFloat\<close> returns a value and whether there was no error.\<close>

definition reportFromRecord :: "(string \<Rightarrow> real \<times> bool) \<Rightarrow> (string \<times> string) list \<Rightarrow> traceReport" where
  "reportFromRecord ParseFloat rec =
    \<lparr>rp_Time = rec_get rec ''_time'', rp_Site = rec_get rec ''site'', rp_Target = rec_get rec ''target'',
     rp_Resolved = rec_get rec ''resolved'', rp_Source = rec_get rec ''source'', rp_Reached = (rec_get rec ''reached'' = ''true''),
     rp_LossPct = fst (ParseFloat (rec_get rec ''loss_pct'')),
     rp_AvgMs = (let (v, ok) = ParseFloat (rec_get rec ''avg_ms'') in if ok then Some v else None),
     rp_Cycles = Atoi_value (rec_get rec ''cycles''), rp_Hops = Atoi_value (rec_get rec ''hops''),
     rp_Error = rec_get rec ''error'', rp_Report = rec_get rec ''_msg''\<rparr>"

definition report_json :: "traceReport \<Rightarrow> json" where
  "report_json r = JObj [(''time'', JStr (rp_Time r)), (''site'', JStr (rp_Site r)), (''target'', JStr (rp_Target r)),
    (''resolved'', JStr (rp_Resolved r)), (''source'', JStr (rp_Source r)), (''reached'', JBool (rp_Reached r)),
    (''loss_pct'', JNum (rp_LossPct r)), (''avg_ms'', case rp_AvgMs r of Some v \<Rightarrow> JNum v | None \<Rightarrow> JNull),
    (''cycles'', JInt (rp_Cycles r)), (''hops'', JInt (rp_Hops r)), (''error'', JStr (rp_Error r)), (''report'', JStr (rp_Report r))]"

definition report_limit :: "string \<Rightarrow> int option" where
  "report_limit v =
    (if v = [] then Some defaultReportLimit
     else case Atoi v of
         Some n \<Rightarrow> if n < 1 then None else Some (min n maxReportLimit)
       | None \<Rightarrow> None)"

definition monitorReports ::
  "vlog_lib \<Rightarrow> (string \<Rightarrow> real \<times> bool) \<Rightarrow> MonitorRegistry option \<Rightarrow> vlog_Client option \<Rightarrow> http_req \<Rightarrow> string \<Rightarrow> http_resp" where
  "monitorReports L ParseFloat reg vl r i =
    (case Option.bind reg (\<lambda>reg. registry_lookup reg i) of
       None \<Rightarrow> writeErr 404 ''no such monitor''
     | Some m \<Rightarrow>
         if monitorKind m \<noteq> ''trace'' then writeErr 400 ''only trace monitors have reports''
         else case vl of
             None \<Rightarrow> writeErr 503 ''victorialogs is not configured''
           | Some c \<Rightarrow>
               if \<not> Enabled c then writeErr 503 ''victorialogs is not configured''
               else
                 let rng = (if hq_query r ''range'' = [] then ''24h'' else hq_query r ''range'')
                 in if rng \<notin> set reportRanges then writeErr 400 ''range must be one of 1h, 6h, 24h, 7d, 30d''
                    else case report_limit (hq_query r ''limit'') of
                        None \<Rightarrow> writeErr 400 ''limit must be a positive integer''
                      | Some limit \<Rightarrow>
                          (case vlog_Query L c (reportsQuery (StreamFields c) i (hq_query r ''site'') rng limit) of
                             Inl e \<Rightarrow> writeErr 502 ''victorialogs query failed; see the backend log''
                           | Inr recs \<Rightarrow> plain 200 (JArr (map (report_json \<circ> reportFromRecord ParseFloat) recs))))"

end
