(* ===== verification/Api_Reports.thy ===== *)
theory Api_Reports
  imports Backend_Monitors
begin

text \<open>
  The history of a trace monitor: the query has the same shape whatever the monitor and the site are called, and
  the report the sink ships is the report the page shows.
\<close>

section \<open>The query\<close>

text \<open>The query as its reader sees it: quoted strings and characters outside of them.\<close>

datatype token = TChar char | TStr string

lemma push_Some: "push c q = Some (v, r) \<Longrightarrow> \<exists>w. q = Some (w, r)"
  by (cases q) (auto simp: push_def)

lemma scan_smaller:
  assumes "scan (c # s) = Some (v, r)"
  shows "r = s \<or> (\<exists>t w. scan t = Some (w, r) \<and> length t \<le> length s)"
proof -
  consider "c = dquote" | "c \<noteq> dquote" "c \<noteq> backslash" | "c \<noteq> dquote" "c = backslash" by blast
  then show ?thesis
  proof cases
    case 1
    with assms show ?thesis by simp
  next
    case 2
    with assms have "push c (scan s) = Some (v, r)" by simp
    with push_Some show ?thesis by blast
  next
    case 3
    with assms obtain e t where s: "s = e # t" by (cases s) auto
    show ?thesis
    proof (cases "e = CHR ''x''")
      case True
      with 3 s assms obtain h l q where t: "t = h # l # q" by (auto split: list.splits)
      with True 3 s assms obtain a b where "push (char_of (16 * a + b :: nat)) (scan q) = Some (v, r)" by (auto split: option.splits)
      then have "\<exists>w. scan q = Some (w, r)" by (rule push_Some)
      with s t show ?thesis by auto
    next
      case False
      with 3 s assms obtain d where "push d (scan t) = Some (v, r)" by (auto split: option.splits)
      then have "\<exists>w. scan t = Some (w, r)" by (rule push_Some)
      with s show ?thesis by auto
    qed
  qed
qed

lemma scan_shorter: "scan s = Some (v, r) \<Longrightarrow> length r < length s"
proof (induction s arbitrary: v r rule: length_induct)
  case (1 s)
  then obtain c t where s: "s = c # t" by (cases s) auto
  from scan_smaller [OF "1.prems" [unfolded s]] consider "r = t" | q w where "scan q = Some (w, r)" "length q \<le> length t"
    by blast
  then show ?case
  proof cases
    case 2
    with "1.IH" [rule_format, of q w r] s show ?thesis by simp
  qed (simp add: s)
qed

function tokens :: "string \<Rightarrow> token list option" where
  "tokens [] = Some []"
| "tokens (c # s) =
    (if c = dquote then
       (case scan s of None \<Rightarrow> None | Some (v, r) \<Rightarrow> map_option ((#) (TStr v)) (tokens r))
     else map_option ((#) (TChar c)) (tokens s))"
  by pat_completeness auto
termination
  by (relation "measure length") (auto dest: scan_shorter)

lemma lex_chars: "dquote \<notin> set a \<Longrightarrow> tokens (a @ s) = map_option ((@) (map TChar a)) (tokens s)"
  by (induction a; cases "tokens s") auto

lemma lex_Quote: "tokens (Quote v @ s) = map_option ((#) (TStr v)) (tokens s)"
  by (simp add: Quote_def scan_quotes)

lemma lex_one:
  assumes "dquote \<notin> set a" and "dquote \<notin> set c"
  shows "tokens (a @ Quote v @ c) = Some (map TChar a @ [TStr v] @ map TChar c)"
  using lex_chars [OF assms(2), of "[]"] by (simp add: lex_chars [OF assms(1)] lex_Quote)

lemma lex_two:
  assumes "dquote \<notin> set a" and "dquote \<notin> set b" and "dquote \<notin> set c"
  shows "tokens (a @ Quote v @ b @ Quote w @ c) = Some (map TChar a @ [TStr v] @ map TChar b @ [TStr w] @ map TChar c)"
  using lex_one [OF assms(2,3), of w] by (simp add: lex_chars [OF assms(1)] lex_Quote)

lemma Itoa_unquoted: "dquote \<notin> set (Itoa n)"
proof -
  have "digit_char d \<noteq> dquote" if "d < 10" for d
    using that by (auto simp: digit_char_def dquote_def dest: arg_cong [where f = "of_char :: char \<Rightarrow> nat"])
  then have "dquote \<notin> set (itoa m)" for m using itoa_digits by metis
  then show ?thesis by (simp add: Itoa_def dquote_def)
qed

lemma range_unquoted: "rng \<in> set reportRanges \<Longrightarrow> dquote \<notin> set rng"
  by (auto simp: reportRanges_def dquote_def)

text \<open>What follows the filters.\<close>

definition query_tail :: "string \<Rightarrow> int \<Rightarrow> string" where
  "query_tail rng limit = '' _time:'' @ rng @ '' | sort by (_time) desc | limit '' @ Itoa limit"

lemma tail_unquoted: "rng \<in> set reportRanges \<Longrightarrow> dquote \<notin> set (query_tail rng limit)"
  using range_unquoted [of rng] Itoa_unquoted [of limit] by (simp add: query_tail_def dquote_def)

lemma query_one:
  "reportsQuery sf i [] rng limit =
    (if ''monitor'' \<in> set sf then ''{monitor='' @ Quote i @ ''}'' @ query_tail rng limit
     else ''monitor:='' @ Quote i @ query_tail rng limit)"
  by (simp add: reportsQuery_def query_tail_def)

lemma query_two:
  "site \<noteq> [] \<Longrightarrow> reportsQuery sf i site rng limit =
    (if ''monitor'' \<in> set sf \<and> ''site'' \<in> set sf then ''{monitor='' @ Quote i @ '',site='' @ Quote site @ ''}'' @ query_tail rng limit
     else if ''monitor'' \<in> set sf then ''{monitor='' @ Quote i @ ''} site:='' @ Quote site @ query_tail rng limit
     else if ''site'' \<in> set sf then ''{site='' @ Quote site @ ''} monitor:='' @ Quote i @ query_tail rng limit
     else ''monitor:='' @ Quote i @ '' site:='' @ Quote site @ query_tail rng limit)"
  by (simp add: reportsQuery_def query_tail_def)

section \<open>Theorems\<close>

text \<open>Whatever characters the name of a monitor and of a site contain, quotes and backslashes included, the query for its reports
  reads as the same text with these names in the same one or two places: no name can add to the query or end it early.\<close>

theorem reports_query_fixed_shape:
  assumes "rng \<in> set reportRanges"
  shows "(\<exists>a c. \<forall>i. tokens (reportsQuery sf i [] rng limit) = Some (map TChar a @ [TStr i] @ map TChar c)) \<and>
    (\<exists>a b c. \<forall>i site. site \<noteq> [] \<longrightarrow> tokens (reportsQuery sf i site rng limit) =
      (if ''monitor'' \<notin> set sf \<and> ''site'' \<in> set sf
       then Some (map TChar a @ [TStr site] @ map TChar b @ [TStr i] @ map TChar c)
       else Some (map TChar a @ [TStr i] @ map TChar b @ [TStr site] @ map TChar c)))"
proof
  note tail = tail_unquoted [OF assms, of limit]
  show "\<exists>a c. \<forall>i. tokens (reportsQuery sf i [] rng limit) = Some (map TChar a @ [TStr i] @ map TChar c)"
  proof (cases "''monitor'' \<in> set sf")
    case True
    have "tokens (''{monitor='' @ Quote i @ (''}'' @ query_tail rng limit)) =
        Some (map TChar ''{monitor='' @ [TStr i] @ map TChar (''}'' @ query_tail rng limit))" for i
      using tail by (intro lex_one) (simp_all add: dquote_def)
    with True show ?thesis unfolding query_one by (simp only: if_True append.assoc) blast
  next
    case False
    have "tokens (''monitor:='' @ Quote i @ query_tail rng limit) = Some (map TChar ''monitor:='' @ [TStr i] @ map TChar (query_tail rng limit))" for i
      using tail by (intro lex_one) (simp_all add: dquote_def)
    with False show ?thesis unfolding query_one by (simp only: if_False) blast
  qed
  have two: "tokens (a @ Quote v @ b @ Quote w @ (c @ query_tail rng limit)) =
      Some (map TChar a @ [TStr v] @ map TChar b @ [TStr w] @ map TChar (c @ query_tail rng limit))"
    if "dquote \<notin> set (a @ b @ c)" for a b c v w
    using tail that by (intro lex_two) simp_all
  show "\<exists>a b c. \<forall>i site. site \<noteq> [] \<longrightarrow> tokens (reportsQuery sf i site rng limit) =
      (if ''monitor'' \<notin> set sf \<and> ''site'' \<in> set sf
       then Some (map TChar a @ [TStr site] @ map TChar b @ [TStr i] @ map TChar c)
       else Some (map TChar a @ [TStr i] @ map TChar b @ [TStr site] @ map TChar c))"
  proof -
    have both: "tokens (reportsQuery sf i site rng limit) =
        Some (map TChar ''{monitor='' @ [TStr i] @ map TChar '',site='' @ [TStr site] @ map TChar (''}'' @ query_tail rng limit))"
      if "''monitor'' \<in> set sf" "''site'' \<in> set sf" "site \<noteq> []" for i site
      using two [of "''{monitor=''" "'',site=''" "''}''" i site] that by (simp add: query_two dquote_def)
    have monitor: "tokens (reportsQuery sf i site rng limit) =
        Some (map TChar ''{monitor='' @ [TStr i] @ map TChar ''} site:='' @ [TStr site] @ map TChar (query_tail rng limit))"
      if "''monitor'' \<in> set sf" "''site'' \<notin> set sf" "site \<noteq> []" for i site
      using two [of "''{monitor=''" "''} site:=''" "[]" i site] that by (simp add: query_two dquote_def)
    have site: "tokens (reportsQuery sf i site rng limit) =
        Some (map TChar ''{site='' @ [TStr site] @ map TChar ''} monitor:='' @ [TStr i] @ map TChar (query_tail rng limit))"
      if "''monitor'' \<notin> set sf" "''site'' \<in> set sf" "site \<noteq> []" for i site
      using two [of "''{site=''" "''} monitor:=''" "[]" site i] that by (simp add: query_two dquote_def)
    have none: "tokens (reportsQuery sf i site rng limit) =
        Some (map TChar ''monitor:='' @ [TStr i] @ map TChar '' site:='' @ [TStr site] @ map TChar (query_tail rng limit))"
      if "''monitor'' \<notin> set sf" "''site'' \<notin> set sf" "site \<noteq> []" for i site
      using two [of "''monitor:=''" "'' site:=''" "[]" i site] that by (simp add: query_two dquote_def)
    show ?thesis
      using both monitor site none by (cases "''monitor'' \<in> set sf"; cases "''site'' \<in> set sf") (simp only: simp_thms if_True if_False, blast)+
  qed
qed

theorem reports_query_fixed_shape_witness:
  "tokens (reportsQuery [''site''] [dquote, backslash] ''fra'' ''24h'' 50) \<noteq> None \<and> ''24h'' \<in> set reportRanges"
  using reports_query_fixed_shape [of "''24h''" "[''site'']" 50] by (auto simp: reportRanges_def)

section \<open>What is shipped and what is shown\<close>

text \<open>
  What is relied on of VictoriaLogs and the float printer: every value comes back as text, strings unchanged, integers in
  decimal, booleans as \<^verbatim>\<open>true\<close> and \<^verbatim>\<open>false\<close>, and the floats \<open>F\<close> at hand as texts that parse to them.
\<close>

definition keeps_text :: "real set \<Rightarrow> (vlog_value \<Rightarrow> string) \<Rightarrow> (string \<Rightarrow> real \<times> bool) \<Rightarrow> bool" where
  "keeps_text F txt ParseFloat =
    ((\<forall>x. txt (VStr x) = x) \<and> (\<forall>n. txt (VInt (int n)) = itoa n) \<and> (\<forall>b. txt (VBool b) = FormatBool b) \<and>
     (\<forall>x \<in> F. ParseFloat (txt (VNum x)) = (x, True)) \<and> \<not> snd (ParseFloat []))"

definition stored :: "(vlog_value \<Rightarrow> string) \<Rightarrow> vlog_record \<Rightarrow> (string \<times> string) list" where
  "stored txt rec = map (\<lambda>(k, v). (k, txt v)) rec"

lemma rec_get_stored: "rec_get (stored txt rec) k = (case map_of rec k of Some v \<Rightarrow> txt v | None \<Rightarrow> [])"
  by (simp add: rec_get_def stored_def map_of_map split: option.splits)

lemma labels_keep:
  "map_of (fold (\<lambda>(k, v) rec. if map_of rec k = None then AList.update k (VStr v) rec else rec) labels rec) k =
    (case map_of rec k of Some v \<Rightarrow> Some v | None \<Rightarrow> map_option VStr (map_of labels k))"
proof (induction labels arbitrary: rec)
  case Nil
  then show ?case by (simp split: option.splits)
next
  case (Cons kv labels)
  obtain a b where kv: "kv = (a, b)" by force
  have "map_of (if map_of rec a = None then AList.update a (VStr b) rec else rec) k =
      (if k = a \<and> map_of rec a = None then Some (VStr b) else map_of rec k)" by (simp add: update_conv')
  with Cons show ?case by (simp add: kv split: option.splits)
qed

lemma updates_map_of: "map_of (fold (\<lambda>(k, v). AList.update k v) kvs rec) k =
    (case map_of (rev kvs) k of Some v \<Rightarrow> Some v | None \<Rightarrow> map_of rec k)"
proof (induction kvs arbitrary: rec)
  case Nil
  then show ?case by simp
next
  case (Cons kv kvs)
  then show ?case by (cases kv) (auto simp: update_conv' map_add_def map_of_append split: option.splits)
qed

lemma Atoi_value_itoa: "n < 2 ^ 63 \<Longrightarrow> Atoi_value (itoa n) = int n"
proof -
  assume n: "n < 2 ^ 63"
  obtain x xs where s: "itoa n = x # xs" by (metis itoa_nonempty neq_Nil_conv)
  then have "x \<noteq> CHR ''-'' \<and> x \<noteq> CHR ''+''" using itoa_digits [of x n] digit_char_not_sign by fastforce
  moreover have "digits_val acc t = Some m \<Longrightarrow> acc \<le> m" for acc t m
  proof (induction t arbitrary: acc)
    case (Cons d t)
    then obtain e where "digits_val (10 * acc + e) t = Some m" by (auto split: option.splits)
    from Cons.IH [OF this] show ?case by simp
  qed simp
  then have "digits_val acc t = Some m \<Longrightarrow> m < 2 ^ 63 \<Longrightarrow> parse_uint acc t = m" for acc t m
  proof (induction t arbitrary: acc)
    case (Cons d t)
    then obtain e where e: "digit_val d = Some e" "digits_val (10 * acc + e) t = Some m" by (auto split: option.splits)
    with Cons.prems(1) have "10 * acc + e < 2 ^ 64" using Cons.prems(2,3) by fastforce
    with Cons e show ?case by simp
  qed simp
  then have "parse_uint 0 (itoa n) = n" using digits_val_itoa n by blast
  moreover have "int n < 2 ^ 63" using n by (metis of_nat_less_iff of_nat_numeral of_nat_power)
  ultimately show ?thesis unfolding s Atoi_value_def by (simp add: Let_def)
qed

text \<open>The fields of a shipped record that the page reads.\<close>

definition dest_loss :: "pb_Cycle \<Rightarrow> real" where
  "dest_loss c = (case destHop c of (Some h, True) \<Rightarrow> ph_LossPct h | _ \<Rightarrow> 100)"

definition dest_avg :: "pb_Cycle \<Rightarrow> real option" where
  "dest_avg c = (case destHop c of (Some h, True) \<Rightarrow> Some (usToMs (ph_AvgUs h)) | _ \<Rightarrow> None)"

text \<open>A shipped record before the labels are added.\<close>

definition base_fields :: "fmt_lib \<Rightarrow> instant \<Rightarrow> string \<Rightarrow> string \<Rightarrow> monState \<Rightarrow> pb_Cycle \<Rightarrow> vlog_record" where
  "base_fields L now site i st c =
    [(''_time'', VStr (fl_now L now)),
     (''_msg'', VStr (mtrReport L site (mt_source st) (mt_startedAt st) (pc_Hops c))),
     (''site'', VStr site), (''monitor'', VStr i), (''target'', VStr (mt_target st)),
     (''resolved'', VStr (mt_resolved st)), (''source'', VStr (mt_source st)), (''protocol'', VStr (mt_protocol st)),
     (''cycles'', VInt (int (unat (pc_Number c)))), (''hops'', VInt (int (length (pc_Hops c)))),
     (''reached'', VBool (snd (destHop c))), (''loss_pct'', VNum 100)]"

definition hop_fields :: "pb_Cycle \<Rightarrow> vlog_record" where
  "hop_fields c =
    (case destHop c of
       (Some h, True) \<Rightarrow>
         [(''sent'', VInt (int (unat (ph_Sent h)))), (''received'', VInt (int (unat (ph_Received h)))),
          (''loss_pct'', VNum (ph_LossPct h)), (''best_ms'', VNum (usToMs (ph_BestUs h))),
          (''avg_ms'', VNum (usToMs (ph_AvgUs h))), (''worst_ms'', VNum (usToMs (ph_WorstUs h))),
          (''stdev_ms'', VNum (usToMs (ph_StdevUs h))), (''jitter_ms'', VNum (usToMs (ph_JitterUs h)))]
     | _ \<Rightarrow> [])"

lemma record_split:
  "report_record L now site i st c errMsg =
    fold (\<lambda>(k, v) rec. if map_of rec k = None then AList.update k (VStr v) rec else rec) (mt_labels st)
      (fold (\<lambda>(k, v). AList.update k v) (hop_fields c @ (if errMsg \<noteq> [] then [(''error'', VStr errMsg)] else []))
        (base_fields L now site i st c))"
proof -
  obtain hop reached where d: "destHop c = (hop, reached)" by force
  show ?thesis
    by (cases hop; cases reached)
      (simp_all only: report_record_def base_fields_def hop_fields_def d Let_def prod.case option.case bool.case snd_conv if_True
        if_False fold_append fold_simps comp_apply append_Nil, simp_all)
qed

lemma record_lookup:
  "map_of (report_record L now site i st c errMsg) k =
    (case (if k = ''error'' \<and> errMsg \<noteq> [] then Some (VStr errMsg)
           else case map_of (rev (hop_fields c)) k of Some v \<Rightarrow> Some v | None \<Rightarrow> map_of (base_fields L now site i st c) k) of
       Some v \<Rightarrow> Some v
     | None \<Rightarrow> map_option VStr (map_of (mt_labels st) k))"
  unfolding record_split labels_keep updates_map_of by (simp add: map_add_def)

lemma record_fields:
  fixes L now site i st c errMsg
  defines "rec \<equiv> report_record L now site i st c errMsg"
  shows "map_of rec ''_time'' = Some (VStr (fl_now L now))"
    and "map_of rec ''_msg'' = Some (VStr (mtrReport L site (mt_source st) (mt_startedAt st) (pc_Hops c)))"
    and "map_of rec ''site'' = Some (VStr site)" and "map_of rec ''target'' = Some (VStr (mt_target st))"
    and "map_of rec ''resolved'' = Some (VStr (mt_resolved st))" and "map_of rec ''source'' = Some (VStr (mt_source st))"
    and "map_of rec ''cycles'' = Some (VInt (int (unat (pc_Number c))))"
    and "map_of rec ''hops'' = Some (VInt (int (length (pc_Hops c))))"
    and "map_of rec ''reached'' = Some (VBool (snd (destHop c)))" and "map_of rec ''loss_pct'' = Some (VNum (dest_loss c))"
    and "map_of (mt_labels st) ''avg_ms'' = None \<Longrightarrow> map_of rec ''avg_ms'' = map_option VNum (dest_avg c)"
    and "map_of (mt_labels st) ''error'' = None \<Longrightarrow> map_of rec ''error'' = (if errMsg = [] then None else Some (VStr errMsg))"
  unfolding rec_def record_lookup
  by (simp_all add: base_fields_def hop_fields_def dest_loss_def dest_avg_def split: prod.split option.split bool.split)


definition demo_txt :: "vlog_value \<Rightarrow> string" where
  "demo_txt v = (case v of VStr x \<Rightarrow> x | VInt n \<Rightarrow> Itoa n | VBool b \<Rightarrow> FormatBool b | VNum x \<Rightarrow> if x = 0 then ''0'' else ''0.5'')"

definition demo_float :: "string \<Rightarrow> real \<times> bool" where
  "demo_float s = (if s = ''0'' then (0, True) else if s = ''0.5'' then (1 / 2, True) else (0, False))"

definition demo_report_hop :: pb_Hop where
  "demo_report_hop = \<lparr>ph_Ttl = 1, ph_Addresses = [], ph_SampleUs = None, ph_Sent = 1, ph_Received = 1, ph_LossPct = 0, ph_LastUs = 500,
    ph_BestUs = 500, ph_AvgUs = 500, ph_WorstUs = 500, ph_StdevUs = 0, ph_JitterUs = 0\<rparr>"

definition demo_trace :: pb_Cycle where "demo_trace = \<lparr>pc_Number = 3, pc_ReachedAt = 1, pc_Hops = [demo_report_hop]\<rparr>"

definition demo_print :: fmt_lib where "demo_print = \<lparr>fl_1f = (\<lambda>_. ''0.5''), fl_start = (\<lambda>_. []), fl_now = (\<lambda>_. [])\<rparr>"

lemma demo_dest: "destHop demo_trace = (Some demo_report_hop, True)"
  by (simp add: destHop_def demo_trace_def demo_report_hop_def)

lemma demo_keeps: "keeps_text {0, 1 / 2} demo_txt demo_float"
  by (auto simp: keeps_text_def demo_txt_def demo_float_def Itoa_def)


text \<open>A label called \<^verbatim>\<open>error\<close> is shown as the error of a run that had none.\<close>

lemma label_shown_as_error:
  assumes "keeps_text F txt ParseFloat" and "map_of (mt_labels st) ''error'' = Some v"
  shows "rp_Error (reportFromRecord ParseFloat (stored txt (report_record L now site i st c []))) = v"
proof -
  have "map_of (rev (hop_fields c)) ''error'' = None" "map_of (base_fields L now site i st c) ''error'' = None"
    by (simp_all add: hop_fields_def base_fields_def split: prod.split option.split bool.split)
  then show ?thesis using assms by (simp add: reportFromRecord_def rec_get_stored record_lookup keeps_text_def)
qed

end
