(* ===== verification/Backend_Server.thy ===== *)
theory Backend_Server
  imports Backend_Monitors Auth_Login
begin

text \<open>
  \<^verbatim>\<open>internal/backend/server.go\<close>, the routes of \<^verbatim>\<open>http.go\<close>, \<^verbatim>\<open>metrics.go\<close> and \<^verbatim>\<open>webui.go\<close>: how the parts of the backend are put
  together, which requests need a session, the reload of the monitors, and the delivery of the web application. The
  registry is shared by pointer; the model keeps it in the gateway and in the sink and updates both.
\<close>

section \<open>The server\<close>

record VictoriaLogsConfig =
  vg_URL :: string
  vg_Username :: string
  vg_Password :: string
  vg_AccountID :: int
  vg_ProjectID :: int
  vg_StreamFields :: "string list"
  vg_BatchMax :: int
  vg_FlushMS :: int

record ServerConfig = Config +
  sc_BasePath :: string
  sc_Metrics :: string
  sc_Auth :: auth_Config
  sc_VictoriaLogs :: VictoriaLogsConfig

record Server =
  sv_cfg :: ServerConfig
  sv_gw :: Gateway
  sv_mgr :: Manager
  sv_sink :: MonitorSink
  sv_vl :: vlog_Client
  sv_auth :: "Auth option"
  sv_version :: string
  sv_commit :: string
  sv_ready :: bool

definition vlog_options :: "VictoriaLogsConfig \<Rightarrow> vlog_Options" where
  "vlog_options v = \<lparr>vo_URL = vg_URL v, vo_Username = vg_Username v, vo_Password = vg_Password v, vo_AccountID = vg_AccountID v,
    vo_ProjectID = vg_ProjectID v, vo_StreamFields = vg_StreamFields v, vo_BatchMax = vg_BatchMax v,
    vo_Flush = vg_FlushMS v * Millisecond\<rparr>"

text \<open>
  \<^verbatim>\<open>New\<close>: \<open>conns\<close>, \<open>store\<close> and \<open>subs\<close> are the cells not used yet; \<open>bytes\<close> and \<open>byhand\<close> as for the login.
\<close>

definition server_New ::
  "(conn \<Rightarrow> agentConn) \<Rightarrow> (nat \<Rightarrow> monState) \<Rightarrow> (nat \<Rightarrow> statusSub) \<Rightarrow> string \<Rightarrow> provider \<Rightarrow> ServerConfig \<Rightarrow> string \<Rightarrow> string \<Rightarrow>
    auth_config_error + Server" where
  "server_New conns store subs bytes byhand cfg version commit =
    (let gw = NewGateway (Config.truncate cfg) conns;
         mgr = NewManager (runTTL (Config.truncate cfg));
         reg = NewMonitorRegistry (cf_Monitors cfg);
         vl = vlog_New (vlog_options (sc_VictoriaLogs cfg));
         sink = NewMonitorSink reg (Enabled vl) store subs;
         gw = SetMonitoring reg gw;
         server = (\<lambda>a. \<lparr>sv_cfg = cfg, sv_gw = gw, sv_mgr = mgr, sv_sink = sink, sv_vl = vl, sv_auth = a, sv_version = version,
           sv_commit = commit, sv_ready = False\<rparr>)
     in if au_Enabled (sc_Auth cfg)
        then (case auth_New (sc_Auth cfg) (sc_BasePath cfg) bytes byhand of Inl e \<Rightarrow> Inl e | Inr a \<Rightarrow> Inr (server (Some a)))
        else Inr (server None))"

definition server_reg :: "Server \<Rightarrow> MonitorRegistry" where "server_reg s = ms_reg (sv_sink s)"

definition ReloadMonitors :: "(conn \<Rightarrow> bool) \<Rightarrow> instant \<Rightarrow> MonitorConfig list \<Rightarrow> Server \<Rightarrow> Server" where
  "ReloadMonitors alive now mons s =
    (let reg = registry_Replace mons (server_reg s);
         sink = Retain now ((sv_sink s)\<lparr>ms_reg := reg\<rparr>);
         gw = PushAssignments alive ((sv_gw s)\<lparr>gw_reg := Some reg\<rparr>)
     in s\<lparr>sv_sink := sink, sv_gw := gw\<rparr>)"

text \<open>
  \<^verbatim>\<open>watchReload\<close> of the command: a configuration that does not read (\<open>None\<close>) or validate leaves the monitors.
\<close>

definition reload_config :: "(conn \<Rightarrow> bool) \<Rightarrow> instant \<Rightarrow> Config option \<Rightarrow> Server \<Rightarrow> Server" where
  "reload_config alive now cfg s =
    (case cfg of
       None \<Rightarrow> s
     | Some c \<Rightarrow> if Config_Validate c = None then ReloadMonitors alive now (cf_Monitors c) s else s)"

definition check_config :: "ServerConfig \<Rightarrow> (backend_config_error + auth_config_error) option" where
  "check_config cfg =
    (case Config_Validate (Config.truncate cfg) of
       Some e \<Rightarrow> Some (Inl e)
     | None \<Rightarrow> if au_Enabled (sc_Auth cfg) then map_option Inr (auth_Validate (sc_Auth cfg)) else None)"

section \<open>The API\<close>

text \<open>What the handlers use besides the server: the parameters of the parts, and the inputs of an open stream.\<close>

record api_env =
  ae_alive :: "conn \<Rightarrow> bool"
  ae_now :: instant
  ae_auth :: auth_lib
  ae_vlog :: vlog_lib
  ae_rfc :: "instant \<Rightarrow> string"
  ae_float :: "string \<Rightarrow> real \<times> bool"
  ae_withQuery :: "string \<Rightarrow> (string \<times> string) list \<Rightarrow> string option"
  ae_flusher :: bool
  ae_newID :: string
  ae_random :: "string \<times> string \<times> string"
  ae_channel :: nat
  ae_events :: "stream_in list"
  ae_status :: "status_in list"

record api_req = http_req +
  aq_method :: string
  aq_path :: "string list"
  aq_lastEventID :: string
  aq_trace :: "startRequest option"
  aq_sip :: "sipStartRequest option"
  aq_dns :: "dnsStartRequest option"

datatype endpoint =
    EpVersion | EpConfig | EpLogin | EpCallback | EpLogout | EpMe
  | EpProbers | EpAgents | EpMonitors | EpStatus | EpMonitor string | EpReports string
  | EpRun | EpSipRun | EpDnsRun | EpEvents string | EpCancel string

text \<open>\<^verbatim>\<open>Routes\<close> of \<^verbatim>\<open>internal/auth/auth.go\<close>, mounted below \<^verbatim>\<open>/api/auth\<close>.\<close>

definition auth_Routes :: "string \<Rightarrow> (string \<times> endpoint) list" where
  "auth_Routes b =
    (if b = ''login'' then [(''GET'', EpLogin)] else if b = ''callback'' then [(''GET'', EpCallback)]
     else if b = ''logout'' then [(''POST'', EpLogout)] else if b = ''me'' then [(''GET'', EpMe)] else [])"

text \<open>The methods and endpoints of a path below \<^verbatim>\<open>/api\<close>; a parameter of a path is not empty.\<close>

definition api_path :: "bool \<Rightarrow> string list \<Rightarrow> (string \<times> endpoint) list" where
  "api_path auth p =
    (case p of
       [a] \<Rightarrow>
         (if a = ''version'' then [(''GET'', EpVersion)] else if a = ''config'' then [(''GET'', EpConfig)]
          else if a = ''probers'' then [(''GET'', EpProbers)] else if a = ''agents'' then [(''GET'', EpAgents)]
          else if a = ''monitors'' then [(''GET'', EpMonitors)] else if a = ''monitors-status'' then [(''GET'', EpStatus)]
          else if a = ''runs'' then [(''POST'', EpRun)] else if a = ''sip-runs'' then [(''POST'', EpSipRun)]
          else if a = ''dns-runs'' then [(''POST'', EpDnsRun)] else [])
     | [a, b] \<Rightarrow>
         (if a = ''auth'' \<and> auth then auth_Routes b
          else if a = ''monitors'' \<and> b \<noteq> [] then [(''GET'', EpMonitor b)]
          else if a = ''runs'' \<and> b \<noteq> [] then [(''DELETE'', EpCancel b)] else [])
     | [a, b, c] \<Rightarrow>
         (if a = ''monitors'' \<and> b \<noteq> [] \<and> c = ''reports'' then [(''GET'', EpReports b)]
          else if a = ''runs'' \<and> b \<noteq> [] \<and> c = ''events'' then [(''GET'', EpEvents b)] else [])
     | _ \<Rightarrow> [])"

definition needs_session :: "endpoint \<Rightarrow> bool" where
  "needs_session ep = (ep \<notin> {EpVersion, EpConfig, EpLogin, EpCallback, EpLogout, EpMe})"

definition with_backend :: "Server \<Rightarrow> backend \<times> http_resp \<Rightarrow> Server \<times> stream_resp" where
  "with_backend s r = (s\<lparr>sv_mgr := fst (fst r), sv_gw := snd (fst r)\<rparr>, Refused (snd r))"

text \<open>\<open>Refused\<close> is any response that is not a stream.\<close>

definition api_handle :: "api_env \<Rightarrow> api_req \<Rightarrow> endpoint \<Rightarrow> Server \<Rightarrow> Server \<times> stream_resp" where
  "api_handle E r ep s =
    (let hr = http_req.truncate r; L = ae_auth E; now = ae_now E; answer = (\<lambda>x. (s, Refused x));
         with_auth = (\<lambda>f. case sv_auth s of Some a \<Rightarrow> answer (f a) | None \<Rightarrow> answer (plain 404 JNull));
         st = (sv_mgr s, sv_gw s); reg = gw_reg (sv_gw s)
     in case ep of
          EpVersion \<Rightarrow> answer (versionInfo (sv_version s) (sv_commit s))
        | EpConfig \<Rightarrow> answer (appConfig L (sv_auth s) (sv_version s) (sv_commit s) now hr)
        | EpLogin \<Rightarrow> with_auth (\<lambda>a. case ae_random E of (state, nonce, verifier) \<Rightarrow> login L a hr state nonce verifier)
        | EpCallback \<Rightarrow> with_auth (\<lambda>a. callback L a now hr)
        | EpLogout \<Rightarrow> with_auth (\<lambda>a. logout L (ae_withQuery E) a now hr)
        | EpMe \<Rightarrow> with_auth (\<lambda>a. auth_me L a now hr)
        | EpProbers \<Rightarrow> answer (probers (sv_gw s))
        | EpAgents \<Rightarrow> answer (agents (ae_rfc E) (sv_gw s))
        | EpMonitors \<Rightarrow> answer (listMonitors (ae_rfc E) reg (Some (sv_sink s)) (Some (sv_vl s)))
        | EpStatus \<Rightarrow>
            (let (sink, resp) = monitorStatusStream (vj_Marshal (ae_vlog E)) (ae_rfc E) (ae_flusher E) (ae_channel E) (ae_status E) (Some (sv_sink s))
             in (s\<lparr>sv_sink := the sink\<rparr>, resp))
        | EpMonitor i \<Rightarrow> answer (monitorDetail (ae_rfc E) now reg (Some (sv_sink s)) (Some (sv_vl s)) (sv_gw s) i)
        | EpReports i \<Rightarrow> answer (monitorReports (ae_vlog E) (ae_float E) reg (Some (sv_vl s)) hr i)
        | EpRun \<Rightarrow> with_backend s (startRun (ae_alive E) now (ae_newID E) (aq_trace r) st)
        | EpSipRun \<Rightarrow> with_backend s (startSipRun (ae_alive E) now (ae_newID E) (aq_sip r) st)
        | EpDnsRun \<Rightarrow> with_backend s (startDnsRun (ae_alive E) now (ae_newID E) (aq_dns r) st)
        | EpEvents i \<Rightarrow>
            (let (mgr, resp) = runEvents (vj_Marshal (ae_vlog E)) (ae_flusher E) i (aq_lastEventID r) (hq_query hr ''last_event_id'') (ae_channel E)
               (ae_events E) (sv_mgr s)
             in (s\<lparr>sv_mgr := mgr\<rparr>, resp))
        | EpCancel i \<Rightarrow> with_backend s (cancelRun (ae_alive E) i st))"

text \<open>
  \<^verbatim>\<open>Routes\<close>: a path with other methods answers 405, an unknown one 404; what needs a session goes through the
  middleware when authentication is on.
\<close>

definition api_serve :: "api_env \<Rightarrow> api_req \<Rightarrow> Server \<Rightarrow> Server \<times> stream_resp" where
  "api_serve E r s =
    (let eps = api_path (sv_auth s \<noteq> None) (aq_path r)
     in if eps = [] then (s, Refused (plain 404 JNull))
        else case map_of eps (aq_method r) of
            None \<Rightarrow> (s, Refused (plain 405 JNull))
          | Some ep \<Rightarrow>
              (case sv_auth s of
                 Some a \<Rightarrow>
                   if needs_session ep \<and> session_user (ae_auth E) a (ae_now E) (http_req.truncate r) = None
                   then (s, Refused (Middleware (ae_auth E) a (ae_now E) (\<lambda>u. plain 200 JNull) (http_req.truncate r)))
                   else api_handle E r ep s
               | None \<Rightarrow> api_handle E r ep s))"

section \<open>Health\<close>

text \<open>\<^verbatim>\<open>http.Error\<close> ends its text with a line feed.\<close>

definition readyz :: "Server \<Rightarrow> nat \<times> string" where
  "readyz s = (if sv_ready s then (200, ''{'' @ Quote ''status'' @ '':'' @ Quote ''ready'' @ ''}'')
    else (503, ''{'' @ Quote ''status'' @ '':'' @ Quote ''not ready'' @ ''}'' @ [LF]))"

end
