(* ===== verification/Monitor_Theorems.thy ===== *)
theory Monitor_Theorems
  imports Monitor_Sink
begin

text \<open>
  What the monitor sink guarantees: its two indexes agree, an aggregate counts the sites it is made
  of, every open status stream rebuilds the current aggregates, a sweep leaves every aggregate
  current, and a trace run ships one report.
\<close>

section \<open>The indexes\<close>

definition sink_index :: "MonitorSink \<Rightarrow> bool" where
  "sink_index s = (distinct (map fst (ms_state s)) \<and>
    (\<forall>site i. map_of (ms_state s) (site, i) = map_of (sites_of i s) site))"

lemma sites_of_put:
  "sites_of j (put_state site i p s) = (if j = i then AList.update site p (sites_of i s) else sites_of j s)"
  by (simp add: sites_of_def put_state_def update_conv')

lemma sites_of_forget:
  "sites_of j (forgetLocked (site, i) s) = (if j = i then AList.delete site (sites_of i s) else sites_of j s)"
  by (auto simp: sites_of_def forgetLocked_def Let_def update_conv' delete_conv' split: option.splits)

lemma state_forget: "ms_state (forgetLocked k s) = AList.delete k (ms_state s)"
  by (auto simp: forgetLocked_def Let_def split: option.splits prod.splits)

lemma forget_frame [simp]:
  "ms_reg (forgetLocked k s) = ms_reg s" "ms_store (forgetLocked k s) = ms_store s" "ms_next (forgetLocked k s) = ms_next s"
  "ms_agg (forgetLocked k s) = ms_agg s" "ms_subs (forgetLocked k s) = ms_subs s" "ms_sub (forgetLocked k s) = ms_sub s"
  "ms_written (forgetLocked k s) = ms_written s" "ms_vl (forgetLocked k s) = ms_vl s"
  by (auto simp: forgetLocked_def Let_def split: option.splits prod.splits)

lemma sink_index_put: "sink_index s \<Longrightarrow> sink_index (put_state site i p s)"
  by (auto simp: sink_index_def sites_of_put) (auto simp: put_state_def update_conv' distinct_update)

lemma sink_index_forget: "sink_index s \<Longrightarrow> sink_index (forgetLocked k s)"
  by (cases k) (auto simp: sink_index_def sites_of_forget state_forget delete_conv' distinct_delete)

lemma sink_index_frame:
  "sink_index s \<Longrightarrow> ms_state t = ms_state s \<Longrightarrow> ms_byMonitor t = ms_byMonitor s \<Longrightarrow> sink_index t"
  by (simp add: sink_index_def sites_of_def)

section \<open>Aggregates\<close>

definition reported :: "monState \<Rightarrow> bool" where "reported st = (oc_At (mt_last st) \<noteq> None)"

definition states_of :: "string \<Rightarrow> MonitorSink \<Rightarrow> monState list" where
  "states_of i s = filter reported (map (\<lambda>(site, p). ms_store s p) (sites_of i s))"

lemma aggregate_counts:
  "fold (\<lambda>(site, p). aggregate_site now (store p)) sites a =
    a\<lparr>ag_Sites := ag_Sites a + length (filter reported (map (\<lambda>(site, p). store p) sites)),
      ag_Stale := ag_Stale a + length (filter (is_stale now) (filter reported (map (\<lambda>(site, p). store p) sites))),
      ag_Up := ag_Up a + length (filter (\<lambda>st. \<not> is_stale now st \<and> oc_Up (mt_last st)) (filter reported (map (\<lambda>(site, p). store p) sites))),
      ag_Down := ag_Down a + length (filter (\<lambda>st. \<not> is_stale now st \<and> \<not> oc_Up (mt_last st)) (filter reported (map (\<lambda>(site, p). store p) sites)))\<rparr>"
  by (induction sites arbitrary: a) (auto simp: aggregate_site_def reported_def Let_def)

lemma length_filter_all: "length (filter P xs) = length xs \<longleftrightarrow> (\<forall>x \<in> set xs. P x)"
  by (induction xs) (auto, metis length_filter_le Suc_n_not_le_n)

lemma length_filter_split:
  "length xs = length (filter (\<lambda>x. \<not> P x \<and> Q x) xs) + length (filter (\<lambda>x. \<not> P x \<and> \<not> Q x) xs) + length (filter P xs)"
  by (induction xs) auto

lemma aggregateLocked_fields:
  "ag_Sites (aggregateLocked i now s) = length (states_of i s)"
  "ag_Stale (aggregateLocked i now s) = length (filter (is_stale now) (states_of i s))"
  "ag_Up (aggregateLocked i now s) = length (filter (\<lambda>st. \<not> is_stale now st \<and> oc_Up (mt_last st)) (states_of i s))"
  "ag_Down (aggregateLocked i now s) = length (filter (\<lambda>st. \<not> is_stale now st \<and> \<not> oc_Up (mt_last st)) (states_of i s))"
  "ag_State (aggregateLocked i now s) =
    (if \<forall>st \<in> set (states_of i s). is_stale now st then StateNoData
     else if \<forall>st \<in> set (states_of i s). \<not> is_stale now st \<and> oc_Up (mt_last st) then StateUp
     else if \<forall>st \<in> set (states_of i s). is_stale now st \<or> \<not> oc_Up (mt_last st) then StateDown else StatePartial)"
proof -
  have none: "length (filter (\<lambda>st. \<not> is_stale now st \<and> oc_Up (mt_last st)) xs) = 0 \<longleftrightarrow>
      (\<forall>st \<in> set xs. is_stale now st \<or> \<not> oc_Up (mt_last st))" for xs
    by (auto simp: filter_empty_conv)
  show "ag_Sites (aggregateLocked i now s) = length (states_of i s)"
    "ag_Stale (aggregateLocked i now s) = length (filter (is_stale now) (states_of i s))"
    "ag_Up (aggregateLocked i now s) = length (filter (\<lambda>st. \<not> is_stale now st \<and> oc_Up (mt_last st)) (states_of i s))"
    "ag_Down (aggregateLocked i now s) = length (filter (\<lambda>st. \<not> is_stale now st \<and> \<not> oc_Up (mt_last st)) (states_of i s))"
    unfolding aggregateLocked_def Let_def aggregate_counts states_of_def by (simp_all add: zero_aggregate_def)
  show "ag_State (aggregateLocked i now s) =
    (if \<forall>st \<in> set (states_of i s). is_stale now st then StateNoData
     else if \<forall>st \<in> set (states_of i s). \<not> is_stale now st \<and> oc_Up (mt_last st) then StateUp
     else if \<forall>st \<in> set (states_of i s). is_stale now st \<or> \<not> oc_Up (mt_last st) then StateDown else StatePartial)"
    unfolding aggregateLocked_def Let_def aggregate_counts states_of_def [symmetric]
    by (simp add: zero_aggregate_def length_filter_all none [unfolded length_0_conv])
qed

lemma refreshLocked_facts:
  assumes "refreshLocked i now s = (s', a, changed)"
  shows "s' = s\<lparr>ms_agg := AList.update i a (ms_agg s)\<rparr>"
    and "\<not> changed \<Longrightarrow> map_of (ms_agg s) i = Some a"
    and "a\<lparr>ag_Since := None\<rparr> = aggregateLocked i now s\<lparr>ag_Since := None\<rparr>"
    and "ag_Since a = (case map_of (ms_agg s) i of
      Some prev \<Rightarrow> if ag_State prev = ag_State (aggregateLocked i now s) then ag_Since prev else Some now | None \<Rightarrow> Some now)"
    and "changed \<Longrightarrow> map_of (ms_agg s) i \<noteq> Some a"
proof -
  let ?g = "aggregateLocked i now s"
  let ?prev = "case map_of (ms_agg s) i of Some a \<Rightarrow> a | None \<Rightarrow> zero_aggregate"
  define since where "since = (if \<not> map_of (ms_agg s) i \<noteq> None \<or> ag_State ?g \<noteq> ag_State ?prev then Some now else ag_Since ?prev)"
  have eq: "a = ?g\<lparr>ag_Since := since\<rparr>" "s' = s\<lparr>ms_agg := AList.update i (?g\<lparr>ag_Since := since\<rparr>) (ms_agg s)\<rparr>"
    "changed = (\<not> map_of (ms_agg s) i \<noteq> None \<or> ag_State ?g \<noteq> ag_State ?prev \<or> ag_Up ?g \<noteq> ag_Up ?prev \<or>
      ag_Down ?g \<noteq> ag_Down ?prev \<or> ag_Stale ?g \<noteq> ag_Stale ?prev \<or> ag_Sites ?g \<noteq> ag_Sites ?prev)"
    using assms unfolding refreshLocked_def Let_def since_def [symmetric] prod.inject by auto
  show "s' = s\<lparr>ms_agg := AList.update i a (ms_agg s)\<rparr>" unfolding eq ..
  show "a\<lparr>ag_Since := None\<rparr> = ?g\<lparr>ag_Since := None\<rparr>" by (simp add: eq(1))
  show "ag_Since a = (case map_of (ms_agg s) i of
      Some prev \<Rightarrow> if ag_State prev = ag_State ?g then ag_Since prev else Some now | None \<Rightarrow> Some now)"
    by (simp add: eq(1) since_def split: option.split)
  show "map_of (ms_agg s) i \<noteq> Some a" if changed
    using that unfolding eq(3) by (auto simp: eq(1))
  assume n: "\<not> changed"
  then obtain prev where p: "map_of (ms_agg s) i = Some prev" by (auto simp: eq(3))
  with n have same: "ag_State ?g = ag_State prev" "ag_Up ?g = ag_Up prev" "ag_Down ?g = ag_Down prev"
      "ag_Stale ?g = ag_Stale prev" "ag_Sites ?g = ag_Sites prev"
    by (simp_all add: eq(3))
  have "a = prev" by (rule Aggregate.equality) (simp_all add: eq(1) since_def p same)
  with p show "map_of (ms_agg s) i = Some a" by simp
qed

section \<open>Publishing\<close>

lemma publish_one_self:
  "k \<in> set (ms_subs (publish_one ev k s)) \<Longrightarrow> k \<in> set (ms_subs s) \<and> \<not> ss_closed (ms_sub s k) \<and>
    length (ss_ch (ms_sub s k)) < status_cap \<and> ms_sub (publish_one ev k s) k = (ms_sub s k)\<lparr>ss_ch := ss_ch (ms_sub s k) @ [ev]\<rparr>"
  by (auto simp: publish_one_def status_send_def Let_def split: if_splits)

text \<open>What a publication does to one subscriber: it gets the event, or it is closed and dropped.\<close>

lemma publish_fold:
  assumes "distinct ks" and "k \<in> set (ms_subs (fold (publish_one ev) ks s))"
  shows "k \<in> set (ms_subs s) \<and>
    (k \<in> set ks \<longrightarrow> \<not> ss_closed (ms_sub s k) \<and> length (ss_ch (ms_sub s k)) < status_cap \<and>
      ms_sub (fold (publish_one ev) ks s) k = (ms_sub s k)\<lparr>ss_ch := ss_ch (ms_sub s k) @ [ev]\<rparr>) \<and>
    (k \<notin> set ks \<longrightarrow> ms_sub (fold (publish_one ev) ks s) k = ms_sub s k)"
  using assms
proof (induction ks arbitrary: s)
  case Nil
  then show ?case by simp
next
  case (Cons j ks)
  let ?s = "publish_one ev j s"
  have ih: "k \<in> set (ms_subs ?s)" "k \<in> set ks \<longrightarrow> \<not> ss_closed (ms_sub ?s k) \<and> length (ss_ch (ms_sub ?s k)) < status_cap \<and>
      ms_sub (fold (publish_one ev) ks ?s) k = (ms_sub ?s k)\<lparr>ss_ch := ss_ch (ms_sub ?s k) @ [ev]\<rparr>"
      "k \<notin> set ks \<longrightarrow> ms_sub (fold (publish_one ev) ks ?s) k = ms_sub ?s k"
    using Cons.IH [of ?s] Cons.prems by simp_all
  show ?case
  proof (cases "k = j")
    case True
    with Cons.prems(1) have "k \<notin> set ks" by simp
    with ih True publish_one_self [of k ev s] show ?thesis by simp
  next
    case False
    then have "ms_sub ?s k = ms_sub s k" "k \<in> set (ms_subs ?s) \<longleftrightarrow> k \<in> set (ms_subs s)"
      by (simp_all add: publish_one_def Let_def split: prod.split)
    with ih False show ?thesis by auto
  qed
qed

lemma publish_one_frame:
  "ms_reg (publish_one ev k s) = ms_reg s" "ms_store (publish_one ev k s) = ms_store s" "ms_next (publish_one ev k s) = ms_next s"
  "ms_state (publish_one ev k s) = ms_state s" "ms_byMonitor (publish_one ev k s) = ms_byMonitor s"
  "ms_agg (publish_one ev k s) = ms_agg s" "ms_vl (publish_one ev k s) = ms_vl s" "ms_written (publish_one ev k s) = ms_written s"
  "j \<noteq> k \<Longrightarrow> ms_sub (publish_one ev k s) j = ms_sub s j"
  "distinct (ms_subs s) \<Longrightarrow> distinct (ms_subs (publish_one ev k s))" "set (ms_subs (publish_one ev k s)) \<subseteq> set (ms_subs s)"
  by (auto simp: publish_one_def Let_def split: prod.splits)

lemma publish_frame [simp]:
  "ms_reg (publishLocked ev s) = ms_reg s" "ms_store (publishLocked ev s) = ms_store s" "ms_next (publishLocked ev s) = ms_next s"
  "ms_state (publishLocked ev s) = ms_state s" "ms_byMonitor (publishLocked ev s) = ms_byMonitor s"
  "ms_agg (publishLocked ev s) = ms_agg s" "ms_vl (publishLocked ev s) = ms_vl s" "ms_written (publishLocked ev s) = ms_written s"
proof -
  have "ms_reg (fold (publish_one ev) ks s) = ms_reg s \<and> ms_store (fold (publish_one ev) ks s) = ms_store s \<and>
      ms_next (fold (publish_one ev) ks s) = ms_next s \<and> ms_state (fold (publish_one ev) ks s) = ms_state s \<and>
      ms_byMonitor (fold (publish_one ev) ks s) = ms_byMonitor s \<and> ms_agg (fold (publish_one ev) ks s) = ms_agg s \<and>
      ms_vl (fold (publish_one ev) ks s) = ms_vl s \<and> ms_written (fold (publish_one ev) ks s) = ms_written s" for ks
    by (induction ks arbitrary: s) (simp_all add: publish_one_frame)
  then show "ms_reg (publishLocked ev s) = ms_reg s" "ms_store (publishLocked ev s) = ms_store s"
    "ms_next (publishLocked ev s) = ms_next s" "ms_state (publishLocked ev s) = ms_state s"
    "ms_byMonitor (publishLocked ev s) = ms_byMonitor s" "ms_agg (publishLocked ev s) = ms_agg s"
    "ms_vl (publishLocked ev s) = ms_vl s" "ms_written (publishLocked ev s) = ms_written s"
    by (simp_all add: publishLocked_def)
qed

text \<open>What a reader makes of the messages it is sent, after the snapshot it was given.\<close>

definition apply_status :: "StatusEvent \<Rightarrow> (string \<Rightarrow> Aggregate option) \<Rightarrow> (string \<Rightarrow> Aggregate option)" where
  "apply_status ev m =
    (if sv_ID ev \<noteq> [] then m(sv_ID ev \<mapsto> sv_Aggregate ev)
     else case sv_Changes ev of Some cs \<Rightarrow> m ++ map_of cs | None \<Rightarrow> m)"

text \<open>
  The sink with its subscribers: \<open>sy_snap\<close> and \<open>sy_got\<close> are the snapshot each stream was given and what
  its reader has taken so far.
\<close>

record sink_sys =
  sy_sink :: MonitorSink
  sy_next :: nat
  sy_snap :: "nat \<Rightarrow> (string \<times> Aggregate) list"
  sy_got :: "nat \<Rightarrow> StatusEvent list"

definition view :: "sink_sys \<Rightarrow> nat \<Rightarrow> string \<Rightarrow> Aggregate option" where
  "view y k = fold apply_status (sy_got y k @ ss_ch (ms_sub (sy_sink y) k)) (map_of (sy_snap y k))"

text \<open>
  The operations the sink runs under its lock, in any order; ids are those of configured monitors,
  which are not empty.
\<close>

inductive sink_step :: "sink_sys \<Rightarrow> sink_sys \<Rightarrow> bool" where
  state: "sink_step y (y\<lparr>sy_sink := fst (stateFor site i (sy_sink y))\<rparr>)"
| handle: "sink_step y (y\<lparr>sy_sink := handle_event L now site i p ev (sy_sink y)\<rparr>)"
| refresh: "i \<noteq> [] \<Longrightarrow> sink_step y (y\<lparr>sy_sink := refresh i now (sy_sink y)\<rparr>)"
| sweep: "sink_step y (y\<lparr>sy_sink := Sweep now (sy_sink y)\<rparr>)"
| reload: "sink_step y (y\<lparr>sy_sink := (sy_sink y)\<lparr>ms_reg := registry_Replace mons (ms_reg (sy_sink y))\<rparr>\<rparr>)"
| retain: "sink_step y (y\<lparr>sy_sink := Retain now (sy_sink y)\<rparr>)"
| subscribe: "sink_Subscribe (sy_next y) (sy_sink y) = (s, snap, version) \<Longrightarrow>
    sink_step y (y\<lparr>sy_sink := s, sy_next := Suc (sy_next y), sy_snap := (sy_snap y)(sy_next y := snap),
      sy_got := (sy_got y)(sy_next y := [])\<rparr>)"
| cancel: "k < sy_next y \<Longrightarrow> sink_step y (y\<lparr>sy_sink := sink_cancel k (sy_sink y)\<rparr>)"
| recv: "\<lbrakk>k < sy_next y; ss_ch (ms_sub (sy_sink y) k) = ev # rest\<rbrakk> \<Longrightarrow>
    sink_step y (y\<lparr>sy_sink := (sy_sink y)\<lparr>ms_sub := (ms_sub (sy_sink y))(k := (ms_sub (sy_sink y) k)\<lparr>ss_ch := rest\<rparr>)\<rparr>,
      sy_got := (sy_got y)(k := sy_got y k @ [ev])\<rparr>)"

definition sink_inv :: "sink_sys \<Rightarrow> bool" where
  "sink_inv y = (sink_index (sy_sink y) \<and> distinct (ms_subs (sy_sink y)) \<and>
    (\<forall>k \<in> set (ms_subs (sy_sink y)). k < sy_next y) \<and>
    (\<forall>k < sy_next y. length (ss_ch (ms_sub (sy_sink y) k)) \<le> status_cap \<and>
      (k \<in> set (ms_subs (sy_sink y)) \<longleftrightarrow> \<not> ss_closed (ms_sub (sy_sink y) k)) \<and>
      (k \<in> set (ms_subs (sy_sink y)) \<longrightarrow> map_of (ms_agg (sy_sink y)) \<subseteq>\<^sub>m view y k)))"

definition sink_start :: "sink_sys \<Rightarrow> bool" where
  "sink_start y = (\<exists>reg vl store sub. sy_sink y = NewMonitorSink reg vl store sub \<and> sy_next y = 0)"

lemma sink_inv_start: "sink_start y \<Longrightarrow> sink_inv y"
  by (auto simp: sink_start_def sink_inv_def NewMonitorSink_def sink_index_def sites_of_def)

section \<open>The stream follows the aggregates\<close>

definition sub_ok :: "MonitorSink \<Rightarrow> nat \<Rightarrow> bool" where
  "sub_ok s k = (length (ss_ch (ms_sub s k)) \<le> status_cap \<and> (k \<in> set (ms_subs s) \<longleftrightarrow> \<not> ss_closed (ms_sub s k)))"

lemma sink_inv_alt:
  "sink_inv y = (sink_index (sy_sink y) \<and> distinct (ms_subs (sy_sink y)) \<and> (\<forall>k \<in> set (ms_subs (sy_sink y)). k < sy_next y) \<and>
    (\<forall>k < sy_next y. sub_ok (sy_sink y) k) \<and>
    (\<forall>k \<in> set (ms_subs (sy_sink y)). map_of (ms_agg (sy_sink y)) \<subseteq>\<^sub>m view y k))"
  by (auto simp: sink_inv_def sub_ok_def)

lemma sub_ok_publish_one: "sub_ok s k \<Longrightarrow> sub_ok (publish_one ev j s) k"
  by (auto simp: sub_ok_def publish_one_def status_send_def Let_def)

lemma publish_subs:
  assumes "distinct (ms_subs s)"
  shows "distinct (ms_subs (publishLocked ev s))" and "set (ms_subs (publishLocked ev s)) \<subseteq> set (ms_subs s)"
    and "sub_ok s k \<Longrightarrow> sub_ok (publishLocked ev s) k"
    and "k \<in> set (ms_subs (publishLocked ev s)) \<Longrightarrow> ss_ch (ms_sub (publishLocked ev s) k) = ss_ch (ms_sub s k) @ [ev]"
proof -
  have f: "distinct (ms_subs s) \<Longrightarrow> distinct (ms_subs (fold (publish_one ev) ks s))"
    "set (ms_subs (fold (publish_one ev) ks s)) \<subseteq> set (ms_subs s)"
    "sub_ok s k \<Longrightarrow> sub_ok (fold (publish_one ev) ks s) k" for ks
    using publish_one_frame(10,11) sub_ok_publish_one by (induction ks arbitrary: s) (simp_all, blast)
  show "distinct (ms_subs (publishLocked ev s))" using f(1) assms by (simp add: publishLocked_def)
  show sub: "set (ms_subs (publishLocked ev s)) \<subseteq> set (ms_subs s)" using f(2) by (simp add: publishLocked_def)
  show "sub_ok s k \<Longrightarrow> sub_ok (publishLocked ev s) k" using f(3) by (simp add: publishLocked_def)
  assume k: "k \<in> set (ms_subs (publishLocked ev s))"
  with sub have "k \<in> set (ms_subs s)" by blast
  with publish_fold [OF assms k [unfolded publishLocked_def]]
  show "ss_ch (ms_sub (publishLocked ev s) k) = ss_ch (ms_sub s k) @ [ev]" by (simp add: publishLocked_def)
qed

text \<open>An operation that leaves the subscribers alone and changes no aggregate keeps the invariant; so does one that
  publishes what it changed.\<close>

lemma sink_inv_quiet:
  assumes "sink_inv y" and "sink_index s" and "ms_subs s = ms_subs (sy_sink y)" and "ms_sub s = ms_sub (sy_sink y)"
    and "map_of (ms_agg s) \<subseteq>\<^sub>m map_of (ms_agg (sy_sink y))"
  shows "sink_inv (y\<lparr>sy_sink := s\<rparr>)"
proof -
  have "view (y\<lparr>sy_sink := s\<rparr>) k = view y k" for k by (simp add: view_def assms)
  with assms show ?thesis by (auto simp: sink_inv_alt sub_ok_def intro: map_le_trans)
qed

lemma sink_inv_publish:
  assumes "sink_inv y" and "sink_index s" and "ms_subs s = ms_subs (sy_sink y)" and "ms_sub s = ms_sub (sy_sink y)"
    and change: "\<And>m. map_of (ms_agg (sy_sink y)) \<subseteq>\<^sub>m m \<Longrightarrow> map_of (ms_agg s) \<subseteq>\<^sub>m apply_status ev m"
  shows "sink_inv (y\<lparr>sy_sink := publishLocked ev s\<rparr>)"
proof -
  have inv: "distinct (ms_subs s)" "\<forall>k \<in> set (ms_subs s). k < sy_next y" "\<forall>k < sy_next y. sub_ok s k"
    "\<forall>k \<in> set (ms_subs s). map_of (ms_agg (sy_sink y)) \<subseteq>\<^sub>m view y k"
    using assms(1,3,4) by (auto simp: sink_inv_alt sub_ok_def)
  note p = publish_subs [OF inv(1)]
  have "map_of (ms_agg s) \<subseteq>\<^sub>m view (y\<lparr>sy_sink := publishLocked ev s\<rparr>) k" if "k \<in> set (ms_subs (publishLocked ev s))" for k
  proof -
    have "view (y\<lparr>sy_sink := publishLocked ev s\<rparr>) k = apply_status ev (view y k)"
      using p(4) [OF that] by (simp add: view_def assms(4))
    with change inv(4) p(2) that show ?thesis by (metis subsetD)
  qed
  moreover have "sink_index (publishLocked ev s)" using assms(2) by (rule sink_index_frame) simp_all
  ultimately show ?thesis using inv(2,3) p(1,3) subsetD [OF p(2)] by (simp add: sink_inv_alt)
qed

lemma stateFor_frame:
  "ms_subs (fst (stateFor site i s)) = ms_subs s" "ms_sub (fst (stateFor site i s)) = ms_sub s"
  "ms_agg (fst (stateFor site i s)) = ms_agg s" "ms_written (fst (stateFor site i s)) = ms_written s"
  "ms_vl (fst (stateFor site i s)) = ms_vl s"
  by (simp_all add: stateFor_def put_state_def Let_def split: option.split)

lemma sink_index_stateFor: "sink_index s \<Longrightarrow> sink_index (fst (stateFor site i s))"
proof -
  assume a: "sink_index s"
  have "sink_index (s\<lparr>ms_store := st, ms_next := n\<rparr>)" for st n using a by (rule sink_index_frame) simp_all
  then show ?thesis using a by (simp add: stateFor_def Let_def sink_index_put split: option.split)
qed

lemma keepLocked_frame:
  "ms_subs (keepLocked site i p s) = ms_subs s" "ms_sub (keepLocked site i p s) = ms_sub s"
  "ms_agg (keepLocked site i p s) = ms_agg s" "ms_written (keepLocked site i p s) = ms_written s"
  "ms_vl (keepLocked site i p s) = ms_vl s" "ms_store (keepLocked site i p s) = ms_store s"
  by (simp_all add: keepLocked_def put_state_def)

lemma sink_index_keep: "sink_index s \<Longrightarrow> sink_index (keepLocked site i p s)"
  by (simp add: keepLocked_def sink_index_put)

lemmas handler_defs = handle_event_def onStarted_def onCycle_def onSipResult_def onError_def shipReport_def dropReport_def
  upd_state_def Let_def

lemma handle_frame:
  "ms_subs (handle_event L now site i p ev s) = ms_subs s" "ms_sub (handle_event L now site i p ev s) = ms_sub s"
  "ms_agg (handle_event L now site i p ev s) = ms_agg s" "ms_vl (handle_event L now site i p ev s) = ms_vl s"
  by (simp_all add: handler_defs keepLocked_frame split: job_event.split option.split)

lemma sink_index_handle:
  assumes "sink_index s"
  shows "sink_index (handle_event L now site i p ev s)"
proof -
  have "sink_index (s\<lparr>ms_metrics := m\<rparr>)" for m using assms by (rule sink_index_frame) simp_all
  then have k: "sink_index (keepLocked site i p (s\<lparr>ms_metrics := m\<rparr>))" for m by (rule sink_index_keep)
  have f: "sink_index (keepLocked site i p (s\<lparr>ms_metrics := m\<rparr>)\<lparr>ms_store := x\<rparr>)"
    "sink_index (keepLocked site i p (s\<lparr>ms_metrics := m\<rparr>)\<lparr>ms_store := x, ms_written := w\<rparr>)" for m x w
    by (rule sink_index_frame [OF k], simp_all)+
  have g: "sink_index (s\<lparr>ms_store := x\<rparr>)" "sink_index (s\<lparr>ms_store := x, ms_written := w\<rparr>)" for x w
    by (rule sink_index_frame [OF assms], simp_all)+
  show ?thesis
    using assms by (simp add: handler_defs keepLocked_frame f g split: job_event.split option.split)
qed

lemma refresh_into_fold:
  assumes "fold (refresh_into now) is (s, changed) = (s', changed')"
  shows "map_of (ms_agg s) = m ++ map_of changed \<Longrightarrow> map_of (ms_agg s') = m ++ map_of changed'"
    and "ms_subs s' = ms_subs s" and "ms_sub s' = ms_sub s" and "ms_state s' = ms_state s"
    and "ms_byMonitor s' = ms_byMonitor s" and "ms_store s' = ms_store s" and "ms_reg s' = ms_reg s"
proof -
  have "(map_of (ms_agg s) = m ++ map_of changed \<longrightarrow> map_of (ms_agg s') = m ++ map_of changed') \<and>
      ms_subs s' = ms_subs s \<and> ms_sub s' = ms_sub s \<and> ms_state s' = ms_state s \<and>
      ms_byMonitor s' = ms_byMonitor s \<and> ms_store s' = ms_store s \<and> ms_reg s' = ms_reg s"
    using assms
  proof (induction "is" arbitrary: s changed)
    case Nil
    then show ?case by simp
  next
    case (Cons i "is")
    obtain s1 a ok where r: "refreshLocked i now s = (s1, a, ok)" by (rule prod_cases3)
    note f = refreshLocked_facts(1,2) [OF r]
    let ?c = "if ok then AList.update i a changed else changed"
    have "refresh_into now i (s, changed) = (s1, ?c)" by (simp add: refresh_into_def r)
    with Cons.prems have fold: "fold (refresh_into now) is (s1, ?c) = (s', changed')" by simp
    have "map_of (ms_agg s1) = m ++ map_of ?c" if "map_of (ms_agg s) = m ++ map_of changed"
      using that f by (auto simp: update_conv' map_add_def fun_eq_iff split: option.splits)
    with Cons.IH [OF fold] show ?case by (simp add: f(1))
  qed
  then show "map_of (ms_agg s) = m ++ map_of changed \<Longrightarrow> map_of (ms_agg s') = m ++ map_of changed'"
    "ms_subs s' = ms_subs s" "ms_sub s' = ms_sub s" "ms_state s' = ms_state s"
    "ms_byMonitor s' = ms_byMonitor s" "ms_store s' = ms_store s" "ms_reg s' = ms_reg s" by blast+
qed

lemma sink_inv_refresh_all:
  assumes "sink_inv y"
  shows "sink_inv (y\<lparr>sy_sink := refresh_all now (sy_sink y)\<rparr>)"
proof -
  let ?s = "sy_sink y"
  obtain s1 changed where f: "fold (refresh_into now) (monitorIDsLocked ?s) (?s, []) = (s1, changed)" by force
  note r = refresh_into_fold(2-5) [OF f]
  have agg: "map_of (ms_agg s1) = map_of (ms_agg ?s) ++ map_of changed" using refresh_into_fold(1) [OF f] by simp
  have idx: "sink_index s1" using assms r by (auto simp: sink_inv_def intro: sink_index_frame)
  show ?thesis
  proof (cases "changed = []")
    case True
    then have "refresh_all now ?s = s1" using f by (simp add: refresh_all_def)
    with sink_inv_quiet [OF assms idx r(1,2)] agg True show ?thesis by simp
  next
    case False
    then have "refresh_all now ?s = publishLocked (changes_event changed) s1" using f by (simp add: refresh_all_def)
    moreover have "map_of (ms_agg s1) \<subseteq>\<^sub>m apply_status (changes_event changed) m" if "map_of (ms_agg ?s) \<subseteq>\<^sub>m m" for m
      using that unfolding agg by (auto simp: apply_status_def changes_event_def map_le_def map_add_def split: option.splits)
    ultimately show ?thesis using sink_inv_publish [OF assms idx r(1,2)] by simp
  qed
qed

lemma sink_inv_refresh:
  assumes "sink_inv y" and "i \<noteq> []"
  shows "sink_inv (y\<lparr>sy_sink := refresh i now (sy_sink y)\<rparr>)"
proof -
  let ?s = "sy_sink y"
  obtain s1 a ok where r: "refreshLocked i now ?s = (s1, a, ok)" by (rule prod_cases3)
  note f = refreshLocked_facts(1,2) [OF r]
  have idx: "sink_index s1" using assms(1) by (auto simp: sink_inv_def f(1) intro: sink_index_frame)
  show ?thesis
  proof (cases ok)
    case True
    have "map_of (ms_agg s1) \<subseteq>\<^sub>m apply_status (change_event i a) m" if "map_of (ms_agg ?s) \<subseteq>\<^sub>m m" for m
      using that assms(2) by (auto simp: f(1) apply_status_def change_event_def map_le_def update_conv')
    from sink_inv_publish [OF assms(1) idx _ _ this] True r f(1) show ?thesis by (simp add: refresh_def)
  next
    case False
    have "map_of (ms_agg s1) \<subseteq>\<^sub>m map_of (ms_agg ?s)" using f(2) [OF False] by (auto simp: f(1) update_conv' map_le_def)
    from sink_inv_quiet [OF assms(1) idx _ _ this] False r f(1) show ?thesis by (simp add: refresh_def)
  qed
qed

lemma forget_fold:
  assumes "\<And>kp s. kp \<in> set kps \<Longrightarrow> sink_index s \<Longrightarrow> sink_index (f kp s) \<and> ms_subs (f kp s) = ms_subs s \<and> ms_sub (f kp s) = ms_sub s \<and>
      ms_agg (f kp s) = ms_agg s \<and> ms_reg (f kp s) = ms_reg s"
    and "sink_index s"
  shows "sink_index (fold f kps s) \<and> ms_subs (fold f kps s) = ms_subs s \<and> ms_sub (fold f kps s) = ms_sub s \<and>
    ms_agg (fold f kps s) = ms_agg s \<and> ms_reg (fold f kps s) = ms_reg s"
  using assms by (induction kps arbitrary: s) simp_all

lemma retain_one_frame:
  "sink_index s \<Longrightarrow> sink_index (retain_one kp s) \<and> ms_subs (retain_one kp s) = ms_subs s \<and> ms_sub (retain_one kp s) = ms_sub s \<and>
    ms_agg (retain_one kp s) = ms_agg s \<and> ms_reg (retain_one kp s) = ms_reg s"
  by (auto simp: retain_one_def Let_def sink_index_forget split: prod.split option.split elim!: sink_index_frame)

lemma sweep_one_frame:
  "sink_index s \<Longrightarrow> sink_index (sweep_one now kp s) \<and> ms_subs (sweep_one now kp s) = ms_subs s \<and> ms_sub (sweep_one now kp s) = ms_sub s \<and>
    ms_agg (sweep_one now kp s) = ms_agg s \<and> ms_reg (sweep_one now kp s) = ms_reg s"
  by (simp add: sweep_one_def sink_index_forget)

lemma sink_inv_Sweep:
  assumes "sink_inv y"
  shows "sink_inv (y\<lparr>sy_sink := Sweep now (sy_sink y)\<rparr>)"
proof -
  let ?s = "fold (sweep_one now) (ms_state (sy_sink y)) (sy_sink y)"
  have "sink_inv (y\<lparr>sy_sink := ?s\<rparr>)"
    using forget_fold [of _ "sweep_one now", OF sweep_one_frame] assms
    by (intro sink_inv_quiet [OF assms]) (auto simp: sink_inv_def)
  from sink_inv_refresh_all [OF this, of now] show ?thesis by (simp add: Sweep_def)
qed

lemma map_of_filter_key: "map_of (filter (\<lambda>(i, a). P i) xs) i = (if P i then map_of xs i else None)"
  by (induction xs) auto

lemma sink_inv_Retain:
  assumes "sink_inv y"
  shows "sink_inv (y\<lparr>sy_sink := Retain now (sy_sink y)\<rparr>)"
proof -
  let ?s = "fold retain_one (ms_state (sy_sink y)) (sy_sink y)"
  let ?t = "?s\<lparr>ms_agg := filter (\<lambda>(i, a). registry_lookup (ms_reg ?s) i \<noteq> None) (ms_agg ?s)\<rparr>"
  have f: "sink_index ?s" "ms_subs ?s = ms_subs (sy_sink y)" "ms_sub ?s = ms_sub (sy_sink y)" "ms_agg ?s = ms_agg (sy_sink y)"
    using forget_fold [of _ retain_one, OF retain_one_frame] assms by (auto simp: sink_inv_def)
  have "sink_inv (y\<lparr>sy_sink := ?t\<rparr>)"
  proof (rule sink_inv_quiet [OF assms])
    show "sink_index ?t" using f(1) by (rule sink_index_frame) simp_all
    show "map_of (ms_agg ?t) \<subseteq>\<^sub>m map_of (ms_agg (sy_sink y))" using f(4) by (auto simp: map_le_def map_of_filter_key split: if_splits)
  qed (use f in simp_all)
  from sink_inv_refresh_all [OF this, of now] have r: "sink_inv (y\<lparr>sy_sink := refresh_all now ?t\<rparr>)" by simp
  have "sink_inv (y\<lparr>sy_sink := publishLocked (reload_event v) (refresh_all now ?t)\<rparr>)" for v
  proof -
    have "sink_index (refresh_all now ?t)" using r by (simp add: sink_inv_def)
    moreover have "apply_status (reload_event v) m = m" for m by (simp add: apply_status_def reload_event_def)
    ultimately show ?thesis using sink_inv_publish [OF r, of "refresh_all now ?t" "reload_event v"] by simp
  qed
  then show ?thesis unfolding Retain_def Let_def .
qed

lemma sink_inv_step:
  assumes "sink_inv y" and "sink_step y z"
  shows "sink_inv z"
  using assms(2)
proof cases
  case (state site i)
  have "sink_index (sy_sink y)" using assms(1) by (simp add: sink_inv_def)
  from sink_inv_quiet [OF assms(1) sink_index_stateFor [OF this]] state show ?thesis by (simp add: stateFor_frame)
next
  case (handle L now site i p ev)
  have "sink_index (sy_sink y)" using assms(1) by (simp add: sink_inv_def)
  from sink_inv_quiet [OF assms(1) sink_index_handle [OF this]] handle show ?thesis by (simp add: handle_frame)
next
  case (refresh i now)
  then show ?thesis using sink_inv_refresh [OF assms(1)] by simp
next
  case (sweep now)
  then show ?thesis using sink_inv_Sweep [OF assms(1)] by simp
next
  case (reload mons)
  have "sink_index (sy_sink y)" using assms(1) by (simp add: sink_inv_def)
  then have "sink_index ((sy_sink y)\<lparr>ms_reg := registry_Replace mons (ms_reg (sy_sink y))\<rparr>)" by (rule sink_index_frame) simp_all
  with reload show ?thesis using sink_inv_quiet [OF assms(1)] by simp
next
  case (retain now)
  then show ?thesis using sink_inv_Retain [OF assms(1)] by simp
next
  case (subscribe s snap version)
  have s: "s = (sy_sink y)\<lparr>ms_subs := ms_subs (sy_sink y) @ [sy_next y], ms_sub := (ms_sub (sy_sink y))(sy_next y := \<lparr>ss_ch = [], ss_closed = False\<rparr>)\<rparr>"
    "snap = ms_agg (sy_sink y)" using subscribe by (auto simp: sink_Subscribe_def)
  have new: "sy_next y \<notin> set (ms_subs (sy_sink y))" using assms(1) by (auto simp: sink_inv_def)
  have idx: "sink_index s" using assms(1) unfolding s(1) sink_inv_def by (auto elim!: sink_index_frame)
  have "view z k = (if k = sy_next y then map_of (ms_agg (sy_sink y)) else view y k)" for k
    using subscribe(1) s by (simp add: view_def)
  with assms(1) subscribe(1) s new idx show ?thesis
    by (auto simp: sink_inv_alt sub_ok_def less_Suc_eq)
next
  case (cancel k)
  have idx: "sink_index (sink_cancel k (sy_sink y))"
    using assms(1) unfolding sink_inv_def sink_cancel_def by (auto elim!: sink_index_frame)
  have "view z j = view y j" for j using cancel(1) by (simp add: view_def sink_cancel_def status_close_def)
  with assms(1) cancel idx show ?thesis
    by (auto simp: sink_inv_alt sub_ok_def sink_cancel_def status_close_def)
next
  case (recv k ev rest)
  have idx: "sink_index (sy_sink z)"
    using assms(1) recv(1) unfolding sink_inv_def by (auto elim!: sink_index_frame)
  have "view z j = view y j" for j using recv by (simp add: view_def)
  with assms(1) recv idx show ?thesis by (auto simp: sink_inv_alt sub_ok_def)
qed

interpretation sink: invariant_system sink_start sink_step sink_inv
  by unfold_locales (auto intro: sink_inv_start sink_inv_step)

section \<open>Theorems\<close>

text \<open>(C11) Whatever the order of events, sweeps, reloads and subscriptions, an open status stream that applies the messages
  sent to it to the snapshot it was given holds the current aggregate of every monitor; at most 1024 messages wait for
  it; and a stream that was dropped or cancelled is closed, so that its reader starts over. The index by monitor
  and the index by site and monitor always refer to the same states.\<close>

theorem status_stream_follows:
  assumes "sink_step\<^sup>*\<^sup>* y0 y" and "sink_start y0" and "k < sy_next y"
  shows "(if k \<in> set (ms_subs (sy_sink y))
      then \<not> ss_closed (ms_sub (sy_sink y) k) \<and>
        map_of (ms_agg (sy_sink y)) \<subseteq>\<^sub>m fold apply_status (sy_got y k @ ss_ch (ms_sub (sy_sink y) k)) (map_of (sy_snap y k))
      else ss_closed (ms_sub (sy_sink y) k)) \<and>
    length (ss_ch (ms_sub (sy_sink y) k)) \<le> 1024 \<and>
    map_of (ms_state (sy_sink y)) (site, i) = map_of (sites_of i (sy_sink y)) site"
  using sink.inv_reachable [OF assms(2,1)] assms(3)
  by (auto simp: sink_inv_def view_def status_cap_def sink_index_def)

text \<open>(C29) The aggregate of a monitor counts the sites that have reported, each either stale, up or down; the state is
  no data when none has reported or all are stale, up when every reporting site is up, down when none is up and one is
  down, and partial otherwise; and its time stamp moves exactly when the state does.\<close>

theorem aggregate_classifies:
  assumes "refreshLocked i now s = (s', a, changed)"
  shows "sink_Aggregate i s' = Some a \<and>
    ag_Sites a = length (states_of i s) \<and> ag_Sites a = ag_Up a + ag_Down a + ag_Stale a \<and>
    ag_Up a = length (filter (\<lambda>st. \<not> is_stale now st \<and> oc_Up (mt_last st)) (states_of i s)) \<and>
    (ag_State a = StateNoData \<longleftrightarrow> (\<forall>st \<in> set (states_of i s). is_stale now st)) \<and>
    (ag_State a = StateUp \<longleftrightarrow> states_of i s \<noteq> [] \<and> (\<forall>st \<in> set (states_of i s). \<not> is_stale now st \<and> oc_Up (mt_last st))) \<and>
    (ag_State a = StateDown \<longleftrightarrow> (\<exists>st \<in> set (states_of i s). \<not> is_stale now st) \<and>
      (\<forall>st \<in> set (states_of i s). is_stale now st \<or> \<not> oc_Up (mt_last st))) \<and>
    ag_Since a = (case sink_Aggregate i s of
      Some prev \<Rightarrow> if ag_State prev = ag_State a then ag_Since prev else Some now | None \<Rightarrow> Some now) \<and>
    (changed \<longleftrightarrow> map_of (ms_agg s) i \<noteq> Some a)"
proof -
  let ?g = "aggregateLocked i now s" and ?xs = "states_of i s"
  note f = refreshLocked_facts [OF assms]
  have eq: "ag_State a = ag_State ?g" "ag_Up a = ag_Up ?g" "ag_Down a = ag_Down ?g" "ag_Stale a = ag_Stale ?g" "ag_Sites a = ag_Sites ?g"
    using f(3) by (metis Aggregate.select_convs Aggregate.surjective Aggregate.update_convs(6))+
  have sum: "ag_Sites a = ag_Up a + ag_Down a + ag_Stale a"
    using length_filter_split [of ?xs "is_stale now" "\<lambda>st. oc_Up (mt_last st)"] by (simp add: eq aggregateLocked_fields)
  have "ag_State a = StateNoData \<longleftrightarrow> (\<forall>st \<in> set ?xs. is_stale now st)"
    "ag_State a = StateUp \<longleftrightarrow> ?xs \<noteq> [] \<and> (\<forall>st \<in> set ?xs. \<not> is_stale now st \<and> oc_Up (mt_last st))"
    "ag_State a = StateDown \<longleftrightarrow> (\<exists>st \<in> set ?xs. \<not> is_stale now st) \<and> (\<forall>st \<in> set ?xs. is_stale now st \<or> \<not> oc_Up (mt_last st))"
    unfolding eq(1) aggregateLocked_fields(5) by (cases ?xs; auto)+
  moreover have "sink_Aggregate i s' = Some a" by (simp add: sink_Aggregate_def f(1) update_conv')
  moreover have "ag_Since a = (case sink_Aggregate i s of
      Some prev \<Rightarrow> if ag_State prev = ag_State a then ag_Since prev else Some now | None \<Rightarrow> Some now)"
    unfolding eq(1) sink_Aggregate_def by (rule f(4))
  moreover have "changed \<longleftrightarrow> map_of (ms_agg s) i \<noteq> Some a" using f(2,5) by blast
  ultimately show ?thesis using sum eq aggregateLocked_fields(1,3) [of i now s] by simp
qed

section \<open>Sweeping\<close>

lemma aggregateLocked_cong:
  "ms_store t = ms_store s \<Longrightarrow> ms_byMonitor t = ms_byMonitor s \<Longrightarrow> aggregateLocked i now t = aggregateLocked i now s"
  by (simp add: aggregateLocked_def sites_of_def)

definition current :: "instant \<Rightarrow> MonitorSink \<Rightarrow> string \<Rightarrow> Aggregate \<Rightarrow> bool" where
  "current now s i a = (a\<lparr>ag_Since := None\<rparr> = (aggregateLocked i now s)\<lparr>ag_Since := None\<rparr>)"

lemma refresh_into_current:
  assumes "fold (refresh_into now) is (s, changed) = (s', changed')" and "ms_store s = ms_store s0" and "ms_byMonitor s = ms_byMonitor s0"
    and "i \<in> set is \<or> (\<exists>a. map_of (ms_agg s) i = Some a \<and> current now s0 i a)"
  shows "\<exists>a. map_of (ms_agg s') i = Some a \<and> current now s0 i a"
  using assms
proof (induction "is" arbitrary: s changed)
  case Nil
  then show ?case by simp
next
  case (Cons j "is")
  obtain s1 a ok where r: "refreshLocked j now s = (s1, a, ok)" by (rule prod_cases3)
  note f = refreshLocked_facts(1,3) [OF r]
  have cur: "current now s0 j a"
    using f(2) aggregateLocked_cong [OF Cons.prems(2,3)] by (simp add: current_def)
  have "refresh_into now j (s, changed) = (s1, if ok then AList.update j a changed else changed)"
    by (simp add: refresh_into_def r)
  with Cons.prems(1) have fold: "fold (refresh_into now) is (s1, if ok then AList.update j a changed else changed) = (s', changed')"
    by simp
  show ?case
    by (rule Cons.IH [OF fold]) (use Cons.prems(2-4) f(1) cur in \<open>auto simp: update_conv'\<close>)
qed

lemma refresh_into_dom:
  "fold (refresh_into now) is (s, changed) = (s', changed') \<Longrightarrow> dom (map_of (ms_agg s')) = dom (map_of (ms_agg s)) \<union> set is"
proof (induction "is" arbitrary: s changed)
  case Nil
  then show ?case by simp
next
  case (Cons j "is")
  obtain s1 a ok where r: "refreshLocked j now s = (s1, a, ok)" by (rule prod_cases3)
  have "refresh_into now j (s, changed) = (s1, if ok then AList.update j a changed else changed)"
    by (simp add: refresh_into_def r)
  with Cons.prems have "fold (refresh_into now) is (s1, if ok then AList.update j a changed else changed) = (s', changed')"
    by simp
  from Cons.IH [OF this] show ?case by (auto simp: refreshLocked_facts(1) [OF r] update_conv')
qed

lemma refresh_all_current:
  "ms_state (refresh_all now s) = ms_state s \<and> ms_byMonitor (refresh_all now s) = ms_byMonitor s \<and>
    ms_store (refresh_all now s) = ms_store s \<and>
    (map_of (ms_agg (refresh_all now s)) i = None \<longrightarrow> sites_of i s = [] \<and> map_of (ms_agg s) i = None) \<and>
    (\<forall>a. map_of (ms_agg (refresh_all now s)) i = Some a \<longrightarrow> current now s i a)"
proof -
  obtain s1 changed where f: "fold (refresh_into now) (monitorIDsLocked s) (s, []) = (s1, changed)" by force
  have all: "ms_state (refresh_all now s) = ms_state s1" "ms_byMonitor (refresh_all now s) = ms_byMonitor s1"
    "ms_store (refresh_all now s) = ms_store s1" "ms_agg (refresh_all now s) = ms_agg s1"
    by (simp_all add: refresh_all_def f)
  have dom: "map_of (ms_agg s1) i = None \<longleftrightarrow> i \<notin> dom (map_of (ms_agg s)) \<union> set (monitorIDsLocked s)"
    using refresh_into_dom [OF f] by blast
  have ids: "set (monitorIDsLocked s) = dom (map_of (ms_byMonitor s)) \<union> dom (map_of (ms_agg s))"
    by (simp add: monitorIDsLocked_def dom_map_of_conv_image_fst)
  have "map_of (ms_agg s1) i = None \<longrightarrow> sites_of i s = [] \<and> map_of (ms_agg s) i = None"
    using dom ids by (auto simp: sites_of_def)
  moreover have "\<forall>a. map_of (ms_agg s1) i = Some a \<longrightarrow> current now s i a"
  proof (intro allI impI)
    fix a assume a: "map_of (ms_agg s1) i = Some a"
    then have "i \<in> set (monitorIDsLocked s)" using dom ids by auto
    from refresh_into_current [OF f refl refl, of i] this a show "current now s i a" by auto
  qed
  ultimately show ?thesis using all refresh_into_fold(4-6) [OF f] by simp
qed

lemma sweep_fold:
  "ms_store (fold (sweep_one now) kps s) = ms_store s \<and>
    map_of (ms_state (fold (sweep_one now) kps s)) k =
      (if \<exists>p. (k, p) \<in> set kps \<and> is_forgotten now (ms_store s p) then None else map_of (ms_state s) k)"
proof (induction kps arbitrary: s)
  case Nil
  then show ?case by simp
next
  case (Cons kp kps)
  have "ms_store (sweep_one now kp s) = ms_store s"
    "map_of (ms_state (sweep_one now kp s)) k = (if k = fst kp \<and> is_forgotten now (ms_store s (snd kp)) then None else map_of (ms_state s) k)"
    by (auto simp: sweep_one_def state_forget delete_conv')
  then show ?case using Cons.IH [of "sweep_one now kp s"] by (cases kp) auto
qed

text \<open>A sweep forgets exactly the sites that have been silent for longer than their window (twice the staleness bound, at
  least an hour), and leaves every aggregate current: equal, but for the time stamp, to the one computed afresh. Every
  monitor with a known site has one.\<close>

theorem sweep_leaves_current:
  assumes "sink_index s"
  shows "(map_of (ms_state (Sweep now s)) k = Some p \<longleftrightarrow> map_of (ms_state s) k = Some p \<and> \<not> is_forgotten now (ms_store s p)) \<and>
    (\<forall>a. sink_Aggregate i (Sweep now s) = Some a \<longrightarrow>
      a\<lparr>ag_Since := None\<rparr> = (aggregateLocked i now (Sweep now s))\<lparr>ag_Since := None\<rparr>) \<and>
    (sites_of i (Sweep now s) \<noteq> [] \<longrightarrow> sink_Aggregate i (Sweep now s) \<noteq> None)"
proof -
  let ?s = "fold (sweep_one now) (ms_state s) s"
  have d: "distinct (map fst (ms_state s))" using assms by (simp add: sink_index_def)
  note r = refresh_all_current [of now ?s i]
  have "map_of (ms_state ?s) k = Some p \<longleftrightarrow> map_of (ms_state s) k = Some p \<and> \<not> is_forgotten now (ms_store s p)"
    using sweep_fold [of now "ms_state s" s k] d
    by (auto split: if_splits dest: eq_key_imp_eq_value [OF d, of k])
  moreover have "sites_of i (refresh_all now ?s) = sites_of i ?s" using r by (simp add: sites_of_def)
  moreover have "aggregateLocked i now (refresh_all now ?s) = aggregateLocked i now ?s"
    using r by (intro aggregateLocked_cong) simp_all
  ultimately show ?thesis using r by (auto simp: Sweep_def sink_Aggregate_def current_def)
qed

section \<open>Reports\<close>

lemma refresh_frame:
  "ms_store (refresh i now s) = ms_store s" "ms_state (refresh i now s) = ms_state s" "ms_written (refresh i now s) = ms_written s"
  "ms_vl (refresh i now s) = ms_vl s"
proof -
  obtain s1 a ok where r: "refreshLocked i now s = (s1, a, ok)" by (rule prod_cases3)
  show "ms_store (refresh i now s) = ms_store s" "ms_state (refresh i now s) = ms_state s" "ms_written (refresh i now s) = ms_written s"
    "ms_vl (refresh i now s) = ms_vl s"
    by (simp_all add: refresh_def r refreshLocked_facts(1) [OF r])
qed

text \<open>A known site and monitor: an event changes only its own state, and the log.\<close>

lemma OnMonitorEvent_known:
  assumes "map_of (ms_state s) (site, i) = Some p" and "je_JobId ev = monitorJobID i"
  shows "OnMonitorEvent L now site ev s =
    (let s = handle_event L now site i p ev s in if moves_aggregate (je_Event ev) then refresh i now s else s)"
  using assms by (simp add: OnMonitorEvent_def stateFor_def)

lemma keepLocked_known [simp]: "map_of (ms_state s) (site, i) = Some p \<Longrightarrow> keepLocked site i p s = s"
  by (simp add: keepLocked_def)

definition tracing :: "MonitorSink \<Rightarrow> string \<Rightarrow> string \<Rightarrow> nat \<Rightarrow> bool" where
  "tracing s site i p = (map_of (ms_state s) (site, i) = Some p \<and> mt_kind (ms_store s p) = ''trace'' \<and> ms_vl s)"

lemma on_started:
  assumes "tracing s site i p" and "je_JobId ev = monitorJobID i" and "je_Event ev = EvStarted js" and "t = OnMonitorEvent L now site ev s"
  shows "tracing t site i p" and "ms_written t = ms_written s" and "mt_lastCycle (ms_store t p) = None"
    and "mt_source (ms_store t p) = js_Source js" and "mt_resolved (ms_store t p) = js_Resolved js"
    and "mt_startedAt (ms_store t p) = (case je_Time ev of Some x \<Rightarrow> x | None \<Rightarrow> now)"
    and "mt_target (ms_store t p) = mt_target (ms_store s p)" and "mt_labels (ms_store t p) = mt_labels (ms_store s p)"
  using assms OnMonitorEvent_known [of s site i p ev L now]
  by (auto simp: tracing_def handle_event_def onStarted_def upd_state_def moves_aggregate_def Let_def)

lemma on_cycle:
  assumes "tracing s site i p" and "je_JobId ev = monitorJobID i" and "je_Event ev = EvCycle c" and "t = OnMonitorEvent L now site ev s"
  shows "tracing t site i p" and "ms_written t = ms_written s" and "mt_lastCycle (ms_store t p) = Some c"
    and "(ms_store t p)\<lparr>mt_lastCycle := None, mt_last := zero_outcome\<rparr> = (ms_store s p)\<lparr>mt_lastCycle := None, mt_last := zero_outcome\<rparr>"
  using assms OnMonitorEvent_known [of s site i p ev L now]
  by (simp_all add: tracing_def handle_event_def onCycle_def upd_state_def moves_aggregate_def Let_def refresh_frame)

lemma on_cycles:
  assumes "tracing s site i p" and "list_all2 (\<lambda>(now, ev) c. je_JobId ev = monitorJobID i \<and> je_Event ev = EvCycle c) evs cs"
    and "t = fold (\<lambda>(now, ev). OnMonitorEvent L now site ev) evs s"
  shows "tracing t site i p \<and> ms_written t = ms_written s \<and>
    mt_lastCycle (ms_store t p) = (if cs = [] then mt_lastCycle (ms_store s p) else Some (last cs)) \<and>
    (ms_store t p)\<lparr>mt_lastCycle := None, mt_last := zero_outcome\<rparr> = (ms_store s p)\<lparr>mt_lastCycle := None, mt_last := zero_outcome\<rparr>"
  using assms(2,1,3)
proof (induction arbitrary: s rule: list_all2_induct)
  case Nil
  then show ?case by simp
next
  case (Cons e evs c cs)
  obtain now ev where e: "e = (now, ev)" by (cases e)
  with Cons.hyps have ev: "je_JobId ev = monitorJobID i" "je_Event ev = EvCycle c" by simp_all
  let ?s = "OnMonitorEvent L now site ev s"
  note c = on_cycle [OF Cons.prems(1) ev, of ?s L now, OF refl]
  have "t = fold (\<lambda>(now, ev). OnMonitorEvent L now site ev) evs ?s" using Cons.prems(2) e by simp
  from Cons.IH [OF c(1) this] c(2-4) show ?case by simp
qed

text \<open>A run of a trace monitor ships one record when it completes with at least one cycle, built from its last cycle, the
  addresses and the start time of this run and the target and labels of the monitor; a cancelled run and a run
  without cycles ship nothing; and nothing of the run is left for the next one to ship.\<close>

theorem trace_report_shipped_once:
  assumes "tracing s site i p"
    and "je_JobId e0 = monitorJobID i" and "je_Event e0 = EvStarted js"
    and "list_all2 (\<lambda>(now, ev) c. je_JobId ev = monitorJobID i \<and> je_Event ev = EvCycle c) evs cs"
    and "je_JobId e1 = monitorJobID i" and "je_Event e1 = EvFinished n reason"
    and "t = fold (\<lambda>(now, ev). OnMonitorEvent L now site ev) ((now0, e0) # evs @ [(now1, e1)]) s"
  shows "\<exists>st. mt_source st = js_Source js \<and> mt_resolved st = js_Resolved js \<and>
    mt_startedAt st = (case je_Time e0 of Some x \<Rightarrow> x | None \<Rightarrow> now0) \<and>
    mt_target st = mt_target (ms_store s p) \<and> mt_labels st = mt_labels (ms_store s p) \<and>
    ms_written t = ms_written s @
      (if cs = [] \<or> reason = REASON_CANCELLED then [] else [report_record L now1 site i st (last cs) []]) \<and>
    mt_lastCycle (ms_store t p) = None \<and> tracing t site i p"
proof -
  let ?s0 = "OnMonitorEvent L now0 site e0 s"
  let ?s1 = "fold (\<lambda>(now, ev). OnMonitorEvent L now site ev) evs ?s0"
  let ?st = "ms_store ?s1 p"
  note a = on_started [OF assms(1-3) refl, of L now0]
  note b = on_cycles [OF a(1) assms(4) refl, of L]
  have same: "f ?st = f (ms_store ?s0 p)" if "\<And>x o1. f (x\<lparr>mt_lastCycle := None, mt_last := o1\<rparr>) = f x" for f :: "monState \<Rightarrow> 'z"
    using b by (metis that)
  have keep: "mt_source ?st = mt_source (ms_store ?s0 p)" "mt_resolved ?st = mt_resolved (ms_store ?s0 p)"
    "mt_startedAt ?st = mt_startedAt (ms_store ?s0 p)" "mt_target ?st = mt_target (ms_store ?s0 p)"
    "mt_labels ?st = mt_labels (ms_store ?s0 p)"
    by (rule same, simp)+
  have t: "t = OnMonitorEvent L now1 site e1 ?s1" using assms(7) by simp
  have "map_of (ms_state ?s1) (site, i) = Some p" "ms_vl ?s1" using b by (simp_all add: tracing_def)
  then have "ms_written t = ms_written ?s1 @
      (if cs = [] \<or> reason = REASON_CANCELLED then [] else [report_record L now1 site i ?st (last cs) []])"
    and "mt_lastCycle (ms_store t p) = None" and "tracing t site i p"
    using b a(3) assms(5,6) unfolding t
    by (auto simp: OnMonitorEvent_known handle_event_def shipReport_def dropReport_def upd_state_def moves_aggregate_def
        Let_def tracing_def)
  then show ?thesis using a keep b by (intro exI [of _ ?st]) simp
qed

section \<open>Witnesses\<close>

definition demo_registry :: MonitorRegistry where "demo_registry = NewMonitorRegistry [demo_mon\<lparr>mc_Kind := ''trace''\<rparr>]"

definition demo_sink :: MonitorSink where
  "demo_sink = NewMonitorSink demo_registry True (\<lambda>_. new_monState demo_mon) (\<lambda>_. \<lparr>ss_ch = [], ss_closed = True\<rparr>)"

definition demo_sys :: sink_sys where
  "demo_sys = \<lparr>sy_sink = demo_sink, sy_next = 0, sy_snap = (\<lambda>_. []), sy_got = (\<lambda>_. [])\<rparr>"

definition demo_subscribed :: sink_sys where
  "demo_subscribed = \<lparr>sy_sink = fst (sink_Subscribe 0 demo_sink), sy_next = 1, sy_snap = (\<lambda>_. [])(0 := []), sy_got = (\<lambda>_. [])(0 := [])\<rparr>"

theorem status_stream_follows_witness:
  "sink_step\<^sup>*\<^sup>* demo_sys demo_subscribed \<and> 0 \<in> set (ms_subs (sy_sink demo_subscribed)) \<and>
   \<not> ss_closed (ms_sub (sy_sink demo_subscribed) 0) \<and>
   map_of (ms_agg (sy_sink demo_subscribed)) \<subseteq>\<^sub>m fold apply_status (sy_got demo_subscribed 0 @ ss_ch (ms_sub (sy_sink demo_subscribed) 0))
     (map_of (sy_snap demo_subscribed 0))"
proof -
  have "sink_step demo_sys demo_subscribed"
    using subscribe [of demo_sys "fst (sink_Subscribe 0 demo_sink)" "[]" "mr_version demo_registry"]
    by (simp add: demo_sys_def demo_subscribed_def sink_Subscribe_def demo_sink_def NewMonitorSink_def)
  then have steps: "sink_step\<^sup>*\<^sup>* demo_sys demo_subscribed" by (rule r_into_rtranclp)
  have "sink_start demo_sys" by (auto simp: sink_start_def demo_sys_def demo_sink_def)
  moreover have "0 < sy_next demo_subscribed" "0 \<in> set (ms_subs (sy_sink demo_subscribed))"
    by (simp_all add: demo_subscribed_def sink_Subscribe_def)
  ultimately show ?thesis using steps status_stream_follows [OF steps, of 0] by simp
qed

definition demo_state :: "instant \<Rightarrow> bool \<Rightarrow> monState" where
  "demo_state at1 ok = (new_monState (demo_mon\<lparr>mc_Kind := ''trace''\<rparr>))\<lparr>mt_last := zero_outcome\<lparr>oc_At := Some at1, oc_Up := ok\<rparr>\<rparr>"

definition demo_two :: MonitorSink where
  "demo_two = put_state ''ams'' ''m'' 1 (put_state ''fra'' ''m'' 0
    (demo_sink\<lparr>ms_store := (\<lambda>_. demo_state 0 True)(1 := demo_state 0 False), ms_next := 2\<rparr>))"

lemma demo_two_sites: "sites_of ''m'' demo_two = [(''fra'', 0), (''ams'', 1)]"
  by (simp add: demo_two_def sites_of_put) (simp add: demo_sink_def NewMonitorSink_def sites_of_def)

theorem aggregate_classifies_witness:
  "\<exists>s' a changed. refreshLocked ''m'' 5 demo_two = (s', a, changed) \<and> ag_Sites a = 2 \<and> ag_State a \<noteq> StateUp \<and> ag_State a \<noteq> StateDown"
proof -
  obtain s' a changed where r: "refreshLocked ''m'' 5 demo_two = (s', a, changed)" by (rule prod_cases3)
  have st: "states_of ''m'' demo_two = [demo_state 0 True, demo_state 0 False]"
    unfolding states_of_def demo_two_sites
    by (simp add: demo_two_def put_state_def reported_def demo_state_def)
  have "\<not> is_stale 5 (demo_state 0 b)" "oc_Up (mt_last (demo_state 0 b)) = b" for b
    by (simp_all add: is_stale_def demo_state_def new_monState_def staleAfter_def)
  with r aggregate_classifies [OF r] show ?thesis unfolding st by auto
qed

theorem sweep_leaves_current_witness:
  "map_of (ms_state (Sweep (2 * Hour) demo_two)) (''fra'', ''m'') \<noteq> Some 0"
proof -
  have "sink_index demo_sink" by (simp add: sink_index_def demo_sink_def NewMonitorSink_def sites_of_def)
  then have "sink_index (demo_sink\<lparr>ms_store := x, ms_next := n\<rparr>)" for x n by (rule sink_index_frame) simp_all
  then have "sink_index demo_two" by (simp add: demo_two_def sink_index_put)
  moreover have "is_forgotten (2 * Hour) (ms_store demo_two 0)"
    by (simp add: demo_two_def put_state_def is_forgotten_def demo_state_def new_monState_def forgetAfterFor_def staleAfter_def demo_mon_def)
  ultimately show ?thesis using sweep_leaves_current [of demo_two "2 * Hour" "(''fra'', ''m'')" 0] by simp
qed

definition demo_mevent :: "job_event \<Rightarrow> JobEvent" where
  "demo_mevent e = \<lparr>je_JobId = monitorJobID ''m'', je_Seq = 0, je_Time = None, je_Event = e\<rparr>"

definition demo_fmt :: fmt_lib where
  "demo_fmt = \<lparr>fl_1f = (\<lambda>_. ''0.0''), fl_start = (\<lambda>_. ''2026''), fl_now = (\<lambda>_. ''2026'')\<rparr>"

definition demo_started :: JobStarted where
  "demo_started = \<lparr>js_Target = ''h'', js_Resolved = ''1.1.1.1'', js_Source = ''2.2.2.2'', js_Protocol = PROTOCOL_ICMP,
    js_Family = ADDRESS_FAMILY_IPV4, js_Transport = [], js_Nameservers = []\<rparr>"

definition demo_cycle :: pb_Cycle where "demo_cycle = \<lparr>pc_Number = 1, pc_ReachedAt = 0, pc_Hops = []\<rparr>"

theorem trace_report_shipped_once_witness:
  "\<exists>st. mt_source st = ''2.2.2.2'' \<and>
    ms_written (fold (\<lambda>(now, ev). OnMonitorEvent demo_fmt now ''fra'' ev)
      ((1, demo_mevent (EvStarted demo_started)) # [(2, demo_mevent (EvCycle demo_cycle))] @
        [(3, demo_mevent (EvFinished 0 REASON_COMPLETED))]) demo_two) =
    [report_record demo_fmt 3 ''fra'' ''m'' st demo_cycle []]"
proof -
  have "tracing demo_two ''fra'' ''m'' 0"
    by (simp add: tracing_def demo_two_def put_state_def demo_state_def new_monState_def monitorKind_def update_conv'
        demo_sink_def NewMonitorSink_def)
  moreover have "list_all2 (\<lambda>(now, ev) c. je_JobId ev = monitorJobID ''m'' \<and> je_Event ev = EvCycle c)
      [(2, demo_mevent (EvCycle demo_cycle))] [demo_cycle]" by (simp add: demo_mevent_def)
  moreover have "je_JobId (demo_mevent e) = monitorJobID ''m''" "je_Event (demo_mevent e) = e" for e
    by (simp_all add: demo_mevent_def)
  moreover have "ms_written demo_two = []" by (simp add: demo_two_def put_state_def demo_sink_def NewMonitorSink_def)
  moreover have "js_Source demo_started = ''2.2.2.2''" by (simp add: demo_started_def)
  ultimately show ?thesis
    using trace_report_shipped_once [of demo_two "''fra''" "''m''" 0 "demo_mevent (EvStarted demo_started)" demo_started
        "[(2, demo_mevent (EvCycle demo_cycle))]" "[demo_cycle]" "demo_mevent (EvFinished 0 REASON_COMPLETED)" 0 REASON_COMPLETED
        _ demo_fmt 1 3, OF _ _ _ _ _ _ refl]
    by (auto simp del: fold_simps append_Cons append_Nil)
qed

end
