(* ===== verification/Server_Theorems.thy ===== *)
theory Server_Theorems
  imports Backend_Server Monitor_Theorems
begin

text \<open>
  The parts of the backend together: a reload of the monitors reaches the registry, the sink and the agents, and no
  request gets past the session check.
\<close>

section \<open>Assignments\<close>

lemma push_assignment_conns:
  "gw_conns (push_assignment alive reg c g) =
    (if alive c
     then (gw_conns g)(c := (gw_conns g c)\<lparr>cn_out := cn_out (gw_conns g c) @ [AssignmentMsg (AssignmentFor reg (cn_site (gw_conns g c)))],
       cn_assignmentVersion := mr_version reg\<rparr>)
     else gw_conns g)"
  by (simp add: push_assignment_def conn_send_def Let_def AssignmentFor_def)

lemma push_assignment_frame: "gw_agents (push_assignment alive reg c g) = gw_agents g" "gw_reg (push_assignment alive reg c g) = gw_reg g"
  by (simp_all add: push_assignment_def conn_send_def Let_def)

lemma push_all:
  "distinct cs \<Longrightarrow>
    gw_conns (fold (push_assignment alive reg) cs g) c =
      (if c \<in> set cs \<and> alive c
       then (gw_conns g c)\<lparr>cn_out := cn_out (gw_conns g c) @ [AssignmentMsg (AssignmentFor reg (cn_site (gw_conns g c)))],
         cn_assignmentVersion := mr_version reg\<rparr>
       else gw_conns g c) \<and>
    gw_agents (fold (push_assignment alive reg) cs g) = gw_agents g \<and> gw_reg (fold (push_assignment alive reg) cs g) = gw_reg g"
proof (induction cs arbitrary: g)
  case Nil
  then show ?case by simp
next
  case (Cons d cs)
  then show ?case by (cases "d = c") (simp_all add: push_assignment_conns push_assignment_frame)
qed

text \<open>The connections registered are distinct, since each knows its site.\<close>

lemma conns_distinct: "gateway_inv g \<Longrightarrow> distinct (map snd (gw_agents g))"
proof -
  assume a: "gateway_inv g"
  then have d: "distinct (map fst (gw_agents g))" by (simp add: gateway_inv_def)
  have "inj_on snd (set (gw_agents g))"
  proof (rule inj_onI)
    fix x y assume xy: "x \<in> set (gw_agents g)" "y \<in> set (gw_agents g)" "snd x = snd y"
    have "map_of (gw_agents g) (fst x) = Some (snd x)" "map_of (gw_agents g) (fst y) = Some (snd y)"
      using map_of_is_SomeI [OF d, of "fst x" "snd x"] map_of_is_SomeI [OF d, of "fst y" "snd y"] xy(1,2) by simp_all
    with a have "cn_site (gw_conns g (snd x)) = fst x" "cn_site (gw_conns g (snd y)) = fst y"
      unfolding gateway_inv_def by blast+
    with xy(3) show "x = y" by (auto intro: prod_eqI)
  qed
  then show ?thesis using d by (simp add: distinct_map)
qed

lemma PushAssignments_conns:
  assumes "gateway_inv g" and "gw_reg g = Some reg" and "map_of (gw_agents g) site = Some c" and "alive c"
  shows "cn_out (gw_conns (PushAssignments alive g) c) = cn_out (gw_conns g c) @ [AssignmentMsg (AssignmentFor reg site)]"
    and "cn_assignmentVersion (gw_conns (PushAssignments alive g) c) = mr_version reg"
proof -
  have "c \<in> set (map snd (gw_agents g))" using map_of_SomeD [OF assms(3)] by force
  moreover have "cn_site (gw_conns g c) = site" using assms(1,3) by (simp add: gateway_inv_def)
  ultimately show "cn_out (gw_conns (PushAssignments alive g) c) = cn_out (gw_conns g c) @ [AssignmentMsg (AssignmentFor reg site)]"
    "cn_assignmentVersion (gw_conns (PushAssignments alive g) c) = mr_version reg"
    using push_all [OF conns_distinct [OF assms(1)], of alive reg g c] assms(2,4) by (simp_all add: PushAssignments_def)
qed

section \<open>What the sink keeps\<close>

definition wanted :: "MonitorRegistry \<Rightarrow> string \<times> string \<Rightarrow> bool" where
  "wanted reg k = (case registry_lookup reg (snd k) of Some mc \<Rightarrow> siteMatches (mc_Sites mc) (fst k) | None \<Rightarrow> False)"

lemma retain_one_state:
  "ms_reg (retain_one kp s) = ms_reg s \<and>
    map_of (ms_state (retain_one kp s)) k = (if k = fst kp \<and> \<not> wanted (ms_reg s) k then None else map_of (ms_state s) k)"
  by (auto simp: retain_one_def wanted_def Let_def state_forget delete_conv' split: prod.splits option.splits)

lemma retain_fold:
  "ms_reg (fold retain_one kps s) = ms_reg s \<and>
    map_of (ms_state (fold retain_one kps s)) k =
      (if k \<in> fst ` set kps \<and> \<not> wanted (ms_reg s) k then None else map_of (ms_state s) k)"
proof (induction kps arbitrary: s)
  case Nil
  then show ?case by simp
next
  case (Cons kp kps)
  then show ?case using retain_one_state [of kp s k] by auto
qed

lemma refresh_all_reg: "ms_reg (refresh_all now s) = ms_reg s"
proof -
  obtain s1 changed where f: "fold (refresh_into now) (monitorIDsLocked s) (s, []) = (s1, changed)" by force
  show ?thesis using refresh_into_fold(7) [OF f] by (simp add: refresh_all_def f)
qed

lemma Retain_keeps:
  "ms_reg (Retain now s) = ms_reg s"
  "map_of (ms_state (Retain now s)) k = (if wanted (ms_reg s) k then map_of (ms_state s) k else None)"
proof -
  let ?s = "fold retain_one (ms_state s) s"
  let ?t = "?s\<lparr>ms_agg := filter (\<lambda>(i, a). registry_lookup (ms_reg ?s) i \<noteq> None) (ms_agg ?s)\<rparr>"
  have "ms_state (Retain now s) = ms_state ?s" "ms_reg (Retain now s) = ms_reg ?s"
    using refresh_all_current [of now ?t] refresh_all_reg [of now ?t] by (simp_all add: Retain_def Let_def)
  moreover have "k \<notin> fst ` set (ms_state s) \<Longrightarrow> map_of (ms_state s) k = None" by (simp add: map_of_eq_None_iff)
  ultimately show "ms_reg (Retain now s) = ms_reg s"
    "map_of (ms_state (Retain now s)) k = (if wanted (ms_reg s) k then map_of (ms_state s) k else None)"
    using retain_fold [of "ms_state s" s] by auto
qed

section \<open>Theorems\<close>

text \<open>(C33) A reload makes the new monitors the ones of the registry, the gateway and the sink alike, under the next version number;
  every connected agent whose stream is alive is sent, once, the assignment of its site from the new registry, and
  the version is noted; and the sink keeps what it knows of exactly those sites and monitors that are still assigned.\<close>

theorem reload_takes_effect:
  assumes "gateway_inv (sv_gw s)" and "t = ReloadMonitors alive now mons s"
  shows "server_reg t = registry_set mons (mr_version (server_reg s) + 1) \<and> gw_reg (sv_gw t) = Some (server_reg t) \<and>
    (\<forall>site c. map_of (gw_agents (sv_gw s)) site = Some c \<and> alive c \<longrightarrow>
      cn_out (gw_conns (sv_gw t) c) = cn_out (gw_conns (sv_gw s) c) @ [AssignmentMsg (AssignmentFor (server_reg t) site)] \<and>
      cn_assignmentVersion (gw_conns (sv_gw t) c) = mr_version (server_reg t)) \<and>
    (\<forall>k. map_of (ms_state (sv_sink t)) k = (if wanted (server_reg t) k then map_of (ms_state (sv_sink s)) k else None))"
proof -
  let ?reg = "registry_Replace mons (server_reg s)" and ?g = "(sv_gw s)\<lparr>gw_reg := Some (registry_Replace mons (server_reg s))\<rparr>"
  have g: "gateway_inv ?g" "gw_reg ?g = Some ?reg" using assms(1) by (simp_all add: gateway_inv_def)
  have t: "sv_gw t = PushAssignments alive ?g" "sv_sink t = Retain now ((sv_sink s)\<lparr>ms_reg := ?reg\<rparr>)"
    using assms(2) by (simp_all add: ReloadMonitors_def Let_def)
  have reg: "server_reg t = ?reg" using t(2) by (simp add: server_reg_def Retain_keeps)
  have "gw_reg (sv_gw t) = Some ?reg"
    using push_all [OF conns_distinct [OF g(1)], of alive ?reg ?g] t(1) by (simp add: PushAssignments_def)
  moreover have "\<forall>site c. map_of (gw_agents (sv_gw s)) site = Some c \<and> alive c \<longrightarrow>
      cn_out (gw_conns (sv_gw t) c) = cn_out (gw_conns (sv_gw s) c) @ [AssignmentMsg (AssignmentFor ?reg site)] \<and>
      cn_assignmentVersion (gw_conns (sv_gw t) c) = mr_version ?reg"
    using PushAssignments_conns [OF g, of _ _ alive] t(1) by auto
  moreover have "map_of (ms_state (sv_sink t)) k = (if wanted ?reg k then map_of (ms_state (sv_sink s)) k else None)" for k
    using t(2) by (simp add: Retain_keeps(2))
  ultimately show ?thesis unfolding reg registry_Replace_def by blast
qed

text \<open>(C7) With authentication on, a request without a valid session changes nothing and opens no stream, and is answered 401 by every
  endpoint except the version, the configuration of the application and the four of the login.\<close>

theorem no_session_no_effect:
  assumes "sv_auth s = Some a" and "session_user (ae_auth E) a (ae_now E) (http_req.truncate r) = None"
    and "api_serve E r s = (t, resp)"
  shows "t = s \<and> (\<exists>h. resp = Refused h \<and>
    (\<forall>ep. map_of (api_path True (aq_path r)) (aq_method r) = Some ep \<longrightarrow>
      hr_Status h = 401 \<or> ep \<in> {EpVersion, EpConfig, EpLogin, EpCallback, EpLogout, EpMe}))"
proof (cases "map_of (api_path True (aq_path r)) (aq_method r)")
  case None
  then show ?thesis using assms(1,3) by (auto simp: api_serve_def Let_def split: if_splits)
next
  case (Some ep)
  then have serve: "api_path True (aq_path r) \<noteq> []" by auto
  show ?thesis
  proof (cases "needs_session ep")
    case True
    then have "resp = Refused (Middleware (ae_auth E) a (ae_now E) (\<lambda>u. plain 200 JNull) (http_req.truncate r))" "t = s"
      using assms Some serve by (simp_all add: api_serve_def Let_def)
    then show ?thesis using assms(2) by (simp add: Middleware_def with_cookies_def unauthorized_def plain_def)
  next
    case False
    then have "api_handle E r ep s = (t, resp)" using assms Some serve by (simp add: api_serve_def Let_def)
    then show ?thesis using False Some assms(1)
      by (auto simp: needs_session_def api_handle_def Let_def split: endpoint.splits)
  qed
qed

section \<open>A server\<close>

definition demo_server_auth :: Auth where
  "demo_server_auth = \<lparr>at_cfg = applyDefaults \<lparr>au_Enabled = True, au_Issuer = ''https://idp'', au_ClientID = ''prober'', au_ClientSecret = [],
    au_RedirectURL = ''https://p/api/auth/callback'', au_Scopes = [], au_AuthURL = [], au_TokenURL = [], au_JWKSURL = [], au_UserInfoURL = [],
    au_Timeout = 0, au_CookieSecret = [], au_CookieName = [], au_SecureCookie = None, au_SessionTTL = 0, au_Logout = [],
    au_PostLogoutRedirectURL = [], au_AllowedGroups = [], au_GroupsClaim = []\<rparr>, at_base = [], at_provider = None\<rparr>"

definition demo_victoria :: VictoriaLogsConfig where
  "demo_victoria = \<lparr>vg_URL = [], vg_Username = [], vg_Password = [], vg_AccountID = 0, vg_ProjectID = 0, vg_StreamFields = [], vg_BatchMax = 0,
    vg_FlushMS = 0\<rparr>"

definition demo_server :: Server where
  "demo_server = \<lparr>sv_cfg = Config.extend demo_config
      \<lparr>sc_BasePath = [], sc_Metrics = [], sc_Auth = at_cfg demo_server_auth, sc_VictoriaLogs = demo_victoria\<rparr>,
    sv_gw = demo_gateway\<lparr>gw_conns := (\<lambda>_. demo_conn\<lparr>cn_site := ''fra''\<rparr>)\<rparr>, sv_mgr = NewManager 60, sv_sink = demo_sink,
    sv_vl = vlog_New (vlog_options demo_victoria), sv_auth = Some demo_server_auth, sv_version = [], sv_commit = [], sv_ready = True\<rparr>"

lemma demo_server_gateway: "gateway_inv (sv_gw demo_server)" "map_of (gw_agents (sv_gw demo_server)) ''fra'' = Some 1"
  "cn_out (gw_conns (sv_gw demo_server) 1) = []" "mr_version (server_reg demo_server) = 1"
  by (simp_all add: gateway_inv_def demo_server_def demo_gateway_def demo_conn_def server_reg_def demo_sink_def NewMonitorSink_def
      demo_registry_def NewMonitorRegistry_def registry_set_def)

theorem reload_takes_effect_witness:
  "\<exists>t. t = ReloadMonitors (\<lambda>_. True) 5 [demo_mon] demo_server \<and> mr_version (server_reg t) = 2 \<and>
    cn_out (gw_conns (sv_gw t) 1) = [AssignmentMsg (AssignmentFor (server_reg t) ''fra'')]"
proof -
  let ?t = "ReloadMonitors (\<lambda>_. True) 5 [demo_mon] demo_server"
  note r = reload_takes_effect [OF demo_server_gateway(1) refl, of "\<lambda>_. True" 5 "[demo_mon]"]
  have "mr_version (server_reg ?t) = 2" using r demo_server_gateway(4) by (simp add: registry_set_def)
  moreover have "cn_out (gw_conns (sv_gw ?t) 1) = [AssignmentMsg (AssignmentFor (server_reg ?t) ''fra'')]"
    using r demo_server_gateway(2,3) by (elim conjE allE [of _ "''fra''"] allE [of _ "1 :: nat"]) simp
  ultimately show ?thesis by blast
qed

definition demo_env :: api_env where
  "demo_env = \<lparr>ae_alive = (\<lambda>_. True), ae_now = 0,
    ae_auth = \<lparr>al_hmac = (\<lambda>k m. []), al_put_session = (\<lambda>_. None), al_get_session = (\<lambda>_. None), al_put_flow = (\<lambda>_. None), al_get_flow = (\<lambda>_. None)\<rparr>,
    ae_vlog = \<lparr>vj_Marshal = (\<lambda>_. None), vj_NewRequest = (\<lambda>_. None), vj_Do = (\<lambda>_ _. Inl []), vj_Decode = (\<lambda>_. ([], None)), vj_Float = (\<lambda>_. [])\<rparr>,
    ae_rfc = (\<lambda>_. []), ae_float = (\<lambda>_. (0, False)), ae_withQuery = (\<lambda>_ _. None), ae_flusher = True, ae_newID = ''r'', ae_random = ([], [], []),
    ae_channel = 0, ae_events = [], ae_status = []\<rparr>"

definition demo_api_req :: api_req where
  "demo_api_req = \<lparr>hq_cookie = (\<lambda>_. None), hq_query = (\<lambda>_. []), hq_id = [], aq_method = ''POST'', aq_path = [''runs''], aq_lastEventID = [],
    aq_trace = None, aq_sip = None, aq_dns = None\<rparr>"

theorem no_session_no_effect_witness:
  "\<exists>h. api_serve demo_env demo_api_req demo_server = (demo_server, Refused h) \<and> hr_Status h = 401"
proof -
  have a: "sv_auth demo_server = Some demo_server_auth" by (simp add: demo_server_def)
  have u: "session_user (ae_auth demo_env) demo_server_auth (ae_now demo_env) (http_req.truncate demo_api_req) = None"
    by (simp add: session_user_def sessionFull_def http_req.truncate_def demo_api_req_def)
  obtain t resp where s: "api_serve demo_env demo_api_req demo_server = (t, resp)" by (rule prod.exhaust)
  have ep: "map_of (api_path True (aq_path demo_api_req)) (aq_method demo_api_req) = Some EpRun"
    by (simp add: demo_api_req_def api_path_def)
  from no_session_no_effect [OF a u s] obtain h where "t = demo_server" "resp = Refused h" "hr_Status h = 401"
    using ep by auto
  with s show ?thesis by blast
qed

end
