(* ===== verification/Backend_Web.thy ===== *)
theory Backend_Web
  imports Backend_Server
begin

text \<open>
  \<^verbatim>\<open>internal/backend/webui.go\<close> and \<^verbatim>\<open>metrics.go\<close>: the delivery of the web application. The embedded file system is a function
  from paths to files, \<open>None\<close> when the application was not built; SHA-256 is a parameter. Strings are ASCII where case is folded.
\<close>

section \<open>Paths\<close>

text \<open>\<^verbatim>\<open>path.Clean\<close> of a path that starts with a slash.\<close>

fun clean_parts :: "string list \<Rightarrow> string list \<Rightarrow> string list" where
  "clean_parts acc [] = rev acc"
| "clean_parts acc (p # ps) =
    (if p = [] \<or> p = ''.'' then clean_parts acc ps
     else if p = ''..'' then clean_parts (tl acc) ps
     else clean_parts (p # acc) ps)"

definition Clean :: "string \<Rightarrow> string" where
  "Clean path = ''/'' @ join_with (CHR ''/'') (clean_parts [] (split_on (CHR ''/'') path))"

datatype dir_entry = Dir | File string

type_synonym file_system = "string \<Rightarrow> dir_entry option"

definition exists_file :: "file_system \<Rightarrow> string \<Rightarrow> bool" where
  "exists_file files p = (case files p of Some (File _) \<Rightarrow> True | _ \<Rightarrow> False)"

section \<open>The page\<close>

definition head_tag :: string where "head_tag = ''<head>''"

text \<open>\<open>split_at s p\<close> is \<open>s\<close> up to and including the first \<open>p\<close>, and the rest.\<close>

fun split_at :: "string \<Rightarrow> string \<Rightarrow> (string \<times> string) option" where
  "split_at [] p = (if p = [] then Some ([], []) else None)"
| "split_at (c # s) p =
    (if has_prefix (c # s) p then Some (p, drop (length p) (c # s))
     else map_option (\<lambda>(a, b). (c # a, b)) (split_at s p))"

definition loadIndex :: "file_system \<Rightarrow> string \<Rightarrow> string" where
  "loadIndex files base =
    (case files ''index.html'' of
       Some (File b) \<Rightarrow>
         let href = (if base = [] then ''/'' else base @ ''/'');
             tag = ''<base href='' @ [dquote] @ href @ [dquote] @ ''>''
         in (case split_at b head_tag of Some (before, after) \<Rightarrow> before @ tag @ after | None \<Rightarrow> b)
     | _ \<Rightarrow> ''web UI not built'')"

record web_resp =
  wr_Status :: nat
  wr_Header :: "(string \<times> string) list"
  wr_Body :: string

text \<open>
  \<^verbatim>\<open>http.FileServer\<close> on a path that names a file: the page itself is redirected to its directory, a path with a
  trailing slash to the file.
\<close>

definition FileServer :: "file_system \<Rightarrow> string \<Rightarrow> web_resp" where
  "FileServer files url =
    (let p = drop 1 (Clean url)
     in if has_suffix url ''/index.html'' then \<lparr>wr_Status = 301, wr_Header = [(''Location'', ''./'')], wr_Body = []\<rparr>
        else if has_suffix url ''/''
        then \<lparr>wr_Status = 301, wr_Header = [(''Location'', ''../'' @ last (split_on (CHR ''/'') p))], wr_Body = []\<rparr>
        else \<lparr>wr_Status = 200, wr_Header = [], wr_Body = (case files p of Some (File b) \<Rightarrow> b | _ \<Rightarrow> [])\<rparr>)"

definition spaHandler :: "file_system option \<Rightarrow> string \<Rightarrow> string \<Rightarrow> web_resp" where
  "spaHandler files base url =
    (case files of
       None \<Rightarrow> \<lparr>wr_Status = 404, wr_Header = [], wr_Body = ''web UI not built: run `make web`'' @ [LF]\<rparr>
     | Some files \<Rightarrow>
         let p = drop 1 (Clean (''/'' @ url))
         in if p = [] \<or> \<not> exists_file files p then
              \<lparr>wr_Status = 200, wr_Header = [(''Content-Type'', ''text/html; charset=utf-8''), (''Cache-Control'', ''no-store'')],
               wr_Body = loadIndex files base\<rparr>
            else
              let r = FileServer files url
              in if has_prefix p ''assets/''
                 then r\<lparr>wr_Header := [(''Cache-Control'', ''public, max-age=31536000, immutable'')] @ wr_Header r\<rparr> else r)"

section \<open>The content security policy\<close>

definition prefix_fold :: "string \<Rightarrow> string \<Rightarrow> bool" where "prefix_fold s p = (ToLower (take (length p) s) = p)"

fun find_close :: "string \<Rightarrow> (string \<times> string) option" where
  "find_close [] = None"
| "find_close (c # s) =
    (if prefix_fold (c # s) ''</script>'' then Some ([], drop 9 (c # s))
     else map_option (\<lambda>(a, b). (c # a, b)) (find_close s))"

lemma find_close_shorter: "find_close s = Some (a, b) \<Longrightarrow> length b < length s"
proof (induction s arbitrary: a b)
  case (Cons c s)
  show ?case
  proof (cases "prefix_fold (c # s) ''</script>''")
    case True
    with Cons.prems have "b = drop 9 (c # s)" by simp
    then show ?thesis by simp
  next
    case False
    with Cons.prems obtain a' where "find_close s = Some (a', b)" by auto
    from Cons.IH [OF this] show ?thesis by simp
  qed
qed simp

text \<open>
  The matches of \<^verbatim>\<open>(?is)<script([^>]*)>(.*?)</script>\<close>, from the left, without overlap: attributes and content.
\<close>

function script_tags :: "string \<Rightarrow> (string \<times> string) list" where
  "script_tags [] = []"
| "script_tags (c # s) =
    (if prefix_fold (c # s) ''<script'' then
       (case Cut (CHR ''>'') (drop 7 (c # s)) of
          None \<Rightarrow> script_tags s
        | Some (attrs, rest) \<Rightarrow>
            (case find_close rest of
               None \<Rightarrow> script_tags s
             | Some (body, after) \<Rightarrow> (attrs, body) # script_tags after))
     else script_tags s)"
  by pat_completeness auto
termination
proof (relation "measure length")
  fix c s x attrs rest y body after
  assume "Cut (CHR ''>'') (drop 7 (c # s)) = Some x" "(attrs, rest) = x" "find_close rest = Some y" "(body, after) = y"
  then have "drop 7 (c # s) = attrs @ CHR ''>'' # rest" "length after < length rest"
    using Cut_Some find_close_shorter by (metis, metis)
  from this(1) have "length (drop 7 (c # s)) = length attrs + Suc (length rest)" by (simp only: length_append list.size)
  with \<open>length after < length rest\<close> show "(after, c # s) \<in> measure length" by (simp only: length_drop in_measure)
qed simp_all

text \<open>\<^verbatim>\<open>strings.Contains\<close>.\<close>

definition Contains :: "string \<Rightarrow> string \<Rightarrow> bool" where "Contains s p = (split_at s p \<noteq> None)"

text \<open>Base64 with padding and the standard alphabet.\<close>

definition std_char :: "char \<Rightarrow> char" where
  "std_char c = (if c = CHR ''-'' then CHR ''+'' else if c = CHR ''_'' then CHR ''/'' else c)"

definition StdEncode :: "string \<Rightarrow> string" where
  "StdEncode s = (let t = map std_char (EncodeToString s) in t @ replicate ((4 - length t mod 4) mod 4) (CHR ''=''))"

definition inlineScriptHashes :: "(string \<Rightarrow> string) \<Rightarrow> string \<Rightarrow> string list" where
  "inlineScriptHashes sha256 html =
    map (\<lambda>(attrs, body). ''sha256-'' @ StdEncode (sha256 body)) (filter (\<lambda>(attrs, body). \<not> Contains attrs ''src='') (script_tags html))"

definition squote :: char where "squote = CHR 0x27"

definition quoted :: "string \<Rightarrow> string" where "quoted s = [squote] @ s @ [squote]"

definition contentSecurityPolicy :: "(string \<Rightarrow> string) \<Rightarrow> file_system option \<Rightarrow> string" where
  "contentSecurityPolicy sha256 files =
    (let hashes = (case files of
         Some d \<Rightarrow> (case d ''index.html'' of Some (File b) \<Rightarrow> inlineScriptHashes sha256 b | _ \<Rightarrow> [])
       | None \<Rightarrow> []);
         scriptSrc = quoted ''self'' @ concat (map (\<lambda>h. '' '' @ quoted h) hashes)
     in ''default-src '' @ quoted ''self'' @ ''; script-src '' @ scriptSrc @ ''; '' @
        ''style-src '' @ quoted ''self'' @ '' '' @ quoted ''unsafe-inline'' @ ''; img-src '' @ quoted ''self'' @ '' data:; connect-src '' @ quoted ''self'' @ ''; '' @
        ''frame-ancestors '' @ quoted ''none'' @ ''; base-uri '' @ quoted ''self'')"

definition securityHeaders :: "string \<Rightarrow> web_resp \<Rightarrow> web_resp" where
  "securityHeaders csp r = r\<lparr>wr_Header := [(''X-Content-Type-Options'', ''nosniff''), (''X-Frame-Options'', ''DENY''), (''Referrer-Policy'', ''no-referrer''),
    (''Content-Security-Policy'', csp)] @ wr_Header r\<rparr>"

section \<open>The listeners\<close>

text \<open>What a path of the browser listener is handed to, once the base path is stripped: the API, the health check, or the application.\<close>

datatype http_target = ToApi "string list" | ToHealth | ToSpa string | NotFound

definition http_route :: "string \<Rightarrow> string \<Rightarrow> http_target" where
  "http_route base url =
    (case (if base = [] then Some url
           else if url = base \<or> has_prefix url (base @ ''/'') then Some (drop (length base) url) else None) of
       None \<Rightarrow> NotFound
     | Some u \<Rightarrow>
         if has_prefix u ''/api/'' then ToApi (split_on (CHR ''/'') (drop 5 u))
         else if u = ''/healthz'' then ToHealth
         else ToSpa u)"

section \<open>Theorems\<close>

definition proper_part :: "string \<Rightarrow> bool" where "proper_part p = (p \<noteq> [] \<and> p \<noteq> ''.'' \<and> p \<noteq> ''..'')"

lemma clean_parts_safe: "list_all proper_part acc \<Longrightarrow> list_all proper_part (clean_parts acc ps)"
proof (induction acc ps rule: clean_parts.induct)
  case (2 acc p ps)
  have tl: "list_all proper_part (tl acc)" using "2.prems" by (cases acc) auto
  consider (skip) "p = [] \<or> p = ''.''" | (up) "\<not> (p = [] \<or> p = ''.'')" "p = ''..''" | (keep) "\<not> (p = [] \<or> p = ''.'')" "p \<noteq> ''..''"
    by blast
  then show ?case
  proof cases
    case skip
    with "2.IH"(1) [OF skip "2.prems"] show ?thesis by (simp only: clean_parts.simps if_True)
  next
    case up
    note step = clean_parts.simps(2) [of acc p ps, unfolded if_not_P [OF up(1)] if_P [OF up(2)]]
    show ?thesis unfolding step by (rule "2.IH"(2) [OF up tl])
  next
    case keep
    note step = clean_parts.simps(2) [of acc p ps, unfolded if_not_P [OF keep(1)] if_not_P [OF keep(2)]]
    have "proper_part p" using keep by (simp add: proper_part_def)
    then have "list_all proper_part (p # acc)" using "2.prems" by simp
    then show ?thesis unfolding step by (rule "2.IH"(3) [OF keep])
  qed
qed (simp add: list_all_iff)

lemma clean_parts_from: "set (clean_parts acc ps) \<subseteq> set acc \<union> set ps"
proof (induction acc ps rule: clean_parts.induct)
  case (2 acc p ps)
  have "set (tl acc) \<subseteq> set acc" by (cases acc) auto
  with 2 show ?case by auto
qed simp

lemma Clean_parts:
  assumes "drop 1 (Clean url) \<noteq> []"
  shows "split_on (CHR ''/'') (drop 1 (Clean url)) = clean_parts [] (split_on (CHR ''/'') url)"
proof -
  let ?ps = "clean_parts [] (split_on (CHR ''/'') url)"
  have "?ps \<noteq> []" using assms by (auto simp: Clean_def)
  moreover have "CHR ''/'' \<notin> set p" if "p \<in> set ?ps" for p
    using that clean_parts_from [of "[]" "split_on (CHR ''/'') url"] split_on_free by auto
  ultimately show ?thesis by (simp add: Clean_def split_join)
qed

text \<open>
  Whatever path a browser asks for, the answer is the page with its base path, or a file of the embedded application whose path
  has no empty, \<^verbatim>\<open>.\<close> or \<^verbatim>\<open>..\<close> component, or a redirection to one.
\<close>

theorem spa_stays_inside:
  "let r = spaHandler (Some files) base url in
    wr_Body r = loadIndex files base \<or> wr_Status r = 301 \<or>
    (\<exists>p. files p = Some (File (wr_Body r)) \<and> list_all proper_part (split_on (CHR ''/'') p))"
proof -
  let ?p = "drop 1 (Clean (''/'' @ url))"
  have same: "Clean url = Clean (''/'' @ url)" by (simp add: Clean_def)
  show ?thesis
  proof (cases "?p = [] \<or> \<not> exists_file files ?p")
    case True
    then show ?thesis by (simp add: spaHandler_def Let_def)
  next
    case False
    then obtain b where b: "files ?p = Some (File b)" by (auto simp: exists_file_def split: option.splits dir_entry.splits)
    have "list_all proper_part (split_on (CHR ''/'') ?p)"
      using Clean_parts [of "''/'' @ url"] False clean_parts_safe [of "[]"] by simp
    moreover have "wr_Status (FileServer files url) = 301 \<or> wr_Body (FileServer files url) = b"
      using b by (simp add: FileServer_def Let_def same)
    ultimately show ?thesis using False b by (auto simp: spaHandler_def Let_def)
  qed
qed

end
