(* ===== verification/Gateway_Sessions.thy ===== *)
theory Gateway_Sessions
  imports Backend_Gateway
begin

text \<open>
  The sessions of \<^verbatim>\<open>internal/backend/gateway.go\<close> as they run beside each other: every stream has a goroutine in
  \<^verbatim>\<open>Session\<close>, jobs are dispatched by the handlers of requests, and a reload replaces the registry and pushes the
  new assignments. \<open>session_open\<close> of \<open>Backend_Gateway\<close> is the opening of one session without interruption; here its
  steps may be interleaved with everything else.
\<close>

section \<open>The steps of a session\<close>

text \<open>
  Where the goroutine of a connection is: not begun, registered, welcomed, holding the assignment it has read but not
  sent, in the loop that receives, returned.
\<close>

datatype handler = Idle | Added | Welcomed | Holding Assignment | Serving | Ended

definition session_add :: "instant \<Rightarrow> conn \<Rightarrow> string \<Rightarrow> Hello \<Rightarrow> Gateway \<Rightarrow> Gateway" where
  "session_add now c site hello g =
    g\<lparr>gw_conns := (gw_conns g)(c := \<lparr>cn_site = site, cn_hello = hello, cn_connectedAt = now, cn_assignmentVersion = 0,
        cn_pingNonce = 0, cn_pingSentAt = 0, cn_rttUs = 0, cn_out = []\<rparr>),
      gw_agents := addAgent site c (gw_agents g)\<rparr>"

text \<open>The deferred \<^verbatim>\<open>removeAgent\<close>.\<close>

definition session_leave :: "conn \<Rightarrow> Gateway \<Rightarrow> Gateway" where
  "session_leave c g = g\<lparr>gw_agents := removeAgent (cn_site (gw_conns g c)) c (gw_agents g)\<rparr>"

definition session_welcome :: "(conn \<Rightarrow> bool) \<Rightarrow> conn \<Rightarrow> Gateway \<Rightarrow> Gateway \<times> handler" where
  "session_welcome alive c g =
    (let (g, ok) = conn_send alive c (Welcome (cn_site (gw_conns g c))) g
     in if ok then (g, Welcomed) else (session_leave c g, Ended))"

definition session_serve :: "conn \<Rightarrow> Gateway \<Rightarrow> Gateway" where
  "session_serve c g = g\<lparr>gw_conns := (gw_conns g)(c := (gw_conns g c)\<lparr>cn_rttUs := - 1\<rparr>)\<rparr>"

definition session_fetch :: "conn \<Rightarrow> Gateway \<Rightarrow> Gateway \<times> handler" where
  "session_fetch c g =
    (case gw_reg g of
       None \<Rightarrow> (session_serve c g, Serving)
     | Some reg \<Rightarrow> (g, Holding (AssignmentFor reg (cn_site (gw_conns g c)))))"

definition session_assign :: "(conn \<Rightarrow> bool) \<Rightarrow> conn \<Rightarrow> Assignment \<Rightarrow> Gateway \<Rightarrow> Gateway \<times> handler" where
  "session_assign alive c as g =
    (let (g, ok) = conn_send alive c (AssignmentMsg as) g
     in if ok
        then (session_serve c (g\<lparr>gw_conns := (gw_conns g)(c := (gw_conns g c)\<lparr>cn_assignmentVersion := as_Version as\<rparr>)\<rparr>), Serving)
        else (session_leave c g, Ended))"

text \<open>
  A message of the agent in the loop. An event goes where \<open>route\<close> says and leaves the gateway alone; a heartbeat
  and a second Hello are ignored.
\<close>

definition session_recv :: "instant \<Rightarrow> conn \<Rightarrow> AgentMessage \<Rightarrow> Gateway \<Rightarrow> Gateway" where
  "session_recv now c m g = (case m of PongMsg nonce \<Rightarrow> onPong now c nonce g | _ \<Rightarrow> g)"

section \<open>Sessions, requests and reloads together\<close>

datatype reload = Quiet | Replaced | Pushing "conn list"

text \<open>
  \<open>gs_alive\<close>: whether a send on the stream of a connection succeeds; a broken stream does not recover. Two components
  record what happened and influence nothing: \<open>gs_history\<close>, the registries so far, and \<open>gs_overtaken\<close>, the connections whose goroutine
  had read its assignment and not sent it when a reload replaced the registry, until a reload reaches them.
\<close>

record gw_sys =
  gs_gw :: Gateway
  gs_handler :: "conn \<Rightarrow> handler"
  gs_alive :: "conn \<Rightarrow> bool"
  gs_reload :: reload
  gs_history :: "MonitorRegistry list"
  gs_overtaken :: "conn set"

definition handled :: "conn \<Rightarrow> Gateway \<times> handler \<Rightarrow> gw_sys \<Rightarrow> gw_sys" where
  "handled c r y = y\<lparr>gs_gw := fst r, gs_handler := (gs_handler y)(c := snd r)\<rparr>"

inductive gateway_step :: "gw_sys \<Rightarrow> gw_sys \<Rightarrow> bool" where
  connect: "\<lbrakk>gs_handler y c = Idle; authSite (gs_gw y) tok hello = Inr site\<rbrakk> \<Longrightarrow>
    gateway_step y (handled c (session_add now c site hello (gs_gw y), Added) y)"
| refused: "gs_handler y c = Idle \<Longrightarrow> gateway_step y (handled c (gs_gw y, Ended) y)"
| greet: "gs_handler y c = Added \<Longrightarrow> gateway_step y (handled c (session_welcome (gs_alive y) c (gs_gw y)) y)"
| fetch: "gs_handler y c = Welcomed \<Longrightarrow> gateway_step y (handled c (session_fetch c (gs_gw y)) y)"
| assign: "gs_handler y c = Holding as \<Longrightarrow> gateway_step y (handled c (session_assign (gs_alive y) c as (gs_gw y)) y)"
| recv: "gs_handler y c = Serving \<Longrightarrow> gateway_step y (y\<lparr>gs_gw := session_recv now c m (gs_gw y)\<rparr>)"
| leave: "gs_handler y c = Serving \<Longrightarrow> gateway_step y (handled c (session_leave c (gs_gw y), Ended) y)"
| tick: "gs_handler y c = Serving \<Longrightarrow> gateway_step y (y\<lparr>gs_gw := ping (gs_alive y) now c (gs_gw y)\<rparr>)"
| broken: "gateway_step y (y\<lparr>gs_alive := (gs_alive y)(c := False)\<rparr>)"
| start_job: "gateway_step y (y\<lparr>gs_gw := fst (gw_StartJob (gs_alive y) site job run (gs_gw y))\<rparr>)"
| cancel_job: "gateway_step y (y\<lparr>gs_gw := CancelJob (gs_alive y) site jid (gs_gw y)\<rparr>)"
| end_job: "gateway_step y (y\<lparr>gs_gw := EndJob jid (gs_gw y)\<rparr>)"
| replace: "\<lbrakk>gs_reload y = Quiet; gw_reg (gs_gw y) = Some reg; new = registry_Replace mons reg\<rbrakk> \<Longrightarrow>
    gateway_step y (y\<lparr>gs_gw := (gs_gw y)\<lparr>gw_reg := Some new\<rparr>, gs_reload := Replaced, gs_history := gs_history y @ [new],
      gs_overtaken := gs_overtaken y \<union> {c. \<exists>as. gs_handler y c = Holding as}\<rparr>)"
| snapshot: "\<lbrakk>gs_reload y = Replaced; distinct cs; set cs = snd ` set (gw_agents (gs_gw y))\<rbrakk> \<Longrightarrow>
    gateway_step y (y\<lparr>gs_reload := Pushing cs\<rparr>)"
| push: "\<lbrakk>gs_reload y = Pushing (c # cs); gw_reg (gs_gw y) = Some reg\<rbrakk> \<Longrightarrow>
    gateway_step y (y\<lparr>gs_gw := push_assignment (gs_alive y) reg c (gs_gw y), gs_reload := Pushing cs,
      gs_overtaken := (if gs_handler y c = Serving then gs_overtaken y - {c} else gs_overtaken y)\<rparr>)"
| pushed: "gs_reload y = Pushing [] \<Longrightarrow> gateway_step y (y\<lparr>gs_reload := Quiet\<rparr>)"

definition gateway_start :: "Config \<Rightarrow> gw_sys \<Rightarrow> bool" where
  "gateway_start cfg y = (\<exists>conns. let reg = NewMonitorRegistry (cf_Monitors cfg)
    in y = \<lparr>gs_gw = (NewGateway cfg conns)\<lparr>gw_reg := Some reg\<rparr>, gs_handler = (\<lambda>_. Idle), gs_alive = (\<lambda>_. True), gs_reload = Quiet,
      gs_history = [reg], gs_overtaken = {}\<rparr>)"

section \<open>What a session sees of the gateway\<close>

text \<open>The assignments sent on a connection, in order.\<close>

definition assignments :: "BackendMessage list \<Rightarrow> Assignment list" where
  "assignments out = concat (map (\<lambda>m. case m of AssignmentMsg as \<Rightarrow> [as] | _ \<Rightarrow> []) out)"

definition sent_to :: "Gateway \<Rightarrow> conn \<Rightarrow> Assignment list" where
  "sent_to g c = assignments (cn_out (gw_conns g c))"

definition site_of :: "Gateway \<Rightarrow> conn \<Rightarrow> string" where
  "site_of g c = cn_site (gw_conns g c)"

lemma assignments_append [simp]: "assignments (xs @ ys) = assignments xs @ assignments ys"
  by (simp add: assignments_def)

lemma assignments_simps [simp]:
  "assignments [] = []" "assignments [AssignmentMsg as] = [as]" "assignments [Welcome s] = []" "assignments [Start j] = []"
  "assignments [CancelMsg i] = []" "assignments [PingMsg n] = []"
  by (simp_all add: assignments_def)

named_theorems view

lemma conn_send_view [view]:
  "gw_agents (fst (conn_send alive c m g)) = gw_agents g" "gw_reg (fst (conn_send alive c m g)) = gw_reg g"
  "site_of (fst (conn_send alive c m g)) = site_of g"
  "sent_to (fst (conn_send alive c m g)) = (if alive c then (sent_to g)(c := sent_to g c @ assignments [m]) else sent_to g)"
  by (auto simp: conn_send_def site_of_def sent_to_def fun_eq_iff)

lemma session_view [view]:
  "gw_agents (session_add now c site h g) = addAgent site c (gw_agents g)" "gw_reg (session_add now c site h g) = gw_reg g"
  "site_of (session_add now c site h g) = (site_of g)(c := site)" "sent_to (session_add now c site h g) = (sent_to g)(c := [])"
  "gw_agents (session_leave c g) = removeAgent (site_of g c) c (gw_agents g)" "gw_reg (session_leave c g) = gw_reg g"
  "site_of (session_leave c g) = site_of g" "sent_to (session_leave c g) = sent_to g"
  "gw_agents (session_serve c g) = gw_agents g" "gw_reg (session_serve c g) = gw_reg g"
  "site_of (session_serve c g) = site_of g" "sent_to (session_serve c g) = sent_to g"
  by (auto simp: session_add_def session_leave_def session_serve_def site_of_def sent_to_def fun_eq_iff)

lemma version_view [view]:
  "gw_agents (g\<lparr>gw_conns := (gw_conns g)(c := (gw_conns g c)\<lparr>cn_assignmentVersion := v\<rparr>)\<rparr>) = gw_agents g"
  "gw_reg (g\<lparr>gw_conns := (gw_conns g)(c := (gw_conns g c)\<lparr>cn_assignmentVersion := v\<rparr>)\<rparr>) = gw_reg g"
  "site_of (g\<lparr>gw_conns := (gw_conns g)(c := (gw_conns g c)\<lparr>cn_assignmentVersion := v\<rparr>)\<rparr>) = site_of g"
  "sent_to (g\<lparr>gw_conns := (gw_conns g)(c := (gw_conns g c)\<lparr>cn_assignmentVersion := v\<rparr>)\<rparr>) = sent_to g"
  by (auto simp: site_of_def sent_to_def fun_eq_iff)

text \<open>The operations that send no assignment leave all of it alone.\<close>

definition same_view :: "Gateway \<Rightarrow> Gateway \<Rightarrow> bool" where
  "same_view g g' = (gw_agents g' = gw_agents g \<and> gw_reg g' = gw_reg g \<and> site_of g' = site_of g \<and> sent_to g' = sent_to g)"

lemma same_view_send: "assignments [m] = [] \<Longrightarrow> same_view g (fst (conn_send alive c m g))"
  by (auto simp: same_view_def view)

lemma same_view_recv: "same_view g (session_recv now c m g)"
  by (auto simp: same_view_def session_recv_def onPong_def Let_def site_of_def sent_to_def fun_eq_iff split: AgentMessage.split)

lemma same_view_ping: "same_view g (ping alive now c g)"
  by (auto simp: same_view_def ping_def Let_def conn_send_def site_of_def sent_to_def fun_eq_iff)

lemma same_view_jobs: "same_view g (fst (gw_StartJob alive site job run g))" "same_view g (CancelJob alive site jid g)"
  "same_view g (EndJob jid g)"
  by (auto simp: same_view_def gw_StartJob_def CancelJob_def EndJob_def Let_def conn_send_def site_of_def sent_to_def fun_eq_iff
      split: option.split)

lemma push_view:
  "gw_agents (push_assignment alive reg c g) = gw_agents g" "gw_reg (push_assignment alive reg c g) = gw_reg g"
  "site_of (push_assignment alive reg c g) = site_of g"
  "sent_to (push_assignment alive reg c g) =
    (if alive c then (sent_to g)(c := sent_to g c @ [AssignmentFor reg (site_of g c)]) else sent_to g)"
  by (auto simp: push_assignment_def conn_send_def Let_def site_of_def sent_to_def fun_eq_iff)

lemma assign_view:
  assumes "alive c"
  shows "snd (session_assign alive c as g) = Serving" and "gw_agents (fst (session_assign alive c as g)) = gw_agents g"
    and "gw_reg (fst (session_assign alive c as g)) = gw_reg g" and "site_of (fst (session_assign alive c as g)) = site_of g"
    and "sent_to (fst (session_assign alive c as g)) = (sent_to g)(c := sent_to g c @ [as])"
  using assms by (auto simp: session_assign_def conn_send_def view site_of_def sent_to_def fun_eq_iff)

section \<open>The invariant\<close>

text \<open>
  Each part of the invariant is stated over the parts of the state it speaks of: the registered connections \<open>A\<close>, the
  registries so far \<open>H\<close>, the site \<open>st\<close> and the assignments \<open>sn\<close> of a connection, its handler \<open>h\<close> and its stream \<open>al\<close>.
\<close>

definition conns_ok :: "(string \<times> conn) list \<Rightarrow> (conn \<Rightarrow> string) \<Rightarrow> (conn \<Rightarrow> handler) \<Rightarrow> bool" where
  "conns_ok A st h = (distinct (map fst A) \<and> (\<forall>s c. map_of A s = Some c \<longrightarrow> st c = s \<and> h c \<noteq> Idle \<and> h c \<noteq> Ended))"

definition history_ok :: "MonitorRegistry option \<Rightarrow> MonitorRegistry list \<Rightarrow> bool" where
  "history_ok reg H = (H \<noteq> [] \<and> reg = Some (last H) \<and> (\<forall>i < length H. mr_version (H ! i) = of_nat (Suc i)))"

definition holding_ok :: "MonitorRegistry list \<Rightarrow> (conn \<Rightarrow> string) \<Rightarrow> (conn \<Rightarrow> handler) \<Rightarrow> conn set \<Rightarrow> bool" where
  "holding_ok H st h ov = (\<forall>c as. h c = Holding as \<longrightarrow>
    (\<exists>r \<in> set H. as = AssignmentFor r (st c)) \<and> (c \<in> ov \<or> as = AssignmentFor (last H) (st c)))"

definition sent_ok :: "MonitorRegistry list \<Rightarrow> (conn \<Rightarrow> string) \<Rightarrow> (conn \<Rightarrow> Assignment list) \<Rightarrow> (conn \<Rightarrow> handler) \<Rightarrow> bool" where
  "sent_ok H st sn h = (\<forall>c. h c \<noteq> Idle \<and> h c \<noteq> Ended \<longrightarrow> (\<forall>as \<in> set (sn c). \<exists>r \<in> set H. as = AssignmentFor r (st c)))"

definition to_push :: "reload \<Rightarrow> conn \<Rightarrow> bool" where
  "to_push rl c = (case rl of Quiet \<Rightarrow> False | Replaced \<Rightarrow> True | Pushing cs \<Rightarrow> c \<in> set cs)"

definition served_ok :: "(string \<times> conn) list \<Rightarrow> MonitorRegistry list \<Rightarrow> (conn \<Rightarrow> string) \<Rightarrow> (conn \<Rightarrow> Assignment list) \<Rightarrow>
    (conn \<Rightarrow> handler) \<Rightarrow> (conn \<Rightarrow> bool) \<Rightarrow> reload \<Rightarrow> conn set \<Rightarrow> bool" where
  "served_ok A H st sn h al rl ov = (\<forall>c. h c = Serving \<and> map_of A (st c) = Some c \<and> al c \<and> c \<notin> ov \<longrightarrow>
    to_push rl c \<or> (sn c \<noteq> [] \<and> last (sn c) = AssignmentFor (last H) (st c)))"

definition gw_sys_inv :: "gw_sys \<Rightarrow> bool" where
  "gw_sys_inv y =
    (let g = gs_gw y; A = gw_agents g; H = gs_history y; st = site_of g; sn = sent_to g; h = gs_handler y; ov = gs_overtaken y
     in conns_ok A st h \<and> history_ok (gw_reg g) H \<and> holding_ok H st h ov \<and> sent_ok H st sn h \<and>
        served_ok A H st sn h (gs_alive y) (gs_reload y) ov)"

lemma gw_sys_invI:
  assumes "conns_ok (gw_agents (gs_gw y)) (site_of (gs_gw y)) (gs_handler y)" and "history_ok (gw_reg (gs_gw y)) (gs_history y)"
    and "holding_ok (gs_history y) (site_of (gs_gw y)) (gs_handler y) (gs_overtaken y)"
    and "sent_ok (gs_history y) (site_of (gs_gw y)) (sent_to (gs_gw y)) (gs_handler y)"
    and "served_ok (gw_agents (gs_gw y)) (gs_history y) (site_of (gs_gw y)) (sent_to (gs_gw y)) (gs_handler y) (gs_alive y) (gs_reload y)
      (gs_overtaken y)"
  shows "gw_sys_inv y"
  using assms by (simp add: gw_sys_inv_def)

lemma gw_sys_invD:
  assumes "gw_sys_inv y"
  shows "conns_ok (gw_agents (gs_gw y)) (site_of (gs_gw y)) (gs_handler y)" and "history_ok (gw_reg (gs_gw y)) (gs_history y)"
    and "holding_ok (gs_history y) (site_of (gs_gw y)) (gs_handler y) (gs_overtaken y)"
    and "sent_ok (gs_history y) (site_of (gs_gw y)) (sent_to (gs_gw y)) (gs_handler y)"
    and "served_ok (gw_agents (gs_gw y)) (gs_history y) (site_of (gs_gw y)) (sent_to (gs_gw y)) (gs_handler y) (gs_alive y) (gs_reload y)
      (gs_overtaken y)"
  using assms by (simp_all add: gw_sys_inv_def Let_def)

lemma conns_ok_add: "conns_ok A st h \<Longrightarrow> h c = Idle \<Longrightarrow> conns_ok (addAgent site c A) (st(c := site)) (h(c := Added))"
  by (auto simp: conns_ok_def addAgent_def distinct_update update_conv')

lemma conns_ok_handler: "conns_ok A st h \<Longrightarrow> h c \<noteq> Idle \<Longrightarrow> h c \<noteq> Ended \<Longrightarrow> x \<noteq> Idle \<Longrightarrow> x \<noteq> Ended \<Longrightarrow> conns_ok A st (h(c := x))"
  by (auto simp: conns_ok_def)

lemma removeAgent_other: "map_of (removeAgent s c A) t = Some d \<Longrightarrow> map_of A t = Some d"
  by (auto simp: removeAgent_def delete_conv' split: if_splits)

lemma conns_ok_remove:
  assumes "conns_ok A st h"
  shows "conns_ok (removeAgent (st c) c A) st (h(c := Ended))"
proof -
  have k: "st d = s \<and> d \<noteq> c \<and> h d \<noteq> Idle \<and> h d \<noteq> Ended" if "map_of (removeAgent (st c) c A) s = Some d" for s d
  proof -
    have d: "st d = s" "h d \<noteq> Idle" "h d \<noteq> Ended"
      using removeAgent_other [OF that] assms by (simp_all add: conns_ok_def)
    moreover have "d \<noteq> c" using that d(1) by (auto simp: agents.lookup_remove split: if_splits)
    ultimately show ?thesis by simp
  qed
  have "distinct (map fst A)" using assms unfolding conns_ok_def by (rule conjunct1)
  then have "distinct (map fst (removeAgent (st c) c A))" by (simp add: removeAgent_def distinct_delete)
  moreover have "(h(c := Ended)) d \<noteq> Idle" "(h(c := Ended)) d \<noteq> Ended" if "map_of (removeAgent (st c) c A) s = Some d" for s d
    using k [OF that] by auto
  ultimately show ?thesis unfolding conns_ok_def using k by blast
qed

lemma served_ok_remove: "served_ok A H st sn h al rl ov \<Longrightarrow> served_ok (removeAgent s c A) H st sn (h(c := Ended)) al rl ov"
  by (auto simp: served_ok_def dest: removeAgent_other)

lemma served_ok_add:
  "conns_ok A st h \<Longrightarrow> h c = Idle \<Longrightarrow> served_ok A H st sn h al rl ov \<Longrightarrow>
    served_ok (addAgent site c A) H (st(c := site)) (sn(c := [])) (h(c := Added)) al rl ov"
  by (auto simp: served_ok_def addAgent_def update_conv' split: if_splits)

lemma inv_same_view:
  assumes "gw_sys_inv y" and "same_view (gs_gw y) g"
  shows "gw_sys_inv (y\<lparr>gs_gw := g\<rparr>)"
  using assms by (simp add: gw_sys_inv_def same_view_def Let_def)

lemma inv_leave:
  assumes "gw_sys_inv y"
  shows "gw_sys_inv (handled c (session_leave c (gs_gw y), Ended) y)"
  using gw_sys_invD(2-4) [OF assms] conns_ok_remove [OF gw_sys_invD(1) [OF assms], of c]
    served_ok_remove [OF gw_sys_invD(5) [OF assms], of "site_of (gs_gw y) c" c]
  by (intro gw_sys_invI) (auto simp: handled_def view holding_ok_def sent_ok_def)

lemma inv_connect:
  assumes "gw_sys_inv y" and "gs_handler y c = Idle"
  shows "gw_sys_inv (handled c (session_add now c site hello (gs_gw y), Added) y)"
proof -
  note i = gw_sys_invD [OF assms(1)]
  show ?thesis
    using i(2-4) conns_ok_add [OF i(1) assms(2)] served_ok_add [OF i(1) assms(2) i(5)]
    by (intro gw_sys_invI) (auto simp: handled_def view holding_ok_def sent_ok_def)
qed

lemma inv_refused:
  assumes "gw_sys_inv y" and "gs_handler y c = Idle"
  shows "gw_sys_inv (handled c (gs_gw y, Ended) y)"
  using gw_sys_invD [OF assms(1)] assms(2)
  by (intro gw_sys_invI) (auto simp: handled_def conns_ok_def holding_ok_def sent_ok_def served_ok_def)

lemma inv_greet:
  assumes "gw_sys_inv y" and "gs_handler y c = Added"
  shows "gw_sys_inv (handled c (session_welcome (gs_alive y) c (gs_gw y)) y)"
proof (cases "gs_alive y c")
  case True
  then have "session_welcome (gs_alive y) c (gs_gw y) = (fst (conn_send (gs_alive y) c (Welcome (site_of (gs_gw y) c)) (gs_gw y)), Welcomed)"
    by (simp add: session_welcome_def conn_send_def site_of_def)
  moreover have "conns_ok (gw_agents (gs_gw y)) (site_of (gs_gw y)) ((gs_handler y)(c := Welcomed))"
    using gw_sys_invD(1) [OF assms(1)] assms(2) by (intro conns_ok_handler) simp_all
  ultimately show ?thesis
    using gw_sys_invD(2-5) [OF assms(1)] assms(2) True
    by (intro gw_sys_invI) (auto simp: handled_def view holding_ok_def sent_ok_def served_ok_def)
next
  case False
  then have "session_welcome (gs_alive y) c (gs_gw y) = (session_leave c (gs_gw y), Ended)"
    by (simp add: session_welcome_def conn_send_def)
  then show ?thesis using inv_leave [OF assms(1)] by simp
qed

lemma inv_fetch:
  assumes "gw_sys_inv y" and "gs_handler y c = Welcomed"
  shows "gw_sys_inv (handled c (session_fetch c (gs_gw y)) y)"
proof -
  note i = gw_sys_invD [OF assms(1)]
  have "session_fetch c (gs_gw y) = (gs_gw y, Holding (AssignmentFor (last (gs_history y)) (site_of (gs_gw y) c)))"
    using i(2) by (simp add: session_fetch_def history_ok_def site_of_def)
  moreover have "conns_ok (gw_agents (gs_gw y)) (site_of (gs_gw y)) ((gs_handler y)(c := Holding as))" for as
    using i(1) assms(2) by (intro conns_ok_handler) simp_all
  ultimately show ?thesis
    using i(2-5) assms(2)
    by (intro gw_sys_invI) (auto simp: handled_def history_ok_def holding_ok_def sent_ok_def served_ok_def)
qed

lemma inv_assign:
  assumes "gw_sys_inv y" and "gs_handler y c = Holding as"
  shows "gw_sys_inv (handled c (session_assign (gs_alive y) c as (gs_gw y)) y)"
proof (cases "gs_alive y c")
  case True
  note i = gw_sys_invD [OF assms(1)]
  note g = assign_view [of "gs_alive y" c, OF True]
  have "conns_ok (gw_agents (gs_gw y)) (site_of (gs_gw y)) ((gs_handler y)(c := Serving))"
    using i(1) assms(2) by (intro conns_ok_handler) simp_all
  moreover have "\<exists>r \<in> set (gs_history y). as = AssignmentFor r (site_of (gs_gw y) c)"
    "c \<notin> gs_overtaken y \<Longrightarrow> as = AssignmentFor (last (gs_history y)) (site_of (gs_gw y) c)"
    using i(3) assms(2) by (auto simp: holding_ok_def)
  ultimately show ?thesis
    using i(2-5) assms(2)
    by (intro gw_sys_invI) (auto simp: handled_def g holding_ok_def sent_ok_def served_ok_def)
next
  case False
  then have "session_assign (gs_alive y) c as (gs_gw y) = (session_leave c (gs_gw y), Ended)"
    by (simp add: session_assign_def conn_send_def)
  then show ?thesis using inv_leave [OF assms(1)] by simp
qed

lemma inv_replace:
  assumes "gw_sys_inv y" and "gs_reload y = Quiet" and "gw_reg (gs_gw y) = Some reg" and "new = registry_Replace mons reg"
  shows "gw_sys_inv (y\<lparr>gs_gw := (gs_gw y)\<lparr>gw_reg := Some new\<rparr>, gs_reload := Replaced, gs_history := gs_history y @ [new],
      gs_overtaken := gs_overtaken y \<union> {c. \<exists>as. gs_handler y c = Holding as}\<rparr>)"
proof -
  note i = gw_sys_invD [OF assms(1)]
  have v: "site_of ((gs_gw y)\<lparr>gw_reg := Some new\<rparr>) = site_of (gs_gw y)" "sent_to ((gs_gw y)\<lparr>gw_reg := Some new\<rparr>) = sent_to (gs_gw y)"
    by (simp_all add: site_of_def sent_to_def fun_eq_iff)
  obtain n where n: "length (gs_history y) = Suc n" using i(2) by (cases "gs_history y") (auto simp: history_ok_def)
  then have "gs_history y ! n = reg" using i(2) assms(3) by (auto simp: history_ok_def last_conv_nth)
  then have "mr_version reg = of_nat (length (gs_history y))" using i(2) n by (auto simp: history_ok_def)
  then have "history_ok (Some new) (gs_history y @ [new])"
    using i(2) assms(4) by (auto simp: history_ok_def nth_append registry_Replace_def registry_set_def less_Suc_eq)
  then show ?thesis using i(1,3,4)
    by (intro gw_sys_invI) (auto simp: v holding_ok_def sent_ok_def served_ok_def to_push_def)
qed

lemma inv_push:
  assumes "gw_sys_inv y" and "gs_reload y = Pushing (c # cs)" and "gw_reg (gs_gw y) = Some reg"
  shows "gw_sys_inv (y\<lparr>gs_gw := push_assignment (gs_alive y) reg c (gs_gw y), gs_reload := Pushing cs,
      gs_overtaken := (if gs_handler y c = Serving then gs_overtaken y - {c} else gs_overtaken y)\<rparr>)"
proof -
  note i = gw_sys_invD [OF assms(1)]
  have reg: "reg = last (gs_history y)" "reg \<in> set (gs_history y)" using i(2) assms(3) by (auto simp: history_ok_def)
  show ?thesis
    using i assms(2) reg(2)
    by (intro gw_sys_invI) (auto simp: push_view holding_ok_def sent_ok_def served_ok_def to_push_def reg(1))
qed

lemma inv_snapshot:
  assumes "gw_sys_inv y" and "set cs = snd ` set (gw_agents (gs_gw y))"
  shows "gw_sys_inv (y\<lparr>gs_reload := Pushing cs\<rparr>)"
proof -
  have "c \<in> set cs" if "map_of (gw_agents (gs_gw y)) s = Some c" for c s
    using map_of_SomeD [OF that] assms(2) by force
  then show ?thesis using gw_sys_invD(1-4) [OF assms(1)]
    by (intro gw_sys_invI) (auto simp: served_ok_def to_push_def)
qed

lemma gateway_step_inv:
  assumes "gw_sys_inv y" and "gateway_step y y'"
  shows "gw_sys_inv y'"
  using assms(2,1)
proof (induction rule: gateway_step.induct)
  case (broken y c)
  then show ?case by (simp add: gw_sys_inv_def served_ok_def Let_def)
next
  case (pushed y)
  then show ?case by (simp add: gw_sys_inv_def served_ok_def to_push_def Let_def)
qed (simp_all add: inv_connect inv_refused inv_greet inv_fetch inv_assign inv_leave inv_replace inv_push inv_snapshot inv_same_view
    same_view_recv same_view_ping same_view_jobs)

interpretation gateway: invariant_system "gateway_start cfg" gateway_step gw_sys_inv for cfg
proof
  show "gw_sys_inv y" if "gateway_start cfg y" for y
    using that by (auto simp: gateway_start_def Let_def gw_sys_inv_def conns_ok_def history_ok_def holding_ok_def sent_ok_def served_ok_def
      NewGateway_def NewMonitorRegistry_def registry_set_def)
  show "gw_sys_inv t" if "gw_sys_inv s" "gateway_step s t" for s t
    using that by (rule gateway_step_inv)
qed

section \<open>Theorems\<close>

text \<open>A session that is opened without interruption takes the steps of \<open>session_open\<close>.\<close>

lemma session_open_steps:
  assumes "gs_handler y c = Idle" and "session_open (gs_alive y) now c auth (HelloMsg hello) (gs_gw y) = (g, Inr site)"
  shows "gateway_step\<^sup>*\<^sup>* y (handled c (g, Serving) y)"
proof -
  let ?al = "gs_alive y"
  have site: "authSite (gs_gw y) (bearerToken auth) hello = Inr site"
    using assms(2) by (auto simp: session_open_def split: sum.splits prod.splits if_splits)
  have al: "?al c"
    using assms(2) site by (auto simp: session_open_def conn_send_def Let_def split: if_splits)
  define g1 where "g1 = session_add now c site hello (gs_gw y)"
  define g2 where "g2 = fst (session_welcome ?al c g1)"
  have w: "session_welcome ?al c g1 = (g2, Welcomed)" using al by (simp add: g2_def session_welcome_def conn_send_def)
  have 1: "gateway_step y (handled c (g1, Added) y)" unfolding g1_def by (rule gateway_step.connect [OF assms(1) site])
  have 2: "gateway_step (handled c (g1, Added) y) (handled c (g2, Welcomed) y)"
    using gateway_step.greet [of "handled c (g1, Added) y" c] w by (simp add: handled_def)
  show ?thesis
  proof (cases "gw_reg (gs_gw y)")
    case None
    then have "session_fetch c g2 = (g, Serving)"
      using assms(2) site al by (simp add: session_fetch_def g2_def g1_def session_welcome_def session_add_def session_open_def session_serve_def
          conn_send_def Let_def)
    then have "gateway_step (handled c (g2, Welcomed) y) (handled c (g, Serving) y)"
      using gateway_step.fetch [of "handled c (g2, Welcomed) y" c] by (simp add: handled_def)
    with 1 2 show ?thesis by (meson rtranclp.rtrancl_into_rtrancl rtranclp.rtrancl_refl)
  next
    case (Some reg)
    let ?as = "AssignmentFor reg site"
    have "session_fetch c g2 = (g2, Holding ?as)"
      using Some al by (simp add: session_fetch_def g2_def g1_def session_welcome_def session_add_def conn_send_def)
    then have 3: "gateway_step (handled c (g2, Welcomed) y) (handled c (g2, Holding ?as) y)"
      using gateway_step.fetch [of "handled c (g2, Welcomed) y" c] by (simp add: handled_def)
    have "session_assign ?al c ?as g2 = (g, Serving)"
      using assms(2) site al Some by (simp add: session_assign_def g2_def g1_def session_welcome_def session_add_def session_open_def
          session_serve_def conn_send_def Let_def)
    then have "gateway_step (handled c (g2, Holding ?as) y) (handled c (g, Serving) y)"
      using gateway_step.assign [of "handled c (g2, Holding ?as) y" c ?as] by (simp add: handled_def)
    with 1 2 3 show ?thesis by (meson rtranclp.rtrancl_into_rtrancl rtranclp.rtrancl_refl)
  qed
qed

text \<open>
  What the interleaving allows. The demonstrations begin with one stream, of the site \<^verbatim>\<open>fra\<close>, whose goroutine has registered
  it (\<open>race1\<close>), has sent the welcome and has read the assignment (\<open>race2\<close>).
\<close>

definition race0 :: gw_sys where
  "race0 = \<lparr>gs_gw = (NewGateway demo_config (\<lambda>_. demo_conn))\<lparr>gw_reg := Some (NewMonitorRegistry [demo_mon])\<rparr>, gs_handler = (\<lambda>_. Idle),
    gs_alive = (\<lambda>_. True), gs_reload = Quiet, gs_history = [NewMonitorRegistry [demo_mon]], gs_overtaken = {}\<rparr>"
definition race1 :: gw_sys where
  "race1 = handled 1 (session_add 0 1 ''fra'' demo_hello (gs_gw race0), Added) race0"
definition race2 :: gw_sys where
  "race2 = (let y = handled 1 (session_welcome (\<lambda>_. True) 1 (gs_gw race1)) race1 in handled 1 (session_fetch 1 (gs_gw y)) y)"

lemma race0_start: "gateway_start demo_config race0"
  unfolding gateway_start_def race0_def Let_def
  by (intro exI [of _ "\<lambda>_. demo_conn"]) (simp add: demo_config_def)

lemma race1_steps: "gateway_step race0 race1"
  unfolding race1_def
  by (rule gateway_step.connect [of _ _ "''t1''"]) (simp_all add: race0_def authSite_def NewGateway_def demo_config_def)

lemma race2_steps: "gateway_step\<^sup>*\<^sup>* race1 race2"
proof -
  let ?y = "handled 1 (session_welcome (\<lambda>_. True) 1 (gs_gw race1)) race1"
  have "gs_alive race1 = (\<lambda>_. True)" by (simp add: race1_def handled_def race0_def)
  then have "gateway_step race1 ?y" using gateway_step.greet [of race1 1] by (simp add: race1_def handled_def)
  moreover have "gateway_step ?y race2"
    using gateway_step.fetch [of ?y 1] by (simp add: race2_def handled_def session_welcome_def conn_send_def Let_def)
  ultimately show ?thesis by (meson rtranclp.rtrancl_into_rtrancl rtranclp.rtrancl_refl)
qed

text \<open>
  A reload between the reading and the sending of an assignment sends the new assignment first and the old one after it: the reload is
  over, the session is open, and the agent is left with the monitors of before.
\<close>

lemma stale_assignment:
  "\<exists>y reg as. gateway_step\<^sup>*\<^sup>* race0 y \<and> gs_reload y = Quiet \<and> gs_handler y 1 = Serving \<and> gs_alive y 1 \<and>
    map_of (gw_agents (gs_gw y)) ''fra'' = Some 1 \<and> gw_reg (gs_gw y) = Some reg \<and> last (sent_to (gs_gw y) 1) = as \<and>
    as_Monitors as \<noteq> as_Monitors (AssignmentFor reg ''fra'')"
proof -
  let ?r = "NewMonitorRegistry [demo_mon]" and ?new = "registry_Replace [] (NewMonitorRegistry [demo_mon])"
  let ?as = "AssignmentFor ?r ''fra''"
  define y3 where "y3 = race2\<lparr>gs_gw := (gs_gw race2)\<lparr>gw_reg := Some ?new\<rparr>, gs_reload := Replaced, gs_history := gs_history race2 @ [?new],
      gs_overtaken := gs_overtaken race2 \<union> {c. \<exists>as. gs_handler race2 c = Holding as}\<rparr>"
  define y4 where "y4 = y3\<lparr>gs_reload := Pushing [1]\<rparr>"
  define y5 where "y5 = y4\<lparr>gs_gw := push_assignment (gs_alive y4) ?new 1 (gs_gw y4), gs_reload := Pushing [],
      gs_overtaken := (if gs_handler y4 1 = Serving then gs_overtaken y4 - {1} else gs_overtaken y4)\<rparr>"
  define y6 where "y6 = y5\<lparr>gs_reload := Quiet\<rparr>"
  define y7 where "y7 = handled 1 (session_assign (gs_alive y6) 1 ?as (gs_gw y6)) y6"
  note eval = race0_def race1_def race2_def handled_def session_add_def session_welcome_def session_fetch_def conn_send_def Let_def
    NewGateway_def demo_config_def addAgent_def
  have 2: "gateway_step\<^sup>*\<^sup>* race0 race2" using race1_steps race2_steps by (rule converse_rtranclp_into_rtranclp)
  have "gateway_step race2 y3" unfolding y3_def by (rule gateway_step.replace [of _ ?r _ "[]"]) (simp_all add: eval)
  then have 3: "gateway_step\<^sup>*\<^sup>* race0 y3" by (rule rtranclp.rtrancl_into_rtrancl [OF 2])
  have "gateway_step y3 y4" unfolding y4_def by (rule gateway_step.snapshot) (simp_all add: y3_def eval)
  then have 4: "gateway_step\<^sup>*\<^sup>* race0 y4" by (rule rtranclp.rtrancl_into_rtrancl [OF 3])
  have "gateway_step y4 y5" unfolding y5_def by (rule gateway_step.push) (simp_all add: y4_def y3_def)
  then have 5: "gateway_step\<^sup>*\<^sup>* race0 y5" by (rule rtranclp.rtrancl_into_rtrancl [OF 4])
  have "gateway_step y5 y6" unfolding y6_def by (rule gateway_step.pushed) (simp add: y5_def)
  then have 6: "gateway_step\<^sup>*\<^sup>* race0 y6" by (rule rtranclp.rtrancl_into_rtrancl [OF 5])
  have "gateway_step y6 y7" unfolding y7_def by (rule gateway_step.assign) (simp add: y6_def y5_def y4_def y3_def eval)
  then have 7: "gateway_step\<^sup>*\<^sup>* race0 y7" by (rule rtranclp.rtrancl_into_rtrancl [OF 6])
  have r2: "gs_alive race2 1" "map_of (gw_agents (gs_gw race2)) ''fra'' = Some 1" by (simp_all add: eval)
  have g6: "gs_alive y6 1" "map_of (gw_agents (gs_gw y6)) ''fra'' = Some 1" "gw_reg (gs_gw y6) = Some ?new" "gs_reload y6 = Quiet"
    using r2 by (simp_all add: y6_def y5_def y4_def y3_def push_view)
  have "gs_reload y7 = Quiet \<and> gs_handler y7 1 = Serving \<and> gs_alive y7 1 \<and> map_of (gw_agents (gs_gw y7)) ''fra'' = Some 1 \<and>
      gw_reg (gs_gw y7) = Some ?new \<and> last (sent_to (gs_gw y7) 1) = ?as"
    using g6 by (simp add: y7_def handled_def assign_view)
  moreover have "as_Monitors ?as \<noteq> as_Monitors (AssignmentFor ?new ''fra'')"
    by (simp add: AssignmentFor_def NewMonitorRegistry_def registry_Replace_def registry_set_def registry_get_def siteMatches_def demo_mon_def)
  ultimately show ?thesis using 7 by blast
qed

text \<open>
  The connection is registered before the welcome is sent, so that a job may be sent first; the agent takes that
  for an error and drops the session.
\<close>

lemma job_before_welcome:
  "\<exists>y. gateway_step\<^sup>*\<^sup>* race0 y \<and> gs_handler y 1 = Added \<and> cn_out (gw_conns (gs_gw y) 1) = [Start job]"
proof -
  let ?y = "race1\<lparr>gs_gw := fst (gw_StartJob (gs_alive race1) ''fra'' job run (gs_gw race1))\<rparr>"
  have "gateway_step race1 ?y" by (rule gateway_step.start_job)
  with race1_steps have "gateway_step\<^sup>*\<^sup>* race0 ?y" by (meson rtranclp.rtrancl_into_rtrancl rtranclp.rtrancl_refl)
  moreover have "gs_handler ?y 1 = Added" "cn_out (gw_conns (gs_gw ?y) 1) = [Start job]"
    by (simp_all add: race1_def race0_def handled_def session_add_def gw_StartJob_def conn_send_def addAgent_def NewGateway_def Let_def)
  ultimately show ?thesis by blast
qed

text \<open>
  When a second stream of a site replaces the first and then ends, the site is not connected although the first session
  is still open.
\<close>

lemma orphaned_session:
  "\<exists>y. gateway_step\<^sup>*\<^sup>* race0 y \<and> gs_handler y 1 = Serving \<and> gs_alive y 1 \<and> cn_site (gw_conns (gs_gw y) 1) = ''fra'' \<and>
    \<not> Connected (gs_gw y) ''fra''"
proof -
  define opened where "opened c y = fst (session_open (\<lambda>_. True) 0 c (Some [''Bearer t1'']) (HelloMsg demo_hello) (gs_gw y))" for c and y :: gw_sys
  define y1 where "y1 = handled 1 (opened 1 race0, Serving) race0"
  define y2 where "y2 = handled 2 (opened 2 y1, Serving) y1"
  define y3 where "y3 = handled 2 (session_leave 2 (gs_gw y2), Ended) y2"
  note eval = opened_def race0_def handled_def session_open_def bearerToken_def authSite_def NewGateway_def demo_config_def Let_def conn_send_def
    addAgent_def
  have "gateway_step\<^sup>*\<^sup>* race0 y1" unfolding y1_def
    by (rule session_open_steps [of _ _ 0 "Some [''Bearer t1'']" demo_hello _ "''fra''"]) (simp_all add: eval)
  moreover have "gateway_step\<^sup>*\<^sup>* y1 y2" unfolding y2_def
    by (rule session_open_steps [of _ _ 0 "Some [''Bearer t1'']" demo_hello _ "''fra''"]) (simp_all add: y1_def eval)
  moreover have "gateway_step y2 y3" unfolding y3_def by (rule gateway_step.leave) (simp add: y2_def handled_def)
  ultimately have "gateway_step\<^sup>*\<^sup>* race0 y3" by (meson rtranclp.rtrancl_into_rtrancl rtranclp_trans)
  moreover have "gs_handler y3 1 = Serving" "gs_alive y3 1" "cn_site (gw_conns (gs_gw y3) 1) = ''fra''" "\<not> Connected (gs_gw y3) ''fra''"
    by (simp_all add: y3_def y2_def y1_def eval session_leave_def removeAgent_def Connected_def)
  ultimately show ?thesis by blast
qed

end
