(* ===== verification/Monitor_Delivery.thy ===== *)
theory Monitor_Delivery
  imports Agent_Theorems Gateway_Sessions
begin

text \<open>
  The monitors of the configuration on their way to the agents: from the registry through the assignments the gateway
  sends (\<open>Gateway_Sessions\<close>) to the monitor goroutines that an agent runs (\<open>Agent_Jobs\<close>).
\<close>

section \<open>What an agent runs\<close>

text \<open>A session of the agent that has handled the messages \<open>ms\<close>, its jobs and monitors running beside.\<close>

inductive session_run :: "nat \<Rightarrow> agent \<Rightarrow> BackendMessage list \<Rightarrow> agent \<Rightarrow> bool" for N s0 where
  begun: "session_run N s0 [] s0"
| works: "session_run N s0 ms s \<Longrightarrow> agent_work s t \<Longrightarrow> session_run N s0 ms t"
| receives: "session_run N s0 ms s \<Longrightarrow> length (ag_runners (on_message m s)) \<le> N \<Longrightarrow> session_run N s0 (ms @ [m]) (on_message m s)"

lemma session_run_steps: "session_run N s0 ms s \<Longrightarrow> (agent_step N)\<^sup>*\<^sup>* s0 s"
  by (induction rule: session_run.induct) (auto intro: rtranclp.rtrancl_into_rtrancl agent_step.intros)

text \<open>The goroutines whose context is not cancelled, and the monitors they fire.\<close>

definition active :: "ctx list \<Rightarrow> runner list \<Rightarrow> runner list" where
  "active dn rn = filter (\<lambda>r. ru_ctx r \<notin> set dn) rn"

definition scheduled :: "agent \<Rightarrow> pb_Monitor list" where
  "scheduled s = map ru_monitor (active (ag_done s) (ag_runners s))"

text \<open>Contexts are used once, and those of the active goroutines are the ones the scheduler can cancel.\<close>

definition sched_ok :: "ctx \<Rightarrow> ctx list \<Rightarrow> runner list \<Rightarrow> ctx list \<Rightarrow> live_job list \<Rightarrow> bool" where
  "sched_ok nxt dn rn cn lv = ((\<forall>r \<in> set rn. ru_ctx r < nxt) \<and> (\<forall>c \<in> set dn. c < nxt) \<and> map ru_ctx (active dn rn) = cn \<and>
    (\<forall>j \<in> set lv. lj_ctx j < nxt \<and> lj_ctx j \<notin> set cn))"

definition sched_inv :: "agent \<Rightarrow> bool" where
  "sched_inv s = sched_ok (ag_next s) (ag_done s) (ag_runners s) (ag_cancels s) (ag_live s)"

lemma active_extend: "\<forall>c \<in> set D. c \<notin> ru_ctx ` set (active dn rn) \<Longrightarrow> active (dn @ D) rn = active dn rn"
  by (auto simp: active_def intro!: filter_cong)

lemma active_remove1: "ru_ctx r \<in> set dn \<Longrightarrow> active dn (remove1 r rn) = active dn rn"
  by (induction rn) (auto simp: active_def)

lemma sched_ok_done:
  assumes "sched_ok nxt dn rn cn lv" and "\<forall>c \<in> set D. c < nxt \<and> c \<notin> set cn" and "set lv' \<subseteq> set lv"
  shows "sched_ok nxt (dn @ D) rn cn lv'" and "active (dn @ D) rn = active dn rn"
proof -
  have "ru_ctx ` set (active dn rn) = set cn" using assms(1) by (auto simp: sched_ok_def)
  then show a: "active (dn @ D) rn = active dn rn" using assms(2) by (intro active_extend) auto
  show "sched_ok nxt (dn @ D) rn cn lv'" using assms by (auto simp: sched_ok_def a)
qed

text \<open>What the scheduler depends on.\<close>

definition sched_view :: "agent \<Rightarrow> ctx \<times> ctx list \<times> runner list \<times> ctx list \<times> live_job list \<times> u64" where
  "sched_view s = (ag_next s, ag_done s, ag_runners s, ag_cancels s, ag_live s, ag_version s)"

lemma sched_view_eq: "sched_view t = sched_view s \<Longrightarrow> sched_inv t = sched_inv s \<and> scheduled t = scheduled s \<and> ag_version t = ag_version s"
  by (simp add: sched_view_def sched_inv_def scheduled_def)

lemma sched_view_sends: "sched_view (send_event conv s) = sched_view s" "sched_view (sendError now jid code msg s) = sched_view s"
  "sched_view (heartbeat s) = sched_view s" "sched_view (send_msg m s) = sched_view s"
  "sched_view (s\<lparr>ag_starting := x\<rparr>) = sched_view s"
  by (simp_all add: sched_view_def send_event_def sendError_def heartbeat_def seq_next_def send_msg_def Let_def)

lemma sched_ok_cancels: "sched_ok nxt dn rn cn lv \<Longrightarrow> c \<in> set cn \<Longrightarrow> c < nxt"
  by (auto simp: sched_ok_def active_def)

lemma launch_sched:
  assumes "sched_inv s"
  shows "sched_inv (launch parent jid s) \<and> scheduled (launch parent jid s) = scheduled s \<and> ag_version (launch parent jid s) = ag_version s"
proof -
  have "ag_next s \<notin> set (ag_cancels s)" using assms sched_ok_cancels by (fastforce simp: sched_inv_def)
  then show ?thesis using assms by (auto simp: sched_inv_def sched_ok_def scheduled_def launch_def less_Suc_eq)
qed

lemma dispatch_sched: "sched_inv s \<Longrightarrow> sched_inv (dispatch V parent job s) \<and> scheduled (dispatch V parent job s) = scheduled s \<and>
    ag_version (dispatch V parent job s) = ag_version s"
  using launch_sched [of s] sched_view_eq [OF sched_view_sends(2)]
  by (auto simp: dispatch_def startTrace_def startSip_def startDns_def split: job_spec.split sum.split)

lemma finish_sched:
  assumes "sched_inv s" and "j \<in> set (ag_live s)"
  shows "sched_inv (finish_job j s) \<and> scheduled (finish_job j s) = scheduled s \<and> ag_version (finish_job j s) = ag_version s"
proof -
  have ok: "sched_ok (ag_next s) (ag_done s) (ag_runners s) (ag_cancels s) (ag_live s)" using assms(1) by (simp add: sched_inv_def)
  have j: "\<forall>c \<in> set [lj_ctx j]. c < ag_next s \<and> c \<notin> set (ag_cancels s)" using ok assms(2) by (simp add: sched_ok_def)
  show ?thesis using sched_ok_done [OF ok j set_remove1_subset [of j]]
    by (simp add: sched_inv_def scheduled_def finish_job_def)
qed

lemma work_sched:
  assumes "agent_work s t" and "sched_inv s"
  shows "sched_inv t \<and> scheduled t = scheduled s \<and> ag_version t = ag_version s"
  using assms
proof (cases rule: agent_work.cases)
  case (refuse V parent job)
  then show ?thesis using assms(2) sched_view_eq [OF sched_view_sends(2)] by (simp add: startJob_def)
next
  case (admit c parent job)
  then show ?thesis using assms(2) sched_view_eq [OF sched_view_sends(5)] by simp
next
  case (commit st V)
  then show ?thesis using assms(2) dispatch_sched sched_view_eq [OF sched_view_sends(5)] by simp
next
  case (event j conv)
  then show ?thesis using assms(2) sched_view_eq [OF sched_view_sends(1)] by simp
next
  case (exit j)
  then show ?thesis using assms(2) finish_sched by simp
next
  case (runner_exit r)
  then show ?thesis using assms(2) set_remove1_subset [of r "ag_runners s"]
    by (auto simp: sched_inv_def sched_ok_def scheduled_def active_remove1)
next
  case beat
  then show ?thesis using assms(2) sched_view_eq [OF sched_view_sends(3)] by simp
qed

text \<open>A new assignment cancels the goroutines before it; the new ones are the active ones.\<close>

lemma apply_sched:
  assumes "sched_inv s" and "\<not> (as_Version as \<noteq> 0 \<and> as_Version as = ag_version s)"
  shows "sched_inv (sched_apply as s)" and "scheduled (sched_apply as s) = as_Monitors as"
proof -
  let ?n = "length (as_Monitors as)"
  let ?new = "map (\<lambda>i. \<lparr>ru_ctx = ag_next s + i, ru_pos = i, ru_count = ?n, ru_monitor = as_Monitors as ! i\<rparr>) [0..<?n]"
  have ok: "sched_ok (ag_next s) (ag_done s) (ag_runners s) (ag_cancels s) (ag_live s)" using assms(1) by (simp add: sched_inv_def)
  have "set (ag_cancels s) = ru_ctx ` set (active (ag_done s) (ag_runners s))" using ok unfolding sched_ok_def by (metis list.set_map)
  then have "ru_ctx r \<in> set (ag_done s @ ag_cancels s)" if "r \<in> set (ag_runners s)" for r
    using that by (auto simp: active_def)
  then have old: "active (ag_done s @ ag_cancels s) (ag_runners s) = []" by (simp add: active_def)
  have fresh: "c < ag_next s" if "c \<in> set (ag_done s @ ag_cancels s)" for c
    using that ok sched_ok_cancels [OF ok] by (auto simp: sched_ok_def)
  then have new: "active (ag_done s @ ag_cancels s) ?new = ?new"
    unfolding active_def by (intro filter_True) force
  have act: "active (ag_done (sched_apply as s)) (ag_runners (sched_apply as s)) = ?new"
    unfolding sched_apply_eq [OF assms(2)] using old new by (simp add: active_def)
  have next_live: "ag_next (sched_apply as s) = ag_next s + ?n" "ag_live (sched_apply as s) = ag_live s"
    using assms(2) by (auto simp: sched_apply_def stopLocked_def start_runners_def Let_def)
  show "scheduled (sched_apply as s) = as_Monitors as" unfolding scheduled_def act by (simp add: comp_def map_nth)
  have "\<forall>r \<in> set (ag_runners (sched_apply as s)). ru_ctx r < ag_next s + ?n"
    using ok unfolding sched_apply_eq [OF assms(2)] by (auto simp: sched_ok_def)
  moreover have "\<forall>c \<in> set (ag_done (sched_apply as s)). c < ag_next s + ?n"
    unfolding sched_apply_eq [OF assms(2)] using fresh by (intro ballI trans_less_add1)
  moreover have "\<forall>j \<in> set (ag_live s). lj_ctx j < ag_next s + ?n \<and> lj_ctx j \<notin> set (ag_cancels (sched_apply as s))"
    using ok unfolding sched_apply_eq [OF assms(2)] by (force simp: sched_ok_def)
  ultimately show "sched_inv (sched_apply as s)"
    unfolding sched_inv_def sched_ok_def next_live act by (simp add: sched_apply_eq [OF assms(2)] comp_def)
qed

text \<open>A job that is cancelled is not a goroutine of the schedule.\<close>

lemma message_sched:
  assumes "sched_inv s" and "table_inv s" and "\<And>as. m \<noteq> AssignmentMsg as"
  shows "sched_inv (on_message m s) \<and> scheduled (on_message m s) = scheduled s \<and> ag_version (on_message m s) = ag_version s"
proof (cases m)
  case (CancelMsg jid)
  have ok: "sched_ok (ag_next s) (ag_done s) (ag_runners s) (ag_cancels s) (ag_live s)" using assms(1) by (simp add: sched_inv_def)
  have "\<exists>j \<in> set (ag_live s). lj_ctx j = c" if "c \<in> set (jobs_cancel jid (ag_jobs s))" for c
    using that assms(2) by (auto simp: jobs_cancel_def table_inv_def dest!: map_of_SomeD split: option.splits)
  then have "\<forall>c \<in> set (jobs_cancel jid (ag_jobs s)). c < ag_next s \<and> c \<notin> set (ag_cancels s)"
    using ok by (fastforce simp: sched_ok_def)
  from sched_ok_done [OF ok this subset_refl] CancelMsg show ?thesis
    by (simp add: on_message_def sched_inv_def scheduled_def)
next
  case (PingMsg n)
  then show ?thesis using assms(1) sched_view_eq [OF sched_view_sends(4)] by (simp add: on_message_def)
qed (use assms(1,3) in \<open>simp_all add: on_message_def\<close>)

lemma start_sched: "sched_inv (session_start l q)" "scheduled (session_start l q) = []" "ag_version (session_start l q) = 0"
  by (simp_all add: sched_inv_def sched_ok_def scheduled_def active_def session_start_def)

text \<open>The version in force and the monitors that run are those of the last assignment.\<close>

lemma session_follows_assignments:
  assumes "session_run N (session_start (withDefaults l) q) ms s"
    and "\<And>a b. a \<in> set (assignments ms) \<Longrightarrow> b \<in> set (assignments ms) \<Longrightarrow> as_Version a = as_Version b \<Longrightarrow> a = b"
  shows "sched_inv s \<and> ag_version s = (if assignments ms = [] then 0 else as_Version (last (assignments ms))) \<and>
    scheduled s = (if assignments ms = [] then [] else as_Monitors (last (assignments ms)))"
  using assms
proof (induction rule: session_run.induct)
  case begun
  then show ?case by (simp add: start_sched)
next
  case (works ms s t)
  then show ?case using work_sched by fastforce
next
  case (receives ms s m)
  have inv: "sched_inv s" and v: "ag_version s = (if assignments ms = [] then 0 else as_Version (last (assignments ms)))"
    and m: "scheduled s = (if assignments ms = [] then [] else as_Monitors (last (assignments ms)))"
    using receives.IH receives.prems by auto
  have "agent_inv N q s"
    using agent.inv_reachable [OF _ session_run_steps [OF receives.hyps(1)]] by (auto simp: agent_start_def)
  then have table: "table_inv s" by (simp add: agent_inv_def)
  show ?case
  proof (cases "\<exists>as. m = AssignmentMsg as")
    case True
    then obtain as where as: "m = AssignmentMsg as" by blast
    then have t: "on_message m s = sched_apply as s" "assignments (ms @ [m]) = assignments ms @ [as]" by (simp_all add: on_message_def)
    show ?thesis
    proof (cases "as_Version as \<noteq> 0 \<and> as_Version as = ag_version s")
      case True
      then have "sched_apply as s = s" "assignments ms \<noteq> []" "as_Version (last (assignments ms)) = as_Version as"
        using v by (auto simp: sched_apply_def split: if_splits)
      moreover from this have "last (assignments ms) = as" using receives.prems [of "last (assignments ms)" as] t(2) by simp
      ultimately show ?thesis using inv v m unfolding t by simp
    next
      case False
      then show ?thesis using apply_sched [OF inv] sched_apply_eq(1) unfolding t by simp
    qed
  next
    case False
    then have no: "\<And>as. m \<noteq> AssignmentMsg as" by blast
    then have "assignments (ms @ [m]) = assignments ms" by (cases m) auto
    then show ?thesis using message_sched [OF inv table no] inv v m by simp
  qed
qed

section \<open>From the configuration to the agents\<close>

text \<open>Among fewer than \<open>2 ^ 64\<close> registries a version names one.\<close>

lemma history_versions:
  assumes "history_ok reg H" and "length H < 2 ^ 64" and "r \<in> set H" and "r' \<in> set H" and "mr_version r = mr_version r'"
  shows "r = r'"
proof -
  obtain i j where ij: "i < length H" "j < length H" "r = H ! i" "r' = H ! j" using assms(3,4) by (auto simp: in_set_conv_nth)
  then have "(of_nat (Suc i) :: u64) = of_nat (Suc j)" using assms(1,5) unfolding history_ok_def by metis
  then have "Suc i mod 2 ^ 64 = Suc j mod 2 ^ 64" by (simp only: word_of_nat_eq_iff take_bit_eq_mod) simp
  with ij(1,2) assms(2) have "i = j" by simp
  with ij show ?thesis by simp
qed

text \<open>(C17) The monitors of the configuration run where they should. Take any interleaving of streams that connect and break, requests that
  start and cancel jobs, and reloads, fewer than \<open>2 ^ 64\<close> of these. When no reload is under way, a connection is registered under its site, its
  session is open, its stream is alive, and it was not overtaken by a reload while its first assignment was on the way, then an agent that has
  handled what was sent to it runs exactly the monitors that the current registry assigns to the site, in their order, whatever
  jobs it runs beside. The registry of that moment is the last of the history.\<close>

theorem configured_monitors_run:
  assumes "gateway_start cfg y0" and "gateway_step\<^sup>*\<^sup>* y0 y" and "length (gs_history y) < 2 ^ 64"
    and "gs_reload y = Quiet" and "gs_handler y c = Serving" and "gs_alive y c" and "c \<notin> gs_overtaken y"
    and "map_of (gw_agents (gs_gw y)) site = Some c"
    and "cn_out (gw_conns (gs_gw y) c) = Welcome w # ms" and "session_run N (session_start (withDefaults l) q) ms s"
  shows "gw_reg (gs_gw y) = Some (last (gs_history y)) \<and>
    scheduled s = as_Monitors (AssignmentFor (last (gs_history y)) site)"
proof -
  have "gw_sys_inv y" using assms(1,2) by (rule gateway.inv_reachable)
  note i = gw_sys_invD [OF this]
  have site: "site_of (gs_gw y) c = site" using i(1) assms(8) unfolding conns_ok_def by blast
  have sent: "sent_to (gs_gw y) c = assignments ms" by (simp add: sent_to_def assms(9)) (simp add: assignments_def)
  have "map_of (gw_agents (gs_gw y)) (site_of (gs_gw y) c) = Some c" using assms(8) site by simp
  then have cur: "assignments ms \<noteq> []" "last (assignments ms) = AssignmentFor (last (gs_history y)) site"
    using i(5) assms(4-7) site sent by (auto simp: served_ok_def to_push_def)
  have from_history: "\<exists>r \<in> set (gs_history y). a = AssignmentFor r site" if "a \<in> set (assignments ms)" for a
    using i(4) [unfolded sent_ok_def, rule_format, of c a] that by (simp add: assms(5) sent site)
  have unique: "a = b" if ab: "a \<in> set (assignments ms)" "b \<in> set (assignments ms)" "as_Version a = as_Version b" for a b
  proof -
    obtain r r' where r: "r \<in> set (gs_history y)" "a = AssignmentFor r site" "r' \<in> set (gs_history y)" "b = AssignmentFor r' site"
      using from_history [OF ab(1)] from_history [OF ab(2)] by blast
    then have "mr_version r = mr_version r'" using ab(3) by (simp add: AssignmentFor_def)
    from history_versions [OF i(2) assms(3) r(1,3) this] r show ?thesis by simp
  qed
  have "scheduled s = (if assignments ms = [] then [] else as_Monitors (last (assignments ms)))"
    by (intro conjunct2 [OF conjunct2 [OF session_follows_assignments [OF assms(10)]]]) (rule unique)
  then have "scheduled s = as_Monitors (AssignmentFor (last (gs_history y)) site)" unfolding if_not_P [OF cur(1)] cur(2) .
  moreover have "gw_reg (gs_gw y) = Some (last (gs_history y))" using i(2) by (simp add: history_ok_def)
  ultimately show ?thesis by simp
qed

section \<open>An agent that connects\<close>

definition delivered :: gw_sys where
  "delivered = handled 1 (fst (session_open (\<lambda>_. True) 0 1 (Some [''Bearer t1'']) (HelloMsg demo_hello) (gs_gw race0)), Serving) race0"

lemmas delivered_eval = delivered_def race0_def handled_def session_open_def bearerToken_def authSite_def NewGateway_def demo_config_def Let_def
  conn_send_def addAgent_def

lemma delivered_steps: "gateway_step\<^sup>*\<^sup>* race0 delivered"
  unfolding delivered_def
  by (rule session_open_steps [of _ _ 0 "Some [''Bearer t1'']" demo_hello _ "''fra''"]) (simp_all add: delivered_eval)

lemma delivered_state: "gs_reload delivered = Quiet" "gs_handler delivered 1 = Serving" "gs_alive delivered 1" "1 \<notin> gs_overtaken delivered"
  "gs_history delivered = [NewMonitorRegistry [demo_mon]]" "map_of (gw_agents (gs_gw delivered)) ''fra'' = Some 1"
  "cn_out (gw_conns (gs_gw delivered) 1) = [Welcome ''fra'', AssignmentMsg (AssignmentFor (NewMonitorRegistry [demo_mon]) ''fra'')]"
  by (simp_all add: delivered_eval)

theorem configured_monitors_run_witness:
  "\<exists>s. session_run 1 (session_start (withDefaults demo_limits) 0) (tl (cn_out (gw_conns (gs_gw delivered) 1))) s \<and>
    scheduled s = [monitorToProto demo_mon]"
proof -
  let ?as = "AssignmentFor (NewMonitorRegistry [demo_mon]) ''fra''" and ?s0 = "session_start (withDefaults demo_limits) 0"
  have mons: "as_Monitors ?as = [monitorToProto demo_mon]"
    by (simp add: AssignmentFor_def NewMonitorRegistry_def registry_set_def registry_get_def siteMatches_def demo_mon_def)
  have "session_run 1 ?s0 ([] @ [AssignmentMsg ?as]) (on_message (AssignmentMsg ?as) ?s0)"
    by (intro session_run.receives session_run.begun)
      (simp add: on_message_def sched_apply_def stopLocked_def start_runners_def session_start_def mons Let_def)
  then have run: "session_run 1 ?s0 [AssignmentMsg ?as] (on_message (AssignmentMsg ?as) ?s0)" by simp
  have few: "length (gs_history delivered) < 2 ^ 64" by (simp add: delivered_state)
  have "scheduled (on_message (AssignmentMsg ?as) ?s0) = [monitorToProto demo_mon]"
    using configured_monitors_run [OF race0_start delivered_steps few delivered_state(1-4,6,7) run] mons by (simp add: delivered_state)
  then show ?thesis using run unfolding delivered_state(7) list.sel by (intro exI conjI)
qed

end
