(* ===== verification/Server_Lifecycle.thy ===== *)
theory Server_Lifecycle
  imports Backend_Server
begin

text \<open>
  The life of the backend, \<^verbatim>\<open>Run\<close> of \<^verbatim>\<open>internal/backend/server.go\<close>: opening the listeners, the group of goroutines that serve, and
  the shutdown. \<^verbatim>\<open>net.Listen\<close> is a parameter. Of \<^verbatim>\<open>Shutdown\<close> of an HTTP server the model has that it stops accepting at once and returns
  when no request is in flight or its context is over, and of \<^verbatim>\<open>GracefulStop\<close> that it stops accepting at once and returns when no call is pending,
  which is what their documentations say. An agent's \<^verbatim>\<open>Session\<close> is one call that lasts as long as its stream.
\<close>

section \<open>Opening the listeners\<close>

text \<open>The error or the two listeners, and the listeners left open when it fails.\<close>

definition open_listeners ::
  "(string \<Rightarrow> string + string) \<Rightarrow> (string \<Rightarrow> string \<Rightarrow> string + 'k) \<Rightarrow> (string \<Rightarrow> string + 'l) \<Rightarrow> ServerConfig \<Rightarrow>
    ((pem_error + string) + 'l \<times> 'l) \<times> 'l list" where
  "open_listeners ReadFile X509KeyPair Listen cfg =
    (case certificate ReadFile X509KeyPair (cf_GRPC cfg) of
       Inl e \<Rightarrow> (Inl (Inl e), [])
     | Inr _ \<Rightarrow>
         (case Listen (gl_Addr (cf_GRPC cfg)) of
            Inl e \<Rightarrow> (Inl (Inr e), [])
          | Inr grpcLn \<Rightarrow>
              (case Listen (cf_HTTP cfg) of
                 Inl e \<Rightarrow> (Inl (Inr e), removeAll grpcLn [grpcLn])
               | Inr httpLn \<Rightarrow> (Inr (grpcLn, httpLn), [grpcLn, httpLn]))))"

section \<open>Serving and shutting down\<close>

datatype task = TGrpc | THttp | TMetrics | TReap | TVlog | TSink

datatype down_phase = SvStarting | SvServing | SvHttp | SvGrpc | SvMetrics | SvWait | SvReturned

datatype serve_error = ErrServerClosed | ErrServerStopped | ServeFailed string

definition ignoreClosed :: "serve_error option \<Rightarrow> string option" where
  "ignoreClosed err = (case err of Some (ServeFailed e) \<Rightarrow> Some e | _ \<Rightarrow> None)"

text \<open>
  \<open>lc_open\<close>: the servers that accept; \<open>lc_requests\<close> and \<open>lc_scrapes\<close>: the requests in flight at the two HTTP servers, event streams
  included; \<open>lc_sessions\<close>: the agents' calls; \<open>lc_expired\<close>: the fifteen seconds of the shutdown are over; \<open>lc_running\<close> and \<open>lc_err\<close>: the group's
  goroutines and its first error.
\<close>

record lifecycle =
  lc_phase :: down_phase
  lc_cancelled :: bool
  lc_ready :: bool
  lc_open :: "task set"
  lc_requests :: nat
  lc_scrapes :: nat
  lc_sessions :: "conn set"
  lc_expired :: bool
  lc_running :: "task set"
  lc_err :: "string option"

definition has_metrics :: "ServerConfig \<Rightarrow> bool" where "has_metrics cfg = (sc_Metrics cfg \<noteq> [])"

definition listeners :: "bool \<Rightarrow> task set" where "listeners m = {TGrpc, THttp} \<union> (if m then {TMetrics} else {})"

definition lifecycle_start :: "bool \<Rightarrow> lifecycle" where
  "lifecycle_start m = \<lparr>lc_phase = SvStarting, lc_cancelled = False, lc_ready = False, lc_open = listeners m, lc_requests = 0, lc_scrapes = 0,
    lc_sessions = {}, lc_expired = False, lc_running = listeners m \<union> {TReap, TVlog, TSink}, lc_err = None\<rparr>"

text \<open>A goroutine of the group returns: the first error is kept and cancels the context of the group.\<close>

definition group_return :: "task \<Rightarrow> serve_error option \<Rightarrow> lifecycle \<Rightarrow> lifecycle" where
  "group_return t err s =
    s\<lparr>lc_running := lc_running s - {t}, lc_open := lc_open s - {t},
      lc_err := (case lc_err s of Some e \<Rightarrow> Some e | None \<Rightarrow> ignoreClosed err),
      lc_cancelled := (lc_cancelled s \<or> ignoreClosed err \<noteq> None)\<rparr>"

text \<open>The goroutine that called \<^verbatim>\<open>Run\<close>: its next action, \<open>None\<close> while it waits.\<close>

definition main_step :: "bool \<Rightarrow> lifecycle \<Rightarrow> lifecycle option" where
  "main_step m s =
    (case lc_phase s of
       SvStarting \<Rightarrow> Some (s\<lparr>lc_ready := True, lc_phase := SvServing\<rparr>)
     | SvServing \<Rightarrow> if lc_cancelled s then Some (s\<lparr>lc_ready := False, lc_open := lc_open s - {THttp}, lc_phase := SvHttp\<rparr>) else None
     | SvHttp \<Rightarrow> if lc_requests s = 0 \<or> lc_expired s then Some (s\<lparr>lc_open := lc_open s - {TGrpc}, lc_phase := SvGrpc\<rparr>) else None
     | SvGrpc \<Rightarrow>
         if lc_sessions s = {} then
           Some (if m then s\<lparr>lc_open := lc_open s - {TMetrics}, lc_phase := SvMetrics\<rparr> else s\<lparr>lc_phase := SvWait\<rparr>)
         else None
     | SvMetrics \<Rightarrow> if lc_scrapes s = 0 \<or> lc_expired s then Some (s\<lparr>lc_phase := SvWait\<rparr>) else None
     | SvWait \<Rightarrow> if lc_running s = {} then Some (s\<lparr>lc_phase := SvReturned\<rparr>) else None
     | SvReturned \<Rightarrow> None)"

definition closed_error :: "task \<Rightarrow> serve_error option" where
  "closed_error t = (if t = TGrpc then Some ErrServerStopped else Some ErrServerClosed)"

text \<open>What the backend does by itself once it is told to stop.\<close>

inductive down_step :: "bool \<Rightarrow> lifecycle \<Rightarrow> lifecycle \<Rightarrow> bool" for m where
  main: "main_step m s = Some t \<Longrightarrow> down_step m s t"
| serve_ends: "t \<in> lc_running s \<Longrightarrow> t \<in> {TGrpc, THttp, TMetrics} \<Longrightarrow> t \<notin> lc_open s \<Longrightarrow> down_step m s (group_return t (closed_error t) s)"
| worker_ends: "t \<in> lc_running s \<Longrightarrow> t \<in> {TReap, TVlog, TSink} \<Longrightarrow> lc_cancelled s \<Longrightarrow> down_step m s (group_return t None s)"
| expire: "lc_phase s \<notin> {SvStarting, SvServing} \<Longrightarrow> \<not> lc_expired s \<Longrightarrow> down_step m s (s\<lparr>lc_expired := True\<rparr>)"

text \<open>What happens to it: a signal, a server that fails, requests, and agents that come and go.\<close>

inductive lifecycle_step :: "bool \<Rightarrow> lifecycle \<Rightarrow> lifecycle \<Rightarrow> bool" for m where
  own: "down_step m s t \<Longrightarrow> lifecycle_step m s t"
| signal: "lifecycle_step m s (s\<lparr>lc_cancelled := True\<rparr>)"
| serve_fails: "t \<in> lc_open s \<Longrightarrow> lifecycle_step m s (group_return t (Some (ServeFailed e)) s)"
| request: "THttp \<in> lc_open s \<Longrightarrow> lifecycle_step m s (s\<lparr>lc_requests := lc_requests s + 1\<rparr>)"
| respond: "lifecycle_step m s (s\<lparr>lc_requests := lc_requests s - 1\<rparr>)"
| scrape: "TMetrics \<in> lc_open s \<Longrightarrow> lifecycle_step m s (s\<lparr>lc_scrapes := lc_scrapes s + 1\<rparr>)"
| scraped: "lifecycle_step m s (s\<lparr>lc_scrapes := lc_scrapes s - 1\<rparr>)"
| dial: "TGrpc \<in> lc_open s \<Longrightarrow> lifecycle_step m s (s\<lparr>lc_sessions := insert c (lc_sessions s)\<rparr>)"
| hangup: "lifecycle_step m s (s\<lparr>lc_sessions := lc_sessions s - {c}\<rparr>)"

section \<open>The invariant\<close>

definition past :: "down_phase \<Rightarrow> nat" where
  "past p = (case p of SvStarting \<Rightarrow> 0 | SvServing \<Rightarrow> 1 | SvHttp \<Rightarrow> 2 | SvGrpc \<Rightarrow> 3 | SvMetrics \<Rightarrow> 4 | SvWait \<Rightarrow> 5 | SvReturned \<Rightarrow> 6)"

definition flags_ok :: "lifecycle \<Rightarrow> bool" where
  "flags_ok s = ((lc_ready s \<longleftrightarrow> lc_phase s = SvServing) \<and> (2 \<le> past (lc_phase s) \<longrightarrow> lc_cancelled s) \<and> (lc_err s \<noteq> None \<longrightarrow> lc_cancelled s))"

definition tasks_ok :: "bool \<Rightarrow> lifecycle \<Rightarrow> bool" where
  "tasks_ok m s = (lc_open s \<subseteq> listeners m \<and> lc_open s \<subseteq> lc_running s \<and> lc_running s \<subseteq> listeners m \<union> {TReap, TVlog, TSink})"

definition down_ok :: "lifecycle \<Rightarrow> bool" where
  "down_ok s = ((2 \<le> past (lc_phase s) \<longrightarrow> THttp \<notin> lc_open s) \<and> (3 \<le> past (lc_phase s) \<longrightarrow> TGrpc \<notin> lc_open s) \<and>
    (4 \<le> past (lc_phase s) \<longrightarrow> TMetrics \<notin> lc_open s \<and> lc_sessions s = {}) \<and> (lc_phase s = SvReturned \<longrightarrow> lc_running s = {}))"

definition up_ok :: "bool \<Rightarrow> lifecycle \<Rightarrow> bool" where
  "up_ok m s = (lc_err s = None \<longrightarrow> (past (lc_phase s) < 2 \<longrightarrow> THttp \<in> lc_open s) \<and> (past (lc_phase s) < 3 \<longrightarrow> TGrpc \<in> lc_open s) \<and>
    (past (lc_phase s) < 4 \<and> m \<longrightarrow> TMetrics \<in> lc_open s))"

definition lifecycle_inv :: "bool \<Rightarrow> lifecycle \<Rightarrow> bool" where
  "lifecycle_inv m s = (flags_ok s \<and> tasks_ok m s \<and> down_ok s \<and> up_ok m s)"

lemma past_simps [simp]: "past SvStarting = 0" "past SvServing = 1" "past SvHttp = 2" "past SvGrpc = 3" "past SvMetrics = 4" "past SvWait = 5"
  "past SvReturned = 6"
  by (simp_all add: past_def)

lemma main_step_cases:
  assumes "main_step m s = Some t"
  obtains "lc_phase s = SvStarting" "t = s\<lparr>lc_ready := True, lc_phase := SvServing\<rparr>"
  | "lc_phase s = SvServing" "lc_cancelled s" "t = s\<lparr>lc_ready := False, lc_open := lc_open s - {THttp}, lc_phase := SvHttp\<rparr>"
  | "lc_phase s = SvHttp" "t = s\<lparr>lc_open := lc_open s - {TGrpc}, lc_phase := SvGrpc\<rparr>"
  | "lc_phase s = SvGrpc" "lc_sessions s = {}" "m" "t = s\<lparr>lc_open := lc_open s - {TMetrics}, lc_phase := SvMetrics\<rparr>"
  | "lc_phase s = SvGrpc" "lc_sessions s = {}" "\<not> m" "t = s\<lparr>lc_phase := SvWait\<rparr>"
  | "lc_phase s = SvMetrics" "t = s\<lparr>lc_phase := SvWait\<rparr>"
  | "lc_phase s = SvWait" "lc_running s = {}" "t = s\<lparr>lc_phase := SvReturned\<rparr>"
  using assms by (cases "lc_phase s") (simp_all add: main_step_def split: if_splits)

lemma no_metrics: "tasks_ok False s \<Longrightarrow> TMetrics \<notin> lc_open s"
  by (auto simp: tasks_ok_def listeners_def)

lemma main_step_inv:
  assumes "lifecycle_inv m s" and "main_step m s = Some t"
  shows "lifecycle_inv m t"
proof -
  have f: "flags_ok s" "tasks_ok m s" "down_ok s" "up_ok m s" using assms(1) by (simp_all add: lifecycle_inv_def)
  from assms(2) show ?thesis
    by (cases rule: main_step_cases)
      (use f no_metrics [of s] in \<open>simp add: lifecycle_inv_def, (intro conjI)?;
        force simp: flags_ok_def tasks_ok_def down_ok_def up_ok_def\<close>)+
qed

lemma group_return_inv:
  assumes "lifecycle_inv m s" and "t \<notin> lc_open s \<or> ignoreClosed err \<noteq> None"
  shows "lifecycle_inv m (group_return t err s)"
proof -
  have f: "flags_ok s" "tasks_ok m s" "down_ok s" "up_ok m s" using assms(1) by (simp_all add: lifecycle_inv_def)
  have err: "lc_err (group_return t err s) = None \<longleftrightarrow> lc_err s = None \<and> ignoreClosed err = None"
    by (simp add: group_return_def split: option.split)
  have rest: "lc_phase (group_return t err s) = lc_phase s" "lc_ready (group_return t err s) = lc_ready s"
    "lc_cancelled (group_return t err s) = (lc_cancelled s \<or> ignoreClosed err \<noteq> None)" "lc_sessions (group_return t err s) = lc_sessions s"
    "lc_open (group_return t err s) = lc_open s - {t}" "lc_running (group_return t err s) = lc_running s - {t}"
    by (simp_all add: group_return_def)
  have "flags_ok (group_return t err s)" using f(1) unfolding flags_ok_def rest err by auto
  moreover have "tasks_ok m (group_return t err s)" using f(2) unfolding tasks_ok_def rest by blast
  moreover have "down_ok (group_return t err s)" using f(3) unfolding down_ok_def rest by blast
  moreover have "up_ok m (group_return t err s)" using f(4) assms(2) unfolding up_ok_def rest err by auto
  ultimately show ?thesis by (simp add: lifecycle_inv_def)
qed

lemma down_step_inv: "down_step m s t \<Longrightarrow> lifecycle_inv m s \<Longrightarrow> lifecycle_inv m t"
proof (induction rule: down_step.induct)
  case (main s t)
  then show ?case by (simp add: main_step_inv)
next
  case (serve_ends t s)
  then show ?case by (simp add: group_return_inv)
next
  case (worker_ends t s)
  then have "lc_open s \<subseteq> {TGrpc, THttp, TMetrics}" by (auto simp: lifecycle_inv_def tasks_ok_def listeners_def split: if_splits)
  then have "t \<notin> lc_open s" using worker_ends(2) by blast
  then show ?case using worker_ends by (simp add: group_return_inv)
next
  case (expire s)
  then show ?case by (simp add: lifecycle_inv_def flags_ok_def tasks_ok_def down_ok_def up_ok_def)
qed

lemmas lifecycle_inv_defs = lifecycle_inv_def flags_ok_def tasks_ok_def down_ok_def up_ok_def

lemma lifecycle_step_inv: "lifecycle_step m s t \<Longrightarrow> lifecycle_inv m s \<Longrightarrow> lifecycle_inv m t"
proof (induction rule: lifecycle_step.induct)
  case (own s t)
  then show ?case by (simp add: down_step_inv)
next
  case (serve_fails t s e)
  then show ?case by (simp add: group_return_inv ignoreClosed_def)
next
  case (dial s c)
  then have "past (lc_phase s) < 4" by (auto simp: lifecycle_inv_def down_ok_def)
  with dial(2) show ?case by (simp add: lifecycle_inv_defs)
next
  case (hangup s c)
  then show ?case by (cases "4 \<le> past (lc_phase s)") (simp_all add: lifecycle_inv_defs)
qed (simp_all add: lifecycle_inv_defs)

interpretation lifecycle: invariant_system "\<lambda>s. s = lifecycle_start m" "lifecycle_step m" "lifecycle_inv m" for m
proof
  show "lifecycle_inv m s" if "s = lifecycle_start m" for s
    using that by (simp add: lifecycle_start_def lifecycle_inv_defs listeners_def)
  show "lifecycle_inv m t" if "lifecycle_inv m s" "lifecycle_step m s t" for s t
    using that by (simp add: lifecycle_step_inv)
qed

section \<open>How long a shutdown takes\<close>

text \<open>Every step of the shutdown uses up one of these: a phase, a goroutine, the fifteen seconds.\<close>

definition left_to_do :: "lifecycle \<Rightarrow> nat" where
  "left_to_do s = (6 - past (lc_phase s)) + card (lc_running s) + (if lc_expired s then 0 else 1)"

lemma finite_tasks: "finite (x :: task set)"
proof -
  have "x \<subseteq> {TGrpc, THttp, TMetrics, TReap, TVlog, TSink}" using task.exhaust by blast
  then show ?thesis by (rule finite_subset) simp
qed

lemma down_step_left: "down_step m s t \<Longrightarrow> left_to_do t < left_to_do s"
proof (induction rule: down_step.induct)
  case (main s t)
  then show ?case by (cases rule: main_step_cases) (simp_all add: left_to_do_def)
next
  case (serve_ends t s)
  then show ?case by (simp add: left_to_do_def group_return_def card_Diff1_less [OF finite_tasks] del: card_Diff_insert)
next
  case (worker_ends t s)
  then show ?case by (simp add: left_to_do_def group_return_def card_Diff1_less [OF finite_tasks] del: card_Diff_insert)
next
  case (expire s)
  then show ?case by (simp add: left_to_do_def)
qed

lemma down_steps_left: "(down_step m ^^ k) s t \<Longrightarrow> k + left_to_do t \<le> left_to_do s"
proof (induction k arbitrary: t)
  case (Suc k)
  then obtain u where "(down_step m ^^ k) s u" "down_step m u t" by auto
  with Suc.IH [of u] down_step_left [of m u t] show ?case by simp
qed simp

lemma left_to_do_bound: "tasks_ok m s \<Longrightarrow> left_to_do s \<le> 13"
proof -
  assume "tasks_ok m s"
  then have "lc_running s \<subseteq> {TGrpc, THttp, TMetrics, TReap, TVlog, TSink}" by (auto simp: tasks_ok_def listeners_def split: if_splits)
  then have "card (lc_running s) \<le> card {TGrpc, THttp, TMetrics, TReap, TVlog, TSink}" by (rule card_mono [rotated]) simp
  then show ?thesis by (auto simp: left_to_do_def)
qed

lemma down_ends: "\<exists>t. (down_step m)\<^sup>*\<^sup>* s t \<and> (\<forall>u. \<not> down_step m t u)"
proof (induction "left_to_do s" arbitrary: s rule: less_induct)
  case less
  show ?case
  proof (cases "\<exists>u. down_step m s u")
    case True
    then obtain u where u: "down_step m s u" by blast
    from less [OF down_step_left [OF u]] obtain t where "(down_step m)\<^sup>*\<^sup>* u t" "\<forall>v. \<not> down_step m t v" by blast
    with u show ?thesis by (meson converse_rtranclp_into_rtranclp)
  qed blast
qed

lemma down_step_keeps: "down_step m s t \<Longrightarrow> lc_sessions t = lc_sessions s \<and> (lc_cancelled s \<longrightarrow> lc_cancelled t)"
proof (induction rule: down_step.induct)
  case (main s t)
  then show ?case by (cases rule: main_step_cases) simp_all
qed (simp_all add: group_return_def)

lemma down_steps_keep: "(down_step m)\<^sup>*\<^sup>* s t \<Longrightarrow> lc_cancelled s \<Longrightarrow> lifecycle_inv m s \<Longrightarrow>
    lc_sessions t = lc_sessions s \<and> lc_cancelled t \<and> lifecycle_inv m t"
  by (induction rule: rtranclp_induct) (auto dest: down_step_keeps down_step_inv)

text \<open>Without sessions the shutdown is never stuck before it returns.\<close>

lemma down_progress:
  assumes "lifecycle_inv m s" and "lc_cancelled s" and "lc_sessions s = {}" and "lc_phase s \<noteq> SvReturned"
  shows "\<exists>t. down_step m s t"
proof (cases "main_step m s")
  case (Some t)
  then show ?thesis using down_step.main by blast
next
  case None
  have e: "\<exists>t. down_step m s t" if "lc_phase s \<notin> {SvStarting, SvServing}" "\<not> lc_expired s" using down_step.expire [OF that] by blast
  show ?thesis
  proof (cases "lc_phase s = SvWait")
    case True
    then obtain t where t: "t \<in> lc_running s" using None by (auto simp: main_step_def split: if_splits)
    have shut: "lc_open s \<inter> {TGrpc, THttp, TMetrics} = {}" using assms(1) True by (auto simp: lifecycle_inv_def down_ok_def)
    show ?thesis
    proof (cases "t \<in> {TGrpc, THttp, TMetrics}")
      case True
      then show ?thesis using down_step.serve_ends [OF t True] shut by blast
    next
      case False
      then have "t \<in> {TReap, TVlog, TSink}" by (cases t) simp_all
      then show ?thesis using down_step.worker_ends [OF t _ assms(2)] by blast
    qed
  next
    case False
    then show ?thesis using None assms(2-4) e by (cases "lc_phase s") (auto simp: main_step_def split: if_splits)
  qed
qed

section \<open>Theorems\<close>

text \<open>The listeners are both open or, on an error, none is left open.\<close>

lemma open_listeners_all_or_none:
  "case open_listeners ReadFile X509KeyPair Listen cfg of (Inl e, ls) \<Rightarrow> ls = [] | (Inr (g, h), ls) \<Rightarrow> ls = [g, h]"
  by (simp add: open_listeners_def split: sum.split)

text \<open>The readiness probe says yes exactly while the backend serves. Unless a server fails, the three stop accepting in the order
  the comment gives: the browsers' first, then the agents', the metrics last. The gateway is not past its stop while an agent's session is
  open. When \<^verbatim>\<open>Run\<close> returns, nothing accepts, no agent is connected and no goroutine of the group is left.\<close>

theorem shutdown_in_order:
  assumes "(lifecycle_step m)\<^sup>*\<^sup>* (lifecycle_start m) s"
  shows "(lc_ready s \<longleftrightarrow> lc_phase s = SvServing) \<and>
    (lc_err s = None \<longrightarrow> (TGrpc \<notin> lc_open s \<longrightarrow> THttp \<notin> lc_open s) \<and> (m \<and> TMetrics \<notin> lc_open s \<longrightarrow> TGrpc \<notin> lc_open s \<and> lc_sessions s = {}) \<and>
      (THttp \<notin> lc_open s \<longrightarrow> lc_cancelled s)) \<and>
    (lc_phase s = SvReturned \<longrightarrow> lc_open s = {} \<and> lc_sessions s = {} \<and> lc_running s = {} \<and> lc_cancelled s)"
proof -
  have "lifecycle_inv m s" using refl assms by (rule lifecycle.inv_reachable)
  then have f: "flags_ok s" "tasks_ok m s" "down_ok s" "up_ok m s" by (simp_all add: lifecycle_inv_def)
  have "THttp \<notin> lc_open s" if "lc_err s = None" "TGrpc \<notin> lc_open s" using that f(3,4) by (auto simp: up_ok_def down_ok_def not_less)
  moreover have "TGrpc \<notin> lc_open s \<and> lc_sessions s = {}" if "lc_err s = None" "m" "TMetrics \<notin> lc_open s"
    using that f(3,4) by (auto simp: up_ok_def down_ok_def not_less)
  moreover have "lc_cancelled s" if "lc_err s = None" "THttp \<notin> lc_open s" using that f(1,4) by (auto simp: up_ok_def flags_ok_def not_less)
  moreover have "lc_open s = {} \<and> lc_sessions s = {} \<and> lc_running s = {} \<and> lc_cancelled s" if "lc_phase s = SvReturned"
    using that f(1-3) by (auto simp: flags_ok_def tasks_ok_def down_ok_def)
  ultimately show ?thesis using f(1) by (auto simp: flags_ok_def)
qed

text \<open>(C18) Once the backend is told to stop, what it does by itself takes at most thirteen steps, and whatever their order, it ends with the
  return of \<^verbatim>\<open>Run\<close> exactly when no agent's session was open: requests in flight delay the shutdown by no more than its fifteen
  seconds, but for the agents it waits without end, since nothing ends their sessions.\<close>

theorem shutdown_returns_iff_agents_gone:
  assumes "(lifecycle_step m)\<^sup>*\<^sup>* (lifecycle_start m) s" and "lc_cancelled s"
  shows "(\<forall>k t. (down_step m ^^ k) s t \<longrightarrow> k \<le> 13) \<and> (\<exists>t. (down_step m)\<^sup>*\<^sup>* s t \<and> (\<forall>u. \<not> down_step m t u)) \<and>
    (\<forall>t. (down_step m)\<^sup>*\<^sup>* s t \<and> (\<forall>u. \<not> down_step m t u) \<longrightarrow> (lc_phase t = SvReturned \<longleftrightarrow> lc_sessions s = {}))"
proof -
  have inv: "lifecycle_inv m s" using refl assms(1) by (rule lifecycle.inv_reachable)
  then have "tasks_ok m s" by (simp add: lifecycle_inv_def)
  then have "k \<le> 13" if "(down_step m ^^ k) s t" for k t using down_steps_left [OF that] left_to_do_bound [of m s] by simp
  moreover have "lc_phase t = SvReturned \<longleftrightarrow> lc_sessions s = {}" if t: "(down_step m)\<^sup>*\<^sup>* s t" "\<forall>u. \<not> down_step m t u" for t
  proof -
    have k: "lc_sessions t = lc_sessions s" "lc_cancelled t" "lifecycle_inv m t" using down_steps_keep [OF t(1) assms(2) inv] by simp_all
    then have "lc_phase t = SvReturned \<Longrightarrow> lc_sessions s = {}" by (simp add: lifecycle_inv_def down_ok_def)
    moreover have "lc_sessions s = {} \<Longrightarrow> lc_phase t = SvReturned" using down_progress [OF k(3,2)] k(1) t(2) by auto
    ultimately show ?thesis by blast
  qed
  ultimately show ?thesis using down_ends by blast
qed

section \<open>A shutdown with an agent connected\<close>

definition busy :: lifecycle where
  "busy = (lifecycle_start False)\<lparr>lc_ready := True, lc_phase := SvServing, lc_sessions := {7}, lc_cancelled := True\<rparr>"

lemma busy_steps: "(lifecycle_step False)\<^sup>*\<^sup>* (lifecycle_start False) busy"
proof -
  let ?s1 = "(lifecycle_start False)\<lparr>lc_ready := True, lc_phase := SvServing\<rparr>"
  let ?s2 = "?s1\<lparr>lc_sessions := {7}\<rparr>"
  have "lifecycle_step False (lifecycle_start False) ?s1"
    by (intro lifecycle_step.own down_step.main) (simp add: main_step_def lifecycle_start_def)
  moreover have "lifecycle_step False ?s1 ?s2"
    using lifecycle_step.dial [of ?s1 False 7] by (simp add: lifecycle_start_def listeners_def)
  moreover have "lifecycle_step False ?s2 busy" using lifecycle_step.signal [of False ?s2] by (simp add: busy_def)
  ultimately show ?thesis by (meson rtranclp.rtrancl_into_rtrancl rtranclp.rtrancl_refl)
qed

theorem shutdown_in_order_witness: "lc_ready busy"
  using shutdown_in_order [OF busy_steps] by (simp add: busy_def)

theorem shutdown_returns_iff_agents_gone_witness:
  "\<exists>t. (down_step False)\<^sup>*\<^sup>* busy t \<and> (\<forall>u. \<not> down_step False t u) \<and> lc_phase t \<noteq> SvReturned"
proof -
  have "lc_cancelled busy" "lc_sessions busy \<noteq> {}" by (simp_all add: busy_def)
  with shutdown_returns_iff_agents_gone [OF busy_steps] show ?thesis by blast
qed

end
