(* ===== verification/Trace_Sockets.thy ===== *)
theory Trace_Sockets
  imports Trace_Parse
begin

unbundle bit_operations_syntax

text \<open>
  The raw sockets of \<^verbatim>\<open>internal/trace/engine.go\<close> and the socket options of \<^verbatim>\<open>sockopt.go\<close>: what \<^verbatim>\<open>openFamily\<close> opens and
  which packets its filters let through. The system calls are parameters. The filter of an IPv4 socket is a program for
  the classic packet filter of the kernel, whose instructions are written down from its definition: a load outside the
  packet drops it, a jump skips instructions, a return gives the number of bytes to keep.
\<close>

section \<open>The packet filter\<close>

datatype bpf_instruction =
    LoadMemShift nat
  | LoadIndirect nat nat
  | JumpEqual nat nat nat
  | RetConstant nat

text \<open>Value, \<^verbatim>\<open>SkipTrue\<close> and \<^verbatim>\<open>SkipFalse\<close> of a jump; offset and size of a load.\<close>

definition load :: "u8 list \<Rightarrow> nat \<Rightarrow> nat \<Rightarrow> nat option" where
  "load pkt off sz =
    (if off + sz \<le> length pkt then Some (foldl (\<lambda>a b. a * 256 + unat b) 0 (take sz (drop off pkt))) else None)"

function bpf_run :: "bpf_instruction list \<Rightarrow> u8 list \<Rightarrow> nat \<Rightarrow> nat \<Rightarrow> nat" where
  "bpf_run [] pkt a x = 0"
| "bpf_run (LoadMemShift off # p) pkt a x =
    (case load pkt off 1 of None \<Rightarrow> 0 | Some b \<Rightarrow> bpf_run p pkt a (4 * (b mod 16)))"
| "bpf_run (LoadIndirect off sz # p) pkt a x =
    (case load pkt (x + off) sz of None \<Rightarrow> 0 | Some b \<Rightarrow> bpf_run p pkt b x)"
| "bpf_run (JumpEqual v skipTrue skipFalse # p) pkt a x = bpf_run (drop (if a = v then skipTrue else skipFalse) p) pkt a x"
| "bpf_run (RetConstant v # p) pkt a x = v"
  by pat_completeness auto
termination by (relation "measure (\<lambda>(p, _). length p)") auto

definition attachICMP4Filter :: "bpf_instruction list" where
  "attachICMP4Filter =
    [LoadMemShift 0,
     LoadIndirect 0 1,
     JumpEqual 0 2 0,
     JumpEqual 3 1 0,
     JumpEqual 11 0 1,
     RetConstant 65535,
     RetConstant 0]"

section \<open>Opening a family\<close>

text \<open>
  A socket with its filter: the types an ICMPv6 socket accepts, or the program of an IPv4 socket, which is missing when it could
  not be attached.
\<close>

record 'c family =
  fa_conn :: 'c
  fa_v6 :: bool
  fa_types :: "u8 set"
  fa_prog :: "bpf_instruction list option"

text \<open>The family or the error, and the sockets closed on the way.\<close>

definition openFamily ::
  "(string \<Rightarrow> string \<Rightarrow> string + 'c) \<Rightarrow> ('c \<Rightarrow> u8 set \<Rightarrow> string option) \<Rightarrow> ('c \<Rightarrow> bpf_instruction list \<Rightarrow> string option) \<Rightarrow> bool \<Rightarrow>
    (string + 'c family) \<times> 'c list" where
  "openFamily ListenPacket SetICMPFilter SetFprog v6 =
    (let network = (if v6 then ''ip6:ipv6-icmp'' else ''ip4:icmp''); address = (if v6 then ''::'' else ''0.0.0.0'')
     in case ListenPacket network address of
          Inl e \<Rightarrow> (Inl e, [])
        | Inr c \<Rightarrow>
            if v6 then
              (let filt = {129, 3, 1}
               in case SetICMPFilter c filt of
                    Some e \<Rightarrow> (Inl (''icmp6 filter: '' @ e), [c])
                  | None \<Rightarrow> (Inr \<lparr>fa_conn = c, fa_v6 = True, fa_types = filt, fa_prog = None\<rparr>, []))
            else
              (Inr \<lparr>fa_conn = c, fa_v6 = False, fa_types = {},
                 fa_prog = (case SetFprog c attachICMP4Filter of Some e \<Rightarrow> None | None \<Rightarrow> Some attachICMP4Filter)\<rparr>, []))"

text \<open>Whether the kernel hands a datagram to the socket: the ICMPv6 message itself, or the packet with its IPv4 header.\<close>

definition passes :: "'c family \<Rightarrow> u8 list \<Rightarrow> bool" where
  "passes f pkt =
    (if fa_v6 f then pkt \<noteq> [] \<and> pkt ! 0 \<in> fa_types f
     else case fa_prog f of None \<Rightarrow> True | Some prog \<Rightarrow> bpf_run prog pkt 0 0 \<noteq> 0)"

section \<open>Closing the engine\<close>

text \<open>The sockets of an engine, whether it is closed, and the sockets closed so far. A second \<^verbatim>\<open>Close\<close> does nothing.\<close>

record 'c engine_sockets =
  es_closed :: bool
  es_v4 :: "'c family option"
  es_v6 :: "'c family option"
  es_shut :: "'c list"

definition engine_Close :: "'c engine_sockets \<Rightarrow> 'c engine_sockets" where
  "engine_Close e =
    (if es_closed e then e
     else
       let e = e\<lparr>es_closed := True\<rparr>;
           e = (case es_v4 e of Some f \<Rightarrow> e\<lparr>es_shut := es_shut e @ [fa_conn f]\<rparr> | None \<Rightarrow> e)
       in case es_v6 e of Some f \<Rightarrow> e\<lparr>es_shut := es_shut e @ [fa_conn f]\<rparr> | None \<Rightarrow> e)"

lemma engine_Close_once:
  assumes "\<not> es_closed e" and "es_shut e = []"
  shows "es_closed (engine_Close e)" and "engine_Close (engine_Close e) = engine_Close e"
    and "es_shut (engine_Close e) = map fa_conn (List.map_filter id [es_v4 e, es_v6 e])"
  using assms by (auto simp: engine_Close_def Let_def map_filter_simps split: option.split)

section \<open>Socket options\<close>

datatype sockopt = IPV6_UNICAST_HOPS | IPV6_TCLASS | IP_TTL | IP_TOS

text \<open>The options that were set, and the error.\<close>

definition setHopOptionsFD :: "(sockopt \<Rightarrow> int \<Rightarrow> string option) \<Rightarrow> bool \<Rightarrow> int \<Rightarrow> int \<Rightarrow> (sockopt \<times> int) list \<times> string option" where
  "setHopOptionsFD Setsockopt v6 ttl tos =
    (let hop = (if v6 then IPV6_UNICAST_HOPS else IP_TTL); cls = (if v6 then IPV6_TCLASS else IP_TOS)
     in case Setsockopt hop ttl of
          Some e \<Rightarrow> ([], Some e)
        | None \<Rightarrow> (case Setsockopt cls tos of Some e \<Rightarrow> ([(hop, ttl)], Some e) | None \<Rightarrow> ([(hop, ttl), (cls, tos)], None)))"

definition setHopOptions ::
  "string option \<Rightarrow> string option \<Rightarrow> (sockopt \<Rightarrow> int \<Rightarrow> string option) \<Rightarrow> bool \<Rightarrow> int \<Rightarrow> int \<Rightarrow> (sockopt \<times> int) list \<times> string option" where
  "setHopOptions SyscallConn Control Setsockopt v6 ttl tos =
    (case SyscallConn of
       Some e \<Rightarrow> ([], Some e)
     | None \<Rightarrow> (case Control of Some e \<Rightarrow> ([], Some e) | None \<Rightarrow> setHopOptionsFD Setsockopt v6 ttl tos))"

lemma setHopOptions_sets_both:
  "setHopOptions sc ctl Setsockopt v6 ttl tos = (opts, None) \<Longrightarrow>
    opts = (if v6 then [(IPV6_UNICAST_HOPS, ttl), (IPV6_TCLASS, tos)] else [(IP_TTL, ttl), (IP_TOS, tos)])"
  by (auto simp: setHopOptions_def setHopOptionsFD_def Let_def split: option.splits if_splits)

section \<open>What the filters keep\<close>

lemma load_byte: "load pkt off 1 = (if off < length pkt then Some (unat (pkt ! off)) else None)"
  by (auto simp: load_def take_Suc_conv_app_nth)

text \<open>The length of the header as the first byte gives it.\<close>

definition header_length :: "u8 list \<Rightarrow> nat" where
  "header_length pkt = 4 * (unat (pkt ! 0) mod 16)"

lemma drop_2: "drop 2 (a # b # c) = c" "drop 1 (a # c) = c" by simp_all

lemma filter_exact:
  "bpf_run attachICMP4Filter pkt 0 0 =
    (if pkt \<noteq> [] \<and> header_length pkt < length pkt \<and> pkt ! header_length pkt \<in> {0, 3, 11} then 65535 else 0)"
proof -
  have w: "unat w = n \<longleftrightarrow> w = of_nat n" if "n < 256" for w :: u8 and n
    using that by (auto simp: unsigned_of_nat take_bit_nat_eq_self)
  show ?thesis
    using w [of 0 "pkt ! header_length pkt"] w [of 3 "pkt ! header_length pkt"] w [of 11 "pkt ! header_length pkt"]
    by (auto simp: attachICMP4Filter_def load_byte [unfolded One_nat_def] load_byte header_length_def split: option.split)
qed

text \<open>
  What the engine relies on of the ICMP parser: the type of a message is its first byte, and an error body comes with
  the type of that error.
\<close>

definition parses_types :: "(int \<Rightarrow> u8 list \<Rightarrow> icmp_message option) \<Rightarrow> bool" where
  "parses_types ParseMessage =
    ((\<forall>b m. ParseMessage protoICMP b = Some m \<longrightarrow> b \<noteq> [] \<and> m_Type m = Type4 (uint (b ! 0)) \<and>
       ((\<exists>d. m_Body m = TimeExceeded d) \<longrightarrow> b ! 0 = 11) \<and> ((\<exists>d. m_Body m = DstUnreach d) \<longrightarrow> b ! 0 = 3)) \<and>
     (\<forall>b m. ParseMessage protoICMPv6 b = Some m \<longrightarrow> b \<noteq> [] \<and> m_Type m = Type6 (uint (b ! 0)) \<and>
       ((\<exists>d. m_Body m = TimeExceeded d) \<longrightarrow> b ! 0 = 3) \<and> ((\<exists>d. m_Body m = DstUnreach d) \<longrightarrow> b ! 0 = 1)))"

lemma parsed_type:
  assumes "parses_types ParseMessage" and "parseReply ParseMessage ParseHeader b v6 = Ok (Some r)"
  shows "b \<noteq> [] \<and> b ! 0 \<in> (if v6 then {129, 3, 1} else {0, 3, 11})"
proof -
  obtain m where m: "ParseMessage (if v6 then protoICMPv6 else protoICMP) b = Some m"
    using assms(2) by (auto simp: parseReply_def Let_def split: option.splits)
  have w: "uint w = n \<longleftrightarrow> w = word_of_int n" if "0 \<le> n" "n < 256" for w :: u8 and n
    using that by (auto simp: unsigned_of_int take_bit_int_eq_self)
  have t: "b \<noteq> []" "m_Type m = (if v6 then Type6 (uint (b ! 0)) else Type4 (uint (b ! 0)))"
    "(\<exists>d. m_Body m = TimeExceeded d) \<longrightarrow> b ! 0 = (if v6 then 3 else 11)" "(\<exists>d. m_Body m = DstUnreach d) \<longrightarrow> b ! 0 = (if v6 then 1 else 3)"
    using assms(1) [unfolded parses_types_def, THEN conjunct1, rule_format, of b m]
      assms(1) [unfolded parses_types_def, THEN conjunct2, rule_format, of b m] m by (cases v6; simp)+
  show ?thesis
  proof (cases "m_Body m")
    case (Echo i q d)
    then have "m_Type m = (if v6 then Type6 129 else Type4 0)"
      using assms(2) m by (cases v6) (simp_all add: parseReply_def split: if_splits)
    then show ?thesis using t(1,2) w [of 0 "b ! 0"] w [of 129 "b ! 0"] by (cases v6) simp_all
  next
    case OtherBody
    then show ?thesis using assms(2) m by (simp add: parseReply_def Let_def)
  qed (use t in auto)
qed

text \<open>The filters lose no reply: a datagram that would be read as the answer to a probe is handed to the socket, whichever family, whether the
  program of the IPv4 socket could be attached or not, and whatever options its header has. On an IPv4 socket the program
  lets nothing else through than echo replies, unreachables and exceeded TTLs.\<close>

theorem filter_keeps_replies:
  assumes "openFamily ListenPacket SetICMPFilter SetFprog v6 = (Inr f, cs)" and "parses_types ParseMessage"
    and "parseReply ParseMessage ParseHeader b v6 = Ok (Some r)"
    and "v6 \<or> hdr \<noteq> [] \<and> header_length hdr = length hdr"
  shows "passes f (if v6 then b else hdr @ b) \<and> cs = [] \<and>
    (\<not> v6 \<and> fa_prog f \<noteq> None \<longrightarrow> (\<forall>pkt. passes f pkt \<longrightarrow> header_length pkt < length pkt \<and> pkt ! header_length pkt \<in> {0, 3, 11}))"
proof (cases v6)
  case True
  then show ?thesis using assms(1) parsed_type [OF assms(2,3)]
    by (auto simp: openFamily_def passes_def Let_def split: sum.splits option.splits)
next
  case False
  then have hdr: "hdr \<noteq> []" "header_length hdr = length hdr" using assms(4) by simp_all
  then have "header_length (hdr @ b) = length hdr" by (simp add: header_length_def nth_append)
  then have "bpf_run attachICMP4Filter (hdr @ b) 0 0 \<noteq> 0"
    using hdr(1) parsed_type [OF assms(2,3)] False by (auto simp: filter_exact nth_append)
  moreover have f: "\<not> fa_v6 f" "fa_prog f = None \<or> fa_prog f = Some attachICMP4Filter" "cs = []"
    using assms(1) False by (auto simp: openFamily_def Let_def split: sum.splits option.splits)
  ultimately show ?thesis using False by (auto simp: passes_def filter_exact split: if_splits)
qed

theorem filter_keeps_replies_witness:
  "passes \<lparr>fa_conn = (), fa_v6 = False, fa_types = {}, fa_prog = Some attachICMP4Filter\<rparr> (replicate 20 0x45 @ [0, 0])"
proof -
  let ?M = "\<lambda>(p :: int) (b :: u8 list). if b \<noteq> [] \<and> b ! 0 = 0 \<and> p = protoICMP then Some \<lparr>m_Type = Type4 0, m_Code = 0, m_Body = Echo 7 1 []\<rparr> else None"
  have o: "openFamily (\<lambda>_ _. Inr ()) (\<lambda>_ _. None) (\<lambda>_ _. None) False =
      (Inr \<lparr>fa_conn = (), fa_v6 = False, fa_types = {}, fa_prog = Some attachICMP4Filter\<rparr>, [])"
    by (simp add: openFamily_def Let_def)
  have t: "parses_types ?M" by (auto simp: parses_types_def proto_numbers split: if_splits)
  have p: "parseReply ?M (\<lambda>_. None) [0, 0] False = Ok (Some (plain_reply \<lparr>k_proto = ICMP, k_v6 = False, k_id = 7, k_seq = 1\<rparr> replyFromTarget 0))"
    by (simp add: parseReply_def proto_numbers Let_def)
  have h: "False \<or> replicate 20 (0x45 :: u8) \<noteq> [] \<and> header_length (replicate 20 0x45) = length (replicate 20 (0x45 :: u8))"
    by (simp add: header_length_def)
  from filter_keeps_replies [OF o t p h] show ?thesis by simp
qed

end
