(* ===== verification/Commands.thy ===== *)
theory Commands
  imports Agent_Config Trace_Engine Backend_Server
begin

text \<open>
  The two commands, \<^verbatim>\<open>cmd/prober-agent/main.go\<close> and \<^verbatim>\<open>cmd/prober-backend/main.go\<close>, up to the point where the program runs, and the
  construction of the agent, \<^verbatim>\<open>New\<close> of \<^verbatim>\<open>internal/agent/agent.go\<close>. The flags are a record; reading a file, decoding YAML into the
  configuration and opening a socket are parameters.
\<close>

section \<open>Host and port\<close>

text \<open>\<^verbatim>\<open>net.SplitHostPort\<close>, with the cases in which it fails as one.\<close>

definition before :: "char \<Rightarrow> string \<Rightarrow> string" where "before c s = takeWhile (\<lambda>x. x \<noteq> c) s"

definition SplitHostPort :: "string \<Rightarrow> (string \<times> string) option" where
  "SplitHostPort s =
    (if CHR '':'' \<notin> set s then None
     else
       let port = after_last CHR '':'' s; rest = take (length s - length port - 1) s
       in if hd s = CHR ''['' then
            (let host = before CHR '']'' (tl s)
             in if rest = CHR ''['' # host @ '']'' \<and> CHR ''['' \<notin> set host \<and> CHR ''['' \<notin> set port \<and> CHR '']'' \<notin> set port
                then Some (host, port) else None)
          else if CHR '':'' \<in> set rest \<or> CHR ''['' \<in> set s \<or> CHR '']'' \<in> set s then None
          else Some (rest, port))"

text \<open>\<^verbatim>\<open>Addr.IsLoopback\<close>: \<^verbatim>\<open>127.0.0.0/8\<close> and \<^verbatim>\<open>::1\<close>.\<close>

definition IsLoopback :: "addr \<Rightarrow> bool" where
  "IsLoopback a = (case (if Is4In6 a then Unmap a else a) of NoAddr \<Rightarrow> False | V4 w \<Rightarrow> drop_bit 24 w = 127 | V6 w z \<Rightarrow> w = 1)"

lemma before_append: "c \<notin> set s \<Longrightarrow> before c (s @ c # t) = s" by (induction s) (auto simp: before_def)

lemma split_join_host:
  assumes "CHR '':'' \<notin> set port" and "set host \<inter> {CHR ''['', CHR '']''} = {}" and "set port \<inter> {CHR ''['', CHR '']''} = {}"
  shows "SplitHostPort (JoinHostPort host port) = Some (host, port)"
proof (cases "CHR '':'' \<in> set host")
  case True
  have a: "after_last CHR '':'' ((CHR ''['' # host @ '']'') @ CHR '':'' # port) = port"
    using after_last_append [OF assms(1), of "CHR ''['' # host @ '']''"] by simp
  have b: "before CHR '']'' (host @ CHR '']'' # CHR '':'' # port) = host" using assms(2) by (intro before_append) auto
  show ?thesis using True a b assms(2,3) by (simp add: SplitHostPort_def JoinHostPort_def Let_def)
next
  case False
  have a: "after_last CHR '':'' (host @ CHR '':'' # port) = port" using after_last_append [OF assms(1)] by simp
  moreover have "hd (host @ CHR '':'' # port) \<noteq> CHR ''[''" using assms(2) by (cases host) auto
  ultimately show ?thesis using False assms(2,3) by (auto simp: SplitHostPort_def JoinHostPort_def Let_def)
qed

section \<open>The agent\<close>

record AgentConfig =
  ac_Backend :: BackendConfig
  ac_Limits :: Limits
  ac_Nameservers :: "string list"

record 'p Agent =
  aj_cfg :: AgentConfig
  aj_engine :: Engine
  aj_token :: string
  aj_tls :: "'p tls_Config"
  aj_started :: instant
  aj_version :: string
  aj_commit :: string
  aj_hostname :: string
  aj_sources :: "string list"
  aj_dns :: "string list option"

datatype command_error =
    ReadConfig string
  | DecodeConfig string
  | ConfigRequired
  | BadAgentConfig config_error
  | BadBackendConfig backend_config_error
  | BadAuthConfig auth_config_error
  | NoEngine engine_error
  | PprofAddress string
  | PprofNotLoopback string
  | PprofListen string

record 'p host =
  ho_ReadFile :: "string \<Rightarrow> string + string"
  ho_AppendCerts :: "string \<Rightarrow> 'p option"
  ho_ParseAddrPort :: "string \<Rightarrow> string option"
  ho_ParseAddr :: "string \<Rightarrow> addr option"
  ho_addr_str :: "addr \<Rightarrow> string"
  ho_interfaces :: "addr option list option"
  ho_openFamily :: "bool \<Rightarrow> bool"
  ho_Dial :: "addr \<Rightarrow> u16 \<Rightarrow> addr option"
  ho_Global :: "addr \<Rightarrow> bool"
  ho_Listen :: "string \<Rightarrow> string option"
  ho_Hostname :: string
  ho_now :: instant

definition agent_New :: "'p host \<Rightarrow> AgentConfig \<Rightarrow> string \<Rightarrow> string \<Rightarrow> command_error + 'p Agent" where
  "agent_New H cfg version commit =
    (let cfg = cfg\<lparr>ac_Limits := withDefaults (ac_Limits cfg)\<rparr>; bc = ac_Backend cfg
     in case BackendConfig_Validate (ho_ReadFile H) (ho_AppendCerts H) bc of
          Some e \<Rightarrow> Inl (BadAgentConfig e)
        | None \<Rightarrow>
            (case agent_token (ho_ReadFile H) bc of Inl e \<Rightarrow> Inl (BadAgentConfig e) | Inr token \<Rightarrow>
            (case tlsConfig (ho_ReadFile H) (ho_AppendCerts H) bc of Inl e \<Rightarrow> Inl (BadAgentConfig e) | Inr tls \<Rightarrow>
            (case dns_client (ho_ParseAddrPort H) (ho_ParseAddr H) (ho_addr_str H) (ac_Nameservers cfg) of
               Inl e \<Rightarrow> Inl (BadAgentConfig e) | Inr dns \<Rightarrow>
            (case New (ho_interfaces H) (ho_openFamily H) of Inl e \<Rightarrow> Inl (NoEngine e) | Inr eng \<Rightarrow>
              let caps = engine_Capabilities eng;
                  ips = map_option (\<lambda>as. map the (filter (\<lambda>a. a \<noteq> None) as)) (ho_interfaces H)
              in Inr \<lparr>aj_cfg = cfg, aj_engine = eng, aj_token = token, aj_tls = tls, aj_started = ho_now H, aj_version = version,
                   aj_commit = commit, aj_hostname = ho_Hostname H,
                   aj_sources = egressSources (ho_addr_str H) (ho_Dial H) (ho_Global H) ips (cap_IPv4 caps) (cap_IPv6 caps), aj_dns = dns\<rparr>)))))"

text \<open>
  The log handler the SIP library is given (\<^verbatim>\<open>internal/sip/quiet.go\<close>): it wraps the handler of the agent and drops one message; a handler with
  more attributes or in a group is wrapped again.
\<close>

record log_record =
  lr_Message :: string
  lr_Attrs :: "string list"

record log_handler =
  lh_Handle :: "log_record \<Rightarrow> log_record list"
  lh_Attrs :: "string list"

definition quiet_Handle :: "log_handler \<Rightarrow> log_record \<Rightarrow> log_record list" where
  "quiet_Handle h r = (if sublist ''went negative'' (lr_Message r) then [] else lh_Handle h r)"

definition quietHandler :: "log_handler \<Rightarrow> log_handler" where
  "quietHandler h = h\<lparr>lh_Handle := quiet_Handle h\<rparr>"

definition quiet_WithAttrs :: "string list \<Rightarrow> log_handler \<Rightarrow> log_handler" where
  "quiet_WithAttrs attrs h = quietHandler (h\<lparr>lh_Attrs := lh_Attrs h @ attrs\<rparr>)"

lemma quiet_handler_drops_one_message:
  "lh_Handle (quietHandler h) r = (if sublist ''went negative'' (lr_Message r) then [] else lh_Handle h r)"
  "lh_Handle (quiet_WithAttrs attrs (quietHandler h)) r = (if sublist ''went negative'' (lr_Message r) then [] else lh_Handle h r)"
  by (simp_all add: quiet_WithAttrs_def quietHandler_def quiet_Handle_def)

section \<open>The command of the agent\<close>

record flags =
  fl_config :: string
  fl_version :: bool
  fl_check :: bool
  fl_pprof :: string

text \<open>What a command does after its start: it prints and ends, it fails, or it runs.\<close>

datatype 'a command = Printed string | Failed command_error | Runs 'a

definition listenProfiling :: "'p host \<Rightarrow> string \<Rightarrow> command_error option" where
  "listenProfiling H a =
    (case SplitHostPort a of
       None \<Rightarrow> Some (PprofAddress a)
     | Some (host, port) \<Rightarrow>
         if host \<noteq> ''localhost'' \<and> \<not> (case ho_ParseAddr H host of None \<Rightarrow> False | Some ip \<Rightarrow> IsLoopback ip) then Some (PprofNotLoopback a)
         else map_option PprofListen (ho_Listen H a))"

definition zero_agent_config :: AgentConfig where
  "zero_agent_config = \<lparr>ac_Backend = \<lparr>bc_Address = [], bc_Site = [], bc_Token = [], bc_TokenFile = [], bc_CA = [], bc_CAFile = [],
      bc_ServerName = [], bc_InsecureSkipVerify = False, bc_SkipHostnameVerify = False, bc_DialTimeout = 0\<rparr>,
    ac_Limits = \<lparr>lm_MaxConcurrentJobs = 0, lm_MaxCycles = 0, lm_MinIntervalMS = 0, lm_MaxTTL = 0\<rparr>, ac_Nameservers = []\<rparr>"

definition agent_command ::
  "'p host \<Rightarrow> (string \<Rightarrow> string + AgentConfig) \<Rightarrow> string \<Rightarrow> string \<Rightarrow> flags \<Rightarrow> 'p Agent command" where
  "agent_command H Decode version commit f =
    (if fl_version f then Printed (version @ '' '' @ commit)
     else
       case (if fl_config f = [] then Inr zero_agent_config
             else case ho_ReadFile H (fl_config f) of
                 Inl e \<Rightarrow> Inl (ReadConfig e)
               | Inr b \<Rightarrow> (case Decode b of Inl e \<Rightarrow> Inl (DecodeConfig e) | Inr cfg \<Rightarrow> Inr cfg)) of
         Inl e \<Rightarrow> Failed e
       | Inr cfg \<Rightarrow>
           (case BackendConfig_Validate (ho_ReadFile H) (ho_AppendCerts H) (ac_Backend cfg) of
              Some e \<Rightarrow> Failed (BadAgentConfig e)
            | None \<Rightarrow>
                if fl_check f then
                  Printed (''config OK: backend '' @ bc_Address (ac_Backend cfg) @ '', site '' @ bc_Site (ac_Backend cfg))
                else
                  (case (if fl_pprof f = [] then None else listenProfiling H (fl_pprof f)) of
                     Some e \<Rightarrow> Failed e
                   | None \<Rightarrow> (case agent_New H cfg version commit of Inl e \<Rightarrow> Failed e | Inr a \<Rightarrow> Runs a))))"

section \<open>The command of the backend\<close>

definition loadYAML :: "(string \<Rightarrow> string + string) \<Rightarrow> (string \<Rightarrow> string + 'cfg) \<Rightarrow> string \<Rightarrow> command_error + 'cfg" where
  "loadYAML ReadFile Decode path =
    (if path = [] then Inl ConfigRequired
     else case ReadFile path of
         Inl e \<Rightarrow> Inl (ReadConfig e)
       | Inr b \<Rightarrow> (case Decode b of Inl e \<Rightarrow> Inl (DecodeConfig e) | Inr cfg \<Rightarrow> Inr cfg))"

definition backend_command ::
  "(string \<Rightarrow> string + string) \<Rightarrow> (string \<Rightarrow> string + ServerConfig) \<Rightarrow> (ServerConfig \<Rightarrow> auth_config_error + Server) \<Rightarrow> (ServerConfig \<Rightarrow> string) \<Rightarrow>
    string \<Rightarrow> string \<Rightarrow> flags \<Rightarrow> Server command" where
  "backend_command ReadFile Decode server summary version commit f =
    (if fl_version f then Printed (version @ '' '' @ commit)
     else
       case loadYAML ReadFile Decode (fl_config f) of
         Inl e \<Rightarrow> Failed e
       | Inr cfg \<Rightarrow>
           (case Config_Validate (Config.truncate cfg) of
              Some e \<Rightarrow> Failed (BadBackendConfig e)
            | None \<Rightarrow>
                if fl_check f then
                  (case (if au_Enabled (sc_Auth cfg) then auth_Validate (sc_Auth cfg) else None) of
                     Some e \<Rightarrow> Failed (BadAuthConfig e)
                   | None \<Rightarrow> Printed (summary cfg))
                else (case server cfg of Inl e \<Rightarrow> Failed (BadAuthConfig e) | Inr s \<Rightarrow> Runs s)))"

section \<open>What the commands guarantee\<close>

lemma engine_has_family: "New ifaces open_family = Inr e \<Longrightarrow> e_v4 e \<or> e_v6 e"
  by (auto simp: New_def Let_def split: if_splits)

text \<open>A running agent has a token and a socket, and its limits are set.\<close>

lemma running_agent:
  assumes "agent_command H Decode version commit f = Runs a"
  shows "aj_token a \<noteq> [] \<and> 0 < lm_MaxConcurrentJobs (ac_Limits (aj_cfg a)) \<and> (e_v4 (aj_engine a) \<or> e_v6 (aj_engine a)) \<and>
    BackendConfig_Validate (ho_ReadFile H) (ho_AppendCerts H) (ac_Backend (aj_cfg a)) = None"
proof -
  obtain cfg where "agent_New H cfg version commit = Inr a"
    using assms by (auto simp: agent_command_def split: if_splits sum.splits option.splits)
  then have n: "BackendConfig_Validate (ho_ReadFile H) (ho_AppendCerts H) (ac_Backend cfg) = None"
    "agent_token (ho_ReadFile H) (ac_Backend cfg) = Inr (aj_token a)" "New (ho_interfaces H) (ho_openFamily H) = Inr (aj_engine a)"
    "aj_cfg a = cfg\<lparr>ac_Limits := withDefaults (ac_Limits cfg)\<rparr>"
    by (auto simp: agent_New_def Let_def split: sum.splits option.splits)
  have "aj_token a \<noteq> []" using n(2) by (auto simp: agent_token_def Let_def split: if_splits sum.splits)
  moreover have "e_v4 (aj_engine a) \<or> e_v6 (aj_engine a)" using n(3) by (rule engine_has_family)
  ultimately show ?thesis using n(1,4) by (simp add: withDefaults_def)
qed

text \<open>The profiling listener is opened on a loopback address only.\<close>

lemma profiling_stays_local:
  assumes "agent_command H Decode version commit f = Runs a" and "fl_pprof f \<noteq> []"
  shows "\<exists>host port. SplitHostPort (fl_pprof f) = Some (host, port) \<and>
    (host = ''localhost'' \<or> (\<exists>ip. ho_ParseAddr H host = Some ip \<and> IsLoopback ip))"
  using assms by (auto simp: agent_command_def listenProfiling_def split: if_splits sum.splits option.splits)

text \<open>The check of the agent's configuration passes over its nameservers: a configuration it calls good may not start.\<close>

lemma check_passes_bad_nameserver:
  assumes "BackendConfig_Validate (ho_ReadFile H) (ho_AppendCerts H) (ac_Backend cfg) = None" and "ho_ReadFile H path = Inr b"
    and "Decode b = Inr (cfg\<lparr>ac_Nameservers := [[]]\<rparr>)" and "path \<noteq> []"
  shows "(\<exists>msg. agent_command H Decode version commit \<lparr>fl_config = path, fl_version = False, fl_check = True, fl_pprof = []\<rparr> = Printed msg) \<and>
    agent_command H Decode version commit \<lparr>fl_config = path, fl_version = False, fl_check = False, fl_pprof = []\<rparr> =
      Failed (BadAgentConfig NameserverEmpty)"
proof -
  obtain token tls where "agent_token (ho_ReadFile H) (ac_Backend cfg) = Inr token"
    "tlsConfig (ho_ReadFile H) (ho_AppendCerts H) (ac_Backend cfg) = Inr tls"
    using assms(1) by (auto simp: BackendConfig_Validate_def split: if_splits sum.splits)
  then show ?thesis using assms by (simp add: agent_command_def agent_New_def dns_client_def Let_def)
qed

end
