(* ===== verification/Monitor_Export.thy ===== *)
theory Monitor_Export
  imports Monitor_Theorems
begin

text \<open>
  What the sink exports: the series of its metric vectors, the info series of a scrape
  (\<^verbatim>\<open>Collect\<close> of \<^verbatim>\<open>internal/backend/monitorsink.go\<close>) and the layout of the report of a trace
  (\<^verbatim>\<open>mtrreport.go\<close>). A handler changes the metrics before it takes the lock, so the first part splits
  a handler there and lets reloads and sweeps run in between.
\<close>

section \<open>The series of the metric vectors\<close>

text \<open>
  What a list of calls leaves, as the metrics library documents it: using a vector with label values creates the
  series, and a deletion by partial match removes every series of the site and monitor from every vector.
\<close>

datatype metric_name = M_probes | M_success | M_rtt | M_loss | M_up | M_sip

definition baseLabels :: "string list" where
  "baseLabels = [''site'', ''monitor'', ''kind'', ''target'', ''transport'']"

definition rttBuckets :: "real list" where
  "rttBuckets = [0.001, 0.002, 0.005, 0.01, 0.02, 0.05, 0.1, 0.2, 0.5, 1, 2, 5]"

text \<open>The vectors \<^verbatim>\<open>NewMonitorSink\<close> registers: their names, their label names and the bounds of the histogram.\<close>

definition metric_vectors :: "(metric_name \<times> string \<times> string list \<times> real list) list" where
  "metric_vectors =
    [(M_probes, ''prober_monitor_probes_total'', baseLabels, []),
     (M_success, ''prober_monitor_probes_success_total'', baseLabels, []),
     (M_rtt, ''prober_monitor_rtt_seconds'', baseLabels, rttBuckets),
     (M_loss, ''prober_monitor_loss_ratio'', baseLabels, []),
     (M_up, ''prober_monitor_up'', baseLabels, []),
     (M_sip, ''prober_monitor_sip_responses_total'', baseLabels @ [''code''], [])]"

text \<open>The vector and the label values a call uses; a vector panics on another number of values than it has labels.\<close>

fun call_series :: "metric_call \<Rightarrow> (metric_name \<times> string list) option" where
  "call_series (ProbesInc lv) = Some (M_probes, lv)"
| "call_series (SuccessInc lv) = Some (M_success, lv)"
| "call_series (RttObserve lv _) = Some (M_rtt, lv)"
| "call_series (LossSet lv _) = Some (M_loss, lv)"
| "call_series (UpSet lv _) = Some (M_up, lv)"
| "call_series (SipInc lv) = Some (M_sip, lv)"
| "call_series (DeleteSeries a b) = None"

definition call_fits :: "metric_call \<Rightarrow> bool" where
  "call_fits c =
    (case call_series c of
       None \<Rightarrow> True
     | Some (m, lv) \<Rightarrow> case map_of metric_vectors m of Some (_, labels, _) \<Rightarrow> length lv = length labels | None \<Rightarrow> False)"

fun apply_call :: "metric_call \<Rightarrow> (metric_name \<times> string list) list \<Rightarrow> (metric_name \<times> string list) list" where
  "apply_call (ProbesInc lv) = List.insert (M_probes, lv)"
| "apply_call (SuccessInc lv) = List.insert (M_success, lv)"
| "apply_call (RttObserve lv _) = List.insert (M_rtt, lv)"
| "apply_call (LossSet lv _) = List.insert (M_loss, lv)"
| "apply_call (UpSet lv _) = List.insert (M_up, lv)"
| "apply_call (SipInc lv) = List.insert (M_sip, lv)"
| "apply_call (DeleteSeries a b) = filter (\<lambda>(m, lv). take 2 lv \<noteq> [a, b])"

definition live_series :: "metric_call list \<Rightarrow> (metric_name \<times> string list) list" where
  "live_series calls = fold apply_call calls []"

text \<open>The value last given to the \<^verbatim>\<open>up\<close> gauge of a site and monitor, while its series is there.\<close>

fun up_call :: "string \<times> string \<Rightarrow> metric_call \<Rightarrow> real option \<Rightarrow> real option" where
  "up_call k (UpSet lv x) v = (if take 2 lv = [fst k, snd k] then Some x else v)"
| "up_call k (DeleteSeries a b) v = (if (a, b) = k then None else v)"
| "up_call k _ v = v"

definition up_value :: "metric_call list \<Rightarrow> string \<times> string \<Rightarrow> real option" where
  "up_value calls k = fold (up_call k) calls None"

text \<open>The calls a handler makes before it takes the lock, and what it does under it.\<close>

definition event_calls :: "string \<Rightarrow> string \<Rightarrow> monState \<Rightarrow> job_event \<Rightarrow> metric_call list" where
  "event_calls site i st e =
    (let lv = [site, i, mt_kind st, mt_target st, mt_transport st]
     in case e of
          EvCycle c \<Rightarrow> cycle_metrics lv c
        | EvSipResult r \<Rightarrow> sip_metrics lv r
        | EvError _ _ \<Rightarrow> [ProbesInc lv, UpSet lv 0]
        | _ \<Rightarrow> [])"

definition event_store :: "fmt_lib \<Rightarrow> instant \<Rightarrow> string \<Rightarrow> string \<Rightarrow> nat \<Rightarrow> JobEvent \<Rightarrow> MonitorSink \<Rightarrow> MonitorSink" where
  "event_store L now site i p ev s =
    (case je_Event ev of
       EvStarted started \<Rightarrow> onStarted now p (je_Time ev) started s
     | EvCycle c \<Rightarrow>
         upd_state p (\<lambda>st. st\<lparr>mt_last := cycle_outcome now st c,
           mt_lastCycle := (if mt_kind st = ''trace'' then Some c else mt_lastCycle st)\<rparr>) (keepLocked site i p s)
     | EvSipResult r \<Rightarrow> upd_state p (\<lambda>st. st\<lparr>mt_last := sip_outcome now st r\<rparr>) (keepLocked site i p s)
     | EvFinished _ reason \<Rightarrow> if reason = REASON_CANCELLED then dropReport p s else shipReport L now site i p [] s
     | EvError code msg \<Rightarrow>
         (let s = upd_state p (\<lambda>st. st\<lparr>mt_last := error_outcome now st msg\<rparr>) (keepLocked site i p s)
          in if code = CODE_ENGINE then shipReport L now site i p msg s else dropReport p s)
     | _ \<Rightarrow> s)"

definition add_calls :: "metric_call list \<Rightarrow> MonitorSink \<Rightarrow> MonitorSink" where
  "add_calls calls s = s\<lparr>ms_metrics := ms_metrics s @ calls\<rparr>"

lemma handle_event_split:
  "handle_event L now site i p ev s =
    event_store L now site i p ev (add_calls (event_calls site i (ms_store s p) (je_Event ev)) s)"
  by (simp add: handle_event_def event_store_def event_calls_def add_calls_def onCycle_def onSipResult_def onError_def Let_def
      split: job_event.split)

definition event_up :: "job_event \<Rightarrow> bool" where
  "event_up e = (case e of EvCycle c \<Rightarrow> snd (destHop c) | EvSipResult r \<Rightarrow> sr_Responded r | _ \<Rightarrow> False)"

theorem label_values_fit:
  "list_all call_fits (event_calls site i st e)"
  by (auto simp: event_calls_def cycle_metrics_def sip_metrics_def call_fits_def metric_vectors_def baseLabels_def Let_def
      split: job_event.split prod.split option.split)

text \<open>\<^verbatim>\<open>Run\<close>: a sweep at every tick of the ticker, whose times are given, until the context ends.\<close>

definition sweepInterval :: duration where "sweepInterval = 10 * Second"

fun sink_Run :: "instant list \<Rightarrow> MonitorSink \<Rightarrow> MonitorSink" where
  "sink_Run [] s = s"
| "sink_Run (now # ticks) s = sink_Run ticks (Sweep now s)"

section \<open>Handlers, sweeps and reloads interleaved\<close>

text \<open>
  \<open>my_own\<close> is the key a state object was made for, \<open>my_busy\<close> the handler between its calls and its lock: the
  messages of a site are handled one after the other, so that there is at most one for a key.
\<close>

record metric_sys =
  my_sink :: MonitorSink
  my_own :: "nat \<Rightarrow> (string \<times> string) option"
  my_busy :: "string \<times> string \<Rightarrow> (nat \<times> JobEvent) option"

inductive metric_step :: "metric_sys \<Rightarrow> metric_sys \<Rightarrow> bool" where
  state: "stateFor site i (my_sink m) = (s, Some p) \<Longrightarrow>
    metric_step m (m\<lparr>my_sink := s, my_own := (my_own m)(p \<mapsto> (site, i))\<rparr>)"
| touch: "\<lbrakk>my_own m p = Some (site, i); my_busy m (site, i) = None; moves_aggregate (je_Event ev)\<rbrakk> \<Longrightarrow>
    metric_step m (m\<lparr>my_sink := add_calls (event_calls site i (ms_store (my_sink m) p) (je_Event ev)) (my_sink m),
      my_busy := (my_busy m)((site, i) \<mapsto> (p, ev))\<rparr>)"
| keep: "my_busy m (site, i) = Some (p, ev) \<Longrightarrow>
    metric_step m (m\<lparr>my_sink := event_store L now site i p ev (my_sink m), my_busy := (my_busy m)((site, i) := None)\<rparr>)"
| quiet: "\<lbrakk>my_own m p = Some (site, i); \<not> moves_aggregate (je_Event ev)\<rbrakk> \<Longrightarrow>
    metric_step m (m\<lparr>my_sink := event_store L now site i p ev (my_sink m)\<rparr>)"
| refresh: "metric_step m (m\<lparr>my_sink := refresh i now (my_sink m)\<rparr>)"
| sweep: "metric_step m (m\<lparr>my_sink := Sweep now (my_sink m)\<rparr>)"
| reload: "metric_step m (m\<lparr>my_sink := (my_sink m)\<lparr>ms_reg := registry_Replace mons (ms_reg (my_sink m))\<rparr>\<rparr>)"
| retain: "metric_step m (m\<lparr>my_sink := Retain now (my_sink m)\<rparr>)"
| streams: "metric_step m (m\<lparr>my_sink := (my_sink m)\<lparr>ms_subs := subs, ms_sub := sub\<rparr>\<rparr>)"

definition metric_start :: "metric_sys \<Rightarrow> bool" where
  "metric_start m = ((\<exists>reg vl store sub. my_sink m = NewMonitorSink reg vl store sub) \<and> my_own m = Map.empty \<and> my_busy m = Map.empty)"

subsection \<open>The invariant\<close>

type_synonym key = "string \<times> string"

definition held_ok :: "(key \<times> nat) list \<Rightarrow> nat \<Rightarrow> (nat \<Rightarrow> key option) \<Rightarrow> (key \<Rightarrow> (nat \<times> JobEvent) option) \<Rightarrow> bool" where
  "held_ok state n own busy = (distinct (map fst state) \<and> (\<forall>k p. map_of state k = Some p \<longrightarrow> own p = Some k) \<and>
    (\<forall>p. own p \<noteq> None \<longrightarrow> p < n) \<and> (\<forall>k p ev. busy k = Some (p, ev) \<longrightarrow> own p = Some k \<and> moves_aggregate (je_Event ev)))"

definition series_ok :: "metric_call list \<Rightarrow> (key \<times> nat) list \<Rightarrow> (key \<Rightarrow> (nat \<times> JobEvent) option) \<Rightarrow> bool" where
  "series_ok calls state busy = (\<forall>(v, lv) \<in> set (live_series calls).
    \<exists>a b rest. lv = a # b # rest \<and> (map_of state (a, b) \<noteq> None \<or> busy (a, b) \<noteq> None))"

definition up_at :: "real option \<Rightarrow> nat option \<Rightarrow> (nat \<Rightarrow> monState) \<Rightarrow> (nat \<times> JobEvent) option \<Rightarrow> bool" where
  "up_at v held store b = (\<forall>x. v = Some x \<longrightarrow>
    (case b of
       Some q \<Rightarrow> x = boolGauge (event_up (je_Event (snd q)))
     | None \<Rightarrow> (\<exists>p. held = Some p \<and> x = boolGauge (oc_Up (mt_last (store p))))))"

definition up_ok :: "metric_call list \<Rightarrow> (key \<times> nat) list \<Rightarrow> (nat \<Rightarrow> monState) \<Rightarrow> (key \<Rightarrow> (nat \<times> JobEvent) option) \<Rightarrow> bool" where
  "up_ok calls state store busy = (\<forall>k. up_at (up_value calls k) (map_of state k) store (busy k))"

definition export_ok :: "MonitorSink \<Rightarrow> (nat \<Rightarrow> key option) \<Rightarrow> (key \<Rightarrow> (nat \<times> JobEvent) option) \<Rightarrow> bool" where
  "export_ok s own busy = (held_ok (ms_state s) (ms_next s) own busy \<and> series_ok (ms_metrics s) (ms_state s) busy \<and>
    up_ok (ms_metrics s) (ms_state s) (ms_store s) busy)"

lemma up_at_none [simp]: "up_at None held store b"
  by (simp add: up_at_def)

lemma up_at_cong:
  assumes "\<And>p. held = Some p \<Longrightarrow> mt_last (store p) = mt_last (store' p)"
  shows "up_at v held store b = up_at v held store' b"
proof -
  have "(\<exists>p. held = Some p \<and> x = boolGauge (oc_Up (mt_last (store p)))) = (\<exists>p. held = Some p \<and> x = boolGauge (oc_Up (mt_last (store' p))))" for x
    using assms by (cases held) auto
  then show ?thesis by (simp only: up_at_def)
qed

lemma up_okD: "up_ok calls state store busy \<Longrightarrow> up_at (up_value calls k) (map_of state k) store (busy k)"
  unfolding up_ok_def by blast

lemma up_okI: "(\<And>k. up_at (up_value calls k) (map_of state k) store (busy k)) \<Longrightarrow> up_ok calls state store busy"
  unfolding up_ok_def by blast

lemma export_okD:
  assumes "export_ok s own busy"
  shows "held_ok (ms_state s) (ms_next s) own busy" "series_ok (ms_metrics s) (ms_state s) busy"
    "up_ok (ms_metrics s) (ms_state s) (ms_store s) busy"
  using assms unfolding export_ok_def by blast+

lemma held_okD:
  assumes "held_ok state n own busy"
  shows "distinct (map fst state)" "map_of state k = Some p \<Longrightarrow> own p = Some k" "own p \<noteq> None \<Longrightarrow> p < n"
    "busy k = Some (p, ev) \<Longrightarrow> own p = Some k" "busy k = Some (p, ev) \<Longrightarrow> moves_aggregate (je_Event ev)"
  using assms unfolding held_ok_def by blast+

lemma export_ok_frame:
  assumes "export_ok s own busy" and "ms_state t = ms_state s" "ms_next t = ms_next s" "ms_metrics t = ms_metrics s"
    and "\<And>p. mt_last (ms_store t p) = mt_last (ms_store s p)"
  shows "export_ok t own busy"
proof -
  have "up_at v held (ms_store t) b = up_at v held (ms_store s) b" for v held b
    by (rule up_at_cong) (rule assms(5))
  then show ?thesis using assms(1-4) by (simp add: export_ok_def up_ok_def)
qed

lemma live_series_snoc: "live_series (calls @ extra) = fold apply_call extra (live_series calls)"
  by (simp add: live_series_def)

lemma up_value_append: "up_value (calls @ extra) k = fold (up_call k) extra (up_value calls k)"
  by (simp add: up_value_def)

lemma event_calls_up:
  assumes "moves_aggregate e"
  shows "fold (up_call k) (event_calls site i st e) v = (if k = (site, i) then Some (boolGauge (event_up e)) else v)"
  using assms
  by (cases k) (auto simp: event_calls_def cycle_metrics_def sip_metrics_def event_up_def boolGauge_def moves_aggregate_def Let_def
      split: job_event.splits prod.splits option.splits)

lemma event_calls_live:
  "set (fold apply_call (event_calls site i st e) xs) \<subseteq>
    set xs \<union> {(v, lv). \<exists>rest. lv = site # i # rest}"
  by (auto simp: event_calls_def cycle_metrics_def sip_metrics_def Let_def
      split: job_event.splits prod.splits option.splits if_splits)

subsection \<open>Every operation keeps it\<close>

lemma export_ok_forget:
  assumes "export_ok s own busy"
  shows "export_ok (forgetLocked k s) own busy"
proof -
  obtain a b where k: "k = (a, b)" by (cases k)
  have f: "ms_state (forgetLocked k s) = AList.delete k (ms_state s)" "ms_next (forgetLocked k s) = ms_next s"
    "ms_store (forgetLocked k s) = ms_store s" "ms_metrics (forgetLocked k s) = ms_metrics s @ [DeleteSeries a b]"
    by (simp_all add: forgetLocked_def k Let_def split: option.split)
  have h: "held_ok (AList.delete k (ms_state s)) (ms_next s) own busy"
    using assms by (auto simp: export_ok_def held_ok_def distinct_delete delete_conv split: if_splits)
  have se: "series_ok (ms_metrics s @ [DeleteSeries a b]) (AList.delete k (ms_state s)) busy"
    using assms unfolding export_ok_def series_ok_def live_series_snoc
    by (fastforce simp: delete_conv k split: if_splits)
  have u: "up_ok (ms_metrics s @ [DeleteSeries a b]) (AList.delete k (ms_state s)) (ms_store s) busy"
    using up_okD [OF export_okD(3) [OF assms]] by (intro up_okI) (auto simp: up_value_append delete_conv k)
  from h se u show ?thesis by (simp add: export_ok_def f)
qed

lemma export_ok_fold:
  assumes "export_ok s own busy" and "\<And>x s. export_ok s own busy \<Longrightarrow> export_ok (f x s) own busy"
  shows "export_ok (fold f xs s) own busy"
  using assms(1) by (induction xs arbitrary: s) (auto intro: assms(2))

lemma export_ok_sweep_one: "export_ok s own busy \<Longrightarrow> export_ok (sweep_one now x s) own busy"
  by (simp add: sweep_one_def export_ok_forget)

lemma export_ok_retain_one:
  assumes "export_ok s own busy"
  shows "export_ok (retain_one x s) own busy"
proof -
  have "export_ok (s\<lparr>ms_store := (ms_store s)(p := (ms_store s p)\<lparr>mt_intervalS := n\<rparr>)\<rparr>) own busy" for p n
    using assms by (rule export_ok_frame) simp_all
  then show ?thesis using export_ok_forget [OF assms] by (simp add: retain_one_def split: prod.split option.split)
qed

lemma publish_metrics [simp]: "ms_metrics (publishLocked ev s) = ms_metrics s"
proof -
  have "ms_metrics (fold (publish_one ev) ks s) = ms_metrics s" for ks
    by (induction ks arbitrary: s) (simp_all add: publish_one_def Let_def split: prod.split)
  then show ?thesis by (simp add: publishLocked_def)
qed

lemma refreshLocked_export:
  "export_ok s own busy \<Longrightarrow> export_ok (fst (refreshLocked i now s)) own busy"
  by (erule export_ok_frame) (simp_all add: refreshLocked_def Let_def)

lemma export_ok_publish: "export_ok s own busy \<Longrightarrow> export_ok (publishLocked ev s) own busy"
  by (erule export_ok_frame) simp_all

lemma export_ok_refresh:
  assumes "export_ok s own busy"
  shows "export_ok (refresh i now s) own busy"
  using refreshLocked_export [OF assms, of i now] export_ok_publish by (auto simp: refresh_def split: prod.split)

lemma export_ok_refresh_all:
  assumes "export_ok s own busy"
  shows "export_ok (refresh_all now s) own busy"
proof -
  have "export_ok (fst sc) own busy \<Longrightarrow> export_ok (fst (refresh_into now i sc)) own busy" for i sc
    using refreshLocked_export [of "fst sc" own busy i now] by (auto simp: refresh_into_def split: prod.splits)
  then have "export_ok (fst sc) own busy \<Longrightarrow> export_ok (fst (fold (refresh_into now) ids sc)) own busy" for ids sc
    by (induction ids arbitrary: sc) auto
  from this [of "(s, [])" "monitorIDsLocked s"] assms show ?thesis
    using export_ok_publish by (auto simp: refresh_all_def split: prod.split)
qed

lemma export_ok_Sweep: "export_ok s own busy \<Longrightarrow> export_ok (Sweep now s) own busy"
  unfolding Sweep_def by (intro export_ok_refresh_all export_ok_fold export_ok_sweep_one)

lemma export_ok_Retain:
  assumes "export_ok s own busy"
  shows "export_ok (Retain now s) own busy"
proof -
  have agg: "export_ok (t\<lparr>ms_agg := a\<rparr>) own busy" if "export_ok t own busy" for t a
    using that by (rule export_ok_frame) simp_all
  show ?thesis unfolding Retain_def Let_def
    by (intro export_ok_publish export_ok_refresh_all agg export_ok_fold [OF assms] export_ok_retain_one)
qed

lemma held_ok_new:
  assumes h: "held_ok state n own busy" and "map_of state k = None"
  shows "held_ok (AList.update k n state) (Suc n) (own(n \<mapsto> k)) busy"
proof -
  have new: "own n = None" using held_okD(3) [OF h, of n] by blast
  have "(own(n \<mapsto> k)) q = Some j" if "map_of (AList.update k n state) j = Some q" for j q
  proof (cases "j = k")
    case True
    then show ?thesis using that by (simp add: update_conv')
  next
    case False
    then have "own q = Some j" using that held_okD(2) [OF h] by (simp add: update_conv')
    then show ?thesis using new by auto
  qed
  moreover have "q < Suc n" if "(own(n \<mapsto> k)) q \<noteq> None" for q
    using that held_okD(3) [OF h, of q] by (cases "q = n") auto
  moreover have "(own(n \<mapsto> k)) q = Some j" if "busy j = Some (q, ev)" for j q ev
    using held_okD(4) [OF h that] new by auto
  ultimately show ?thesis using held_okD(1,5) [OF h] unfolding held_ok_def by (simp add: distinct_update)
qed

lemma stateFor_new:
  assumes "map_of (ms_state s) (site, i) = None" and "registry_lookup (ms_reg s) i = Some mc"
  shows "stateFor site i s = (put_state site i (ms_next s) (s\<lparr>ms_store := (ms_store s)(ms_next s := new_monState mc),
    ms_next := Suc (ms_next s)\<rparr>), Some (ms_next s))"
  using assms by (simp add: stateFor_def Let_def)

lemma export_ok_state:
  assumes "export_ok s own busy" and "stateFor site i s = (t, Some p)"
  shows "export_ok t (own(p \<mapsto> (site, i))) busy"
proof (cases "map_of (ms_state s) (site, i)")
  case (Some q)
  with assms(2) have "t = s" "q = p" by (simp_all add: stateFor_def)
  moreover from this have "own(p \<mapsto> (site, i)) = own"
    using held_okD(2) [OF export_okD(1) [OF assms(1)] Some] by (simp add: fun_upd_idem)
  ultimately show ?thesis using assms(1) by simp
next
  case None
  have h: "held_ok (ms_state s) (ms_next s) own busy" and se: "series_ok (ms_metrics s) (ms_state s) busy"
    and u: "up_ok (ms_metrics s) (ms_state s) (ms_store s) busy" using export_okD [OF assms(1)] .
  obtain mc where mc: "registry_lookup (ms_reg s) i = Some mc" using None assms(2) by (cases "registry_lookup (ms_reg s) i") (simp_all add: stateFor_def)
  have eq: "t = put_state site i (ms_next s) (s\<lparr>ms_store := (ms_store s)(ms_next s := new_monState mc), ms_next := Suc (ms_next s)\<rparr>)"
    "p = ms_next s" using assms(2) unfolding stateFor_new [OF None mc] by blast+
  have t: "ms_state t = AList.update (site, i) p (ms_state s)" "p = ms_next s"
    "ms_next t = Suc p" "ms_metrics t = ms_metrics s" "ms_store t = (ms_store s)(p := new_monState mc)"
    unfolding eq by (simp_all add: put_state_def)
  have new: "own p = None" using held_okD(3) [OF h, of p] t(2) by blast
  have other: "q \<noteq> p" if "map_of (ms_state s) k = Some q" for k q using held_okD(2) [OF h that] new by auto
  have "held_ok (ms_state t) (ms_next t) (own(p \<mapsto> (site, i))) busy"
    unfolding t(1) t(3) unfolding t(2) by (rule held_ok_new [OF h None])
  moreover have "series_ok (ms_metrics t) (ms_state t) busy"
    using se t(1,4) unfolding series_ok_def by (fastforce simp: update_conv')
  moreover have "up_ok (ms_metrics t) (ms_state t) (ms_store t) busy"
  proof (rule up_okI)
    fix k
    note old = up_okD [OF u, of k]
    show "up_at (up_value (ms_metrics t) k) (map_of (ms_state t) k) (ms_store t) (busy k)"
    proof (cases "k = (site, i)")
      case True
      then show ?thesis using old None t(4) by (auto simp: up_at_def split: option.splits)
    next
      case False
      have "up_at v (map_of (ms_state s) k) (ms_store t) b = up_at v (map_of (ms_state s) k) (ms_store s) b" for v b
        by (rule up_at_cong) (use other t(5) in auto)
      with False old t(1,4) show ?thesis by (simp add: update_conv')
    qed
  qed
  ultimately show ?thesis unfolding export_ok_def by blast
qed

lemma export_ok_touch:
  assumes "export_ok s own busy" and "own p = Some (site, i)" and "moves_aggregate (je_Event ev)"
  shows "export_ok (add_calls (event_calls site i st (je_Event ev)) s) own (busy((site, i) \<mapsto> (p, ev)))"
proof -
  let ?b = "busy((site, i) \<mapsto> (p, ev))" and ?c = "ms_metrics s @ event_calls site i st (je_Event ev)"
  note ok = export_okD [OF assms(1)]
  have "held_ok (ms_state s) (ms_next s) own ?b" using ok(1) assms(2,3) unfolding held_ok_def by auto
  moreover have "series_ok ?c (ms_state s) ?b"
    unfolding series_ok_def
  proof (intro ballI, clarify)
    fix v lv
    assume "(v, lv) \<in> set (live_series ?c)"
    then have "(v, lv) \<in> set (live_series (ms_metrics s)) \<or> (\<exists>rest. lv = site # i # rest)"
      using event_calls_live [of site i st "je_Event ev"] unfolding live_series_snoc by auto
    then show "\<exists>a b rest. lv = a # b # rest \<and> (map_of (ms_state s) (a, b) \<noteq> None \<or> ?b (a, b) \<noteq> None)"
      using ok(2) unfolding series_ok_def by fastforce
  qed
  moreover have "up_ok ?c (ms_state s) (ms_store s) ?b"
    using up_okD [OF ok(3)] by (intro up_okI) (auto simp: up_value_append event_calls_up [OF assms(3)] up_at_def)
  ultimately show ?thesis by (simp add: export_ok_def add_calls_def)
qed

lemma event_store_keep:
  assumes "moves_aggregate (je_Event ev)" and t_def: "t = event_store L now site i p ev s"
  shows "map_of (ms_state t) = (map_of (ms_state s))((site, i) \<mapsto> p)" "ms_next t = ms_next s" "ms_metrics t = ms_metrics s"
    "distinct (map fst (ms_state s)) \<Longrightarrow> distinct (map fst (ms_state t))"
    "oc_Up (mt_last (ms_store t p)) = event_up (je_Event ev)" "q \<noteq> p \<Longrightarrow> ms_store t q = ms_store s q"
proof -
  have k: "map_of (ms_state (keepLocked site i p s)) = (map_of (ms_state s))((site, i) \<mapsto> p)"
    "ms_next (keepLocked site i p s) = ms_next s" "ms_metrics (keepLocked site i p s) = ms_metrics s"
    "distinct (map fst (ms_state s)) \<Longrightarrow> distinct (map fst (ms_state (keepLocked site i p s)))"
    by (auto simp: keepLocked_def put_state_def update_conv' distinct_update fun_upd_idem)
  have e: "e = EvCycle c \<Longrightarrow> oc_Up (cycle_outcome now st c) = event_up e" "e = EvSipResult r \<Longrightarrow> oc_Up (sip_outcome now st r) = event_up e"
    "oc_Up (error_outcome now st msg) = False" for e st c r msg
    by (simp_all add: cycle_outcome_def sip_outcome_def error_outcome_def event_up_def zero_outcome_def Let_def split: prod.split option.split)
  have sh: "ms_state (shipReport L now site i p m u) = ms_state u" "ms_next (shipReport L now site i p m u) = ms_next u"
    "ms_metrics (shipReport L now site i p m u) = ms_metrics u" "mt_last (ms_store (shipReport L now site i p m u) q) = mt_last (ms_store u q)"
    "q \<noteq> p \<Longrightarrow> ms_store (shipReport L now site i p m u) q = ms_store u q" for m u q
    by (auto simp: shipReport_def dropReport_def upd_state_def Let_def split: option.split)
  show "map_of (ms_state t) = (map_of (ms_state s))((site, i) \<mapsto> p)" "ms_next t = ms_next s" "ms_metrics t = ms_metrics s"
    "distinct (map fst (ms_state s)) \<Longrightarrow> distinct (map fst (ms_state t))"
    "oc_Up (mt_last (ms_store t p)) = event_up (je_Event ev)" "q \<noteq> p \<Longrightarrow> ms_store t q = ms_store s q"
    using assms(1) by (auto simp: t_def event_store_def moves_aggregate_def Let_def upd_state_def dropReport_def k e sh keepLocked_frame event_up_def
        split: job_event.splits)
qed

lemma export_ok_keep:
  assumes "export_ok s own busy" and "busy (site, i) = Some (p, ev)"
  shows "export_ok (event_store L now site i p ev s) own (busy((site, i) := None))"
proof -
  let ?t = "event_store L now site i p ev s" and ?b = "busy((site, i) := None)"
  note ok = export_okD [OF assms(1)]
  note own = held_okD(4,5) [OF ok(1) assms(2)]
  note t = event_store_keep [OF own(2) refl, where L = L and now = now and site = site and i = i and p = p and s = s]
  have other: "q \<noteq> p" if "map_of (ms_state s) k = Some q" "k \<noteq> (site, i)" for k q
    using held_okD(2) [OF ok(1) that(1)] own(1) that(2) by auto
  have "held_ok (ms_state ?t) (ms_next ?t) own ?b"
    using ok(1) own t(1,2,4) unfolding held_ok_def by auto
  moreover have "series_ok (ms_metrics ?t) (ms_state ?t) ?b"
    using ok(2) t(1,3) unfolding series_ok_def by fastforce
  moreover have "up_ok (ms_metrics ?t) (ms_state ?t) (ms_store ?t) ?b"
  proof (rule up_okI)
    fix k
    note old = up_okD [OF ok(3), of k]
    show "up_at (up_value (ms_metrics ?t) k) (map_of (ms_state ?t) k) (ms_store ?t) (?b k)"
    proof (cases "k = (site, i)")
      case True
      then show ?thesis using old assms(2) t(1,3,5) by (simp add: up_at_def)
    next
      case False
      have "up_at v (map_of (ms_state s) k) (ms_store ?t) b = up_at v (map_of (ms_state s) k) (ms_store s) b" for v b
        by (rule up_at_cong) (use other False t(6) in auto)
      with False old t(1,3) show ?thesis by simp
    qed
  qed
  ultimately show ?thesis unfolding export_ok_def by blast
qed

lemma export_ok_quiet:
  assumes "export_ok s own busy" and "\<not> moves_aggregate (je_Event ev)"
  shows "export_ok (event_store L now site i p ev s) own busy"
  by (rule export_ok_frame [OF assms(1)])
    (use assms(2) in \<open>auto simp: event_store_def moves_aggregate_def onStarted_def shipReport_def dropReport_def upd_state_def Let_def
      split: job_event.splits option.split\<close>)

definition metric_inv :: "metric_sys \<Rightarrow> bool" where
  "metric_inv m = export_ok (my_sink m) (my_own m) (my_busy m)"

lemma metric_inv_start: "metric_start m \<Longrightarrow> metric_inv m"
  by (auto simp: metric_start_def metric_inv_def export_ok_def held_ok_def series_ok_def up_ok_def NewMonitorSink_def live_series_def up_value_def)

lemma metric_inv_step:
  assumes "metric_inv m" and "metric_step m n"
  shows "metric_inv n"
  using assms(2)
proof cases
  case (reload mons)
  have "export_ok ((my_sink m)\<lparr>ms_reg := r\<rparr>) (my_own m) (my_busy m)" for r
    using assms(1) unfolding metric_inv_def by (rule export_ok_frame) simp_all
  with reload show ?thesis by (simp add: metric_inv_def)
next
  case (streams sub subs)
  have "export_ok ((my_sink m)\<lparr>ms_subs := subs, ms_sub := sub\<rparr>) (my_own m) (my_busy m)"
    using assms(1) unfolding metric_inv_def by (rule export_ok_frame) simp_all
  with streams show ?thesis by (simp add: metric_inv_def)
qed (use assms(1) in \<open>simp_all add: metric_inv_def export_ok_state export_ok_touch export_ok_keep export_ok_quiet
  export_ok_refresh export_ok_Sweep export_ok_Retain\<close>)

interpretation exported: invariant_system metric_start metric_step metric_inv
  by unfold_locales (auto intro: metric_inv_start metric_inv_step)

subsection \<open>A silent site\<close>

lemma Sweep_state:
  "ms_store (Sweep now s) = ms_store s"
  "map_of (ms_state (Sweep now s)) k = (if \<exists>p. (k, p) \<in> set (ms_state s) \<and> is_forgotten now (ms_store s p) then None else map_of (ms_state s) k)"
  using refresh_all_current [of now "fold (sweep_one now) (ms_state s) s"] sweep_fold [of now "ms_state s" s k] by (simp_all add: Sweep_def)

lemma sink_Run_state:
  "ms_store (sink_Run ticks s) = ms_store s \<and> (map_of (ms_state s) k = None \<longrightarrow> map_of (ms_state (sink_Run ticks s)) k = None)"
proof (induction ticks arbitrary: s)
  case (Cons now ticks)
  then show ?case by (simp add: Sweep_state)
qed simp

lemma sink_Run_forgets:
  assumes "map_of (ms_state s) k = Some p" and "now \<in> set ticks" and "is_forgotten now (ms_store s p)"
  shows "map_of (ms_state (sink_Run ticks s)) k = None"
  using assms
proof (induction ticks arbitrary: s)
  case (Cons t ticks)
  have q: "map_of (ms_state (Sweep t s)) k = None \<or> map_of (ms_state (Sweep t s)) k = Some p"
    using Cons.prems(1) by (simp add: Sweep_state)
  have "map_of (ms_state (Sweep t s)) k = None" if "t = now"
    using Cons.prems(1,3) that map_of_SomeD by (fastforce simp: Sweep_state)
  then show ?case using q sink_Run_state [of ticks "Sweep t s" k] Cons.IH [of "Sweep t s"] Cons.prems
    by (auto simp: Sweep_state(1))
qed simp

lemma sink_Run_metric:
  "metric_step\<^sup>*\<^sup>* m (m\<lparr>my_sink := sink_Run ticks (my_sink m)\<rparr>)"
proof (induction ticks arbitrary: m)
  case (Cons now ticks)
  have "metric_step\<^sup>*\<^sup>* m (m\<lparr>my_sink := Sweep now (my_sink m)\<rparr>)" by (rule r_into_rtranclp) (rule metric_step.sweep)
  also note Cons.IH [of "m\<lparr>my_sink := Sweep now (my_sink m)\<rparr>"]
  finally show ?case by simp
qed simp

section \<open>The info series of a scrape\<close>

definition info_labels :: "string \<times> string \<Rightarrow> monState \<Rightarrow> (string \<times> string) list" where
  "info_labels k st =
    labelMap ([''site'', ''monitor'', ''kind'', ''target''] @ map (sanitizeLabel \<circ> fst) (mt_labels st))
      ([fst k, snd k, mt_kind st, mt_target st] @ map snd (mt_labels st))"

text \<open>
  \<^verbatim>\<open>NewDesc\<close> of the metrics library keeps an error for labels it refuses and \<^verbatim>\<open>MustNewConstMetric\<close> panics on it:
  \<open>accepts\<close> is its check, and \<open>None\<close> the panic, which nothing on the way of a scrape recovers.
\<close>

definition Collect :: "((string \<times> string) list \<Rightarrow> bool) \<Rightarrow> MonitorSink \<Rightarrow> (string \<times> string) list list option" where
  "Collect accepts s = those (map (\<lambda>(k, p). let labels = info_labels k (ms_store s p) in if accepts labels then Some labels else None) (ms_state s))"

definition label_name :: "string \<Rightarrow> bool" where
  "label_name n = (n \<noteq> [] \<and> label_char (hd n) \<and> list_all (\<lambda>c. label_char c \<or> is_digit c) n)"

definition reserved :: "string \<Rightarrow> bool" where
  "reserved n = (take 2 n = ''__'')"

text \<open>What the library documents of its check: a reserved name is refused, other label names with UTF-8 values are accepted.\<close>

definition checks_labels :: "(string \<Rightarrow> bool) \<Rightarrow> ((string \<times> string) list \<Rightarrow> bool) \<Rightarrow> bool" where
  "checks_labels utf8 accepts =
    ((\<forall>ls. (\<exists>l \<in> set ls. reserved (fst l)) \<longrightarrow> \<not> accepts ls) \<and>
    (\<forall>ls. (\<forall>l \<in> set ls. label_name (fst l) \<and> \<not> reserved (fst l) \<and> utf8 (snd l)) \<longrightarrow> accepts ls))"

lemma sanitize_from_chars:
  "list_all (\<lambda>c. label_char c \<or> is_digit c) (sanitize_from n k)"
  by (induction n k rule: sanitize_from.induct) (auto simp: label_char_def)

lemma sanitizeLabel_name: "label_name (sanitizeLabel k)"
proof (cases k)
  case Nil
  then show ?thesis by (simp add: sanitizeLabel_def label_name_def label_char_def)
next
  case (Cons r rest)
  then have "sanitizeLabel k = sanitize_from 0 k" "sanitize_from 0 k \<noteq> []" "label_char (hd (sanitize_from 0 k))"
    by (auto simp: sanitizeLabel_def label_char_def)
  then show ?thesis using sanitize_from_chars [of 0 k] by (simp add: label_name_def)
qed

lemma info_labels_updates:
  "info_labels k st = AList.updates ([''site'', ''monitor'', ''kind'', ''target''] @ map (sanitizeLabel \<circ> fst) (mt_labels st))
    ([fst k, snd k, mt_kind st, mt_target st] @ map snd (mt_labels st)) []"
  by (simp add: info_labels_def labelMap_def AList.updates_def)

lemma map_of_info_labels:
  "map_of (info_labels k st) =
    [''target'' \<mapsto> mt_target st, ''kind'' \<mapsto> mt_kind st, ''monitor'' \<mapsto> snd k, ''site'' \<mapsto> fst k] ++
    map_of (rev (map (\<lambda>(a, v). (sanitizeLabel a, v)) (mt_labels st)))"
  by (simp add: info_labels_updates updates_conv' map_upds_def comp_def zip_map_map case_prod_unfold zip_same_conv_map map_add_upds [symmetric])

lemma info_labels_dom:
  "fst ` set (info_labels k st) = {''site'', ''monitor'', ''kind'', ''target''} \<union> (sanitizeLabel \<circ> fst) ` set (mt_labels st)"
proof -
  have "fst ` set (info_labels k st) = dom (map_of (info_labels k st))" by (rule dom_map_of_conv_image_fst [symmetric])
  then show ?thesis unfolding map_of_info_labels by (force simp: dom_map_of_conv_image_fst image_iff)
qed

lemma info_labels_distinct: "distinct (map fst (info_labels k st))"
  unfolding info_labels_updates by (rule distinct_updates) simp

lemma info_labels_name:
  assumes "n \<in> fst ` set (info_labels k st)"
  shows "label_name n"
  using assms sanitizeLabel_name unfolding info_labels_dom
  by (auto simp: label_name_def label_char_def)

lemma info_labels_identify:
  assumes "\<forall>a \<in> fst ` set (mt_labels st). sanitizeLabel a \<notin> {''site'', ''monitor''}"
  shows "map_of (info_labels k st) ''site'' = Some (fst k)" and "map_of (info_labels k st) ''monitor'' = Some (snd k)"
proof -
  have "map_of (rev (map (\<lambda>(a, v). (sanitizeLabel a, v)) (mt_labels st))) n = None" if "n \<in> {''site'', ''monitor''}" for n
    using assms that by (force simp: map_of_eq_None_iff)
  then show "map_of (info_labels k st) ''site'' = Some (fst k)" "map_of (info_labels k st) ''monitor'' = Some (snd k)"
    unfolding map_of_info_labels by (simp_all add: map_add_def)
qed

definition label_clash :: "monState \<Rightarrow> bool" where
  "label_clash st = (\<exists>a \<in> fst ` set (mt_labels st). sanitizeLabel a \<in> {''site'', ''monitor''})"

definition label_reserved :: "monState \<Rightarrow> bool" where
  "label_reserved st = (\<exists>a \<in> fst ` set (mt_labels st). reserved (sanitizeLabel a))"

lemma Collect_None:
  assumes "checks_labels utf8 accepts" and "\<forall>(k, p) \<in> set (ms_state s). \<forall>l \<in> set (info_labels k (ms_store s p)). utf8 (snd l)"
  shows "Collect accepts s = None \<longleftrightarrow> (\<exists>(k, p) \<in> set (ms_state s). label_reserved (ms_store s p))"
proof -
  have fixed: "\<not> reserved ''site''" "\<not> reserved ''monitor''" "\<not> reserved ''kind''" "\<not> reserved ''target''"
    by (simp_all add: reserved_def)
  have "accepts (info_labels k st) \<longleftrightarrow> \<not> label_reserved st" if "\<forall>l \<in> set (info_labels k st). utf8 (snd l)" for k st
  proof (cases "label_reserved st")
    case True
    then have "\<exists>n \<in> fst ` set (info_labels k st). reserved n" unfolding label_reserved_def info_labels_dom by auto
    then show ?thesis using True assms(1) unfolding checks_labels_def by (metis imageE)
  next
    case False
    then have "\<forall>n \<in> fst ` set (info_labels k st). label_name n \<and> \<not> reserved n"
      using info_labels_name fixed unfolding label_reserved_def by (auto simp: info_labels_dom)
    then show ?thesis using False that assms(1) unfolding checks_labels_def by blast
  qed
  then show ?thesis using assms(2) unfolding Collect_def those_None by (fastforce simp: Let_def split: prod.splits if_splits)
qed

lemma Collect_Some:
  assumes "Collect accepts s = Some series"
  shows "series = map (\<lambda>(k, p). info_labels k (ms_store s p)) (ms_state s)"
proof -
  let ?f = "\<lambda>x. info_labels (fst x) (ms_store s (snd x))"
  have "map (\<lambda>x. if accepts (?f x) then Some (?f x) else None) (ms_state s) = map Some series"
    using assms unfolding Collect_def those_eq_Some by (simp add: Let_def case_prod_unfold)
  moreover have "map (\<lambda>x. if accepts (?f x) then Some (?f x) else None) xs = map Some ys \<Longrightarrow> ys = map ?f xs" for xs ys
    by (induction xs arbitrary: ys) (auto simp: Cons_eq_map_conv split: if_splits)
  ultimately show ?thesis by (simp add: case_prod_unfold)
qed

lemma distinct_map_key:
  assumes "distinct (map f xs)" and "\<And>x. x \<in> set xs \<Longrightarrow> g (h x) = f x"
  shows "distinct (map h xs)"
proof -
  have "map f xs = map g (map h xs)" using assms(2) by (simp add: comp_def)
  with assms(1) show ?thesis by (metis distinct_map)
qed

section \<open>Theorems\<close>


text \<open>(C37) A site that has gone silent leaves the backend: once a tick of the sweep finds its last outcome older than its window,
  it has no state and no series in any of the metric vectors.\<close>

theorem silent_site_leaves_metrics:
  assumes "metric_start m0" and "metric_step\<^sup>*\<^sup>* m0 m" and "my_busy m (site, i) = None"
    and "map_of (ms_state (my_sink m)) (site, i) = Some p" and "oc_At (mt_last (ms_store (my_sink m) p)) = Some t"
    and "now \<in> set ticks" and "now > t + forgetAfterFor (mt_intervalS (ms_store (my_sink m) p))"
  shows "map_of (ms_state (sink_Run ticks (my_sink m))) (site, i) = None \<and>
    (\<forall>v rest. (v, site # i # rest) \<notin> set (live_series (ms_metrics (sink_Run ticks (my_sink m)))))"
proof -
  have "is_forgotten now (ms_store (my_sink m) p)" using assms(5,7) by (simp add: is_forgotten_def)
  then have none: "map_of (ms_state (sink_Run ticks (my_sink m))) (site, i) = None" by (rule sink_Run_forgets [OF assms(4,6)])
  have "metric_inv (m\<lparr>my_sink := sink_Run ticks (my_sink m)\<rparr>)"
    using exported.inv_reachable [OF assms(1) rtranclp_trans [OF assms(2) sink_Run_metric]] .
  then have "series_ok (ms_metrics (sink_Run ticks (my_sink m))) (ms_state (sink_Run ticks (my_sink m))) (my_busy m)"
    by (simp add: metric_inv_def export_ok_def)
  with none assms(3) show ?thesis unfolding series_ok_def by fastforce
qed


text \<open>
  A label called \<open>site\<close> takes the place of the site: the series of two sites are then the same, which the library
  refuses together with the rest of the scrape.
\<close>

theorem label_site_merges_sites:
  assumes "(x, v) \<in> set (mt_labels st)" and "sanitizeLabel x = ''site''"
  shows "map_of (info_labels (a, i) st) = map_of (info_labels (b, i) st)"
proof -
  have "''site'' \<in> dom (map_of (rev (map (\<lambda>(a, v). (sanitizeLabel a, v)) (mt_labels st))))"
    unfolding dom_map_of_conv_image_fst using imageI [OF assms(1), of "\<lambda>(a, v). (sanitizeLabel a, v)"] assms(2) by (simp add: rev_image_eqI)
  then show ?thesis unfolding map_of_info_labels by (auto simp: fun_eq_iff map_add_def split: option.split)
qed

text \<open>Two labels that become the same name: which value is shown depends on the order of iteration of the map.\<close>

theorem label_order_matters:
  "map_of (info_labels k (st\<lparr>mt_labels := [(''a.b'', ''1''), (''a-b'', ''2'')]\<rparr>)) ''a_b'' = Some ''2'' \<and>
   map_of (info_labels k (st\<lparr>mt_labels := [(''a-b'', ''2''), (''a.b'', ''1'')]\<rparr>)) ''a_b'' = Some ''1''"
proof -
  have "sanitizeLabel ''a.b'' = ''a_b''" "sanitizeLabel ''a-b'' = ''a_b''" by code_simp+
  then show ?thesis unfolding map_of_info_labels by (simp add: map_add_def)
qed

section \<open>The layout of a report\<close>

definition report_fields :: "fmt_lib \<Rightarrow> pb_Hop \<Rightarrow> string list" where
  "report_fields L h = [fl_1f L (ph_LossPct h) @ ''%'', itoa (unat (ph_Sent h)), itoa (unat (ph_Received h))] @
    map (\<lambda>f. fl_1f L (usToMs (f h))) [ph_LastUs, ph_AvgUs, ph_BestUs, ph_WorstUs, ph_StdevUs]"

definition report_heads :: "string list" where
  "report_heads = [''Loss%'', ''Snt'', ''Rcvd'', ''Last'', ''Avg'', ''Best'', ''Wrst'', ''StDev'']"

lemma length_pad_left [simp]: "length (pad_left w x) = max w (length x)"
  by (simp add: pad_left_def)

lemma length_pad_right [simp]: "length (pad_right w x) = max w (length x)"
  by (simp add: pad_right_def)

lemma report_width_bounds:
  "length src \<le> report_width src hops" "h \<in> set hops \<Longrightarrow> length (report_host h) \<le> report_width src hops"
proof -
  have ge: "a \<le> fold (\<lambda>h w. max w (length (report_host h))) hs a" for a hs
    by (induction hs arbitrary: a) (auto intro: order_trans [OF max.cobounded1])
  show "length src \<le> report_width src hops" unfolding report_width_def using ge [of "max 20 (length src)" hops] by simp
  show "length (report_host h) \<le> report_width src hops" if "h \<in> set hops"
  proof -
    have "h \<in> set hops \<Longrightarrow> length (report_host h) \<le> fold (\<lambda>h w. max w (length (report_host h))) hops a" for a
      by (induction hops arbitrary: a) (auto intro: order_trans [OF _ ge])
    then show ?thesis using that by (simp add: report_width_def)
  qed
qed

text \<open>Every line of a report after the first is a name part of the same width and eight columns of six characters, as long as
  the printed numbers have no more than six and the TTL no more than three.\<close>

theorem report_columns_align:
  assumes "\<forall>h \<in> set hops. length (itoa (unat (ph_Ttl h))) \<le> 3 \<and> (\<forall>f \<in> set (report_fields L h). length f \<le> 6)"
  shows "\<exists>w names. mtrReport L site source start hops = ''Start: '' @ fl_start L start @
      concat (map2 (\<lambda>n cols. [CHR 0x0A] @ n @ concat (map (pad_left 6) cols)) names (report_heads # map (report_fields L) hops)) \<and>
    length names = Suc (length hops) \<and> (\<forall>n \<in> set names. length n = w) \<and>
    (\<forall>cols \<in> set (report_heads # map (report_fields L) hops). length cols = 8 \<and> (\<forall>c \<in> set cols. length (pad_left 6 c) = 6))"
proof -
  define src where "src = (if source \<noteq> [] then site @ '' ('' @ source @ '')'' else site)"
  define w where "w = report_width src hops"
  define name where "name h = pad_left 3 (itoa (unat (ph_Ttl h))) @ ''.|-- '' @ pad_right w (report_host h)" for h
  have hop: "report_hop L w h = name h @ concat (map (pad_left 6) (report_fields L h))" for h
    by (simp add: report_hop_def name_def report_fields_def)
  have lines: "concat (map (\<lambda>h. [CHR 0x0A] @ report_hop L w h) hs) =
    concat (map2 (\<lambda>n cols. [CHR 0x0A] @ n @ concat (map (pad_left 6) cols)) (map name hs) (map (report_fields L) hs))" for hs
    by (induction hs) (simp_all add: hop)
  let ?names = "pad_right (8 + w) (''HOST: '' @ src) # map name hops"
  have "mtrReport L site source start hops = ''Start: '' @ fl_start L start @
      concat (map2 (\<lambda>n cols. [CHR 0x0A] @ n @ concat (map (pad_left 6) cols)) ?names (report_heads # map (report_fields L) hops))"
    unfolding mtrReport_def Let_def src_def [symmetric] w_def [symmetric] lines by (simp add: report_heads_def)
  moreover have "\<forall>n \<in> set ?names. length n = 8 + w"
    using report_width_bounds(1) [of src hops] report_width_bounds(2) [of _ hops src] assms by (auto simp: name_def w_def [symmetric])
  moreover have "\<forall>cols \<in> set (report_heads # map (report_fields L) hops). length cols = 8 \<and> (\<forall>c \<in> set cols. length (pad_left 6 c) = 6)"
    using assms by (auto simp: report_heads_def report_fields_def)
  moreover have "length ?names = Suc (length hops)" by simp
  ultimately show ?thesis by blast
qed

section \<open>Witnesses\<close>

text \<open>A site reports an error of its monitor: the state is made, the metrics are counted, and the outcome is kept.\<close>

definition demo_m0 :: metric_sys where
  "demo_m0 = \<lparr>my_sink = demo_sink, my_own = Map.empty, my_busy = Map.empty\<rparr>"

definition demo_err :: JobEvent where "demo_err = demo_mevent (EvError CODE_RESOLVE ''x'')"

definition demo_m1 :: metric_sys where
  "demo_m1 = demo_m0\<lparr>my_sink := fst (stateFor ''fra'' ''m'' demo_sink), my_own := [0 \<mapsto> (''fra'', ''m'')]\<rparr>"

definition demo_m2 :: metric_sys where
  "demo_m2 = demo_m1\<lparr>my_sink := add_calls (event_calls ''fra'' ''m'' (ms_store (my_sink demo_m1) 0) (je_Event demo_err)) (my_sink demo_m1),
    my_busy := [(''fra'', ''m'') \<mapsto> (0, demo_err)]\<rparr>"

definition demo_m3 :: metric_sys where
  "demo_m3 = demo_m2\<lparr>my_sink := event_store demo_fmt 5 ''fra'' ''m'' 0 demo_err (my_sink demo_m2), my_busy := Map.empty\<rparr>"

lemma demo_stateFor:
  "stateFor ''fra'' ''m'' demo_sink = (put_state ''fra'' ''m'' 0 (demo_sink\<lparr>ms_store := (ms_store demo_sink)(0 := new_monState (demo_mon\<lparr>mc_Kind := ''trace''\<rparr>)),
    ms_next := 1\<rparr>), Some 0)"
proof -
  have "registry_lookup demo_registry ''m'' = Some (demo_mon\<lparr>mc_Kind := ''trace''\<rparr>)" by code_simp
  then have "registry_lookup (ms_reg demo_sink) ''m'' = Some (demo_mon\<lparr>mc_Kind := ''trace''\<rparr>)"
    "map_of (ms_state demo_sink) (''fra'', ''m'') = None" "ms_next demo_sink = 0" by (simp_all add: demo_sink_def NewMonitorSink_def)
  then show ?thesis using stateFor_new [of demo_sink "''fra''" "''m''"] by simp
qed

lemma demo_metric_steps:
  "metric_start demo_m0" "metric_step\<^sup>*\<^sup>* demo_m0 demo_m1" "metric_step\<^sup>*\<^sup>* demo_m0 demo_m3"
proof -
  show "metric_start demo_m0" by (auto simp: metric_start_def demo_m0_def demo_sink_def)
  have "metric_step demo_m0 demo_m1"
    using metric_step.state [of "''fra''" "''m''" demo_m0 "fst (stateFor ''fra'' ''m'' demo_sink)" 0]
    by (simp add: demo_m0_def demo_m1_def demo_stateFor)
  then show one: "metric_step\<^sup>*\<^sup>* demo_m0 demo_m1" by (rule r_into_rtranclp)
  have "moves_aggregate (je_Event demo_err)" by (simp add: demo_err_def demo_mevent_def moves_aggregate_def)
  then have "metric_step demo_m1 demo_m2"
    using metric_step.touch [of demo_m1 0 "''fra''" "''m''" demo_err] by (simp add: demo_m1_def demo_m0_def demo_m2_def)
  moreover have "metric_step demo_m2 demo_m3"
    using metric_step.keep [of demo_m2 "''fra''" "''m''" 0 demo_err demo_fmt 5]
    by (simp add: demo_m3_def demo_m2_def fun_upd_idem_iff fun_eq_iff)
  ultimately show "metric_step\<^sup>*\<^sup>* demo_m0 demo_m3" using one by (meson rtranclp.rtrancl_into_rtrancl)
qed


theorem silent_site_leaves_metrics_witness:
  "map_of (ms_state (my_sink demo_m3)) (''fra'', ''m'') = Some 0 \<and>
    (M_up, [''fra'', ''m'', ''trace'', ''1.1.1.1'', ''icmp'']) \<notin> set (live_series (ms_metrics (sink_Run [10 * Second, 2 * Hour] (my_sink demo_m3))))"
proof -
  have e: "moves_aggregate (je_Event demo_err)" by (simp add: demo_err_def demo_mevent_def moves_aggregate_def)
  have held: "map_of (ms_state (my_sink demo_m3)) (''fra'', ''m'') = Some 0"
    unfolding demo_m3_def using event_store_keep(1) [OF e refl, of demo_fmt 5 "''fra''" "''m''" 0 "my_sink demo_m2"] by simp
  have "oc_At (mt_last (ms_store (my_sink demo_m3) 0)) = Some 5" "mt_intervalS (ms_store (my_sink demo_m3) 0) = mt_intervalS (ms_store (my_sink demo_m2) 0)"
    by (simp_all add: demo_m3_def event_store_def demo_err_def demo_mevent_def upd_state_def dropReport_def error_outcome_def keepLocked_frame)
  moreover have "mt_intervalS (ms_store (my_sink demo_m2) 0) = 15"
    by (simp add: demo_m2_def demo_m1_def add_calls_def demo_stateFor put_state_def new_monState_def demo_mon_def)
  moreover have "2 * Hour > 5 + forgetAfterFor 15" by (simp add: forgetAfterFor_def staleAfter_def)
  ultimately show ?thesis
    using silent_site_leaves_metrics [OF demo_metric_steps(1,3) _ held, of 5 "2 * Hour" "[10 * Second, 2 * Hour]"] held
    by (simp add: demo_m3_def)
qed

definition demo_accepts :: "(string \<times> string) list \<Rightarrow> bool" where
  "demo_accepts ls = list_all (\<lambda>l. label_name (fst l) \<and> \<not> reserved (fst l)) ls"


text \<open>A label of two dashes and a letter panics every scrape.\<close>

theorem dashed_label_panics:
  assumes "checks_labels utf8 accepts" and "mt_labels (ms_store s p) = [(''--x'', v)]" and "(k, p) \<in> set (ms_state s)"
  shows "Collect accepts s = None"
proof -
  have "sanitizeLabel ''--x'' = ''__x''" by code_simp
  then have "reserved ''__x''" "''__x'' \<in> fst ` set (info_labels k (ms_store s p))"
    unfolding info_labels_dom using assms(2) by (auto simp: reserved_def)
  then have "\<not> accepts (info_labels k (ms_store s p))" using assms(1) unfolding checks_labels_def by (metis imageE)
  then show ?thesis using assms(3) unfolding Collect_def those_None by (force simp: Let_def)
qed

end
