(* ===== verification/Dns_Table.thy ===== *)
theory Dns_Table
  imports Dns_Theorems
begin

text \<open>
  The question of the client (\<^verbatim>\<open>buildQuery\<close> of \<^verbatim>\<open>internal/dns/dns.go\<close>), the table server of
  \<^verbatim>\<open>internal/dns/dnstest/server.go\<close>, and the two of them joined by a network that loses nothing. The
  message library is a parameter: \<open>NewName\<close> checks a name, \<open>pack\<close> stands for the calls of its builder
  up to \<^verbatim>\<open>Finish\<close>, and its parser is that of the client.
\<close>

section \<open>Messages\<close>

datatype dns_body =
    BodyA "32 word"
  | BodyAAAA "128 word"
  | BodySRV string u16 u16 u16
  | BodyPTR string
  | BodyCNAME string

record dns_resource =
  rs_Name :: string
  rs_TTL :: u32
  rs_Body :: dns_body

record dns_message =
  mg_ID :: u16
  mg_Response :: bool
  mg_RecursionDesired :: bool
  mg_RecursionAvailable :: bool
  mg_Truncated :: bool
  mg_RCode :: nat
  mg_Question :: dns_question
  mg_Answers :: "dns_resource list"
  mg_Payload :: "nat option"

definition TypeCNAME :: nat where "TypeCNAME = 5"

fun body_type :: "dns_body \<Rightarrow> nat" where
  "body_type (BodyA _) = TypeA"
| "body_type (BodyAAAA _) = TypeAAAA"
| "body_type (BodySRV _ _ _ _) = TypeSRV"
| "body_type (BodyPTR _) = TypePTR"
| "body_type (BodyCNAME _) = TypeCNAME"

record dns_codec =
  cd_NewName :: "string \<Rightarrow> string + string"
  cd_pack :: "dns_message \<Rightarrow> string + bytes"
  cd_Parser :: "bytes \<Rightarrow> dns_parse"

section \<open>The question\<close>

definition udpPayload :: nat where "udpPayload = 1232"

text \<open>\<open>idb\<close> is what the source of random bytes gives.\<close>

definition buildQuery :: "dns_codec \<Rightarrow> string + bytes \<Rightarrow> string \<Rightarrow> nat \<Rightarrow> dns_error + (bytes \<times> u16)" where
  "buildQuery C idb name qtype =
    (case cd_NewName C (name @ ''.'') of
       Inl e \<Rightarrow> Inl (BuildError e)
     | Inr qname \<Rightarrow>
         (case idb of
            Inl e \<Rightarrow> Inl (BuildError e)
          | Inr idb \<Rightarrow>
              let qid = be16 idb
              in case cd_pack C \<lparr>mg_ID = qid, mg_Response = False, mg_RecursionDesired = True, mg_RecursionAvailable = False,
                     mg_Truncated = False, mg_RCode = RCodeSuccess,
                     mg_Question = \<lparr>dq_Name = qname, dq_Type = qtype, dq_Class = ClassINET\<rparr>,
                     mg_Answers = [], mg_Payload = Some udpPayload\<rparr> of
                   Inl e \<Rightarrow> Inl (BuildError e)
                 | Inr msg \<Rightarrow> Inr (msg, qid)))"

section \<open>The table server\<close>

record tbl_SRV =
  ts_Target :: string
  ts_Priority :: u16
  ts_Weight :: u16
  ts_Port :: u16

record tbl_Answer =
  tn_RCode :: nat
  tn_CNAME :: string
  tn_Addrs :: "string list"
  tn_SRV :: "tbl_SRV list"
  tn_PTR :: "string list"
  tn_TruncateUDP :: bool
  tn_TruncateTCP :: bool
  tn_WrongQuestion :: bool

record tbl_Server =
  tv_table :: "(string \<times> tbl_Answer) list"
  tv_defaultRCode :: nat
  tv_dropAll :: bool
  tv_asked :: "string list"

definition tbl_Start :: "(string \<times> tbl_Answer) list \<Rightarrow> tbl_Server" where
  "tbl_Start table = \<lparr>tv_table = table, tv_defaultRCode = RCodeNameError, tv_dropAll = False, tv_asked = []\<rparr>"

definition SetDefaultRCode :: "nat \<Rightarrow> tbl_Server \<Rightarrow> tbl_Server" where
  "SetDefaultRCode rc s = s\<lparr>tv_defaultRCode := rc\<rparr>"

definition SetDropAll :: "bool \<Rightarrow> tbl_Server \<Rightarrow> tbl_Server" where
  "SetDropAll drop1 s = s\<lparr>tv_dropAll := drop1\<rparr>"

definition Asked :: "string \<Rightarrow> tbl_Server \<Rightarrow> nat" where
  "Asked key s = fold (\<lambda>k n. if k = key then n + 1 else n) (tv_asked s) 0"

lemma Asked_count: "Asked key s = count_list (tv_asked s) key"
proof -
  have "fold (\<lambda>k n. if k = key then n + 1 else n) xs n = n + count_list xs key" for xs n
    by (induction xs arbitrary: n) simp_all
  then show ?thesis by (simp add: Asked_def)
qed

definition AskedTotal :: "tbl_Server \<Rightarrow> nat" where
  "AskedTotal s = length (tv_asked s)"

definition typeNames :: "nat \<Rightarrow> string" where
  "typeNames t =
    (if t = TypeA then ''A'' else if t = TypeAAAA then ''AAAA'' else if t = TypeSRV then ''SRV''
     else if t = TypePTR then ''PTR'' else [])"

text \<open>A name that is not one makes \<^verbatim>\<open>MustNewName\<close> panic, and a text that is no address \<^verbatim>\<open>MustParseAddr\<close>.\<close>

datatype tbl_reply = Reply bytes | NoReply | TblPanic

definition MustNewName :: "dns_codec \<Rightarrow> string \<Rightarrow> string option" where
  "MustNewName C n = (case cd_NewName C n of Inr x \<Rightarrow> Some x | Inl _ \<Rightarrow> None)"

definition addr_body :: "(string \<Rightarrow> addr option) \<Rightarrow> string \<Rightarrow> dns_body option" where
  "addr_body ParseAddr a =
    (case ParseAddr a of
       Some (V4 x) \<Rightarrow> Some (BodyA x)
     | Some (V6 x z) \<Rightarrow> Some (BodyAAAA x)
     | _ \<Rightarrow> None)"

definition srv_body :: "dns_codec \<Rightarrow> tbl_SRV \<Rightarrow> dns_body option" where
  "srv_body C r =
    map_option (\<lambda>t. BodySRV t (ts_Priority r) (ts_Weight r) (ts_Port r))
      (MustNewName C (if ts_Target r \<noteq> ''.'' then ts_Target r @ ''.'' else ts_Target r))"

definition resource :: "string \<Rightarrow> u32 \<Rightarrow> dns_body \<Rightarrow> dns_resource" where
  "resource owner ttl b = \<lparr>rs_Name = owner, rs_TTL = ttl, rs_Body = b\<rparr>"

definition tbl_records :: "dns_codec \<Rightarrow> (string \<Rightarrow> addr option) \<Rightarrow> string \<Rightarrow> tbl_Answer \<Rightarrow> dns_resource list option" where
  "tbl_records C ParseAddr qname ans =
    (case (if tn_CNAME ans \<noteq> [] then MustNewName C (tn_CNAME ans @ ''.'') else Some qname) of
       None \<Rightarrow> None
     | Some owner \<Rightarrow>
         (case (those (map (addr_body ParseAddr) (tn_Addrs ans)), those (map (srv_body C) (tn_SRV ans)),
                those (map (\<lambda>n. MustNewName C (n @ ''.'')) (tn_PTR ans))) of
            (Some addrs, Some srvs, Some ptrs) \<Rightarrow>
              Some ((if tn_CNAME ans \<noteq> [] then [resource qname 30 (BodyCNAME owner)] else []) @
                    map (resource owner 300) addrs @ map (resource owner 60) srvs @
                    map (\<lambda>n. resource owner 3600 (BodyPTR n)) ptrs)
          | _ \<Rightarrow> None))"

definition tbl_reply_to :: "dns_codec \<Rightarrow> (string \<Rightarrow> addr option) \<Rightarrow> bool \<Rightarrow> u16 \<Rightarrow> dns_question \<Rightarrow> tbl_Answer \<Rightarrow> tbl_reply" where
  "tbl_reply_to C ParseAddr udp qid q ans =
    (let truncated = (udp \<and> tn_TruncateUDP ans \<or> \<not> udp \<and> tn_TruncateTCP ans)
     in case (if tn_WrongQuestion ans then MustNewName C ''other.invalid.'' else Some (dq_Name q)) of
          None \<Rightarrow> TblPanic
        | Some qname \<Rightarrow>
            (case (if truncated then Some [] else tbl_records C ParseAddr qname ans) of
               None \<Rightarrow> TblPanic
             | Some records \<Rightarrow>
                 (case cd_pack C \<lparr>mg_ID = qid, mg_Response = True, mg_RecursionDesired = True, mg_RecursionAvailable = True,
                         mg_Truncated = truncated, mg_RCode = tn_RCode ans, mg_Question = q\<lparr>dq_Name := qname\<rparr>,
                         mg_Answers = records, mg_Payload = None\<rparr> of
                    Inl _ \<Rightarrow> NoReply
                  | Inr out \<Rightarrow> Reply out)))"

definition empty_answer :: "nat \<Rightarrow> tbl_Answer" where
  "empty_answer rc = \<lparr>tn_RCode = rc, tn_CNAME = [], tn_Addrs = [], tn_SRV = [], tn_PTR = [], tn_TruncateUDP = False,
    tn_TruncateTCP = False, tn_WrongQuestion = False\<rparr>"

definition tbl_answer :: "string \<Rightarrow> tbl_Server \<Rightarrow> tbl_Answer" where
  "tbl_answer key s = (case map_of (tv_table s) key of Some a \<Rightarrow> a | None \<Rightarrow> empty_answer (tv_defaultRCode s))"

definition respond :: "dns_codec \<Rightarrow> (string \<Rightarrow> addr option) \<Rightarrow> bytes \<Rightarrow> bool \<Rightarrow> tbl_Server \<Rightarrow> tbl_Server \<times> tbl_reply" where
  "respond C ParseAddr msg udp s =
    (case (dp_Start (cd_Parser C msg), dp_Question (cd_Parser C msg)) of
       (Inr h, Inr q) \<Rightarrow>
         let key = typeNames (dq_Type q) @ '' '' @ TrimSuffix (dq_Name q) ''.'';
             s = s\<lparr>tv_asked := tv_asked s @ [key]\<rparr>
         in if tv_dropAll s then (s, NoReply)
            else (s, tbl_reply_to C ParseAddr udp (dh_ID h) q (tbl_answer key s))
     | _ \<Rightarrow> (s, NoReply))"

text \<open>One datagram read into a buffer of 4096 bytes, and one connection: what is written back.\<close>

definition serveUDP :: "dns_codec \<Rightarrow> (string \<Rightarrow> addr option) \<Rightarrow> bytes \<Rightarrow> tbl_Server \<Rightarrow> tbl_Server \<times> tbl_reply" where
  "serveUDP C ParseAddr dgram s = respond C ParseAddr (take 4096 dgram) True s"

definition serveTCP :: "dns_codec \<Rightarrow> (string \<Rightarrow> addr option) \<Rightarrow> bytes \<Rightarrow> tbl_Server \<Rightarrow> tbl_Server \<times> tbl_reply" where
  "serveTCP C ParseAddr stream s =
    (case tcp_read DeadlineExceeded stream of
       Inl _ \<Rightarrow> (s, NoReply)
     | Inr msg \<Rightarrow>
         (case respond C ParseAddr msg False s of
            (s, Reply resp) \<Rightarrow> (s, Reply (tcp_frame resp))
          | (s, r) \<Rightarrow> (s, r)))"

section \<open>What the message library promises\<close>

text \<open>The parser reads what the builder wrote: the id in front, the header, the question and the records in their order.\<close>

definition reads_rr :: "dns_resource \<Rightarrow> dns_rr \<Rightarrow> bool" where
  "reads_rr r rr = (rr_Type rr = body_type (rs_Body r) \<and> rr_TTL rr = rs_TTL r \<and> rr_Skip rr = None \<and>
    (case rs_Body r of
       BodyA x \<Rightarrow> rr_A rr = Inr x
     | BodyAAAA x \<Rightarrow> rr_AAAA rr = Inr x
     | BodySRV t p w port \<Rightarrow> rr_SRV rr = Inr (t, p, w, port)
     | BodyPTR n \<Rightarrow> rr_PTR rr = Inr n
     | BodyCNAME _ \<Rightarrow> True))"

definition parses :: "dns_message \<Rightarrow> dns_parse \<Rightarrow> bool" where
  "parses m p = (dp_Start p = Inr \<lparr>dh_ID = mg_ID m, dh_Response = mg_Response m, dh_Truncated = mg_Truncated m, dh_RCode = mg_RCode m\<rparr> \<and>
    dp_Question p = Inr (mg_Question m) \<and> dp_SkipAllQuestions p = None \<and> dp_AnswerError p = None \<and>
    list_all2 reads_rr (mg_Answers m) (dp_Answers p))"

definition codec_ok :: "dns_codec \<Rightarrow> bool" where
  "codec_ok C = ((\<forall>m b. cd_pack C m = Inr b \<longrightarrow> parses m (cd_Parser C b) \<and> 2 \<le> length b \<and> be16 b = mg_ID m) \<and>
    (\<forall>n x. cd_NewName C n = Inr x \<longrightarrow> x = n))"

lemma codec_okD:
  assumes "codec_ok C"
  shows "cd_pack C m = Inr b \<Longrightarrow> parses m (cd_Parser C b)" "cd_pack C m = Inr b \<Longrightarrow> 2 \<le> length b"
    "cd_pack C m = Inr b \<Longrightarrow> be16 b = mg_ID m" "cd_NewName C n = Inr x \<Longrightarrow> x = n"
  using assms unfolding codec_ok_def by blast+

lemma MustNewName_same: "codec_ok C \<Longrightarrow> MustNewName C n = Some x \<Longrightarrow> x = n"
  by (auto simp: MustNewName_def dest: codec_okD(4) split: sum.splits)

section \<open>The records that come back\<close>

fun body_record :: "(addr \<Rightarrow> string) \<Rightarrow> u32 \<Rightarrow> dns_body \<Rightarrow> dns_Record" where
  "body_record addr_str ttl (BodyA x) = (empty_record ttl)\<lparr>rc_Value := addr_str (V4 x)\<rparr>"
| "body_record addr_str ttl (BodyAAAA x) = (empty_record ttl)\<lparr>rc_Value := addr_str (V6 x [])\<rparr>"
| "body_record addr_str ttl (BodySRV t p w port) =
    (empty_record ttl)\<lparr>rc_Value := trimDot t, rc_Priority := p, rc_Weight := w, rc_Port := port\<rparr>"
| "body_record addr_str ttl (BodyPTR n) = (empty_record ttl)\<lparr>rc_Value := trimDot n\<rparr>"
| "body_record addr_str ttl (BodyCNAME n) = empty_record ttl"

definition client_type :: "nat \<Rightarrow> bool" where
  "client_type t = (t = TypeA \<or> t = TypeAAAA \<or> t = TypeSRV \<or> t = TypePTR)"

definition rr_wanted :: "(addr \<Rightarrow> string) \<Rightarrow> nat \<Rightarrow> dns_resource list \<Rightarrow> dns_Record list" where
  "rr_wanted addr_str qtype rs =
    map (\<lambda>r. body_record addr_str (rs_TTL r) (rs_Body r)) (filter (\<lambda>r. body_type (rs_Body r) = qtype) rs)"

lemma read_rr_wanted:
  assumes "reads_rr r rr" and "client_type qtype" and "body_type (rs_Body r) = qtype"
  shows "read_rr addr_str qtype rr = Inr (body_record addr_str (rs_TTL r) (rs_Body r))"
  using assms by (cases "rs_Body r") (auto simp: reads_rr_def read_rr_def client_type_def dns_types TypeCNAME_def Let_def)

lemma read_answers_wanted:
  assumes "list_all2 reads_rr rs rrs" and "client_type qtype"
  shows "read_answers addr_str qtype None rrs recs = Inr (recs @ rr_wanted addr_str qtype rs)"
  using assms(1)
proof (induction rs rrs arbitrary: recs rule: list_all2_induct)
  case Nil
  then show ?case by (simp add: rr_wanted_def)
next
  case (Cons r rs rr rrs)
  have "rr_Type rr = body_type (rs_Body r)" "rr_Skip rr = None" using Cons.hyps(1) by (simp_all add: reads_rr_def)
  then show ?case
    using Cons.IH read_rr_wanted [OF Cons.hyps(1) assms(2)] by (simp add: rr_wanted_def)
qed

lemma parseAnswer_parses:
  assumes "parses m p" and "mg_Response m" and "mg_Question m = \<lparr>dq_Name = n, dq_Type = qtype, dq_Class = ClassINET\<rparr>" and "client_type qtype"
  shows "parseAnswer addr_str p (mg_ID m) name qtype =
    (if \<not> EqualFold n (name @ ''.'') then Inl OtherQuestion
     else if mg_Truncated m then Inr (\<lparr>an_rcode = 0, an_recs = []\<rparr>, True)
     else Inr (\<lparr>an_rcode = mg_RCode m, an_recs = rr_wanted addr_str qtype (mg_Answers m)\<rparr>, False))"
  using assms read_answers_wanted [OF _ assms(4), of "mg_Answers m" "dp_Answers p" addr_str "[]"]
  by (simp add: parseAnswer_def parses_def)

text \<open>What a table entry says to a question of a type: its addresses of that family, its services, its names.\<close>

definition dotted :: "string \<Rightarrow> string" where "dotted n = (if n = [] then ''.'' else n)"

definition table_records :: "(string \<Rightarrow> addr option) \<Rightarrow> (addr \<Rightarrow> string) \<Rightarrow> nat \<Rightarrow> tbl_Answer \<Rightarrow> dns_Record list" where
  "table_records ParseAddr addr_str qtype ans =
    (if qtype = TypeA then
       List.map_filter (\<lambda>t. case ParseAddr t of Some (V4 x) \<Rightarrow> Some ((empty_record 300)\<lparr>rc_Value := addr_str (V4 x)\<rparr>) | _ \<Rightarrow> None) (tn_Addrs ans)
     else if qtype = TypeAAAA then
       List.map_filter (\<lambda>t. case ParseAddr t of Some (V6 x _) \<Rightarrow> Some ((empty_record 300)\<lparr>rc_Value := addr_str (V6 x [])\<rparr>) | _ \<Rightarrow> None) (tn_Addrs ans)
     else if qtype = TypeSRV then
       map (\<lambda>r. (empty_record 60)\<lparr>rc_Value := dotted (ts_Target r), rc_Priority := ts_Priority r, rc_Weight := ts_Weight r,
         rc_Port := ts_Port r\<rparr>) (tn_SRV ans)
     else map (\<lambda>n. (empty_record 3600)\<lparr>rc_Value := dotted n\<rparr>) (tn_PTR ans))"

lemma trimDot_dot: "trimDot (n @ ''.'') = dotted n"
  by (simp add: trimDot_def dotted_def)

lemma wanted_append [simp]: "rr_wanted addr_str qtype (xs @ ys) = rr_wanted addr_str qtype xs @ rr_wanted addr_str qtype ys"
  by (simp add: rr_wanted_def)

lemma wanted_addrs:
  "map (addr_body ParseAddr) ts = map Some bs \<Longrightarrow> rr_wanted addr_str qtype (map (resource owner ttl) bs) =
    List.map_filter (\<lambda>t. case ParseAddr t of
        Some (V4 x) \<Rightarrow> if qtype = TypeA then Some ((empty_record ttl)\<lparr>rc_Value := addr_str (V4 x)\<rparr>) else None
      | Some (V6 x _) \<Rightarrow> if qtype = TypeAAAA then Some ((empty_record ttl)\<lparr>rc_Value := addr_str (V6 x [])\<rparr>) else None
      | _ \<Rightarrow> None) ts"
  by (induction ts arbitrary: bs)
    (auto simp: rr_wanted_def resource_def addr_body_def map_filter_simps Cons_eq_map_conv split: option.splits addr.splits)

lemma wanted_srvs:
  assumes "codec_ok C"
  shows "map (srv_body C) rs = map Some bs \<Longrightarrow> rr_wanted addr_str qtype (map (resource owner ttl) bs) =
    (if qtype = TypeSRV then map (\<lambda>r. (empty_record ttl)\<lparr>rc_Value := dotted (ts_Target r), rc_Priority := ts_Priority r,
       rc_Weight := ts_Weight r, rc_Port := ts_Port r\<rparr>) rs else [])"
proof (induction rs arbitrary: bs)
  case Nil
  then show ?case by (simp add: rr_wanted_def)
next
  case (Cons r rs)
  from Cons.prems obtain b bs' where bs: "bs = b # bs'" "srv_body C r = Some b" "map (srv_body C) rs = map Some bs'"
    by (auto simp: Cons_eq_map_conv)
  then have b: "b = BodySRV (if ts_Target r \<noteq> ''.'' then ts_Target r @ ''.'' else ts_Target r) (ts_Priority r) (ts_Weight r) (ts_Port r)"
    using MustNewName_same [OF assms] by (auto simp: srv_body_def)
  have "trimDot (if ts_Target r \<noteq> ''.'' then ts_Target r @ ''.'' else ts_Target r) = dotted (ts_Target r)"
    by (simp add: trimDot_dot) (simp add: trimDot_def dotted_def)
  then show ?case using Cons.IH [OF bs(3)] unfolding bs(1) b by (auto simp: rr_wanted_def resource_def)
qed

lemma wanted_ptrs:
  assumes "codec_ok C"
  shows "map (\<lambda>n. MustNewName C (n @ ''.'')) ns = map Some ps \<Longrightarrow> rr_wanted addr_str qtype (map (\<lambda>n. resource owner ttl (BodyPTR n)) ps) =
    (if qtype = TypePTR then map (\<lambda>n. (empty_record ttl)\<lparr>rc_Value := dotted n\<rparr>) ns else [])"
  by (induction ns arbitrary: ps)
    (auto simp: rr_wanted_def resource_def trimDot_dot Cons_eq_map_conv dest!: MustNewName_same [OF assms])

lemma tbl_records_wanted:
  assumes "codec_ok C" and "client_type qtype" and "tbl_records C ParseAddr qname ans = Some rs"
  shows "rr_wanted addr_str qtype rs = table_records ParseAddr addr_str qtype ans"
proof -
  obtain owner addrs srvs ptrs where rs: "map (addr_body ParseAddr) (tn_Addrs ans) = map Some addrs"
    "map (srv_body C) (tn_SRV ans) = map Some srvs" "map (\<lambda>n. MustNewName C (n @ ''.'')) (tn_PTR ans) = map Some ptrs"
    "rs = (if tn_CNAME ans \<noteq> [] then [resource qname 30 (BodyCNAME owner)] else []) @ map (resource owner 300) addrs @
      map (resource owner 60) srvs @ map (\<lambda>n. resource owner 3600 (BodyPTR n)) ptrs"
    using assms(3) by (auto simp: tbl_records_def those_eq_Some split: option.splits)
  have "rr_wanted addr_str qtype (if tn_CNAME ans \<noteq> [] then [resource qname 30 (BodyCNAME owner)] else []) = []"
    using assms(2) by (auto simp: rr_wanted_def resource_def client_type_def dns_types TypeCNAME_def)
  moreover have "rr_wanted addr_str qtype (map (resource owner 300) addrs) = (if qtype = TypeA \<or> qtype = TypeAAAA then table_records ParseAddr addr_str qtype ans else [])"
  proof -
    have "List.map_filter (\<lambda>t. case ParseAddr t of None \<Rightarrow> None | Some NoAddr \<Rightarrow> None | Some _ \<Rightarrow> None) ts = ([] :: dns_Record list)" for ts
      by (induction ts) (auto simp: map_filter_simps split: option.split addr.split)
    then show ?thesis unfolding wanted_addrs [OF rs(1)] table_records_def
      by (auto simp: dns_types intro!: arg_cong2 [where f = List.map_filter] cong: option.case_cong addr.case_cong split: option.split addr.split)
  qed
  ultimately show ?thesis
    using assms(2) unfolding rs(4) wanted_append wanted_srvs [OF assms(1) rs(2)] wanted_ptrs [OF assms(1) rs(3)]
    by (auto simp: table_records_def client_type_def dns_types)
qed

section \<open>The client against the server\<close>

text \<open>
  The network of an attempt when the server of the table is asked and nothing is lost: one datagram there and at most
  one back, and over TCP a connection of its own.
\<close>

definition table_net :: "dns_codec \<Rightarrow> (string \<Rightarrow> addr option) \<Rightarrow> bytes \<Rightarrow> tbl_Server \<Rightarrow> dns_error \<Rightarrow> dns_net" where
  "table_net C ParseAddr msg s err =
    (let (s1, r) = serveUDP C ParseAddr msg s;
         (s2, r2) = serveTCP C ParseAddr (tcp_frame msg) s1
     in \<lparr>nt_udp_dial = None, nt_udp_reads = (case r of Reply b \<Rightarrow> [b] | _ \<Rightarrow> []), nt_tcp_dial = None,
         nt_tcp_stream = (case r2 of Reply b \<Rightarrow> b | _ \<Rightarrow> []), nt_read_err = err\<rparr>)"

definition query_key :: "nat \<Rightarrow> string \<Rightarrow> string" where
  "query_key qtype name = typeNames qtype @ '' '' @ name"

lemma tcp_read_frame: "length msg < 65536 \<Longrightarrow> tcp_read err (tcp_frame msg) = Inr msg"
proof -
  assume "length msg < 65536"
  then have "unat (of_nat (length msg) :: u16) = length msg" by (simp add: unat_of_nat take_bit_nat_eq_self_iff)
  moreover have "length (put16 w) = 2" for w by (simp add: put16_def)
  ultimately show ?thesis by (simp add: tcp_read_def tcp_frame_def be16_put16 Let_def)
qed

lemma buildQuery_parses:
  assumes "codec_ok C" and "buildQuery C idb name qtype = Inr (msg, qid)"
  shows "dp_Start (cd_Parser C msg) = Inr \<lparr>dh_ID = qid, dh_Response = False, dh_Truncated = False, dh_RCode = 0\<rparr>"
    and "dp_Question (cd_Parser C msg) = Inr \<lparr>dq_Name = name @ ''.'', dq_Type = qtype, dq_Class = ClassINET\<rparr>"
  using assms(2) codec_okD(1) [OF assms(1)] codec_okD(4) [OF assms(1)]
  by (fastforce simp: buildQuery_def parses_def RCodeSuccess_def Let_def split: sum.splits)+

lemma reply_parses:
  assumes "codec_ok C" and "client_type qtype"
    and "tbl_reply_to C ParseAddr udp qid \<lparr>dq_Name = name @ ''.'', dq_Type = qtype, dq_Class = ClassINET\<rparr> ans = Reply b"
    and "\<not> EqualFold ''other.invalid.'' (name @ ''.'')"
  shows "2 \<le> length b \<and> be16 b = qid \<and> parseAnswer addr_str (cd_Parser C b) qid name qtype =
    (if tn_WrongQuestion ans then Inl OtherQuestion
     else if udp \<and> tn_TruncateUDP ans \<or> \<not> udp \<and> tn_TruncateTCP ans then Inr (\<lparr>an_rcode = 0, an_recs = []\<rparr>, True)
     else Inr (\<lparr>an_rcode = tn_RCode ans, an_recs = table_records ParseAddr addr_str qtype ans\<rparr>, False))"
proof -
  let ?tr = "udp \<and> tn_TruncateUDP ans \<or> \<not> udp \<and> tn_TruncateTCP ans"
  let ?q = "if tn_WrongQuestion ans then MustNewName C ''other.invalid.'' else Some (name @ ''.'')"
  obtain qname where q: "?q = Some qname"
    using assms(3) by (cases ?q) (simp_all add: tbl_reply_to_def Let_def cong: if_cong)
  let ?r = "if ?tr then Some [] else tbl_records C ParseAddr qname ans"
  obtain records where r: "?r = Some records"
    using assms(3) q by (cases ?r) (simp_all add: tbl_reply_to_def Let_def cong: if_cong)
  let ?m = "\<lparr>mg_ID = qid, mg_Response = True, mg_RecursionDesired = True, mg_RecursionAvailable = True,
      mg_Truncated = ?tr, mg_RCode = tn_RCode ans, mg_Question = \<lparr>dq_Name = qname, dq_Type = qtype, dq_Class = ClassINET\<rparr>,
      mg_Answers = records, mg_Payload = None\<rparr>"
  have pk: "cd_pack C ?m = Inr b"
    using assms(3) q r by (cases "cd_pack C ?m") (simp_all add: tbl_reply_to_def Let_def cong: if_cong)
  have n: "qname = (if tn_WrongQuestion ans then ''other.invalid.'' else name @ ''.'')"
    using q MustNewName_same [OF assms(1)] by (auto split: if_splits)
  have w: "\<not> ?tr \<Longrightarrow> rr_wanted addr_str qtype records = table_records ParseAddr addr_str qtype ans"
    using r tbl_records_wanted [OF assms(1,2)] by (auto split: if_splits)
  have "parseAnswer addr_str (cd_Parser C b) (mg_ID ?m) name qtype =
      (if \<not> EqualFold qname (name @ ''.'') then Inl OtherQuestion
       else if mg_Truncated ?m then Inr (\<lparr>an_rcode = 0, an_recs = []\<rparr>, True)
       else Inr (\<lparr>an_rcode = mg_RCode ?m, an_recs = rr_wanted addr_str qtype (mg_Answers ?m)\<rparr>, False))"
    by (rule parseAnswer_parses [OF codec_okD(1) [OF assms(1) pk] _ _ assms(2)]) simp_all
  moreover have "EqualFold qname (name @ ''.'') \<longleftrightarrow> \<not> tn_WrongQuestion ans"
    using assms(4) n by (simp add: EqualFold_def)
  ultimately show ?thesis using w codec_okD(2,3) [OF assms(1) pk] by auto
qed

lemma tbl_answer_asked [simp]: "tbl_answer k (s\<lparr>tv_asked := x\<rparr>) = tbl_answer k s"
  by (simp add: tbl_answer_def split: option.split)

lemma respond_query:
  assumes "codec_ok C" and "buildQuery C idb name qtype = Inr (msg, qid)"
  shows "respond C ParseAddr msg udp s = (s\<lparr>tv_asked := tv_asked s @ [query_key qtype name]\<rparr>,
    if tv_dropAll s then NoReply
    else tbl_reply_to C ParseAddr udp qid \<lparr>dq_Name = name @ ''.'', dq_Type = qtype, dq_Class = ClassINET\<rparr> (tbl_answer (query_key qtype name) s))"
  using buildQuery_parses [OF assms] by (simp add: respond_def query_key_def Let_def)


section \<open>A witness\<close>

text \<open>A message library that knows one question and one reply.\<close>

definition demo_rr :: "dns_resource \<Rightarrow> dns_rr" where
  "demo_rr r = \<lparr>rr_Type = body_type (rs_Body r), rr_TTL = rs_TTL r, rr_Skip = None,
    rr_A = (case rs_Body r of BodyA x \<Rightarrow> Inr x | _ \<Rightarrow> Inl []), rr_AAAA = (case rs_Body r of BodyAAAA x \<Rightarrow> Inr x | _ \<Rightarrow> Inl []),
    rr_SRV = (case rs_Body r of BodySRV t p w port \<Rightarrow> Inr (t, p, w, port) | _ \<Rightarrow> Inl []),
    rr_PTR = (case rs_Body r of BodyPTR n \<Rightarrow> Inr n | _ \<Rightarrow> Inl [])\<rparr>"

definition demo_view :: "dns_message \<Rightarrow> dns_parse" where
  "demo_view m = \<lparr>dp_Start = Inr \<lparr>dh_ID = mg_ID m, dh_Response = mg_Response m, dh_Truncated = mg_Truncated m, dh_RCode = mg_RCode m\<rparr>,
    dp_Question = Inr (mg_Question m), dp_SkipAllQuestions = None, dp_Answers = map demo_rr (mg_Answers m), dp_AnswerError = None\<rparr>"

lemma demo_view_parses: "parses m (demo_view m)"
proof -
  have "reads_rr r (demo_rr r)" for r by (cases "rs_Body r") (simp_all add: reads_rr_def demo_rr_def)
  then show ?thesis by (simp add: parses_def demo_view_def list_all2_map2 list_all2_same)
qed

definition demo_question :: dns_question where "demo_question = \<lparr>dq_Name = ''h.'', dq_Type = TypeA, dq_Class = ClassINET\<rparr>"

definition demo_asking :: dns_message where
  "demo_asking = \<lparr>mg_ID = 7, mg_Response = False, mg_RecursionDesired = True, mg_RecursionAvailable = False, mg_Truncated = False,
    mg_RCode = RCodeSuccess, mg_Question = demo_question, mg_Answers = [], mg_Payload = Some udpPayload\<rparr>"

definition demo_telling :: dns_message where
  "demo_telling = \<lparr>mg_ID = 7, mg_Response = True, mg_RecursionDesired = True, mg_RecursionAvailable = True, mg_Truncated = False,
    mg_RCode = RCodeSuccess, mg_Question = demo_question, mg_Answers = [resource ''h.'' 300 (BodyA 9)], mg_Payload = None\<rparr>"

definition demo_codec :: dns_codec where
  "demo_codec = \<lparr>cd_NewName = Inr,
    cd_pack = (\<lambda>m. if m = demo_asking then Inr [0, 7, 0] else if m = demo_telling then Inr [0, 7, 1] else Inl ''x''),
    cd_Parser = (\<lambda>b. demo_view (if b = [0, 7, 0] then demo_asking else demo_telling))\<rparr>"

lemma demo_codec_ok: "codec_ok demo_codec"
  by (auto simp: codec_ok_def demo_codec_def demo_view_parses be16_def demo_asking_def demo_telling_def split: if_splits)

definition demo_table :: tbl_Server where
  "demo_table = tbl_Start [(''A h'', (empty_answer RCodeSuccess)\<lparr>tn_Addrs := [''0.0.0.9'']\<rparr>)]"

definition demo_parse_addr :: "string \<Rightarrow> addr option" where
  "demo_parse_addr t = (if t = ''0.0.0.9'' then Some (V4 9) else None)"


end
