(* ===== verification/Dns_Targets.thy ===== *)
theory Dns_Targets
  imports Dns_Client "HOL-Library.AList"
begin

text \<open>
  The cache of SRV targets of a run (\<^verbatim>\<open>targetCache\<close> and \<^verbatim>\<open>targetAddrs\<close> of \<^verbatim>\<open>internal/dns/dns.go\<close>), which the
  questions of the run share: the steps of their \<^verbatim>\<open>fill\<close> interleaved, each target asked for once.
\<close>

section \<open>The cache\<close>

text \<open>An entry is \<open>None\<close> until its \<^verbatim>\<open>once\<close> is done; \<open>tc_asked\<close> lists the targets resolved, in their order.\<close>

record targetCache =
  tc_m :: "(string \<times> targetAddrs option) list"
  tc_asked :: "string list"

definition newTargetCache :: targetCache where
  "newTargetCache = \<lparr>tc_m = [], tc_asked = []\<rparr>"

definition tc_entry :: "string \<Rightarrow> targetCache \<Rightarrow> targetCache" where
  "tc_entry target tc = (if map_of (tc_m tc) target = None then tc\<lparr>tc_m := AList.update target None (tc_m tc)\<rparr> else tc)"

text \<open>
  The body of \<^verbatim>\<open>once.Do\<close> is \<open>answers n target\<close>, whatever the \<open>n\<close>-th resolution of the run gives; a second caller waits for the first.
\<close>

definition tc_resolve :: "(nat \<Rightarrow> string \<Rightarrow> targetAddrs) \<Rightarrow> string \<Rightarrow> targetCache \<Rightarrow> targetCache" where
  "tc_resolve answers target tc =
    (case map_of (tc_m tc) target of
       Some None \<Rightarrow> tc\<lparr>tc_m := AList.update target (Some (answers (length (tc_asked tc)) target)) (tc_m tc),
                       tc_asked := tc_asked tc @ [target]\<rparr>
     | _ \<Rightarrow> tc)"

datatype cache_op = OpEntry string | OpResolve string

fun cache_step :: "(nat \<Rightarrow> string \<Rightarrow> targetAddrs) \<Rightarrow> cache_op \<Rightarrow> targetCache \<Rightarrow> targetCache" where
  "cache_step answers (OpEntry t) tc = tc_entry t tc"
| "cache_step answers (OpResolve t) tc = tc_resolve answers t tc"

text \<open>What the calls of \<^verbatim>\<open>fill\<close> do to the cache: every record takes the entry of its target, and a goroutine of its own then
  resolves it; those of all records of all questions interleave. The root target is skipped.\<close>

definition fill_targets :: "dns_Record list \<Rightarrow> string list" where
  "fill_targets recs = filter (\<lambda>t. t \<noteq> ''.'') (map rc_Value recs)"

primrec fill_runs :: "string list \<Rightarrow> cache_op list set" where
  "fill_runs [] = {[]}"
| "fill_runs (t # ts) = (\<Union>zs \<in> fill_runs ts. shuffles [OpEntry t, OpResolve t] zs)"

text \<open>The loop at the end of \<^verbatim>\<open>fill\<close>, once the goroutines of its records are done.\<close>

definition cache_read :: "targetCache \<Rightarrow> string \<Rightarrow> targetAddrs" where
  "cache_read tc t = (case map_of (tc_m tc) t of Some (Some e) \<Rightarrow> e | _ \<Rightarrow> \<lparr>ta_addrs = [], ta_status = []\<rparr>)"

definition cache_fill :: "targetCache \<Rightarrow> dns_Record list \<Rightarrow> dns_Record list" where
  "cache_fill tc recs = map (fill_record (cache_read tc)) recs"

section \<open>Each target is asked for once\<close>

fun entered :: "string set \<Rightarrow> cache_op list \<Rightarrow> bool" where
  "entered seen [] = True"
| "entered seen (OpEntry t # ops) = entered (insert t seen) ops"
| "entered seen (OpResolve t # ops) = (t \<in> seen \<and> entered seen ops)"

lemma entered_mono: "entered S ops \<Longrightarrow> S \<subseteq> T \<Longrightarrow> entered T ops"
proof (induction S ops arbitrary: T rule: entered.induct)
  case (2 seen t ops)
  from "2.IH" [of "insert t T"] "2.prems" show ?case by auto
qed auto

lemma entered_shuffle: "zs \<in> shuffles xs ys \<Longrightarrow> entered S xs \<Longrightarrow> entered S ys \<Longrightarrow> entered S zs"
proof (induction xs ys arbitrary: zs S rule: shuffles.induct)
  case (3 x xs y ys)
  from "3.prems"(1) consider (l) z where "zs = x # z" "z \<in> shuffles xs (y # ys)" | (r) z where "zs = y # z" "z \<in> shuffles (x # xs) ys"
    by auto
  then show ?case
  proof cases
    case l
    then show ?thesis using "3.IH"(1) [OF l(2)] "3.prems"(2,3) by (cases x) (auto intro: entered_mono)
  next
    case r
    have "entered (insert u S) (x # xs)" for u using "3.prems"(2) by (rule entered_mono) auto
    then show ?thesis using r(1) "3.IH"(2) [OF r(2)] "3.prems"(2,3) by (cases y) auto
  qed
qed auto

lemma fill_runs_entered: "ops \<in> fill_runs ts \<Longrightarrow> entered {} ops"
proof (induction ts arbitrary: ops)
  case (Cons t ts)
  then obtain zs where "zs \<in> fill_runs ts" "ops \<in> shuffles [OpEntry t, OpResolve t] zs" by auto
  then show ?case using Cons.IH entered_shuffle [of ops "[OpEntry t, OpResolve t]" zs "{}"] by auto
qed simp

lemma fill_runs_resolves: "ops \<in> fill_runs ts \<Longrightarrow> {t. OpResolve t \<in> set ops} = set ts"
proof (induction ts arbitrary: ops)
  case (Cons t ts)
  then obtain zs where "zs \<in> fill_runs ts" "ops \<in> shuffles [OpEntry t, OpResolve t] zs" by auto
  then show ?case using Cons.IH [of zs] by (auto simp: set_shuffles)
qed simp

text \<open>The entries of the cache: those resolved are those asked for.\<close>

definition cache_ok :: "targetCache \<Rightarrow> bool" where
  "cache_ok tc = (distinct (tc_asked tc) \<and> (\<forall>t. t \<in> set (tc_asked tc) \<longleftrightarrow> (\<exists>e. map_of (tc_m tc) t = Some (Some e))))"

lemma cache_step_ok: "cache_ok tc \<Longrightarrow> cache_ok (cache_step answers op tc)"
  by (cases op) (auto simp: cache_ok_def tc_entry_def tc_resolve_def update_conv' split: option.splits)

lemma cache_step_stable: "map_of (tc_m tc) t = Some (Some e) \<Longrightarrow> map_of (tc_m (cache_step answers op tc)) t = Some (Some e)"
  by (cases op) (auto simp: tc_entry_def tc_resolve_def update_conv' split: option.splits)

lemma cache_run_ok: "cache_ok tc \<Longrightarrow> cache_ok (fold (cache_step answers) ops tc)"
  by (induction ops arbitrary: tc) (simp_all add: cache_step_ok)

lemma cache_run_stable: "map_of (tc_m tc) t = Some (Some e) \<Longrightarrow> map_of (tc_m (fold (cache_step answers) ops tc)) t = Some (Some e)"
  by (induction ops arbitrary: tc) (simp_all add: cache_step_stable)

lemma cache_step_entry: "map_of (tc_m tc) t \<noteq> None \<Longrightarrow> map_of (tc_m (cache_step answers op tc)) t \<noteq> None"
  by (cases op) (auto simp: tc_entry_def tc_resolve_def update_conv' split: option.splits)

lemma cache_run_resolves:
  assumes "entered S ops" and "\<forall>t \<in> S. map_of (tc_m tc) t \<noteq> None" and "OpResolve t \<in> set ops"
  shows "\<exists>e. map_of (tc_m (fold (cache_step answers) ops tc)) t = Some (Some e)"
  using assms
proof (induction S ops arbitrary: tc rule: entered.induct)
  case (2 seen u ops)
  have "map_of (tc_m (cache_step answers (OpEntry u) tc)) x \<noteq> None" if "x \<in> insert u seen" for x
    using that "2.prems"(2) by (auto simp: tc_entry_def update_conv' simp del: not_None_eq)
  with "2.IH" [of "cache_step answers (OpEntry u) tc"] "2.prems" show ?case by auto
next
  case (3 seen u ops)
  let ?tc = "cache_step answers (OpResolve u) tc"
  have keep: "\<forall>x \<in> seen. map_of (tc_m ?tc) x \<noteq> None" using "3.prems"(2) cache_step_entry by blast
  have "\<exists>e. map_of (tc_m ?tc) u = Some (Some e)"
    using "3.prems"(1,2) by (fastforce simp: tc_resolve_def update_conv' split: option.splits)
  then have "\<exists>e. map_of (tc_m (fold (cache_step answers) ops ?tc)) u = Some (Some e)" using cache_run_stable by metis
  then show ?case using "3.IH" [OF _ keep] "3.prems"(1,3) by auto
qed simp


definition demo_srv :: dns_Record where
  "demo_srv = \<lparr>rc_Value = ''a'', rc_Priority = 0, rc_Weight = 0, rc_Port = 5060, rc_TTL = 60, rc_Addresses = [], rc_AddressStatus = []\<rparr>"


end
