(* ===== verification/Backend_System.thy ===== *)
theory Backend_System
  imports Server_Theorems Monitor_Export
begin

text \<open>
  The backend as one system: the sessions of agents, their events, the requests of browsers, the reload of the
  monitors and the periodic work of the manager and the sink, in any order, on the server of
  \<^verbatim>\<open>internal/backend/server.go\<close>. Each handler is one step here; what happens between the lock
  sections of a handler is in \<^verbatim>\<open>Gateway_Sessions\<close>, \<^verbatim>\<open>Backend_Run\<close> and \<^verbatim>\<open>Monitor_Export\<close>.
\<close>

section \<open>The handlers\<close>

text \<open>The message loop of a session: an event goes where \<^verbatim>\<open>route\<close> sends it. \<open>store\<close> are the channels of the run's subscribers.\<close>

definition deliver_run :: "instant \<Rightarrow> (nat \<Rightarrow> subscriber) \<Rightarrow> run_ref \<Rightarrow> JobEvent \<Rightarrow> Server \<Rightarrow> (unit, Server) outcome" where
  "deliver_run now store r ev s =
    (case Manager_Get r (sv_mgr s) of
       None \<Rightarrow> Ok s
     | Some run \<Rightarrow> obind (OnEvent now ev (run, store)) (\<lambda>(run, _).
         Ok (s\<lparr>sv_mgr := (sv_mgr s)\<lparr>mg_runs := AList.update r run (mg_runs (sv_mgr s))\<rparr>\<rparr>)))"

definition session_message :: "fmt_lib \<Rightarrow> instant \<Rightarrow> (nat \<Rightarrow> subscriber) \<Rightarrow> string \<Rightarrow> conn \<Rightarrow> AgentMessage \<Rightarrow> Server \<Rightarrow> (unit, Server) outcome" where
  "session_message L now store site c m s =
    (case m of
       EventMsg ev \<Rightarrow>
         (case route (sv_gw s) True site ev of
            ToMonitorSink site \<Rightarrow> Ok (s\<lparr>sv_sink := OnMonitorEvent L now site ev (sv_sink s)\<rparr>)
          | ToRun r \<Rightarrow> deliver_run now store r ev s
          | Dropped \<Rightarrow> Ok s)
     | PongMsg nonce \<Rightarrow> Ok (s\<lparr>sv_gw := onPong now c nonce (sv_gw s)\<rparr>)
     | _ \<Rightarrow> Ok s)"

text \<open>A run id is a random UUID: without a colon, and not the prefix of the monitors' jobs.\<close>

definition run_id_ok :: "string \<Rightarrow> bool" where
  "run_id_ok i = (CHR '':'' \<notin> set i \<and> i \<noteq> ''mon'')"

inductive backend_step :: "nat \<times> Server \<Rightarrow> nat \<times> Server \<Rightarrow> bool" where
  connect: "session_open alive now n auth first (sv_gw s) = (g, res) \<Longrightarrow> backend_step (n, s) (Suc n, s\<lparr>sv_gw := g\<rparr>)"
| disconnect: "backend_step (n, s) (n, s\<lparr>sv_gw := (sv_gw s)\<lparr>gw_agents := removeAgent site c (gw_agents (sv_gw s))\<rparr>\<rparr>)"
| message: "session_message L now store site c m s = Ok t \<Longrightarrow> backend_step (n, s) (n, t)"
| pinging: "backend_step (n, s) (n, s\<lparr>sv_gw := ping alive now c (sv_gw s)\<rparr>)"
| request: "\<lbrakk>api_serve E r s = (t, resp); run_id_ok (ae_newID E); Manager_Get (ae_newID E) (sv_mgr s) = None\<rbrakk> \<Longrightarrow> backend_step (n, s) (n, t)"
| unsubscribe: "Manager_Get i (sv_mgr s) = Some run \<Longrightarrow>
    backend_step (n, s) (n, s\<lparr>sv_mgr := (sv_mgr s)\<lparr>mg_runs := AList.update i (cancel_locked k run) (mg_runs (sv_mgr s))\<rparr>\<rparr>)"
| unwatch: "backend_step (n, s) (n, s\<lparr>sv_sink := sink_cancel k (sv_sink s)\<rparr>)"
| reload: "backend_step (n, s) (n, ReloadMonitors alive now mons s)"
| reaping: "reap now (sv_mgr s) (sv_gw s) = (mgr, g) \<Longrightarrow> backend_step (n, s) (n, s\<lparr>sv_mgr := mgr, sv_gw := g\<rparr>)"
| sweeping: "backend_step (n, s) (n, s\<lparr>sv_sink := Sweep now (sv_sink s)\<rparr>)"

section \<open>Jobs and runs\<close>

definition jobs_of :: "string \<Rightarrow> Run \<Rightarrow> string set" where
  "jobs_of i run = jobID_of i ` set (rn_Sites run)"

definition run_ok :: "(string \<Rightarrow> string option) \<Rightarrow> string \<Rightarrow> Run \<Rightarrow> bool" where
  "run_ok sinks i run = (rn_ID run = i \<and> run_id_ok i \<and> set (rn_pending run) \<subseteq> jobs_of i run \<and>
    (\<forall>j \<in> set (rn_pending run). sinks j = Some i) \<and> (rn_done run \<longleftrightarrow> rn_pending run = []))"

definition routes_ok :: "(string \<Rightarrow> string option) \<Rightarrow> (string \<Rightarrow> Run option) \<Rightarrow> bool" where
  "routes_ok sinks runs = ((\<forall>j i. sinks j = Some i \<longrightarrow> (\<exists>run. runs i = Some run \<and> j \<in> jobs_of i run)) \<and>
    (\<forall>i run. runs i = Some run \<longrightarrow> run_ok sinks i run))"

lemma jobID_of_split:
  assumes "CHR '':'' \<notin> set i" and "CHR '':'' \<notin> set i'" and "jobID_of i s = jobID_of i' s'"
  shows "i = i' \<and> s = s'"
proof -
  have "takeWhile (\<lambda>c. c \<noteq> CHR '':'') (jobID_of x y) = x" if "CHR '':'' \<notin> set x" for x y
    using that by (auto simp: jobID_of_def takeWhile_append)
  then have "i = i'" using assms by metis
  then show ?thesis using assms(3) by simp
qed

lemma jobs_apart:
  assumes "run_id_ok i" and "run_id_ok i'" and "j \<in> jobs_of i run" and "j \<in> jobs_of i' run'"
  shows "i = i'"
  using assms jobID_of_split by (auto simp: jobs_of_def run_id_ok_def)

lemma routes_okD:
  assumes "routes_ok sinks runs"
  shows "sinks j = Some i \<Longrightarrow> \<exists>run. runs i = Some run \<and> j \<in> jobs_of i run" "runs i = Some run \<Longrightarrow> run_ok sinks i run"
  using assms unfolding routes_ok_def by blast+

lemma routes_okI:
  assumes "\<And>j i. sinks j = Some i \<Longrightarrow> \<exists>run. runs i = Some run \<and> j \<in> jobs_of i run" and "\<And>i run. runs i = Some run \<Longrightarrow> run_ok sinks i run"
  shows "routes_ok sinks runs"
  using assms unfolding routes_ok_def by blast

text \<open>A run that keeps its sites is replaced by a later state of it.\<close>

lemma routes_ok_update:
  assumes "routes_ok sinks runs" and "runs i = Some run" and "rn_Sites run' = rn_Sites run" and "run_ok sinks i run'"
  shows "routes_ok sinks (runs(i \<mapsto> run'))"
proof (rule routes_okI)
  fix j k assume "sinks j = Some k"
  then obtain r where "runs k = Some r" "j \<in> jobs_of k r" using routes_okD(1) [OF assms(1)] by blast
  then show "\<exists>run. (runs(i \<mapsto> run')) k = Some run \<and> j \<in> jobs_of k run" using assms(2,3) by (auto simp: jobs_of_def)
next
  fix k r assume "(runs(i \<mapsto> run')) k = Some r"
  then show "run_ok sinks k r" using assms(4) routes_okD(2) [OF assms(1)] by (cases "k = i") auto
qed

text \<open>A new run takes over the jobs of some of its sites.\<close>

lemma routes_ok_start:
  assumes "routes_ok sinks runs" and "runs i = None" and "run_id_ok i" and "new \<subseteq> jobs_of i run" and "set (rn_pending run) \<subseteq> new"
    and "rn_ID run = i" and "rn_done run \<longleftrightarrow> rn_pending run = []"
    and "\<And>j. sinks' j = (if j \<in> new then Some i else sinks j)"
  shows "routes_ok sinks' (runs(i \<mapsto> run))"
proof (rule routes_okI)
  fix j k assume k: "sinks' j = Some k"
  consider "j \<in> new" "k = i" | "sinks j = Some k"
    using k unfolding assms(8) by (cases "j \<in> new") auto
  then show "\<exists>r. (runs(i \<mapsto> run)) k = Some r \<and> j \<in> jobs_of k r"
  proof cases
    case 1
    then show ?thesis using assms(4) by auto
  next
    case 2
    then obtain r where "runs k = Some r" "j \<in> jobs_of k r" using routes_okD(1) [OF assms(1)] by blast
    then show ?thesis using assms(2) by auto
  qed
next
  fix k r assume k: "(runs(i \<mapsto> run)) k = Some r"
  show "run_ok sinks' k r"
  proof (cases "k = i")
    case True
    then have "r = run" using k by simp
    moreover have "\<forall>j \<in> set (rn_pending run). sinks' j = Some i" using assms(5,8) by auto
    moreover have "set (rn_pending run) \<subseteq> jobs_of i run" using assms(4,5) by blast
    ultimately show ?thesis using True assms(3,6,7) by (simp add: run_ok_def)
  next
    case False
    then have old: "run_ok sinks k r" using k routes_okD(2) [OF assms(1)] by simp
    then have "j \<notin> new" if "j \<in> set (rn_pending r)" for j
      using that False assms(3,4) jobs_apart [of k i j r run] by (auto simp: run_ok_def)
    then have "\<forall>j \<in> set (rn_pending r). sinks' j = sinks j" using assms(8) by simp
    then show ?thesis using old by (simp add: run_ok_def)
  qed
qed

text \<open>Runs are dropped together with the jobs of their sites; a run that is done has no job to wait for.\<close>

lemma routes_ok_drop:
  assumes "routes_ok sinks runs" and "\<And>i. runs' i = (case runs i of Some run \<Rightarrow> if gone i run then None else Some run | None \<Rightarrow> None)"
    and "\<And>j. sinks' j = (if \<exists>i run. runs i = Some run \<and> gone i run \<and> j \<in> jobs_of i run then None else sinks j)"
  shows "routes_ok sinks' runs'"
proof (rule routes_okI)
  fix j k assume k: "sinks' j = Some k"
  then have "sinks j = Some k" using assms(3) by (auto split: if_splits)
  then obtain r where r: "runs k = Some r" "j \<in> jobs_of k r" using routes_okD(1) [OF assms(1)] by blast
  have "\<not> gone k r"
  proof
    assume "gone k r"
    with r have "\<exists>i run. runs i = Some run \<and> gone i run \<and> j \<in> jobs_of i run" by blast
    with k assms(3) [of j] show False by simp
  qed
  with r show "\<exists>run. runs' k = Some run \<and> j \<in> jobs_of k run" using assms(2) by auto
next
  fix k r assume "runs' k = Some r"
  then have r: "runs k = Some r" "\<not> gone k r" using assms(2) [of k] by (auto split: option.splits if_splits)
  have ok: "run_ok sinks k r" by (rule routes_okD(2) [OF assms(1) r(1)])
  have "sinks' j = sinks j" if j: "j \<in> jobs_of k r" for j
  proof -
    have "\<not> (\<exists>i run. runs i = Some run \<and> gone i run \<and> j \<in> jobs_of i run)"
    proof
      assume "\<exists>i run. runs i = Some run \<and> gone i run \<and> j \<in> jobs_of i run"
      then obtain i run where i: "runs i = Some run" "gone i run" "j \<in> jobs_of i run" by blast
      have "i = k" using jobs_apart [OF _ _ i(3) j] routes_okD(2) [OF assms(1) i(1)] ok by (simp add: run_ok_def)
      with i r show False by simp
    qed
    then show ?thesis by (rule trans [OF assms(3) if_not_P])
  qed
  with ok show "run_ok sinks' k r" by (auto simp: run_ok_def)
qed

section \<open>The manager keeps the routes\<close>

lemma emit_publish_frame [simp]:
  "rn_Sites (fst (emit_publish ev r)) = rn_Sites r" "rn_ID (fst (emit_publish ev r)) = rn_ID r"
  "rn_pending (fst (emit_publish ev r)) = rn_pending r" "rn_done (fst (emit_publish ev r)) = rn_done r"
  by (simp_all add: emit_publish_def Let_def)

lemma start_site_sites: "rn_Sites (fst (start_site alive now newJob site rg)) = rn_Sites (fst rg)"
  by (cases rg) (simp add: start_site_def delete_pending_def Let_def split: prod.split option.split)

lemma start_sites_sinks:
  assumes "fold (start_site alive now newJob) sites (new_run i all now, g) = (r, g')" and "\<And>j. sj_JobId (newJob j) = j"
  shows "rn_Sites r = all \<and> map_of (gw_sinks g') j =
    (if j \<in> jobID_of i ` {s \<in> set sites. map_of (gw_agents g) s \<noteq> None} then Some i else map_of (gw_sinks g) j)"
  using assms(1)
proof (induction sites arbitrary: r g' rule: rev_induct)
  case Nil
  then show ?case by (auto simp: new_run_def)
next
  case (snoc site sites)
  obtain r1 g1 where 1: "fold (start_site alive now newJob) sites (new_run i all now, g) = (r1, g1)" by force
  have step: "start_site alive now newJob site (r1, g1) = (r, g')" using snoc.prems 1 by simp
  have same: "rn_ID r1 = i" "gw_agents g1 = gw_agents g" using start_sites [OF 1 assms(2)] by blast+
  have "rn_Sites r = all" using start_site_sites [of alive now newJob site "(r1, g1)"] step snoc.IH [OF 1] by simp
  moreover have "map_of (gw_sinks g') j = (if map_of (gw_agents g) site = None then map_of (gw_sinks g1) j
      else if j = jobID_of i site then Some i else map_of (gw_sinks g1) j)"
    using start_site_cases(8) [OF step assms(2)] same by simp
  ultimately show ?case using snoc.IH [OF 1] by auto
qed

lemma routes_ok_Manager_Start:
  assumes "routes_ok (map_of (gw_sinks g)) (map_of (mg_runs mgr))" and "Manager_Get i mgr = None" and "run_id_ok i"
    and "Manager_Start alive now i newJob sites mgr g = (mgr', g', r)" and "\<And>j. sj_JobId (newJob j) = j"
  shows "routes_ok (map_of (gw_sinks g')) (map_of (mg_runs mgr'))"
proof -
  obtain r1 where f: "fold (start_site alive now newJob) sites (new_run i sites now, g) = (r1, g')"
      and r: "r = fst (checkDone_locked now r1)" and m: "mg_runs mgr' = AList.update i r (mg_runs mgr)"
    using assms(4) by (auto simp: Manager_Start_def Let_def split: prod.splits)
  let ?new = "jobID_of i ` {s \<in> set sites. map_of (gw_agents g) s \<noteq> None}"
  note st = start_sites [OF f assms(5)] and sk = start_sites_sinks [OF f assms(5)]
  have "routes_ok (map_of (gw_sinks g')) ((map_of (mg_runs mgr))(i \<mapsto> r))"
  proof (rule routes_ok_start [OF assms(1) _ assms(3)])
    show "map_of (mg_runs mgr) i = None" using assms(2) by (simp add: Manager_Get_def)
    have sites: "rn_Sites r = sites" using sk r by (simp add: checkDone_locked_def)
    show "?new \<subseteq> jobs_of i r" unfolding jobs_of_def sites by auto
    have "rn_pending r = rn_pending r1" using r by (simp add: checkDone_locked_def)
    then have "set (rn_pending r) = {jobID_of i s | s. s \<in> set sites \<and> site_starts alive g s}" using st by metis
    then show "set (rn_pending r) \<subseteq> ?new" by (auto simp: site_starts_def split: option.splits)
    show "rn_ID r = i" "rn_done r \<longleftrightarrow> rn_pending r = []" using st r by (auto simp: checkDone_locked_def)
    show "map_of (gw_sinks g') j = (if j \<in> ?new then Some i else map_of (gw_sinks g) j)" for j using sk by blast
  qed
  then show ?thesis by (simp add: m update_conv')
qed

lemma OnEvent_run_ok:
  assumes "OnEvent now ev (run, store) = Ok (run', store')" and "run_ok sinks i run"
  shows "rn_Sites run' = rn_Sites run" and "run_ok sinks i run'"
proof -
  obtain se subs st1 where e: "run' = (if is_terminal (je_Event ev) then fst (checkDone_locked now (delete_pending (je_JobId ev) (fst (emit_publish ev run))))
      else fst (emit_publish ev run))"
    using assms(1) by (auto simp: OnEvent_def run_emit_def checkDone_def Let_def split: prod.splits if_splits)
  show "rn_Sites run' = rn_Sites run" unfolding e by (simp add: checkDone_locked_def delete_pending_def)
  show "run_ok sinks i run'" using assms(2) unfolding e
    by (auto simp: run_ok_def checkDone_locked_def delete_pending_def jobs_of_def)
qed

lemma map_of_filter_distinct:
  assumes "distinct (map fst xs)"
  shows "map_of (filter P xs) k = (case map_of xs k of Some v \<Rightarrow> if P (k, v) then Some v else None | None \<Rightarrow> None)"
  using assms
proof (induction xs)
  case (Cons x xs)
  have "map_of xs (fst x) = None" using Cons.prems by (simp add: map_of_eq_None_iff)
  then show ?case using Cons by (cases x) (auto split: option.splits)
qed simp

lemma end_jobs:
  "map_of (gw_sinks (fold (\<lambda>(i, r). fold (\<lambda>site. EndJob (jobID_of i site)) (rn_Sites r)) rs g)) j =
    (if \<exists>(i, r) \<in> set rs. j \<in> jobs_of i r then None else map_of (gw_sinks g) j)"
proof (induction rs arbitrary: g)
  case (Cons x rs)
  obtain i r where x: "x = (i, r)" by (cases x)
  have "map_of (gw_sinks (fold (\<lambda>site. EndJob (jobID_of i site)) ss g)) j =
      (if j \<in> jobID_of i ` set ss then None else map_of (gw_sinks g) j)" for ss g
    by (induction ss arbitrary: g) (auto simp: EndJob_def delete_conv')
  then show ?case unfolding x using Cons.IH by (auto simp: jobs_of_def)
qed simp

lemma end_jobs_frame:
  "gw_agents (fold (\<lambda>(i, r). fold (\<lambda>site. EndJob (jobID_of i site)) (rn_Sites r)) rs g) = gw_agents g"
  "gw_conns (fold (\<lambda>(i, r). fold (\<lambda>site. EndJob (jobID_of i site)) (rn_Sites r)) rs g) = gw_conns g"
  "gw_reg (fold (\<lambda>(i, r). fold (\<lambda>site. EndJob (jobID_of i site)) (rn_Sites r)) rs g) = gw_reg g"
proof -
  have one: "gw_agents (fold (\<lambda>site. EndJob (jobID_of i site)) ss g) = gw_agents g \<and> gw_conns (fold (\<lambda>site. EndJob (jobID_of i site)) ss g) = gw_conns g \<and>
    gw_reg (fold (\<lambda>site. EndJob (jobID_of i site)) ss g) = gw_reg g" for i ss g
    by (induction ss arbitrary: g) (simp_all add: EndJob_def)
  have "gw_agents (fold (\<lambda>(i, r). fold (\<lambda>site. EndJob (jobID_of i site)) (rn_Sites r)) rs g) = gw_agents g \<and>
    gw_conns (fold (\<lambda>(i, r). fold (\<lambda>site. EndJob (jobID_of i site)) (rn_Sites r)) rs g) = gw_conns g \<and>
    gw_reg (fold (\<lambda>(i, r). fold (\<lambda>site. EndJob (jobID_of i site)) (rn_Sites r)) rs g) = gw_reg g"
    by (induction rs arbitrary: g) (simp_all add: one split: prod.split)
  then show "gw_agents (fold (\<lambda>(i, r). fold (\<lambda>site. EndJob (jobID_of i site)) (rn_Sites r)) rs g) = gw_agents g"
    "gw_conns (fold (\<lambda>(i, r). fold (\<lambda>site. EndJob (jobID_of i site)) (rn_Sites r)) rs g) = gw_conns g"
    "gw_reg (fold (\<lambda>(i, r). fold (\<lambda>site. EndJob (jobID_of i site)) (rn_Sites r)) rs g) = gw_reg g" by blast+
qed

lemma routes_ok_reap:
  assumes "routes_ok (map_of (gw_sinks g)) (map_of (mg_runs mgr))" and "distinct (map fst (mg_runs mgr))" and "reap now mgr g = (mgr', g')"
  shows "routes_ok (map_of (gw_sinks g')) (map_of (mg_runs mgr'))"
proof (rule routes_ok_drop [OF assms(1), where gone = "\<lambda>i run. finishedAt now (mg_ttl mgr) run"])
  let ?exp = "filter (\<lambda>(i, r). finishedAt now (mg_ttl mgr) r) (mg_runs mgr)"
  have m: "mg_runs mgr' = filter (\<lambda>(i, r). \<not> finishedAt now (mg_ttl mgr) r) (mg_runs mgr)"
    and g: "g' = fold (\<lambda>(i, r). fold (\<lambda>site. EndJob (jobID_of i site)) (rn_Sites r)) ?exp g"
    using assms(3) by (auto simp: reap_def Let_def)
  show "map_of (mg_runs mgr') i = (case map_of (mg_runs mgr) i of Some run \<Rightarrow> if finishedAt now (mg_ttl mgr) run then None else Some run | None \<Rightarrow> None)" for i
    unfolding m map_of_filter_distinct [OF assms(2)] by (simp split: option.split)
  have "(\<exists>(i, r) \<in> set ?exp. j \<in> jobs_of i r) \<longleftrightarrow> (\<exists>i run. map_of (mg_runs mgr) i = Some run \<and> finishedAt now (mg_ttl mgr) run \<and> j \<in> jobs_of i run)" for j
    using map_of_eq_Some_iff [OF assms(2)] by auto
  then show "map_of (gw_sinks g') j = (if \<exists>i run. map_of (mg_runs mgr) i = Some run \<and> finishedAt now (mg_ttl mgr) run \<and> j \<in> jobs_of i run
      then None else map_of (gw_sinks g) j)" for j
    unfolding g end_jobs by simp
qed

section \<open>The invariant\<close>

definition gw_ok :: "nat \<Rightarrow> Gateway \<Rightarrow> bool" where
  "gw_ok n g = (gateway_inv g \<and> (\<forall>site c. map_of (gw_agents g) site = Some c \<longrightarrow> c < n))"

definition mgr_ok :: "Gateway \<Rightarrow> Manager \<Rightarrow> bool" where
  "mgr_ok g mgr = (distinct (map fst (mg_runs mgr)) \<and> routes_ok (map_of (gw_sinks g)) (map_of (mg_runs mgr)))"

definition backend_inv :: "nat \<times> Server \<Rightarrow> bool" where
  "backend_inv ns = (case ns of (n, s) \<Rightarrow>
    gw_ok n (sv_gw s) \<and> gw_reg (sv_gw s) = Some (server_reg s) \<and> sink_index (sv_sink s) \<and> mgr_ok (sv_gw s) (sv_mgr s))"

lemma backend_invD:
  assumes "backend_inv (n, s)"
  shows "gw_ok n (sv_gw s)" "gw_reg (sv_gw s) = Some (server_reg s)" "sink_index (sv_sink s)" "mgr_ok (sv_gw s) (sv_mgr s)"
  using assms by (simp_all add: backend_inv_def)

lemma backend_invI:
  assumes "gw_ok n (sv_gw s)" "gw_reg (sv_gw s) = Some (ms_reg (sv_sink s))" "sink_index (sv_sink s)" "mgr_ok (sv_gw s) (sv_mgr s)"
  shows "backend_inv (n, s)"
  using assms by (simp add: backend_inv_def server_reg_def)

text \<open>Changes of the gateway that leave the registry of agents, the routes and the monitors alone.\<close>

definition gw_same :: "Gateway \<Rightarrow> Gateway \<Rightarrow> bool" where
  "gw_same g g' = (gw_agents g' = gw_agents g \<and> gw_sinks g' = gw_sinks g \<and> gw_reg g' = gw_reg g \<and>
    (\<forall>c. cn_site (gw_conns g' c) = cn_site (gw_conns g c)))"

lemma gw_same_refl [simp]: "gw_same g g"
  by (simp add: gw_same_def)

lemma gw_same_trans: "gw_same g g1 \<Longrightarrow> gw_same g1 g2 \<Longrightarrow> gw_same g g2"
  by (simp add: gw_same_def)

lemma gw_same_send: "gw_same g (fst (conn_send alive c m g))"
  by (simp add: gw_same_def conn_send_frame)

lemma gw_same_ok: "gw_ok n g \<Longrightarrow> gw_same g g' \<Longrightarrow> gw_ok n g'"
  using gateway_inv_frame [of g g'] by (simp add: gw_ok_def gw_same_def)

lemma gw_same_mgr: "mgr_ok g mgr \<Longrightarrow> gw_same g g' \<Longrightarrow> mgr_ok g' mgr"
  by (simp add: mgr_ok_def gw_same_def)

lemma gw_same_CancelJob: "gw_same g (CancelJob alive site j g)"
  by (simp add: CancelJob_def gw_same_send split: option.split)

lemma gw_same_fold:
  assumes "\<And>x g. gw_same g (f x g)"
  shows "gw_same g (fold f xs g)"
proof (induction xs arbitrary: g)
  case (Cons x xs)
  have "gw_same g (f x g)" by (rule assms)
  moreover have "gw_same (f x g) (fold f xs (f x g))" by (rule Cons.IH)
  ultimately show ?case using gw_same_trans by simp
qed simp

lemma gw_same_Cancel: "gw_same g (Manager_Cancel alive i mgr g)"
  by (simp add: Manager_Cancel_def gw_same_fold gw_same_CancelJob split: option.split)

lemma gw_same_ping: "gw_same g (ping alive now c g)"
  by (simp add: ping_def Let_def gw_same_def conn_send_frame)

lemma gw_same_onPong: "gw_same g (onPong now c nonce g)"
  by (simp add: onPong_def Let_def gw_same_def)

lemma gw_same_push: "gw_same g (PushAssignments alive g)"
proof -
  have "gw_same g (push_assignment alive reg c g)" for reg c g
    by (simp add: push_assignment_def Let_def gw_same_def conn_send_def)
  then show ?thesis by (simp add: PushAssignments_def gw_same_fold split: option.split)
qed

lemma mgr_ok_update:
  assumes "mgr_ok g mgr" and "Manager_Get i mgr = Some run" and "rn_Sites run' = rn_Sites run"
    and "\<And>sinks. run_ok sinks i run \<Longrightarrow> run_ok sinks i run'"
  shows "mgr_ok g (mgr\<lparr>mg_runs := AList.update i run' (mg_runs mgr)\<rparr>)"
proof -
  have r: "routes_ok (map_of (gw_sinks g)) (map_of (mg_runs mgr))" and d: "distinct (map fst (mg_runs mgr))"
    using assms(1) by (simp_all add: mgr_ok_def)
  have run: "map_of (mg_runs mgr) i = Some run" using assms(2) by (simp add: Manager_Get_def)
  have "routes_ok (map_of (gw_sinks g)) ((map_of (mg_runs mgr))(i \<mapsto> run'))"
    by (rule routes_ok_update [OF r run assms(3) assms(4) [OF routes_okD(2) [OF r run]]])
  then show ?thesis using d by (simp add: mgr_ok_def update_conv' distinct_update)
qed

lemma gw_ok_session_open:
  assumes "gw_ok n g" and "session_open alive now n auth first g = (g', res)"
  shows "gw_ok (Suc n) g'" "gw_reg g' = gw_reg g" "gw_sinks g' = gw_sinks g"
proof -
  have inv: "gateway_inv g" and lt: "\<And>site c. map_of (gw_agents g) site = Some c \<Longrightarrow> c < n"
    using assms(1) unfolding gw_ok_def by blast+
  show "gw_reg g' = gw_reg g" "gw_sinks g' = gw_sinks g"
    using assms(2) by (auto simp: session_open_def conn_send_def Let_def split: AgentMessage.splits sum.splits option.splits if_splits)
  show "gw_ok (Suc n) g'"
  proof (cases res)
    case (Inr site)
    with assms(2) obtain hello where h: "gw_agents g' = addAgent site n (gw_agents g)" "cn_site (gw_conns g' n) = site"
      "\<And>d. d \<noteq> n \<Longrightarrow> gw_conns g' d = gw_conns g d" using session_open_accepts by metis
    have "map_of (gw_agents g') s = Some c \<Longrightarrow> cn_site (gw_conns g' c) = s \<and> c < Suc n" for s c
    proof (cases "s = site")
      case True
      assume "map_of (gw_agents g') s = Some c"
      then have "c = n" using True h(1) by (simp add: agents.lookup_add)
      then show ?thesis using True h(2) by simp
    next
      case False
      assume "map_of (gw_agents g') s = Some c"
      then have c: "map_of (gw_agents g) s = Some c" using False h(1) by (simp add: agents.lookup_add)
      then have "c < n" by (rule lt)
      moreover have "cn_site (gw_conns g c) = s" using inv c by (simp add: gateway_inv_def)
      ultimately show ?thesis using h(3) [of c] by simp
    qed
    moreover have "distinct (map fst (gw_agents g'))" using inv h(1) by (simp add: gateway_inv_def addAgent_def distinct_update)
    ultimately show ?thesis by (simp add: gw_ok_def gateway_inv_def)
  next
    case (Inl e)
    have "gw_agents g' = gw_agents g \<or> (\<exists>site. gw_agents g' = removeAgent site n (addAgent site n (gw_agents g)))"
      using assms(2) Inl by (auto simp: session_open_def conn_send_def Let_def split: AgentMessage.splits sum.splits option.splits if_splits)
    then have sub: "map_of (gw_agents g') s = Some c \<Longrightarrow> map_of (gw_agents g) s = Some c" for s c
      by (auto simp: agents.lookup_add agents.remove_added split: if_splits)
    have old: "d \<noteq> n \<Longrightarrow> gw_conns g' d = gw_conns g d" for d
      using assms(2) Inl by (auto simp: session_open_def conn_send_def Let_def split: AgentMessage.splits sum.splits option.splits if_splits)
    have "distinct (map fst (gw_agents g'))"
      using \<open>gw_agents g' = gw_agents g \<or> _\<close> inv by (auto simp: gateway_inv_def addAgent_def removeAgent_def distinct_update distinct_delete)
    moreover have "cn_site (gw_conns g' c) = s \<and> c < Suc n" if "map_of (gw_agents g') s = Some c" for s c
    proof -
      have c: "map_of (gw_agents g) s = Some c" by (rule sub [OF that])
      then have "c < n" by (rule lt)
      moreover have "cn_site (gw_conns g c) = s" using inv c by (simp add: gateway_inv_def)
      ultimately show ?thesis using old [of c] by simp
    qed
    ultimately show ?thesis by (simp add: gw_ok_def gateway_inv_def)
  qed
qed

subsection \<open>The sink\<close>

text \<open>What the steps on the sink keep: its indexes agree, and it has the registry of the server.\<close>

definition sink_kept :: "MonitorSink \<Rightarrow> MonitorSink \<Rightarrow> bool" where
  "sink_kept s t = ((sink_index s \<longrightarrow> sink_index t) \<and> ms_reg t = ms_reg s)"

lemma sink_kept_frame: "ms_state t = ms_state s \<Longrightarrow> ms_byMonitor t = ms_byMonitor s \<Longrightarrow> ms_reg t = ms_reg s \<Longrightarrow> sink_kept s t"
  using sink_index_frame [of s t] by (simp add: sink_kept_def)

lemma sink_kept_trans: "sink_kept s t \<Longrightarrow> sink_kept t u \<Longrightarrow> sink_kept s u"
  by (simp add: sink_kept_def)

lemma sink_kept_refresh_all: "sink_kept s (refresh_all now s)"
  using refresh_all_current [of now s] refresh_all_reg [of now s] by (intro sink_kept_frame) simp_all

lemma sink_kept_refresh: "sink_kept s (refresh i now s)"
proof -
  obtain s1 a ok where r: "refreshLocked i now s = (s1, a, ok)" by (rule prod_cases3)
  show ?thesis by (rule sink_kept_frame) (simp_all add: refresh_def r refreshLocked_facts(1) [OF r])
qed

lemma handle_event_reg: "ms_reg (handle_event L now site i p ev s) = ms_reg s"
  by (simp add: handler_defs keepLocked_def put_state_def split: job_event.split option.split)

lemma sink_kept_event: "sink_kept s (OnMonitorEvent L now site ev s)"
proof -
  let ?i = "monitorIDOf (je_JobId ev)"
  obtain s1 p where f: "stateFor site ?i s = (s1, p)" by force
  have "ms_reg (fst (stateFor site ?i s)) = ms_reg s" by (simp add: stateFor_def put_state_def Let_def split: option.split)
  then have one: "sink_kept s s1" using f sink_index_stateFor [of s site ?i] by (simp add: sink_kept_def)
  have two: "sink_kept s1 (handle_event L now site ?i q ev s1)" for q
    using sink_index_handle handle_event_reg by (simp add: sink_kept_def)
  show ?thesis
    using sink_kept_trans [OF one two] sink_kept_trans [OF sink_kept_trans [OF one two] sink_kept_refresh] one
    by (simp add: OnMonitorEvent_def f Let_def split: option.split)
qed

lemma sweep_fold_reg: "ms_reg (fold (sweep_one now) kps s) = ms_reg s"
  by (induction kps arbitrary: s) (simp_all add: sweep_one_def)

lemma sink_kept_Sweep: "sink_kept s (Sweep now s)"
proof -
  have "sink_kept s (fold (sweep_one now) (ms_state s) s)"
    using forget_fold [of "ms_state s" "sweep_one now", OF sweep_one_frame, of s] sweep_fold_reg by (simp add: sink_kept_def)
  then show ?thesis unfolding Sweep_def by (rule sink_kept_trans) (rule sink_kept_refresh_all)
qed

lemma sink_kept_Retain: "sink_kept s (Retain now s)"
proof -
  let ?s = "fold retain_one (ms_state s) s"
  let ?t = "?s\<lparr>ms_agg := filter (\<lambda>(i, a). registry_lookup (ms_reg ?s) i \<noteq> None) (ms_agg ?s)\<rparr>"
  have "sink_kept s ?s"
    using forget_fold [of "ms_state s" retain_one, OF retain_one_frame, of s] retain_fold [of "ms_state s" s] by (simp add: sink_kept_def)
  also have "sink_kept ?s ?t" by (rule sink_kept_frame) simp_all
  finally (sink_kept_trans) have "sink_kept s ?t" .
  from sink_kept_trans [OF this sink_kept_refresh_all] have r: "sink_kept s (refresh_all now ?t)" .
  have "sink_kept u (publishLocked ev u)" for u ev by (rule sink_kept_frame) simp_all
  from sink_kept_trans [OF r this] show ?thesis unfolding Retain_def Let_def .
qed

subsection \<open>Every step keeps it\<close>

lemma inv_gateway:
  assumes "backend_inv (n, s)" and "gw_same (sv_gw s) g"
  shows "backend_inv (n, s\<lparr>sv_gw := g\<rparr>)"
proof -
  note i = backend_invD [OF assms(1)]
  have "gw_reg g = Some (ms_reg (sv_sink s))" using i(2) assms(2) by (simp add: gw_same_def server_reg_def)
  then show ?thesis using i(3) gw_same_ok [OF i(1) assms(2)] gw_same_mgr [OF i(4) assms(2)]
    by (intro backend_invI) simp_all
qed

lemma inv_sink:
  assumes "backend_inv (n, s)" and "sink_kept (sv_sink s) t"
  shows "backend_inv (n, s\<lparr>sv_sink := t\<rparr>)"
  using backend_invD [OF assms(1)] assms(2) by (intro backend_invI) (simp_all add: server_reg_def sink_kept_def)

lemma inv_run:
  assumes "backend_inv (n, s)" and "Manager_Get i (sv_mgr s) = Some run" and "rn_Sites run' = rn_Sites run"
    and "\<And>sinks. run_ok sinks i run \<Longrightarrow> run_ok sinks i run'"
  shows "backend_inv (n, s\<lparr>sv_mgr := (sv_mgr s)\<lparr>mg_runs := AList.update i run' (mg_runs (sv_mgr s))\<rparr>\<rparr>)"
  using backend_invD [OF assms(1)] mgr_ok_update [OF backend_invD(4) [OF assms(1)] assms(2-4)]
  by (intro backend_invI) (simp_all add: server_reg_def)

lemma inv_message:
  assumes "backend_inv (n, s)" and "session_message L now store site c m s = Ok t"
  shows "backend_inv (n, t)"
proof (cases m)
  case (EventMsg ev)
  show ?thesis
  proof (cases "route (sv_gw s) True site ev")
    case (ToMonitorSink site')
    then have "t = s\<lparr>sv_sink := OnMonitorEvent L now site' ev (sv_sink s)\<rparr>" using EventMsg assms(2) by (simp add: session_message_def)
    then show ?thesis using inv_sink [OF assms(1) sink_kept_event] by simp
  next
    case (ToRun r)
    then have d: "deliver_run now store r ev s = Ok t" using EventMsg assms(2) by (simp add: session_message_def)
    show ?thesis
    proof (cases "Manager_Get r (sv_mgr s)")
      case None
      then show ?thesis using d assms(1) by (simp add: deliver_run_def)
    next
      case (Some run)
      then obtain run' store' where o: "OnEvent now ev (run, store) = Ok (run', store')"
        and t: "t = s\<lparr>sv_mgr := (sv_mgr s)\<lparr>mg_runs := AList.update r run' (mg_runs (sv_mgr s))\<rparr>\<rparr>"
        using d by (auto simp: deliver_run_def)
      have ok: "run_ok (map_of (gw_sinks (sv_gw s))) r run"
        using backend_invD(4) [OF assms(1)] routes_okD(2) Some unfolding mgr_ok_def Manager_Get_def by blast
      show ?thesis unfolding t by (rule inv_run [OF assms(1) Some OnEvent_run_ok(1) [OF o ok] OnEvent_run_ok(2) [OF o]])
    qed
  next
    case Dropped
    then show ?thesis using EventMsg assms by (simp add: session_message_def)
  qed
next
  case (PongMsg nonce)
  then have "t = s\<lparr>sv_gw := onPong now c nonce (sv_gw s)\<rparr>" using assms(2) by (simp add: session_message_def)
  then show ?thesis using inv_gateway [OF assms(1) gw_same_onPong] by simp
qed (use assms in \<open>simp_all add: session_message_def\<close>)

lemma start_sites_frame:
  assumes "fold (start_site alive now newJob) sites (r, g) = (r', g')"
  shows "gw_agents g' = gw_agents g \<and> gw_reg g' = gw_reg g \<and> (\<forall>c. cn_site (gw_conns g' c) = cn_site (gw_conns g c))"
proof -
  have one: "gw_agents (snd (start_site alive now newJob site rg)) = gw_agents (snd rg) \<and>
    gw_reg (snd (start_site alive now newJob site rg)) = gw_reg (snd rg) \<and>
    (\<forall>c. cn_site (gw_conns (snd (start_site alive now newJob site rg)) c) = cn_site (gw_conns (snd rg) c))" for site rg
    by (cases rg) (auto simp: start_site_def gw_StartJob_def conn_send_def Let_def split: option.splits)
  have "gw_agents (snd (fold (start_site alive now newJob) sites rg)) = gw_agents (snd rg) \<and>
    gw_reg (snd (fold (start_site alive now newJob) sites rg)) = gw_reg (snd rg) \<and>
    (\<forall>c. cn_site (gw_conns (snd (fold (start_site alive now newJob) sites rg)) c) = cn_site (gw_conns (snd rg) c))" for rg
    by (induction sites arbitrary: rg) (simp_all add: one)
  from this [of "(r, g)"] show ?thesis by (simp add: assms)
qed

lemma start_on_inv:
  assumes "backend_inv (n, s)" and "run_id_ok i" and "Manager_Get i (sv_mgr s) = None"
    and "start_on alive now i spec requested (sv_mgr s, sv_gw s) = ((mgr, g), resp)"
  shows "backend_inv (n, s\<lparr>sv_mgr := mgr, sv_gw := g\<rparr>)"
proof (cases "runSites (sv_gw s) requested")
  case None
  then show ?thesis using assms(1,4) by (auto simp: start_on_def)
next
  case (Some sites)
  obtain run where st: "Manager_Start alive now i (\<lambda>j. \<lparr>sj_JobId = j, sj_Spec = spec\<rparr>) sites (sv_mgr s) (sv_gw s) = (mgr, g, run)"
    using Some assms(4) by (auto simp: start_on_def Let_def split: prod.splits)
  obtain r1 where f: "fold (start_site alive now (\<lambda>j. \<lparr>sj_JobId = j, sj_Spec = spec\<rparr>)) sites (new_run i sites now, sv_gw s) = (r1, g)"
      and m: "mg_runs mgr = AList.update i run (mg_runs (sv_mgr s))"
    using st by (auto simp: Manager_Start_def Let_def split: prod.splits)
  note iv = backend_invD [OF assms(1)]
  have frame: "gw_agents g = gw_agents (sv_gw s) \<and> gw_reg g = gw_reg (sv_gw s) \<and> (\<forall>c. cn_site (gw_conns g c) = cn_site (gw_conns (sv_gw s) c))"
    using start_sites_frame [OF f] .
  have "gw_ok n g" using iv(1) frame gateway_inv_frame [of "sv_gw s" g] by (simp add: gw_ok_def)
  moreover have "mgr_ok g mgr"
    using iv(4) routes_ok_Manager_Start [OF _ assms(3,2) st] m by (simp add: mgr_ok_def distinct_update)
  ultimately show ?thesis using iv(2,3) frame by (intro backend_invI) (simp_all add: server_reg_def)
qed

lemma inv_start_on:
  assumes "backend_inv (n, s)" and "run_id_ok i" and "Manager_Get i (sv_mgr s) = None"
  shows "backend_inv (n, fst (with_backend s (start_on alive now i spec requested (sv_mgr s, sv_gw s))))"
proof -
  obtain mgr g x where r: "start_on alive now i spec requested (sv_mgr s, sv_gw s) = ((mgr, g), x)" by (metis prod.exhaust)
  show ?thesis using start_on_inv [OF assms r] by (simp add: with_backend_def r)
qed

lemma with_backend_same: "fst (with_backend s ((sv_mgr s, sv_gw s), resp)) = s"
  by (simp add: with_backend_def)

lemma inv_request:
  assumes "backend_inv (n, s)" and "api_serve E r s = (t, resp)" and "run_id_ok (ae_newID E)" and "Manager_Get (ae_newID E) (sv_mgr s) = None"
  shows "backend_inv (n, t)"
proof -
  have "t = s \<or> (\<exists>ep. api_handle E r ep s = (t, resp))"
    using assms(2) by (auto simp: api_serve_def Let_def split: if_splits option.splits)
  moreover have "backend_inv (n, fst (api_handle E r ep s))" for ep
  proof -
    have start: "backend_inv (n, fst (with_backend s (startRun al w (ae_newID E) b (sv_mgr s, sv_gw s))))"
      "backend_inv (n, fst (with_backend s (startSipRun al w (ae_newID E) b2 (sv_mgr s, sv_gw s))))"
      "backend_inv (n, fst (with_backend s (startDnsRun al w (ae_newID E) b3 (sv_mgr s, sv_gw s))))" for al w b b2 b3
      unfolding startRun_def startSipRun_def startDnsRun_def Let_def
      using assms(1) inv_start_on [OF assms(1,3,4)] by (simp_all add: with_backend_same split: option.split)
    have cancel: "backend_inv (n, fst (with_backend s (cancelRun al i (sv_mgr s, sv_gw s))))" for al i
      using inv_gateway [OF assms(1) gw_same_Cancel] by (simp add: with_backend_def cancelRun_def)
    have events: "backend_inv (n, s\<lparr>sv_mgr := fst (runEvents M fl i h q k ins (sv_mgr s))\<rparr>)" for M fl i h q k ins
    proof (cases "Manager_Get i (sv_mgr s)")
      case (Some run)
      obtain run' backlog sub where sb: "Subscribe (last_event_id h q) k run = (run', backlog, sub)" by (rule prod_cases3)
      have "rn_Sites run' = rn_Sites run" "run_ok sinks i run \<Longrightarrow> run_ok sinks i run'" for sinks
        using sb by (auto simp: Subscribe_def run_ok_def jobs_of_def Let_def split: if_splits)
      from inv_run [OF assms(1) Some this] show ?thesis using assms(1) Some sb by (simp add: runEvents_def)
    qed (use assms(1) in \<open>simp add: runEvents_def\<close>)
    have status: "backend_inv (n, s\<lparr>sv_sink := the (fst (monitorStatusStream M rfc fl k ins (Some (sv_sink s))))\<rparr>)" for M rfc fl k ins
    proof -
      have "sink_kept (sv_sink s) (fst (sink_Subscribe k (sv_sink s)))" by (rule sink_kept_frame) (simp_all add: sink_Subscribe_def)
      from inv_sink [OF assms(1) this] show ?thesis using assms(1) by (simp add: monitorStatusStream_def sink_Subscribe_def Let_def)
    qed
    show ?thesis using assms(1) start cancel events status
      by (cases ep) (simp_all add: api_handle_def Let_def case_prod_unfold split: option.split)
  qed
  ultimately show ?thesis using assms(1) by (metis fst_conv)
qed

lemma backend_inv_step:
  assumes "backend_inv x" and "backend_step x y"
  shows "backend_inv y"
  using assms(2,1)
proof (induction rule: backend_step.induct)
  case (connect alive now n auth first s g res)
  note i = backend_invD [OF connect(2)] and o = gw_ok_session_open [OF backend_invD(1) [OF connect(2)] connect(1)]
  show ?case using i o by (intro backend_invI) (simp_all add: server_reg_def mgr_ok_def)
next
  case (disconnect n s site c)
  note i = backend_invD [OF disconnect(1)]
  let ?g = "(sv_gw s)\<lparr>gw_agents := removeAgent site c (gw_agents (sv_gw s))\<rparr>"
  have "map_of (gw_agents ?g) x = Some d \<Longrightarrow> map_of (gw_agents (sv_gw s)) x = Some d" for x d
    by (simp add: removeAgent_def delete_conv' split: if_splits)
  then have "gw_ok n ?g" using i(1) gateway_inv_remove unfolding gw_ok_def by blast
  then show ?case using i(2-4) by (intro backend_invI) (simp_all add: server_reg_def mgr_ok_def)
next
  case (message L now store site c m s t n)
  show ?case by (rule inv_message [OF message(2,1)])
next
  case (pinging n s alive now c)
  show ?case by (rule inv_gateway [OF pinging gw_same_ping])
next
  case (request E r s t resp n)
  show ?case by (rule inv_request [OF request(4,1-3)])
next
  case (unsubscribe i s run n k)
  show ?case by (rule inv_run [OF unsubscribe(2,1)]) (auto simp: cancel_locked_def run_ok_def jobs_of_def)
next
  case (unwatch n s k)
  have "sink_kept (sv_sink s) (sink_cancel k (sv_sink s))" by (rule sink_kept_frame) (simp_all add: sink_cancel_def)
  then show ?case by (rule inv_sink [OF unwatch])
next
  case (reload n s alive now mons)
  note i = backend_invD [OF reload(1)]
  let ?reg = "registry_Replace mons (server_reg s)"
  let ?g = "(sv_gw s)\<lparr>gw_reg := Some ?reg\<rparr>" and ?k = "(sv_sink s)\<lparr>ms_reg := ?reg\<rparr>"
  have g: "gw_ok n ?g" "mgr_ok ?g (sv_mgr s)" using i(1,4) by (simp_all add: gw_ok_def gateway_inv_def mgr_ok_def)
  have "sink_index ?k" using i(3) by (rule sink_index_frame) simp_all
  then have k: "sink_index (Retain now ?k)" "ms_reg (Retain now ?k) = ?reg" using sink_kept_Retain [of ?k now] by (simp_all add: sink_kept_def)
  show ?case using gw_same_ok [OF g(1) gw_same_push] gw_same_mgr [OF g(2) gw_same_push] k gw_same_push [of ?g alive]
    by (intro backend_invI) (simp_all add: ReloadMonitors_def Let_def gw_same_def)
next
  case (reaping now s mgr g n)
  note i = backend_invD [OF reaping(2)]
  have r: "routes_ok (map_of (gw_sinks (sv_gw s))) (map_of (mg_runs (sv_mgr s)))" and d: "distinct (map fst (mg_runs (sv_mgr s)))"
    using i(4) by (simp_all add: mgr_ok_def)
  have f: "gw_agents g = gw_agents (sv_gw s)" "gw_conns g = gw_conns (sv_gw s)" "gw_reg g = gw_reg (sv_gw s)"
    "mg_runs mgr = filter (\<lambda>(i, r). \<not> finishedAt now (mg_ttl (sv_mgr s)) r) (mg_runs (sv_mgr s))"
    using reaping(1) end_jobs_frame by (auto simp: reap_def Let_def)
  have "mgr_ok g mgr" using routes_ok_reap [OF r d reaping(1)] d by (simp add: mgr_ok_def f(4) distinct_map_filter)
  then show ?case using i(1-3) f(1-3) by (intro backend_invI) (simp_all add: server_reg_def gw_ok_def gateway_inv_def)
next
  case (sweeping n s now)
  show ?case by (rule inv_sink [OF sweeping sink_kept_Sweep])
qed

definition backend_start :: "nat \<times> Server \<Rightarrow> bool" where
  "backend_start x = (fst x = 0 \<and> (\<exists>conns store subs bytes byhand cfg version commit.
    server_New conns store subs bytes byhand cfg version commit = Inr (snd x)))"

lemma backend_inv_start: "backend_start x \<Longrightarrow> backend_inv x"
  by (cases x) (auto simp: backend_start_def server_New_def Let_def backend_inv_def gw_ok_def gateway_inv_def mgr_ok_def routes_ok_def
      server_reg_def NewGateway_def NewManager_def NewMonitorSink_def sink_index_def sites_of_def split: if_splits sum.splits)

interpretation backend: invariant_system backend_start backend_step backend_inv
  by unfold_locales (auto intro: backend_inv_start backend_inv_step)

lemma run_job_not_monitor: "run_id_ok i \<Longrightarrow> \<not> isMonitorJob (jobID_of i site)"
proof
  assume i: "run_id_ok i" and "isMonitorJob (jobID_of i site)"
  then obtain rest where "jobID_of i site = ''mon'' @ CHR '':'' # rest"
    by (auto simp: isMonitorJob_def monitorJobPrefix_def has_prefix_iff)
  then have "jobID_of i site = jobID_of ''mon'' rest" by (simp add: jobID_of_def)
  then have "i = ''mon''" using jobID_of_split [of i "''mon''"] i by (auto simp: run_id_ok_def)
  with i show False by (simp add: run_id_ok_def)
qed

section \<open>Theorems\<close>


text \<open>
  The site of a stream is not compared with the site of the job: an agent that was given a job of a run knows the run's
  id, and an event it sends in the name of another site is taken as that site's.
\<close>

theorem event_of_another_site_taken:
  assumes "\<not> isMonitorJob (je_JobId ev)"
  shows "session_message L now store site c (EventMsg ev) s = session_message L now store site' c' (EventMsg ev) s"
  using assms by (simp add: session_message_def route_def split: option.split)

section \<open>A witness\<close>

definition demo_server_config :: ServerConfig where
  "demo_server_config = Config.extend demo_config
    \<lparr>sc_BasePath = [], sc_Metrics = [], sc_Auth = (at_cfg demo_server_auth)\<lparr>au_Enabled := False\<rparr>, sc_VictoriaLogs = demo_victoria\<rparr>"

definition demo_s0 :: Server where
  "demo_s0 = \<lparr>sv_cfg = demo_server_config, sv_gw = (NewGateway demo_config (\<lambda>_. demo_conn))\<lparr>gw_reg := Some (NewMonitorRegistry [demo_mon])\<rparr>,
    sv_mgr = NewManager (runTTL demo_config),
    sv_sink = NewMonitorSink (NewMonitorRegistry [demo_mon]) False (\<lambda>_. new_monState demo_mon) (\<lambda>_. \<lparr>ss_ch = [], ss_closed = True\<rparr>),
    sv_vl = vlog_New (vlog_options demo_victoria), sv_auth = None, sv_version = [], sv_commit = [], sv_ready = False\<rparr>"

lemma demo_s0_start: "backend_start (0, demo_s0)"
proof -
  have "TrimRight [] ''/'' = []" by code_simp
  then have "server_New (\<lambda>_. demo_conn) (\<lambda>_. new_monState demo_mon) (\<lambda>_. \<lparr>ss_ch = [], ss_closed = True\<rparr>) [] undefined demo_server_config [] [] = Inr demo_s0"
    by (simp add: server_New_def demo_server_config_def demo_s0_def Config.extend_def Config.truncate_def demo_config_def Let_def
        Enabled_def vlog_New_def vlog_options_def demo_victoria_def)
  then show ?thesis unfolding backend_start_def fst_conv snd_conv by (intro conjI exI) (rule refl, assumption)
qed

definition demo_run_request :: startRequest where
  "demo_run_request = \<lparr>rq_Target = ''h'', rq_Sites = [''fra''], rq_Protocol = [], rq_Family = [], rq_Port = 0, rq_Resolve = False, rq_Cycles = 1,
    rq_Mode = []\<rparr>"


end
