(* ===== verification/Backend_Loops.thy ===== *)
theory Backend_Loops
  imports Backend_System Server_Lifecycle
begin

text \<open>
  The periodic work of the backend and what it serves on the side: the pings of a session (\<^verbatim>\<open>pingLoop\<close>,
  \<^verbatim>\<open>gateway.go\<close>), the reaping of finished runs (\<^verbatim>\<open>Reap\<close>, \<^verbatim>\<open>run.go\<close>), the reloads on SIGHUP (\<^verbatim>\<open>watchReload\<close>,
  \<^verbatim>\<open>cmd/prober-backend/main.go\<close>), the gRPC server and the metrics listener (\<^verbatim>\<open>server.go\<close>, \<^verbatim>\<open>metrics.go\<close>). A loop takes the times of
  its ticks, or what each signal finds, up to the end of its context.
\<close>

section \<open>The pings of a session\<close>

fun ping_ticks :: "(conn \<Rightarrow> bool) \<Rightarrow> instant list \<Rightarrow> conn \<Rightarrow> Gateway \<Rightarrow> Gateway" where
  "ping_ticks alive [] c g = g"
| "ping_ticks alive (now # ticks) c g = ping_ticks alive ticks c (ping alive now c g)"

definition pingLoop :: "(conn \<Rightarrow> bool) \<Rightarrow> instant \<Rightarrow> instant list \<Rightarrow> conn \<Rightarrow> Gateway \<Rightarrow> Gateway" where
  "pingLoop alive start ticks c g = ping_ticks alive ticks c (ping alive start c g)"

lemma ping_ticks_conn:
  assumes "alive c"
  shows "cn_pingNonce (gw_conns (ping_ticks alive ticks c g) c) = cn_pingNonce (gw_conns g c) + of_nat (length ticks) \<and>
    cn_out (gw_conns (ping_ticks alive ticks c g) c) =
      cn_out (gw_conns g c) @ map (\<lambda>k. PingMsg (cn_pingNonce (gw_conns g c) + of_nat (Suc k))) [0..<length ticks] \<and>
    cn_pingSentAt (gw_conns (ping_ticks alive ticks c g) c) = last (cn_pingSentAt (gw_conns g c) # ticks)"
proof (induction ticks arbitrary: g)
  case (Cons now ticks)
  let ?g = "ping alive now c g" and ?n = "cn_pingNonce (gw_conns g c)"
  have p: "cn_pingNonce (gw_conns ?g c) = ?n + 1" "cn_pingSentAt (gw_conns ?g c) = now"
    "cn_out (gw_conns ?g c) = cn_out (gw_conns g c) @ [PingMsg (?n + 1)]"
    using assms by (simp_all add: ping_def conn_send_def Let_def)
  have "map (\<lambda>k. PingMsg (?n + of_nat (Suc k))) [0..<Suc (length ticks)] =
      PingMsg (?n + 1) # map (\<lambda>k. PingMsg (?n + 1 + of_nat (Suc k))) [0..<length ticks]"
    by (simp only: upt_conv_Cons zero_less_Suc map_Suc_upt [symmetric] list.map map_map comp_def) (simp add: algebra_simps)
  then show ?case using Cons.IH [of ?g] p by (simp add: algebra_simps)
qed simp

text \<open>A session pings at once and at every tick, with consecutive numbers; the answer to the last ping gives the latency, to
  the microsecond, and a late answer to an earlier one changes nothing.\<close>

theorem pings_measure_latency:
  assumes "alive c" and "cn_pingNonce (gw_conns g c) = 0" and "g' = pingLoop alive start ticks c g" and "length ticks < 2 ^ 63"
    and "last (start # ticks) \<le> now"
  shows "cn_out (gw_conns g' c) = cn_out (gw_conns g c) @ map (\<lambda>k. PingMsg (of_nat (Suc k))) [0..<Suc (length ticks)] \<and>
    cn_rttUs (gw_conns (onPong now c (of_nat (Suc (length ticks))) g') c) = (now - last (start # ticks)) div 1000 \<and>
    (\<forall>k \<le> length ticks. onPong now c (of_nat k) g' = g')"
proof -
  let ?g = "ping alive start c g"
  have p: "cn_pingNonce (gw_conns ?g c) = 1" "cn_pingSentAt (gw_conns ?g c) = start"
    "cn_out (gw_conns ?g c) = cn_out (gw_conns g c) @ [PingMsg 1]"
    using assms(1,2) by (simp_all add: ping_def conn_send_def Let_def)
  note t = ping_ticks_conn [of alive c ticks ?g, OF assms(1)]
  have n: "cn_pingNonce (gw_conns g' c) = of_nat (Suc (length ticks))" "cn_pingSentAt (gw_conns g' c) = last (start # ticks)"
    using t p assms(3) by (simp_all add: pingLoop_def)
  have "map (\<lambda>k. PingMsg (of_nat (Suc k))) [0..<Suc (length ticks)] = PingMsg 1 # map (\<lambda>k. PingMsg (1 + of_nat (Suc k))) [0..<length ticks]"
    by (simp only: upt_conv_Cons zero_less_Suc map_Suc_upt [symmetric] list.map map_map comp_def) simp
  then have "cn_out (gw_conns g' c) = cn_out (gw_conns g c) @ map (\<lambda>k. PingMsg (of_nat (Suc k))) [0..<Suc (length ticks)]"
    using t p assms(3) by (simp add: pingLoop_def)
  moreover have "onPong now c (of_nat k) g' = g'" if "k \<le> length ticks" for k
  proof -
    have "(of_nat k :: u64) \<noteq> of_nat (Suc (length ticks))"
    proof
      assume "(of_nat k :: u64) = of_nat (Suc (length ticks))"
      then have "unat (of_nat k :: u64) = unat (of_nat (Suc (length ticks)) :: u64)" by simp
      then show False using that assms(4) by (simp add: unat_of_nat take_bit_nat_eq_self_iff del: of_nat_Suc)
    qed
    then show ?thesis by (simp add: onPong_def n(1) Let_def)
  qed
  moreover have "cn_rttUs (gw_conns (onPong now c (of_nat (Suc (length ticks))) g') c) = (now - last (start # ticks)) div 1000"
    using assms(5) by (simp add: onPong_def n Let_def)
  ultimately show ?thesis by blast
qed

section \<open>Finished runs\<close>

fun Reap :: "instant list \<Rightarrow> Manager \<Rightarrow> Gateway \<Rightarrow> Manager \<times> Gateway" where
  "Reap [] mgr g = (mgr, g)"
| "Reap (now # ticks) mgr g = (case reap now mgr g of (mgr, g) \<Rightarrow> Reap ticks mgr g)"

lemma Reap_steps: "backend_step\<^sup>*\<^sup>* (n, s) (n, s\<lparr>sv_mgr := fst (Reap ticks (sv_mgr s) (sv_gw s)), sv_gw := snd (Reap ticks (sv_mgr s) (sv_gw s))\<rparr>)"
proof (induction ticks arbitrary: s)
  case (Cons now ticks)
  obtain mgr g where r: "reap now (sv_mgr s) (sv_gw s) = (mgr, g)" by (rule prod.exhaust)
  have "backend_step\<^sup>*\<^sup>* (n, s) (n, s\<lparr>sv_mgr := mgr, sv_gw := g\<rparr>)" by (rule r_into_rtranclp) (rule backend_step.reaping [OF r])
  also note Cons.IH [of "s\<lparr>sv_mgr := mgr, sv_gw := g\<rparr>"]
  finally show ?case by (simp add: r)
qed simp

lemma reap_get:
  assumes "distinct (map fst (mg_runs mgr))" and "reap now mgr g = (mgr', g')"
  shows "Manager_Get i mgr' = (case Manager_Get i mgr of Some run \<Rightarrow> if finishedAt now (mg_ttl mgr) run then None else Some run | None \<Rightarrow> None)"
    and "mg_ttl mgr' = mg_ttl mgr" and "distinct (map fst (mg_runs mgr'))"
proof -
  have m: "mgr' = mgr\<lparr>mg_runs := filter (\<lambda>(i, r). \<not> finishedAt now (mg_ttl mgr) r) (mg_runs mgr)\<rparr>"
    using assms(2) by (simp add: reap_def Let_def)
  then have runs: "mg_runs mgr' = filter (\<lambda>(i, r). \<not> finishedAt now (mg_ttl mgr) r) (mg_runs mgr)" by simp
  show "Manager_Get i mgr' = (case Manager_Get i mgr of Some run \<Rightarrow> if finishedAt now (mg_ttl mgr) run then None else Some run | None \<Rightarrow> None)"
    unfolding Manager_Get_def runs map_of_filter_distinct [OF assms(1)] by (simp split: option.split)
  show "mg_ttl mgr' = mg_ttl mgr" "distinct (map fst (mg_runs mgr'))" using assms(1) by (simp_all add: m distinct_map_filter)
qed

lemma Reap_get:
  assumes "distinct (map fst (mg_runs mgr))"
  shows "Manager_Get i (fst (Reap ticks mgr g)) =
    (case Manager_Get i mgr of Some run \<Rightarrow> if \<exists>now \<in> set ticks. finishedAt now (mg_ttl mgr) run then None else Some run | None \<Rightarrow> None)"
  using assms
proof (induction ticks arbitrary: mgr g)
  case Nil
  then show ?case by (simp split: option.split)
next
  case (Cons now ticks)
  obtain mgr' g' where r: "reap now mgr g = (mgr', g')" by (rule prod.exhaust)
  note f = reap_get [OF Cons.prems r]
  show ?case using Cons.IH [OF f(3), of g'] f(1) [of i] f(2) by (auto simp: r split: option.splits)
qed

text \<open>(C40) A finished run is dropped at the first tick after its time to live, with the routes of all its jobs; a run that is not done, or
  not long enough, stays with its routes.\<close>

theorem finished_runs_leave:
  assumes "backend_start x" and "backend_step\<^sup>*\<^sup>* x (n, s)" and "Reap ticks (sv_mgr s) (sv_gw s) = (mgr, g)" and "Manager_Get i (sv_mgr s) = Some run"
  shows "if \<exists>now \<in> set ticks. finishedAt now (mg_ttl (sv_mgr s)) run
    then Manager_Get i mgr = None \<and> (\<forall>site. map_of (gw_sinks g) (jobID_of i site) = None)
    else Manager_Get i mgr = Some run \<and> (\<forall>j \<in> set (rn_pending run). map_of (gw_sinks g) j = Some i)"
proof -
  let ?t = "s\<lparr>sv_mgr := mgr, sv_gw := g\<rparr>"
  have inv: "backend_inv (n, s)" by (rule backend.inv_reachable [OF assms(1,2)])
  have "backend_step\<^sup>*\<^sup>* (n, s) (n, ?t)" using Reap_steps [of n s ticks] assms(3) by simp
  then have "backend_inv (n, ?t)" using backend.inv_steps inv by blast
  then have r: "routes_ok (map_of (gw_sinks g)) (map_of (mg_runs mgr))" using backend_invD(4) [of n ?t] by (simp add: mgr_ok_def)
  have d: "distinct (map fst (mg_runs (sv_mgr s)))" and r0: "routes_ok (map_of (gw_sinks (sv_gw s))) (map_of (mg_runs (sv_mgr s)))"
    using backend_invD(4) [OF inv] by (simp_all add: mgr_ok_def)
  have run: "map_of (mg_runs (sv_mgr s)) i = Some run" using assms(4) by (simp only: Manager_Get_def)
  have rid: "run_id_ok i" using routes_okD(2) [OF r0 run] by (simp add: run_ok_def)
  have get: "Manager_Get i mgr = (if \<exists>now \<in> set ticks. finishedAt now (mg_ttl (sv_mgr s)) run then None else Some run)"
    using Reap_get [OF d, of i ticks "sv_gw s"] assms(3,4) by simp
  show ?thesis
  proof (cases "\<exists>now \<in> set ticks. finishedAt now (mg_ttl (sv_mgr s)) run")
    case True
    have "map_of (gw_sinks g) (jobID_of i site) = None" for site
    proof (rule ccontr)
      assume "map_of (gw_sinks g) (jobID_of i site) \<noteq> None"
      then obtain k where k: "map_of (gw_sinks g) (jobID_of i site) = Some k" by blast
      then obtain q where q: "map_of (mg_runs mgr) k = Some q" "jobID_of i site \<in> jobs_of k q" using routes_okD(1) [OF r] by blast
      have "run_id_ok k" using routes_okD(2) [OF r q(1)] by (simp add: run_ok_def)
      then have "k = i" using q(2) rid jobID_of_split by (auto simp: jobs_of_def run_id_ok_def)
      then show False using q(1) get True by (simp add: Manager_Get_def)
    qed
    then show ?thesis using True get by simp
  next
    case False
    then have "map_of (mg_runs mgr) i = Some run" using get by (simp add: Manager_Get_def)
    from routes_okD(2) [OF r this] show ?thesis using False get by (simp add: run_ok_def)
  qed
qed

section \<open>Reloads\<close>

text \<open>What each SIGHUP finds: the time, the connections that are alive, and the file as it reads (\<open>None\<close> when it does not).\<close>

fun watchReload :: "((conn \<Rightarrow> bool) \<times> instant \<times> Config option) list \<Rightarrow> Server \<Rightarrow> Server" where
  "watchReload [] s = s"
| "watchReload ((alive, now, cfg) # signals) s = watchReload signals (reload_config alive now cfg s)"

definition good_config :: "Config option \<Rightarrow> bool" where
  "good_config cfg = (case cfg of Some c \<Rightarrow> Config_Validate c = None | None \<Rightarrow> False)"

lemma reload_config_reg:
  "server_reg (reload_config alive now cfg s) =
    (if good_config cfg then registry_set (cf_Monitors (the cfg)) (mr_version (server_reg s) + 1) else server_reg s)"
  by (simp add: reload_config_def good_config_def ReloadMonitors_def server_reg_def Retain_keeps(1) registry_Replace_def Let_def split: option.split)

fun good_configs :: "((conn \<Rightarrow> bool) \<times> instant \<times> Config option) list \<Rightarrow> Config list" where
  "good_configs [] = []"
| "good_configs ((alive, now, cfg) # signals) = (if good_config cfg then [the cfg] else []) @ good_configs signals"

text \<open>After any number of signals the monitors are those of the last configuration that read and validated, and the version has
  moved by the number of such configurations; a bad file changes nothing.\<close>

theorem reloads_apply_last_good:
  "server_reg (watchReload signals s) =
    (if good_configs signals = [] then server_reg s
     else registry_set (cf_Monitors (last (good_configs signals))) (mr_version (server_reg s) + of_nat (length (good_configs signals))))"
proof -
  have v: "mr_version (registry_set mons n) = n" for mons n by (simp add: registry_set_def)
  show ?thesis
    by (induction signals s rule: watchReload.induct) (auto simp: reload_config_reg v algebra_simps)
qed

section \<open>The gRPC server and the metrics listener\<close>

record 'k grpc_server =
  gs_Certificate :: 'k
  gs_MinVersion :: string
  gs_Time :: duration
  gs_Timeout :: duration
  gs_MinTime :: duration
  gs_PermitWithoutStream :: bool

definition grpcServer :: "(string \<Rightarrow> string + string) \<Rightarrow> (string \<Rightarrow> string \<Rightarrow> string + 'k) \<Rightarrow> ServerConfig \<Rightarrow> pem_error + 'k grpc_server" where
  "grpcServer ReadFile X509KeyPair cfg =
    rbind (certificate ReadFile X509KeyPair (cf_GRPC cfg)) (\<lambda>cert.
    Inr \<lparr>gs_Certificate = cert, gs_MinVersion = ''TLS1.2'', gs_Time = 20 * Second, gs_Timeout = 10 * Second, gs_MinTime = 10 * Second,
      gs_PermitWithoutStream = True\<rparr>)"

text \<open>The server opens its listeners only with these credentials, and an agent that pings every 20 seconds stays within the policy.\<close>

lemma grpcServer_policy:
  "grpcServer ReadFile X509KeyPair cfg = Inr srv \<Longrightarrow> gs_MinTime srv \<le> 20 * Second \<and> gs_PermitWithoutStream srv"
  by (auto simp: grpcServer_def)

text \<open>\<^verbatim>\<open>metricsHandler\<close>; \<open>scrape\<close> is the handler of the metrics library, which calls \<^verbatim>\<open>Collect\<close>.\<close>

definition metricsHandler :: "(MonitorSink \<Rightarrow> nat \<times> string) \<Rightarrow> Server \<Rightarrow> string \<Rightarrow> nat \<times> string" where
  "metricsHandler scrape s path =
    (if path = ''/metrics'' then scrape (sv_sink s)
     else if path = ''/healthz'' then (200, ''{'' @ Quote ''status'' @ '':'' @ Quote ''ok'' @ ''}'')
     else if path = ''/readyz'' then readyz s
     else (404, ''404 page not found'' @ [LF]))"

section \<open>Witnesses\<close>

theorem pings_measure_latency_witness:
  "cn_rttUs (gw_conns (onPong 25000 1 2 (pingLoop (\<lambda>_. True) 0 [10000] 1 (NewGateway demo_config (\<lambda>_. demo_conn)))) 1) = 15"
proof -
  let ?g = "NewGateway demo_config (\<lambda>_. demo_conn)"
  have n: "cn_pingNonce (gw_conns ?g 1) = 0" by (simp add: NewGateway_def demo_conn_def)
  have "last (0 # [10000]) \<le> (25000 :: int)" by simp
  from pings_measure_latency [of "\<lambda>_. True" 1 ?g, OF TrueI n refl _ this] show ?thesis by simp
qed

text \<open>A run at a site without an agent is done at once, and gone after its time to live.\<close>

lemma demo_done_run:
  obtains t run where "backend_step\<^sup>*\<^sup>* (0, demo_s0) (0, t)" and "Manager_Get ''r'' (sv_mgr t) = Some run" and "rn_done run" and "rn_doneAt run = 0"
    and "mg_ttl (sv_mgr t) = 5 * Minute"
proof -
  let ?req = "demo_api_req\<lparr>aq_trace := Some demo_run_request\<rparr>" and ?newJob = "\<lambda>j. \<lparr>sj_JobId = j, sj_Spec = TraceJob (trace_spec demo_run_request)\<rparr>"
  obtain mgr g run where m: "Manager_Start (\<lambda>_. True) 0 ''r'' ?newJob [''fra''] (sv_mgr demo_s0) (sv_gw demo_s0) = (mgr, g, run)" by (rule prod_cases3)
  let ?t = "demo_s0\<lparr>sv_mgr := mgr, sv_gw := g\<rparr>"
  have "\<not> Connected (sv_gw demo_s0) ''fra''" by (simp add: demo_s0_def NewGateway_def Connected_def)
  then have r: "rn_done run \<and> rn_doneAt run = 0" "mgr = (sv_mgr demo_s0)\<lparr>mg_runs := AList.update ''r'' run (mg_runs (sv_mgr demo_s0))\<rparr>"
    using m by (auto simp: Manager_Start_def start_site_def new_run_def checkDone_locked_def delete_pending_def emit_publish_def Let_def)
  have "\<exists>resp. api_serve demo_env ?req demo_s0 = (?t, resp)"
    using m by (simp add: api_serve_def demo_api_req_def api_path_def demo_s0_def api_handle_def with_backend_def startRun_def start_on_def demo_env_def
        demo_run_request_def runSites_def Let_def)
  then have "backend_step (0, demo_s0) (0, ?t)"
    using backend_step.request [of demo_env ?req demo_s0 ?t _ 0] by (auto simp: demo_env_def run_id_ok_def demo_s0_def NewManager_def Manager_Get_def)
  moreover have "Manager_Get ''r'' (sv_mgr ?t) = Some run" by (simp add: r(2) Manager_Get_def update_conv')
  moreover have "mg_ttl (sv_mgr ?t) = 5 * Minute" by (simp add: r(2) demo_s0_def NewManager_def runTTL_def demo_config_def)
  ultimately show thesis using that [of ?t run] r(1) by blast
qed

theorem finished_runs_leave_witness:
  "\<exists>s. backend_step\<^sup>*\<^sup>* (0, demo_s0) (0, s) \<and> Manager_Get ''r'' (sv_mgr s) \<noteq> None \<and>
    Manager_Get ''r'' (fst (Reap [Minute, Hour] (sv_mgr s) (sv_gw s))) = None"
proof -
  obtain s run where s: "backend_step\<^sup>*\<^sup>* (0, demo_s0) (0, s)" "Manager_Get ''r'' (sv_mgr s) = Some run" "rn_done run" "rn_doneAt run = 0"
    "mg_ttl (sv_mgr s) = 5 * Minute" by (rule demo_done_run)
  obtain mgr g where r: "Reap [Minute, Hour] (sv_mgr s) (sv_gw s) = (mgr, g)" by (rule prod.exhaust)
  have "finishedAt Hour (mg_ttl (sv_mgr s)) run" using s(3-5) by (simp add: finishedAt_def)
  then have "Manager_Get ''r'' mgr = None" using finished_runs_leave [OF demo_s0_start s(1) r s(2)] by simp
  with s(1,2) r show ?thesis by auto
qed

end
