(* ===== verification/Spec2Isabelle.thy ===== *)
theory Spec2Isabelle
  imports Trace_Theorems Trace_Receive Dns_Theorems Agent_Theorems Auth_Theorems Api_Streams Api_Runs Api_Reports Server_Theorems Backend_Web
    Monitor_Delivery Server_Lifecycle Trace_Sockets Commands Monitor_Export Dns_Table Dns_Targets Backend_System Backend_Loops
begin

text \<open>
  \<^bold>\<open>What the program is.\<close> Prober measures the network from many places. An \<^emph>\<open>agent\<close> runs at every site: it traces
  routes (ICMP, UDP or TCP), probes SIP servers with OPTIONS and looks up names, on demand or on a schedule of its own. A \<^emph>\<open>backend\<close>
  holds one stream to every agent, starts runs over several sites for the browser, assigns the configured monitors to the
  agents, keeps the state of every monitor at every site, ships reports of trace monitors to VictoriaLogs and shows all of it
  in a web application behind an OpenID Connect login. The messages between agent and backend are those of
  \<^verbatim>\<open>api/proto/prober/v1/agent.proto\<close>. This development models both programs, function by function, and proves what
  makes each part correct and what the parts promise each other. File names below are relative to \<^verbatim>\<open>src/internal\<close>.

  \<^bold>\<open>How the theories correspond to the code.\<close>

  \<^item> \<^emph>\<open>Foundations.\<close> \<open>Prober_Prelude\<close>: durations, results, panics, and the three interfaces the components implement, as
    locales: \<open>owned_slots\<close> (a table whose entries are removed by their owner only), \<open>mailbox\<close> (a bounded queue whose
    senders never block) and \<open>invariant_system\<close> (a transition system with an invariant). \<open>Netip\<close>, \<open>Go_Strings\<close>,
    \<open>Go_Quote\<close>, \<open>Go_Json\<close>: what the sources use of Go's library. \<open>Proto\<close>: the messages.
  \<^item> \<^emph>\<open>Trace engine\<close>, \<^verbatim>\<open>trace/\<close>. \<open>Trace_Spec\<close> (\<^verbatim>\<open>spec.go\<close>), \<open>Trace_Stats\<close> (\<^verbatim>\<open>stats.go\<close>),
    \<open>Trace_Engine\<close> (registry and identifiers of \<^verbatim>\<open>engine.go\<close>), \<open>Trace_Parse\<close> (\<^verbatim>\<open>parse.go\<close>), \<open>Trace_Session\<close>
    (\<^verbatim>\<open>session.go\<close>, \<^verbatim>\<open>probe_icmp.go\<close>, \<^verbatim>\<open>probe_udp.go\<close>, \<^verbatim>\<open>probe_tcp.go\<close>), \<open>Trace_Run\<close> (the loop \<^verbatim>\<open>run\<close> with the
    replies and the other runs interleaved), \<open>Trace_Receive\<close> (the read loop, the waiting goroutines, \<^verbatim>\<open>rdns.go\<close>), \<open>Trace_Sockets\<close> (the raw
    sockets and their packet filters, \<^verbatim>\<open>sockopt.go\<close>).
    \<open>Trace_Schedule\<close>, \<open>Trace_Invariant\<close> and \<open>Trace_Grid\<close> hold the lemmas, \<open>Trace_Theorems\<close> the theorems.
  \<^item> \<^emph>\<open>SIP and DNS engines.\<close> \<open>Sip_Engine\<close> (\<^verbatim>\<open>sip/sip.go\<close>); \<open>Dns_Names\<close>, \<open>Dns_Client\<close> and \<open>Dns_Theorems\<close>
    (\<^verbatim>\<open>dns/dns.go\<close>), \<open>Dns_Targets\<close> (the cache of the addresses of SRV targets and the goroutines that fill it), \<open>Dns_Table\<close>
    (\<^verbatim>\<open>buildQuery\<close>, the nameserver of \<^verbatim>\<open>dns/dnstest/server.go\<close> and the client talking to it).
  \<^item> \<^emph>\<open>Agent\<close>, \<^verbatim>\<open>agent/\<close>. \<open>Agent_Convert\<close> (\<^verbatim>\<open>convert.go\<close>, \<^verbatim>\<open>sipconvert.go\<close>, \<^verbatim>\<open>dnsconvert.go\<close>), \<open>Agent_Config\<close>
    (\<^verbatim>\<open>config.go\<close> and the connection, backoff and resolution of \<^verbatim>\<open>agent.go\<close>), \<open>Agent_Jobs\<close> (the job table, the jobs and the
    messages of a session in \<^verbatim>\<open>agent.go\<close>, \<^verbatim>\<open>scheduler.go\<close>), \<open>Agent_Theorems\<close>.
  \<^item> \<^emph>\<open>Commands\<close>: \<open>Commands\<close> (\<^verbatim>\<open>cmd/prober-agent/main.go\<close>, \<^verbatim>\<open>cmd/prober-backend/main.go\<close>, the construction of the agent, \<^verbatim>\<open>sip/quiet.go\<close>).
  \<^item> \<^emph>\<open>Backend\<close>, \<^verbatim>\<open>backend/\<close>. \<open>Monitor_Registry\<close> (\<^verbatim>\<open>config.go\<close>, \<^verbatim>\<open>monitor.go\<close>), \<open>Backend_Gateway\<close> and \<open>Gateway_Sessions\<close> (\<^verbatim>\<open>gateway.go\<close>),
    \<open>Backend_Run\<close> (\<^verbatim>\<open>run.go\<close>), \<open>Monitor_Sink\<close>, \<open>Monitor_Theorems\<close> and \<open>Monitor_Export\<close> (\<^verbatim>\<open>monitorsink.go\<close>, \<^verbatim>\<open>mtrreport.go\<close>),
    \<open>Backend_Api\<close>, \<open>Api_Streams\<close> and \<open>Api_Runs\<close> (\<^verbatim>\<open>http.go\<close>, \<^verbatim>\<open>convert.go\<close>), \<open>Backend_Monitors\<close> and \<open>Api_Reports\<close>
    (\<^verbatim>\<open>monitors.go\<close>), \<open>Backend_Server\<close> and \<open>Server_Theorems\<close> (\<^verbatim>\<open>server.go\<close>, the routes, the reload of
    \<^verbatim>\<open>cmd/prober-backend/main.go\<close>), \<open>Server_Lifecycle\<close> (\<^verbatim>\<open>Run\<close> of \<^verbatim>\<open>server.go\<close>), \<open>Backend_Web\<close> (\<^verbatim>\<open>webui.go\<close>),
    \<open>Backend_System\<close> (the whole backend as one transition system), \<open>Backend_Loops\<close> (pings, reaping, reloads on signals, the gRPC server, \<^verbatim>\<open>metrics.go\<close>).
  \<^item> \<^emph>\<open>Login\<close>, \<^verbatim>\<open>auth/\<close>. \<open>Auth_Session\<close> (\<^verbatim>\<open>config.go\<close>, \<^verbatim>\<open>session.go\<close>), \<open>Auth_Login\<close> (\<^verbatim>\<open>auth.go\<close>), \<open>Auth_Theorems\<close>.
  \<^item> \<^emph>\<open>VictoriaLogs\<close>, \<^verbatim>\<open>vlog/client.go\<close>: \<open>Vlog_Client\<close>.
  \<^item> Between the programs: \<open>Monitor_Delivery\<close>, the monitors of the configuration from the registry through the streams to the goroutines of an
    agent; this theory, a specification from the request of a browser, or from the configuration of a monitor, to the engine that runs it.

  \<^bold>\<open>State and effects.\<close> A struct is a record with a prefix of two letters before the source's field names; an interface value
  or a \<^verbatim>\<open>oneof\<close> is a datatype. What the source shares through pointers and mutates (probes, subscribers, connections, the states of
  monitors) lives in a store and is referred to by number. An error is a value (\<open>Inl\<close>), a panic is a value too (\<open>Panic\<close> in
  \<open>Prober_Prelude\<close>), and so is a loop that would not end. Go's fixed-width integers are words; a duration or an instant is an \<open>int\<close> of
  nanoseconds; \<^verbatim>\<open>float64\<close> is \<open>real\<close>, so that rounding is not covered. Where goroutines meet, the model is an inductive step relation
  whose steps are the sections between locks and channel operations: \<open>run_step\<close> (a trace run, its replies and the other runs of
  the engine), \<open>rdns_step\<close>, \<open>agent_step\<close> (the jobs of a session), \<open>gateway_step\<close> (streams, requests and reloads at the
  gateway), \<open>lifecycle_step\<close> (the servers and the shutdown of the backend), \<open>stream_step\<close> (emitters and streams of a run), \<open>sink_step\<close> (the sink and
  the status streams), \<open>metric_step\<close> (handlers, sweeps and reloads at the sink, between the metrics and the lock), \<open>backend_step\<close> (all handlers
  of the backend, each as one step), \<open>vlog_step\<close> (the shipper and its writers), \<open>auth_step\<close> (browsers, the clock and the login). Their
  invariants are proved once through \<open>invariant_system\<close>. A clock reading, a random number, the answer of a peer and the order of
  steps are free, so that a theorem holds for all of them.

  \<^bold>\<open>What is shown.\<close>

  \<^item> \<^emph>\<open>Trace:\<close> no run panics or gets stuck; the cycles are reported in order, once each, with their loss; probes leave on the grid of the
    interval without drift; a run ends in bounded time and leaves nothing in the shared registry; a reply reaches the run whose probe
    it answers and no other, and the packet filters lose none; the online statistics are those of the list of samples; an accepted specification is well formed.
  \<^item> \<^emph>\<open>SIP and DNS:\<close> a SIP run with a number of cycles ends with a result for each; a DNS answer is taken only for the id and the
    question asked, the servers are asked in turn up to the first final answer, and records come in an order of their own; against a server
    with a table the client reads back the table or reports the server's fault; every SRV target is resolved once per run.
  \<^item> \<^emph>\<open>Agent:\<close> the job table, the running jobs, the schedule and the numbering of events agree at every moment; how jobs end; the
    backoff of reconnections; that an accepted configuration authenticates both sides.
  \<^item> \<^emph>\<open>Backend:\<close> which site a token may register; that events reach their run only; that every event of a run is numbered once and
    accounted for at every stream, and a browser that reconnects misses none of the buffered ones; that a run is done exactly when its jobs are; that
    every status stream rebuilds the current aggregates; that a reload reaches the registry, the sink and the agents, and that
    an agent runs the monitors of the current configuration unless a reload overtook its first assignment; when a shutdown returns; that a
    start request is refused without effect or reaches exactly the live sites; that in the backend as a whole the routes of the gateway and the
    runs of the manager agree, and a finished run leaves both.
  \<^item> \<^emph>\<open>Metrics:\<close> every series has a state and its gauge shows the outcome kept; a silent site loses its series; which labels make a scrape panic; the
    columns of the mtr report are aligned.
  \<^item> \<^emph>\<open>Login:\<close> a request is let in only during the lifetime of a session that a login through the provider gave to an authorised user,
    and without a session no request has an effect.
  \<^item> \<^emph>\<open>Reports:\<close> a trace run ships one report; records are posted in order, once each, in bounded batches, and drained at the end; the page
    shows what was shipped; no name changes the shape of the query for reports.

  Some theorems exhibit what the code does against its comments or intention, e.g. \<open>stream_panics\<close>, \<open>stream_out_of_order\<close>,
  \<open>job_limit_exceeded\<close>, \<open>stale_assignment\<close>, \<open>job_before_welcome\<close>, \<open>orphaned_session\<close>, \<open>shutdown_returns_iff_agents_gone\<close>, \<open>record_cmp_cycle\<close>, \<open>safeReturn_backslash\<close>, \<open>label_shown_as_error\<close>, \<open>dashed_label_panics\<close>,
  \<open>label_site_merges_sites\<close>, \<open>event_of_another_site_taken\<close>, and below \<open>sip_monitor_without_block_endless\<close>.

  \<^bold>\<open>Parameters and hypotheses.\<close> Code outside the repository is an argument: the operating system's answer to a send (\<open>net\<close>), the ICMP
  and DNS message parsers, \<^verbatim>\<open>netip.ParseAddr\<close> and \<^verbatim>\<open>Addr.String\<close>, the SIP library and the x509 verifier (\<open>sip_env\<close>), HMAC-SHA256 and
  JSON of cookies (\<open>auth_lib\<close>), the OIDC and OAuth2 libraries (\<open>provider\<close>), JSON and HTTP of the log client (\<open>vlog_lib\<close>), files and
  certificates. Theorems name what they need of them: \<open>json_codec\<close> (a decoder reads back what the encoder wrote), \<open>one_line\<close> (JSON is
  written on one line), \<open>keeps_text\<close> (VictoriaLogs gives back the text of a field, and a float is read back as it was printed), \<open>parses_types\<close> (an ICMP
  message has the type of its first byte), \<open>surj\<close> (the
  random source can give every identifier), \<open>codec_ok\<close> (the parser of the DNS library reads the messages its builder wrote), \<open>checks_labels\<close> (the metrics
  library refuses reserved label names and accepts the other valid ones). What a metric vector keeps of the calls made on it (\<open>live_series\<close>) is
  the documented behaviour of that library. A run id is taken to be a UUID that is not in use. That signatures cannot be forged is a guard of the steps of \<open>auth_step\<close> (\<open>presentable\<close>): a client
  presents a token with a valid signature only if this server issued it. Each theorem with a hypothesis has a
  witness at a concrete instance.

  \<^bold>\<open>Bounds and fuel.\<close> Fuel is used in two loops, \<open>tryEmit_loop\<close> and \<open>forceEmit_loop\<close> of \<open>Trace_Session\<close>: the callers give them one step more
  than the number of cycles the session can still report, running out is the value of a loop that does not end, and
  \<open>run_never_crashes\<close> shows that it does not occur. Two loops of the source may not end, the loop of a SIP run without a number
  of cycles (\<open>sip_loop\<close>) and the drawing of a free identifier (\<open>draw\<close>): they are \<open>partial_function\<close>s whose \<open>None\<close> is not returning,
  and \<open>sip_run_reports\<close> and \<open>allocID_fresh\<close> say when they return. Everything else is total recursion. Sequence numbers are 64 bits wide; the theorems about streams
  assume fewer events than that.

  \<^bold>\<open>Not modelled.\<close> The wire format of DNS messages, which is the library's; dialling gRPC and the keepalives of the agent; signals, YAML and logging
  in the two commands, and the profiling handlers; the middlewares for panics, request ids and compression; the help texts of the metrics; the
  check for leaked goroutines in tests (\<^verbatim>\<open>leaktest\<close>) and the embedding of the built web files. These are calls of libraries and of the operating system
  with no state of the program in them. Getters that return one field (\<^verbatim>\<open>Version\<close>, \<^verbatim>\<open>List\<close>, \<^verbatim>\<open>Done\<close>, \<^verbatim>\<open>UserFrom\<close>) are the selectors of the
  records. Time stamps of events are left out where nothing reads them. In \<open>backend_step\<close> a handler is one step, and an agent that is gone may
  still deliver messages; what happens between the lock sections of a handler is in the relations of the parts. Rounding of floats is not covered.
\<close>

section \<open>From a request to the probes\<close>

text \<open>
  The specifications the backend sends leave the source, the packet size and the traffic class to the agent. What the
  engine does with such a specification depends on its TTLs only.
\<close>

definition effective_max :: "Spec \<Rightarrow> int" where
  "effective_max s = (if sp_MaxTTL s \<le> 0 then (if sp_Mode s = Ping then DefaultPingTTL else DefaultMaxTTL) else sp_MaxTTL s)"

definition effective_first :: "Spec \<Rightarrow> int" where
  "effective_first s = (if sp_FirstTTL s \<le> 0 then 1 else sp_FirstTTL s)"

definition backend_made :: "Spec \<Rightarrow> bool" where
  "backend_made s = (IsValid (sp_Target s) \<and> sp_Source s = NoAddr \<and> sp_Protocol s \<in> {ICMP, UDP, TCP} \<and> sp_Mode s \<in> {0, Ping} \<and>
    sp_PacketSize s = 0 \<and> sp_DSCP s = 0)"

lemma norm_ttl_accepts:
  "(\<exists>v. norm_ttl u = Inr v) \<longleftrightarrow> effective_max u \<le> 255 \<and> (sp_Mode u = Ping \<or> effective_first u \<le> effective_max u)"
  by (simp add: norm_ttl_def effective_max_def effective_first_def Let_def DefaultPingTTL_def DefaultMaxTTL_def)

lemma norm_ttl_keeps:
  assumes "norm_ttl u = Inr v"
  shows "sp_MaxTTL v = effective_max u \<and> sp_Target v = sp_Target u \<and> sp_Protocol v = sp_Protocol u \<and> sp_Mode v = sp_Mode u \<and>
    sp_Port v = sp_Port u \<and> sp_Cycles v = sp_Cycles u \<and> sp_Interval v = sp_Interval u \<and> sp_PacketSize v = sp_PacketSize u \<and>
    sp_DSCP v = sp_DSCP u"
  using assms by (auto simp: norm_ttl_def effective_max_def Let_def split: if_splits)

lemma norm_packet_zero:
  assumes "sp_PacketSize v = 0" and "sp_DSCP v = 0"
  shows "norm_packet v = Inr (v\<lparr>sp_PacketSize := DefaultPacketSize,
    sp_ProbeTimeout := (if sp_ProbeTimeout v \<le> 0 then DefaultProbeTimeout else sp_ProbeTimeout v)\<rparr>)"
  using assms by (simp add: norm_packet_def DefaultPacketSize_def Let_def)

text \<open>The specification before its TTLs are checked.\<close>

definition filled_in :: "Spec \<Rightarrow> Spec" where
  "filled_in s = norm_schedule (norm_port (s\<lparr>sp_Target := Unmap (sp_Target s), sp_Mode := (if sp_Mode s = Ping then Ping else MTR)\<rparr>))"

lemma Normalize_filled_in:
  assumes "backend_made s"
  shows "Normalize s = rbind (norm_ttl (filled_in s)) norm_packet"
proof -
  let ?s1 = "s\<lparr>sp_Target := Unmap (sp_Target s)\<rparr>"
  have 1: "norm_addrs s = Inr ?s1" using assms by (simp add: norm_addrs_def backend_made_def IsValid_def)
  have "sp_Protocol s \<noteq> 0" using assms by (auto simp: backend_made_def protocol_defs)
  with assms have 2: "norm_protocol ?s1 = Inr ?s1" by (simp add: norm_protocol_def backend_made_def)
  have "Ping \<noteq> 0" by (simp add: mode_defs)
  moreover have "s\<lparr>sp_Target := t, sp_Mode := Ping\<rparr> = s\<lparr>sp_Target := t\<rparr>" if "sp_Mode s = Ping" for t using that by (cases s) simp
  ultimately have 3: "norm_mode ?s1 = Inr (?s1\<lparr>sp_Mode := (if sp_Mode s = Ping then Ping else MTR)\<rparr>)"
    using assms by (auto simp: norm_mode_def backend_made_def)
  show ?thesis unfolding Normalize_def filled_in_def by (simp add: 1 2 3)
qed

lemma filled_in_fields:
  assumes "backend_made s"
  shows "sp_Target (filled_in s) = Unmap (sp_Target s)" and "sp_Protocol (filled_in s) = sp_Protocol s"
    and "sp_Mode (filled_in s) = (if sp_Mode s = Ping then Ping else MTR)"
    and "sp_Port (filled_in s) = (if sp_Port s \<noteq> 0 then sp_Port s else if sp_Protocol s = UDP then DefaultUDPPort
        else if sp_Protocol s = TCP then DefaultTCPPort else 0)"
    and "sp_Cycles (filled_in s) = (if sp_Cycles s \<le> 0 then DefaultCycles else sp_Cycles s)"
    and "sp_Interval (filled_in s) = (if sp_Interval s \<le> 0 then DefaultInterval else sp_Interval s)"
    and "sp_PacketSize (filled_in s) = 0" and "sp_DSCP (filled_in s) = 0"
    and "effective_max (filled_in s) = effective_max s" and "effective_first (filled_in s) = effective_first s"
  using assms
  by (simp_all add: filled_in_def norm_schedule_def norm_port_def backend_made_def Let_def effective_max_def effective_first_def mode_defs)

lemma Normalize_backend_made:
  assumes "backend_made s"
  shows "(\<exists>t. Normalize s = Inr t) \<longleftrightarrow> effective_max s \<le> 255 \<and> (sp_Mode s = Ping \<or> effective_first s \<le> effective_max s)"
    and "Normalize s = Inr t \<Longrightarrow> sp_Target t = Unmap (sp_Target s) \<and> sp_Protocol t = sp_Protocol s \<and>
      sp_Mode t = sp_Mode (filled_in s) \<and> sp_Port t = sp_Port (filled_in s) \<and> sp_Cycles t = sp_Cycles (filled_in s) \<and>
      sp_Interval t = sp_Interval (filled_in s) \<and> sp_MaxTTL t = effective_max s"
proof -
  note f = filled_in_fields [OF assms]
  have ping: "sp_Mode (filled_in s) = Ping \<longleftrightarrow> sp_Mode s = Ping" by (simp add: f mode_defs)
  have packet: "norm_packet v = Inr (v\<lparr>sp_PacketSize := DefaultPacketSize,
      sp_ProbeTimeout := (if sp_ProbeTimeout v \<le> 0 then DefaultProbeTimeout else sp_ProbeTimeout v)\<rparr>)"
    if "norm_ttl (filled_in s) = Inr v" for v
    using norm_ttl_keeps [OF that] f(7,8) by (intro norm_packet_zero) simp_all
  show "(\<exists>t. Normalize s = Inr t) \<longleftrightarrow> effective_max s \<le> 255 \<and> (sp_Mode s = Ping \<or> effective_first s \<le> effective_max s)"
    using norm_ttl_accepts [of "filled_in s"] packet unfolding Normalize_filled_in [OF assms] f(9,10) ping
    by (cases "norm_ttl (filled_in s)") auto
  show "Normalize s = Inr t \<Longrightarrow> sp_Target t = Unmap (sp_Target s) \<and> sp_Protocol t = sp_Protocol s \<and>
      sp_Mode t = sp_Mode (filled_in s) \<and> sp_Port t = sp_Port (filled_in s) \<and> sp_Cycles t = sp_Cycles (filled_in s) \<and>
      sp_Interval t = sp_Interval (filled_in s) \<and> sp_MaxTTL t = effective_max s"
  proof -
    assume n: "Normalize s = Inr t"
    then obtain v where v: "norm_ttl (filled_in s) = Inr v" "norm_packet v = Inr t"
      unfolding Normalize_filled_in [OF assms] by (cases "norm_ttl (filled_in s)") auto
    with packet [OF v(1)] norm_ttl_keeps [OF v(1)] f(1,2,9) show ?thesis by auto
  qed
qed

lemma request_backend_made: "IsValid a \<Longrightarrow> backend_made (specFromProto ParseAddr (trace_spec req) a)"
  by (auto simp: backend_made_def specFromProto_def trace_spec_def protoOf_def)

text \<open>The specification a trace or ping monitor is assigned.\<close>

definition monitor_trace :: "MonitorConfig \<Rightarrow> TraceSpec" where
  "monitor_trace m = (case mo_Spec (monitorToProto m) of TraceJob t \<Rightarrow> t)"

definition monitor_params :: "MonitorConfig \<Rightarrow> TraceParams" where
  "monitor_params m = (case mc_Trace m of Some tp \<Rightarrow> tp | None \<Rightarrow> zero_trace)"

lemma monitor_trace_fields:
  assumes "mc_Kind m \<noteq> ''sip''"
  shows "mo_Spec (monitorToProto m) = TraceJob (monitor_trace m)" and "ts_MaxTtl (monitor_trace m) = tp_MaxTTL (monitor_params m)"
    and "ts_FirstTtl (monitor_trace m) = tp_FirstTTL (monitor_params m)"
    and "ts_Mode (monitor_trace m) = (if mc_Kind m = ''ping'' then TRACE_MODE_PING else TRACE_MODE_MTR)"
    and "ts_Source (monitor_trace m) = []" "ts_PacketSize (monitor_trace m) = 0" "ts_Dscp (monitor_trace m) = 0"
    and "ts_Protocol (monitor_trace m) = protoOf (tp_Protocol (monitor_params m))"
  using assms by (simp_all add: monitor_trace_def monitor_params_def monitorToProto_def Let_def)

lemma monitor_backend_made: "IsValid a \<Longrightarrow> mc_Kind m \<noteq> ''sip'' \<Longrightarrow> backend_made (specFromProto ParseAddr (monitor_trace m) a)"
  by (auto simp: backend_made_def specFromProto_def monitor_trace_fields protoOf_def)

section \<open>Theorems\<close>

text \<open>Every trace the browser can ask for is accepted by the engine of the agent once its target is resolved, and runs as
  asked: the protocol, the mode and the number of cycles of the request or their defaults, and the port of the request modulo
  65536, or the default port of the protocol when that is zero.\<close>

theorem browser_trace_accepted:
  assumes "IsValid a"
  shows "\<exists>t. Normalize (specFromProto ParseAddr (trace_spec req) a) = Inr t \<and> sp_Target t = Unmap a \<and>
    sp_Protocol t = (if rq_Protocol req \<in> {''tcp'', ''TCP''} then TCP else if rq_Protocol req \<in> {''udp'', ''UDP''} then UDP else ICMP) \<and>
    sp_Mode t = (if rq_Mode req = ''ping'' then Ping else MTR) \<and>
    sp_Cycles t = (if rq_Cycles req = 0 then DefaultCycles else uint (rq_Cycles req)) \<and>
    sp_Port t = (if (ucast (rq_Port req) :: u16) \<noteq> 0 then ucast (rq_Port req)
      else if sp_Protocol t = UDP then DefaultUDPPort else if sp_Protocol t = TCP then DefaultTCPPort else 0) \<and>
    sp_MaxTTL t = (if rq_Mode req = ''ping'' then DefaultPingTTL else DefaultMaxTTL)"
proof -
  let ?s = "specFromProto ParseAddr (trace_spec req) a"
  have made: "backend_made ?s" using assms by (rule request_backend_made)
  have s: "sp_Target ?s = a" "sp_Mode ?s = (if rq_Mode req = ''ping'' then Ping else 0)" "sp_MaxTTL ?s = 0" "sp_FirstTTL ?s = 0"
    "sp_Cycles ?s = uint (rq_Cycles req)" "sp_Port ?s = ucast (rq_Port req)"
    "sp_Protocol ?s = (if rq_Protocol req \<in> {''tcp'', ''TCP''} then TCP else if rq_Protocol req \<in> {''udp'', ''UDP''} then UDP else ICMP)"
    by (simp_all add: specFromProto_def trace_spec_def protoOf_def modeOf_def)
  have "effective_max ?s = (if rq_Mode req = ''ping'' then DefaultPingTTL else DefaultMaxTTL)" "effective_first ?s = 1"
    by (simp_all add: effective_max_def effective_first_def s mode_defs)
  note top = this
  then have "effective_max ?s \<le> 255" "effective_first ?s \<le> effective_max ?s" by (simp_all add: DefaultPingTTL_def DefaultMaxTTL_def)
  then obtain t where t: "Normalize ?s = Inr t" using Normalize_backend_made(1) [OF made] by blast
  have "uint (rq_Cycles req) \<le> 0 \<longleftrightarrow> rq_Cycles req = 0" using uint_ge_0 [of "rq_Cycles req"] by (simp add: unsigned_eq_0_iff order_antisym_conv)
  moreover have "(if rq_Mode req = ''ping'' then Ping else 0) = Ping \<longleftrightarrow> rq_Mode req = ''ping''" by (simp add: mode_defs)
  ultimately show ?thesis
    using t Normalize_backend_made(2) [OF made t] unfolding filled_in_fields [OF made] s top by (intro exI [of _ t]) simp
qed

text \<open>(C36) A trace or ping monitor of the configuration runs at an agent exactly when its TTLs fit: the last at most 255, and the first not
  above it unless it is a ping. The configuration is not checked for this; a monitor that does not fit is refused at every run.\<close>

theorem monitor_trace_accepted_iff:
  assumes "IsValid a" and "mc_Kind m \<noteq> ''sip''"
  shows "(\<exists>t. Normalize (specFromProto ParseAddr (monitor_trace m) a) = Inr t) \<longleftrightarrow>
    (let tp = monitor_params m; ping = (mc_Kind m = ''ping'');
         top = (if tp_MaxTTL tp = 0 then (if ping then 64 else 30) else uint (tp_MaxTTL tp))
     in top \<le> 255 \<and> (ping \<or> max 1 (uint (tp_FirstTTL tp)) \<le> top))"
proof -
  let ?s = "specFromProto ParseAddr (monitor_trace m) a"
  have s: "sp_Mode ?s = (if mc_Kind m = ''ping'' then Ping else 0)" "sp_MaxTTL ?s = uint (tp_MaxTTL (monitor_params m))"
    "sp_FirstTTL ?s = uint (tp_FirstTTL (monitor_params m))"
    using assms(2) by (simp_all add: specFromProto_def monitor_trace_fields)
  have z: "uint w \<le> 0 \<longleftrightarrow> w = 0" for w :: u32 using uint_ge_0 [of w] by (simp add: unsigned_eq_0_iff order_antisym_conv)
  have "effective_first ?s = max 1 (uint (tp_FirstTTL (monitor_params m)))"
    using uint_ge_0 [of "tp_FirstTTL (monitor_params m)"] unfolding effective_first_def s max_def by presburger
  moreover have "effective_max ?s = (if tp_MaxTTL (monitor_params m) = 0 then (if mc_Kind m = ''ping'' then 64 else 30)
      else uint (tp_MaxTTL (monitor_params m)))"
    by (simp add: effective_max_def s z unsigned_eq_0_iff mode_defs DefaultPingTTL_def DefaultMaxTTL_def)
  moreover have "sp_Mode ?s = Ping \<longleftrightarrow> mc_Kind m = ''ping''" by (simp add: s mode_defs)
  ultimately show ?thesis
    using Normalize_backend_made(1) [OF monitor_backend_made [OF assms]] by (simp add: Let_def)
qed

text \<open>A SIP monitor without a block of SIP parameters probes forever: the run the agent starts for it has no number of cycles, and
  ends only when its context is cancelled.\<close>

theorem sip_monitor_without_block_endless:
  assumes "mc_Kind m = ''sip''" and "mc_SIP m = None" and "mo_Spec (monitorToProto m) = SipJob p" and "IsValid a"
    and "se_NewUA E = None" and "se_NewClient E = None"
  shows "(\<exists>r. sip_Run E addr_str (sipSpecFromProto ParseAddr p a) = Some r) \<longleftrightarrow> (\<exists>n \<ge> 1. se_Done E n)"
proof -
  have p: "so_Cycles p = 0" "so_Source p = []" "so_Port p = 0"
    using assms(1-3) by (auto simp: monitorToProto_def Let_def zero_sip_def)
  let ?s = "sipSpecFromProto ParseAddr p a"
  have "ss_Target ?s = a" "ss_Transport ?s \<in> {0, sip_UDP, sip_TCP, sip_TLS, sip_WSS}"
    by (simp_all add: sipSpecFromProto_def split: pb_SipTransport.split)
  then obtain t where "sip_normalize ?s = Inr t" using assms(4) by (simp only: sip_normalize_def Let_def) simp
  from sip_run_until_cancelled [OF this assms(5,6)] p(1) show ?thesis by (simp add: sipSpecFromProto_def)
qed

section \<open>Witnesses\<close>

definition demo_request :: startRequest where
  "demo_request = \<lparr>rq_Target = ''192.0.2.1'', rq_Sites = [], rq_Protocol = ''tcp'', rq_Family = [], rq_Port = 65616, rq_Resolve = False,
    rq_Cycles = 10, rq_Mode = []\<rparr>"

text \<open>Port 65616 becomes port 80.\<close>

theorem browser_trace_accepted_witness:
  "\<exists>t. Normalize (specFromProto (\<lambda>_. None) (trace_spec demo_request) (V4 0xC0000201)) = Inr t \<and> sp_Protocol t = TCP \<and> sp_Cycles t = 10 \<and>
    sp_Port t = 80"
proof -
  have "IsValid (V4 0xC0000201)" by (simp add: IsValid_def)
  from browser_trace_accepted [OF this, of "\<lambda>_. None" demo_request] show ?thesis
    by (elim exE conjE, intro exI conjI) (assumption, simp_all add: demo_request_def)
qed

theorem monitor_trace_accepted_iff_witness:
  "\<not> (\<exists>t. Normalize (specFromProto (\<lambda>_. None)
      (monitor_trace (demo_mon\<lparr>mc_Kind := ''trace'', mc_Trace := Some (zero_trace\<lparr>tp_FirstTTL := 40\<rparr>)\<rparr>)) (V4 0xC0000201)) = Inr t)"
proof -
  have "IsValid (V4 0xC0000201)" by (simp add: IsValid_def)
  from monitor_trace_accepted_iff [OF this, of "demo_mon\<lparr>mc_Kind := ''trace'', mc_Trace := Some (zero_trace\<lparr>tp_FirstTTL := 40\<rparr>)\<rparr>" "\<lambda>_. None"]
  show ?thesis by (simp add: monitor_params_def zero_trace_def)
qed

theorem sip_monitor_without_block_endless_witness:
  "\<exists>p. mo_Spec (monitorToProto (demo_mon\<lparr>mc_Kind := ''sip''\<rparr>)) = SipJob p \<and>
    (\<exists>r. sip_Run demo_sip_env (\<lambda>_. ''192.0.2.1'') (sipSpecFromProto (\<lambda>_. None) p (V4 0xC0000201)) = Some r)"
proof -
  let ?m = "demo_mon\<lparr>mc_Kind := ''sip''\<rparr>"
  obtain p where p: "mo_Spec (monitorToProto ?m) = SipJob p" by (simp add: monitorToProto_def Let_def)
  have m: "mc_Kind ?m = ''sip''" "mc_SIP ?m = None" "IsValid (V4 0xC0000201)" by (simp_all add: demo_mon_def IsValid_def)
  have e: "se_NewUA demo_sip_env = None" "se_NewClient demo_sip_env = None" "\<exists>n \<ge> 1. se_Done demo_sip_env n"
    by (auto simp: demo_sip_env_def)
  from sip_monitor_without_block_endless [OF m(1,2) p m(3) e(1,2), of "\<lambda>_. ''192.0.2.1''" "\<lambda>_. None"] e(3) p show ?thesis by blast
qed

end
